(* ===== verification/Prelude.thy ===== *)
theory Prelude
  imports Main "HOL-Library.Word" "HOL-Library.Char_ord" "HOL-Library.List_Lexorder"
    "HOL-Library.Product_Lexorder" "HOL-Library.Option_ord" "HOL-Library.Sublist"
    "HOL-Library.Monad_Syntax"
begin

text \<open>
  Shared vocabulary of the development: machine integers, the result type of fallible Rust
  functions, the two map types of the source (\<open>BTreeMap\<close> as a key-sorted association list,
  \<open>IndexMap\<close> as an insertion-ordered one) and the generic lemmas the components share.
\<close>

named_theorems result_simps \<open>evaluation of the result combinators\<close>
named_theorems btree_simps \<open>lookup laws of the BTreeMap operations\<close>
named_theorems imap_simps \<open>lookup laws of the IndexMap operations\<close>

type_synonym u8 = "8 word"
type_synonym u16 = "16 word"
type_synonym u32 = "32 word"
type_synonym u64 = "64 word"

section \<open>Results\<close>

text \<open>\<open>Result<T, E>\<close> is a sum with the error on the left.\<close>

type_synonym ('e, 'a) result = "'e + 'a"

abbreviation Ok :: "'a \<Rightarrow> ('e, 'a) result" where "Ok \<equiv> Inr"
abbreviation Err :: "'e \<Rightarrow> ('e, 'a) result" where "Err \<equiv> Inl"

definition rbind :: "('e, 'a) result \<Rightarrow> ('a \<Rightarrow> ('e, 'b) result) \<Rightarrow> ('e, 'b) result" where
  "rbind r f = (case r of Inl e \<Rightarrow> Inl e | Inr x \<Rightarrow> f x)"

definition map_err :: "('e \<Rightarrow> 'f) \<Rightarrow> ('e, 'a) result \<Rightarrow> ('f, 'a) result" where
  "map_err g r = (case r of Inl e \<Rightarrow> Inl (g e) | Inr x \<Rightarrow> Inr x)"

definition ok_or :: "'e \<Rightarrow> 'a option \<Rightarrow> ('e, 'a) result" where
  "ok_or e v = (case v of None \<Rightarrow> Inl e | Some x \<Rightarrow> Inr x)"

definition ok :: "('e, 'a) result \<Rightarrow> 'a option" where
  "ok r = (case r of Inl _ \<Rightarrow> None | Inr x \<Rightarrow> Some x)"

lemma rbind_simps [simp, result_simps]:
  "rbind (Inl e) f = Inl e" "rbind (Inr x) f = f x"
  by (simp_all add: rbind_def)

lemma rbind_Inr_iff: "rbind r f = Inr y \<longleftrightarrow> (\<exists>x. r = Inr x \<and> f x = Inr y)"
  by (cases r) auto

lemma map_err_simps [simp, result_simps]:
  "map_err g (Inl e) = Inl (g e)" "map_err g (Inr x) = Inr x"
  by (simp_all add: map_err_def)

lemma map_err_Inr_iff [simp]: "map_err g r = Inr y \<longleftrightarrow> r = Inr y"
  by (cases r) auto

lemma ok_or_simps [simp, result_simps]:
  "ok_or e None = Inl e" "ok_or e (Some x) = Inr x"
  by (simp_all add: ok_or_def)

lemma ok_or_Inr_iff [simp]: "ok_or e v = Inr y \<longleftrightarrow> v = Some y"
  by (cases v) auto

lemma ok_simps [simp, result_simps]: "ok (Inl e) = None" "ok (Inr x) = Some x"
  by (simp_all add: ok_def)

lemma ok_Some_iff [simp]: "ok r = Some y \<longleftrightarrow> r = Inr y"
  by (cases r) auto

text \<open>A loop over a slice that stops at the first error.\<close>

fun try_fold :: "('x \<Rightarrow> 's \<Rightarrow> ('e, 's) result) \<Rightarrow> 'x list \<Rightarrow> 's \<Rightarrow> ('e, 's) result" where
  "try_fold f [] s = Inr s"
| "try_fold f (x # xs) s = rbind (f x s) (try_fold f xs)"

lemma try_fold_append: "try_fold f (xs @ ys) s = rbind (try_fold f xs s) (try_fold f ys)"
proof (induction xs arbitrary: s)
  case (Cons x xs)
  then show ?case by (cases "f x s") auto
qed simp

lemma try_fold_invariant:
  assumes "try_fold f xs s = Inr t" and "P s"
    and "\<And>x a b. x \<in> set xs \<Longrightarrow> P a \<Longrightarrow> f x a = Inr b \<Longrightarrow> P b"
  shows "P t"
  using assms by (induction xs arbitrary: s) (auto simp: rbind_Inr_iff)

text \<open>Collecting a fallible map, as \<open>for \<dots> { out.push(f(x)?) }\<close> does.\<close>

fun try_map :: "('x \<Rightarrow> ('e, 'y) result) \<Rightarrow> 'x list \<Rightarrow> ('e, 'y list) result" where
  "try_map f [] = Inr []"
| "try_map f (x # xs) = rbind (f x) (\<lambda>y. rbind (try_map f xs) (\<lambda>ys. Inr (y # ys)))"

lemma try_map_Ok: "(\<And>x. x \<in> set xs \<Longrightarrow> f x = Inr (g x)) \<Longrightarrow> try_map f xs = Inr (map g xs)"
  by (induction xs) auto

section \<open>BTreeMap: association lists sorted by key\<close>

type_synonym ('k, 'v) btree = "('k \<times> 'v) list"

definition bt_get :: "('k, 'v) btree \<Rightarrow> 'k \<Rightarrow> 'v option" where
  "bt_get m k = map_of m k"

definition bt_keys :: "('k, 'v) btree \<Rightarrow> 'k list" where
  "bt_keys m = map fst m"

definition bt_contains :: "('k, 'v) btree \<Rightarrow> 'k \<Rightarrow> bool" where
  "bt_contains m k = (bt_get m k \<noteq> None)"

fun bt_insert :: "'k::linorder \<Rightarrow> 'v \<Rightarrow> ('k, 'v) btree \<Rightarrow> ('k, 'v) btree" where
  "bt_insert k v [] = [(k, v)]"
| "bt_insert k v ((a, b) # m) =
     (if k < a then (k, v) # (a, b) # m
      else if k = a then (k, v) # m
      else (a, b) # bt_insert k v m)"

definition bt_remove :: "'k \<Rightarrow> ('k, 'v) btree \<Rightarrow> ('k, 'v) btree" where
  "bt_remove k m = filter (\<lambda>(a, _). a \<noteq> k) m"

definition bt_ok :: "('k::linorder, 'v) btree \<Rightarrow> bool" where
  "bt_ok m = sorted_wrt (<) (map fst m)"

lemma bt_get_Nil [simp, btree_simps]: "bt_get [] k = None"
  by (simp add: bt_get_def)

lemma bt_get_Cons [btree_simps]: "bt_get ((a, b) # m) k = (if k = a then Some b else bt_get m k)"
  by (simp add: bt_get_def)

lemma bt_get_insert [simp, btree_simps]:
  "bt_get (bt_insert k v m) x = (if x = k then Some v else bt_get m x)"
  by (induction m) (auto simp: bt_get_def)

lemma bt_get_remove [simp, btree_simps]:
  "bt_get (bt_remove k m) x = (if x = k then None else bt_get m x)"
  by (induction m) (auto simp: bt_get_def bt_remove_def)

lemma set_keys_bt_insert [simp]: "fst ` set (bt_insert k v m) = insert k (fst ` set m)"
proof (induction m)
  case (Cons ab m)
  then show ?case by (cases ab) (simp add: insert_commute)
qed simp

lemma bt_ok_Nil [simp]: "bt_ok []"
  by (simp add: bt_ok_def)

lemma bt_ok_Cons: "bt_ok ((a, b) # m) \<longleftrightarrow> (\<forall>k \<in> fst ` set m. a < k) \<and> bt_ok m"
  by (simp add: bt_ok_def)

lemma bt_ok_insert [intro, simp]: "bt_ok m \<Longrightarrow> bt_ok (bt_insert k v m)"
proof (induction m)
  case (Cons ab m)
  obtain a b where ab: "ab = (a, b)" by (cases ab)
  consider "k < a" | "k = a" | "a < k" by (rule linorder_cases)
  then show ?case
    using Cons ab by cases (auto simp: bt_ok_Cons intro: less_trans)
qed (simp add: bt_ok_Cons)

lemma bt_ok_filter [intro, simp]: "bt_ok m \<Longrightarrow> bt_ok (filter P m)"
  by (induction m) (auto simp: bt_ok_Cons)

lemma bt_ok_remove [intro, simp]: "bt_ok m \<Longrightarrow> bt_ok (bt_remove k m)"
  by (simp add: bt_remove_def)

lemma bt_ok_distinct: "bt_ok m \<Longrightarrow> distinct (map fst m)"
  unfolding bt_ok_def by (simp add: strict_sorted_iff)

lemma bt_get_Some_iff: "bt_ok m \<Longrightarrow> bt_get m k = Some v \<longleftrightarrow> (k, v) \<in> set m"
  by (simp add: bt_get_def bt_ok_distinct)

lemma bt_get_None_iff: "bt_get m k = None \<longleftrightarrow> k \<notin> fst ` set m"
  by (simp add: bt_get_def map_of_eq_None_iff)

lemma bt_insert_last:
  "\<forall>a \<in> fst ` set m. a < k \<Longrightarrow> bt_insert k v m = m @ [(k, v)]"
  by (induction m) (auto simp: less_imp_neq[symmetric])

text \<open>Inserting the entries of a sorted map one by one rebuilds it.\<close>

lemma bt_rebuild_aux:
  "bt_ok (acc @ m) \<Longrightarrow> fold (\<lambda>(k, v). bt_insert k v) m acc = acc @ m"
proof (induction m arbitrary: acc)
  case (Cons kv m)
  obtain k v where kv: "kv = (k, v)" by (cases kv)
  from Cons.prems kv have "\<forall>a \<in> fst ` set acc. a < k"
    by (auto simp: bt_ok_def sorted_wrt_append)
  then have "bt_insert k v acc = acc @ [(k, v)]" by (rule bt_insert_last)
  with Cons.IH [of "acc @ [(k, v)]"] Cons.prems kv show ?case by simp
qed simp

lemma bt_rebuild: "bt_ok m \<Longrightarrow> fold (\<lambda>(k, v). bt_insert k v) m [] = m"
  using bt_rebuild_aux [of "[]" m] by simp

text \<open>Two sorted maps with the same lookups are the same map.\<close>

lemma bt_ok_extensional:
  assumes "bt_ok m" "bt_ok n" "\<And>k. bt_get m k = bt_get n k"
  shows "m = n"
  using assms
proof (induction m arbitrary: n)
  case Nil
  show ?case
  proof (cases n)
    case (Cons ab n')
    with Nil.prems(3) [of "fst ab"] show ?thesis by (cases ab) (simp add: bt_get_Cons)
  qed simp
next
  case (Cons ab m)
  obtain a b where ab: "ab = (a, b)" by (cases ab)
  obtain c d n' where n: "n = (c, d) # n'"
    using Cons.prems(3) [of a] ab by (cases n) (auto simp: bt_get_def)
  have "a = c"
  proof (rule ccontr)
    assume "a \<noteq> c"
    then have "bt_get n' a \<noteq> None" "bt_get m c \<noteq> None"
      using Cons.prems(3) [of a] Cons.prems(3) [of c] ab n
      by (metis bt_get_Cons option.distinct(1))+
    then have "a \<in> fst ` set n'" "c \<in> fst ` set m" by (auto simp: bt_get_None_iff)
    then have "c < a" "a < c" using Cons.prems(1,2) ab n by (auto simp: bt_ok_Cons)
    then show False by simp
  qed
  moreover from this have "b = d" using Cons.prems(3) [of a] ab n by (simp add: bt_get_Cons)
  moreover have "m = n'"
  proof (rule Cons.IH)
    show "bt_ok m" "bt_ok n'" using Cons.prems(1,2) ab n by (auto simp: bt_ok_Cons)
    fix k
    show "bt_get m k = bt_get n' k"
    proof (cases "k = a")
      case True
      have "a \<notin> fst ` set m" "a \<notin> fst ` set n'"
        using Cons.prems(1,2) ab n \<open>a = c\<close> by (force simp: bt_ok_Cons)+
      with True show ?thesis by (metis bt_get_None_iff)
    next
      case False
      with Cons.prems(3) [of k] ab n \<open>a = c\<close> show ?thesis by (simp add: bt_get_Cons)
    qed
  qed
  ultimately show ?case using ab n by simp
qed

section \<open>IndexMap: association lists in insertion order\<close>

fun im_insert :: "'k \<Rightarrow> 'v \<Rightarrow> ('k \<times> 'v) list \<Rightarrow> ('k \<times> 'v) list" where
  "im_insert k v [] = [(k, v)]"
| "im_insert k v ((a, b) # m) = (if k = a then (a, v) # m else (a, b) # im_insert k v m)"

definition im_get :: "('k \<times> 'v) list \<Rightarrow> 'k \<Rightarrow> 'v option" where
  "im_get m k = map_of m k"

text \<open>\<open>entry(k).or_default()\<close>: make sure the key is present.\<close>

definition im_entry :: "'k \<Rightarrow> 'v \<Rightarrow> ('k \<times> 'v) list \<Rightarrow> ('k \<times> 'v) list" where
  "im_entry k d m = (if im_get m k = None then m @ [(k, d)] else m)"

definition im_remove :: "'k \<Rightarrow> ('k \<times> 'v) list \<Rightarrow> ('k \<times> 'v) list" where
  "im_remove k m = filter (\<lambda>(a, _). a \<noteq> k) m"

lemma im_get_Nil [simp, imap_simps]: "im_get [] k = None"
  by (simp add: im_get_def)

lemma im_get_Cons [simp, imap_simps]:
  "im_get ((a, b) # m) k = (if k = a then Some b else im_get m k)"
  by (simp add: im_get_def)

lemma im_get_insert [simp, imap_simps]:
  "im_get (im_insert k v m) x = (if x = k then Some v else im_get m x)"
  by (induction m) auto

lemma im_get_append [simp, imap_simps]:
  "im_get (m @ n) k = (case im_get m k of None \<Rightarrow> im_get n k | Some v \<Rightarrow> Some v)"
  by (induction m) auto

lemma im_get_None_iff: "im_get m k = None \<longleftrightarrow> k \<notin> fst ` set m"
  by (simp add: im_get_def map_of_eq_None_iff)

lemma im_insert_fresh: "k \<notin> fst ` set m \<Longrightarrow> im_insert k v m = m @ [(k, v)]"
  by (induction m) auto

lemma im_insert_at:
  "k \<notin> fst ` set m \<Longrightarrow> im_insert k v (m @ (k, w) # n) = m @ (k, v) # n"
  by (induction m) auto

lemma keys_im_insert [simp]: "fst ` set (im_insert k v m) = insert k (fst ` set m)"
proof (induction m)
  case (Cons ab m)
  then show ?case by (cases ab) (simp add: insert_commute)
qed simp

lemma distinct_im_insert [simp]:
  "distinct (map fst m) \<Longrightarrow> distinct (map fst (im_insert k v m))"
proof (induction m)
  case (Cons ab m)
  then show ?case by (cases ab) simp
qed simp

section \<open>BTreeSet: sorted lists without repetition\<close>

fun bs_insert :: "'a::linorder \<Rightarrow> 'a list \<Rightarrow> 'a list" where
  "bs_insert x [] = [x]"
| "bs_insert x (y # ys) =
     (if x < y then x # y # ys else if x = y then y # ys else y # bs_insert x ys)"

definition bs_of :: "'a::linorder list \<Rightarrow> 'a list" where
  "bs_of xs = fold bs_insert xs []"

lemma set_bs_insert [simp]: "set (bs_insert x xs) = insert x (set xs)"
  by (induction xs) auto

lemma sorted_bs_insert [simp]: "sorted_wrt (<) xs \<Longrightarrow> sorted_wrt (<) (bs_insert x xs)"
  by (induction xs) (auto dest: less_trans)

lemma set_fold_bs_insert [simp]: "set (fold bs_insert xs ys) = set xs \<union> set ys"
  by (induction xs arbitrary: ys) auto

lemma set_bs_of [simp]: "set (bs_of xs) = set xs"
  by (simp add: bs_of_def)

lemma sorted_bs_of [simp]: "sorted_wrt (<) (bs_of xs)"
proof -
  have "sorted_wrt (<) ys \<Longrightarrow> sorted_wrt (<) (fold bs_insert xs ys)" for ys :: "'a list"
    by (induction xs arbitrary: ys) auto
  then show ?thesis by (simp add: bs_of_def)
qed

section \<open>Stable sorting by a comparison\<close>

text \<open>\<open>sort_by\<close>: \<open>le a b\<close> is \<open>cmp(a, b) != Greater\<close>.\<close>

fun insort_by :: "('a \<Rightarrow> 'a \<Rightarrow> bool) \<Rightarrow> 'a \<Rightarrow> 'a list \<Rightarrow> 'a list" where
  "insort_by le x [] = [x]"
| "insort_by le x (y # ys) = (if le x y then x # y # ys else y # insort_by le x ys)"

definition sort_by :: "('a \<Rightarrow> 'a \<Rightarrow> bool) \<Rightarrow> 'a list \<Rightarrow> 'a list" where
  "sort_by le xs = foldr (insort_by le) xs []"

lemma set_insort_by [simp]: "set (insort_by le x xs) = insert x (set xs)"
  by (induction xs) auto

lemma length_insort_by [simp]: "length (insort_by le x xs) = Suc (length xs)"
  by (induction xs) auto

lemma set_sort_by [simp]: "set (sort_by le xs) = set xs"
  by (induction xs) (auto simp: sort_by_def)

lemma length_sort_by [simp]: "length (sort_by le xs) = length xs"
  by (induction xs) (auto simp: sort_by_def)

lemma distinct_insort_by [simp]: "distinct (insort_by le x xs) = (x \<notin> set xs \<and> distinct xs)"
  by (induction xs) auto

lemma distinct_sort_by [simp]: "distinct (sort_by le xs) = distinct xs"
proof -
  have "set (foldr (insort_by le) ys []) = set ys" for ys
    using set_sort_by [of le ys] by (simp add: sort_by_def)
  then show ?thesis by (induction xs) (auto simp: sort_by_def)
qed

lemma sort_by_Nil_iff [simp]: "sort_by le xs = [] \<longleftrightarrow> xs = []"
  by (metis length_0_conv length_sort_by)

lemma sorted_insort_by:
  assumes trans: "\<And>a b c. le a b \<Longrightarrow> le b c \<Longrightarrow> le a c"
    and total: "\<And>a b. le a b \<or> le b a"
  shows "sorted_wrt le xs \<Longrightarrow> sorted_wrt le (insort_by le x xs)"
proof (induction xs)
  case (Cons y ys)
  then have rest: "\<forall>z\<in>set ys. le y z" "sorted_wrt le ys" by auto
  show ?case
  proof (cases "le x y")
    case True
    then show ?thesis using rest trans by fastforce
  next
    case False
    then have "le y x" using total by blast
    then show ?thesis using False rest Cons.IH by simp
  qed
qed simp

lemma sorted_sort_by:
  assumes "\<And>a b c. le a b \<Longrightarrow> le b c \<Longrightarrow> le a c" and "\<And>a b. le a b \<or> le b a"
  shows "sorted_wrt le (sort_by le xs)"
proof (induction xs)
  case (Cons x xs)
  then show ?case
    using sorted_insort_by [of le, OF assms] by (simp add: sort_by_def)
qed (simp add: sort_by_def)

text \<open>The elements of a list whose flag in a parallel list is set.\<close>

definition selected :: "bool list \<Rightarrow> 'a list \<Rightarrow> 'a list" where
  "selected flags xs = map fst (filter snd (zip xs flags))"

lemma selected_Cons [simp]:
  "selected (b # bs) (x # xs) = (if b then x # selected bs xs else selected bs xs)"
  by (simp add: selected_def)

lemma selected_Nil [simp]: "selected [] xs = []" "selected bs [] = []"
  by (simp_all add: selected_def)

lemma selected_map: "selected (map P xs) xs = filter P xs"
  by (induction xs) auto

lemma selected_append:
  "length a = length xs \<Longrightarrow> selected (a @ b) (xs @ ys) = selected a xs @ selected b ys"
  by (simp add: selected_def)

lemma selected_by_index:
  "length flags = length xs \<Longrightarrow>
   selected flags xs = map ((!) xs) (filter ((!) flags) [0..<length xs])"
proof (induction xs arbitrary: flags rule: rev_induct)
  case (snoc x xs)
  then obtain bs b where flags: "flags = bs @ [b]" by (cases flags rule: rev_cases) auto
  with snoc.prems have len: "length bs = length xs" by simp
  have "filter ((!) (bs @ [b])) [0..<length xs] = filter ((!) bs) [0..<length xs]"
    using len by (intro filter_cong) (auto simp: nth_append)
  moreover have "map ((!) (xs @ [x])) (filter ((!) bs) [0..<length xs])
      = map ((!) xs) (filter ((!) bs) [0..<length xs])"
    by (intro map_cong) (auto simp: nth_append)
  moreover have "[0..<length (xs @ [x])] = [0..<length xs] @ [length xs]" by simp
  moreover have "(bs @ [b]) ! length xs = b" "(xs @ [x]) ! length xs = x"
    using len by (simp_all add: nth_append)
  ultimately show ?case
    using snoc.IH [OF len] len unfolding flags
    by (simp only: filter_append map_append selected_append) simp
qed simp

lemma insort_by_last: "(\<And>y. y \<in> set ys \<Longrightarrow> \<not> le x y) \<Longrightarrow> insort_by le x ys = ys @ [x]"
  by (induction ys) auto

lemma sort_by_rev: "sorted_wrt (\<lambda>a b. \<not> le a b) xs \<Longrightarrow> sort_by le xs = rev xs"
proof (induction xs)
  case (Cons x xs)
  then have "foldr (insort_by le) xs [] = rev xs" by (simp add: sort_by_def)
  moreover have "insort_by le x (rev xs) = rev xs @ [x]"
    using Cons.prems by (intro insort_by_last) simp
  ultimately show ?case by (simp add: sort_by_def)
qed (simp add: sort_by_def)

lemma map_nth_filter: "map ((!) xs) (filter (\<lambda>i. P (xs ! i)) [0..<length xs]) = filter P xs"
proof -
  have "filter P xs = filter P (map ((!) xs) [0..<length xs])" by (simp add: map_nth)
  also have "\<dots> = map ((!) xs) (filter (P \<circ> (!) xs) [0..<length xs])" by (rule filter_map)
  finally show ?thesis by (simp add: o_def)
qed

lemma filter_in_drop: "distinct xs \<Longrightarrow> filter (\<lambda>x. x \<in> set (drop k xs)) xs = drop k xs"
proof -
  assume "distinct xs"
  then have "set (take k xs) \<inter> set (drop k xs) = {}" by (rule set_take_disj_set_drop_if_distinct) simp
  then have "filter (\<lambda>x. x \<in> set (drop k xs)) (take k xs @ drop k xs) = drop k xs"
    unfolding filter_append by (auto simp: filter_empty_conv)
  then show ?thesis by simp
qed

lemma filter_in_drop_filter:
  "distinct xs \<Longrightarrow> filter (\<lambda>x. x \<in> set (drop k (filter P xs))) xs = drop k (filter P xs)"
proof -
  assume dist: "distinct xs"
  have "filter (\<lambda>x. x \<in> set (drop k (filter P xs))) xs
      = filter (\<lambda>x. x \<in> set (drop k (filter P xs))) (filter P xs)"
    unfolding filter_filter by (rule filter_cong) (auto dest: in_set_dropD)
  also have "\<dots> = drop k (filter P xs)" using dist by (intro filter_in_drop) simp
  finally show ?thesis .
qed

lemma selected_subset: "set (selected flags xs) \<subseteq> set xs"
  by (auto simp: selected_def dest: set_zip_leftD)

text \<open>Over distinct elements the flags and the selected elements determine each other.\<close>

lemma selected_flags:
  "distinct xs \<Longrightarrow> length flags = length xs \<Longrightarrow>
   flags = map (\<lambda>x. x \<in> set (selected flags xs)) xs"
proof (induction xs arbitrary: flags)
  case (Cons x xs)
  then obtain b bs where flags: "flags = b # bs" by (cases flags) auto
  have "bs = map (\<lambda>y. y \<in> set (selected bs xs)) xs" using Cons flags by simp
  moreover have "map (\<lambda>y. y \<in> set (selected bs xs)) xs
      = map (\<lambda>y. y \<in> set (selected (b # bs) (x # xs))) xs"
    using Cons.prems by (intro map_cong) auto
  moreover have "b = (x \<in> set (selected (b # bs) (x # xs)))"
    using Cons.prems selected_subset [of bs xs] by auto
  ultimately show ?case using flags by simp
qed simp

lemma selected_map2:
  "length flags = length xs \<Longrightarrow> distinct xs \<Longrightarrow>
   selected (map2 f xs flags) xs = filter (\<lambda>x. f x (x \<in> set (selected flags xs))) xs"
proof -
  assume len: "length flags = length xs" and dist: "distinct xs"
  let ?S = "set (selected flags xs)"
  have "map2 f xs flags = map2 f xs (map (\<lambda>x. x \<in> ?S) xs)"
    using selected_flags [OF dist len] by (rule arg_cong)
  also have "\<dots> = map (\<lambda>x. f x (x \<in> ?S)) xs" by (rule nth_equalityI) auto
  finally show ?thesis by (simp add: selected_map)
qed

lemma selected_filter:
  "length flags = length xs \<Longrightarrow> distinct xs \<Longrightarrow>
   selected flags xs = filter (\<lambda>x. x \<in> set (selected flags xs)) xs"
  by (metis selected_flags selected_map)

lemma sorted_wrt_drop_upward:
  assumes "sorted_wrt R xs" "r \<in> set (drop k xs)" "p \<in> set xs" "\<not> R p r"
  shows "p \<in> set (drop k xs)"
proof -
  have "sorted_wrt R (take k xs @ drop k xs)" using assms(1) by simp
  with assms(2,4) have "p \<notin> set (take k xs)" unfolding sorted_wrt_append by blast
  moreover have "set xs = set (take k xs) \<union> set (drop k xs)"
    by (metis append_take_drop_id set_append)
  ultimately show ?thesis using assms(3) by blast
qed

lemma sorted_wrt_last:
  assumes "sorted_wrt R xs" "p \<in> set xs"
  shows "p = last xs \<or> R p (last xs)"
  using assms by (induction xs rule: rev_induct) (auto simp: sorted_wrt_append)

lemma set_map_filter: "y \<in> set (List.map_filter f xs) \<longleftrightarrow> (\<exists>x \<in> set xs. f x = Some y)"
  by (force simp: List.map_filter_def)

end
