(* ===== verification/Rust_Str.thy ===== *)
theory Rust_Str
  imports Prelude
begin

text \<open>
  The part of Rust's standard library on strings and number texts that the source uses.
  A \<open>&str\<close> is its UTF-8 byte sequence, a HOL \<open>string\<close> whose characters are the bytes, so
  \<open>length\<close> is Rust's \<open>len()\<close> and the order of \<open>List_Lexorder\<close> is Rust's byte order on \<open>str\<close>.
  White space is the Unicode property \<open>White_Space\<close>, given by the UTF-8 encodings of its
  25 code points.
\<close>

named_theorems str_simps \<open>evaluation of the string operations on literals\<close>

section \<open>Prefixes and splitting\<close>

definition starts_with :: "string \<Rightarrow> string \<Rightarrow> bool" where
  "starts_with p s = (take (length p) s = p)"

definition ends_with :: "string \<Rightarrow> string \<Rightarrow> bool" where
  "ends_with p s = (length p \<le> length s \<and> drop (length s - length p) s = p)"

definition strip_prefix :: "string \<Rightarrow> string \<Rightarrow> string option" where
  "strip_prefix p s = (if starts_with p s then Some (drop (length p) s) else None)"

definition strip_suffix :: "string \<Rightarrow> string \<Rightarrow> string option" where
  "strip_suffix p s = (if ends_with p s then Some (take (length s - length p) s) else None)"

fun split_once :: "char \<Rightarrow> string \<Rightarrow> (string \<times> string) option" where
  "split_once c [] = None"
| "split_once c (x # xs) =
     (if x = c then Some ([], xs)
      else case split_once c xs of None \<Rightarrow> None | Some (a, b) \<Rightarrow> Some (x # a, b))"

definition rsplit_once :: "char \<Rightarrow> string \<Rightarrow> (string \<times> string) option" where
  "rsplit_once c s =
     (case split_once c (rev s) of None \<Rightarrow> None | Some (a, b) \<Rightarrow> Some (rev b, rev a))"

text \<open>\<open>split(c)\<close>: the fields between the separators, at least one.\<close>

fun split_on :: "char \<Rightarrow> string \<Rightarrow> string list" where
  "split_on c [] = [[]]"
| "split_on c (x # xs) =
     (if x = c then [] # split_on c xs
      else case split_on c xs of [] \<Rightarrow> [[x]] | f # fs \<Rightarrow> (x # f) # fs)"

text \<open>\<open>split_inclusive(c)\<close>: the pieces that end in the separator, and a last one without.\<close>

fun split_inclusive :: "char \<Rightarrow> string \<Rightarrow> string list" where
  "split_inclusive c [] = []"
| "split_inclusive c (x # xs) =
     (if x = c then [x] # split_inclusive c xs
      else case split_inclusive c xs of [] \<Rightarrow> [[x]] | l # ls \<Rightarrow> (x # l) # ls)"

definition newline :: char where "newline = CHR 0x0A"
definition carriage_return :: char where "carriage_return = CHR 0x0D"

text \<open>\<open>lines()\<close> drops each line's terminating line feed and one carriage return before it.\<close>

definition line_body :: "string \<Rightarrow> string" where
  "line_body l =
     (case strip_suffix [newline] l of
        None \<Rightarrow> l
      | Some l' \<Rightarrow> (case strip_suffix [carriage_return] l' of None \<Rightarrow> l' | Some l'' \<Rightarrow> l''))"

definition str_lines :: "string \<Rightarrow> string list" where
  "str_lines s = map line_body (split_inclusive newline s)"

lemma starts_with_append [simp, str_simps]: "starts_with p (p @ s)"
  by (simp add: starts_with_def)

lemma starts_with_iff: "starts_with p s \<longleftrightarrow> (\<exists>r. s = p @ r)"
proof
  assume "starts_with p s"
  then have "s = p @ drop (length p) s"
    unfolding starts_with_def by (metis append_take_drop_id)
  then show "\<exists>r. s = p @ r" ..
qed auto

lemma starts_with_Nil [simp]: "starts_with [] s"
  by (simp add: starts_with_def)

lemma starts_with_Cons [str_simps]:
  "starts_with (x # p) [] = False" "starts_with (x # p) (y # s) = (x = y \<and> starts_with p s)"
  by (auto simp: starts_with_def)

lemma strip_prefix_append [simp]: "strip_prefix p (p @ s) = Some s"
  by (simp add: strip_prefix_def)

lemma strip_prefix_Some_iff: "strip_prefix p s = Some r \<longleftrightarrow> s = p @ r"
  by (auto simp: strip_prefix_def starts_with_iff)

lemma ends_with_iff: "ends_with p s \<longleftrightarrow> (\<exists>r. s = r @ p)"
proof
  assume "ends_with p s"
  then have "s = take (length s - length p) s @ p"
    unfolding ends_with_def by (metis append_take_drop_id)
  then show "\<exists>r. s = r @ p" ..
qed (auto simp: ends_with_def)

lemma strip_suffix_append [simp]: "strip_suffix p (s @ p) = Some s"
  by (simp add: strip_suffix_def ends_with_def)

lemma strip_suffix_Some_iff: "strip_suffix p s = Some r \<longleftrightarrow> s = r @ p"
  by (auto simp: strip_suffix_def ends_with_iff)

lemma strip_suffix_None_iff: "strip_suffix p s = None \<longleftrightarrow> \<not> ends_with p s"
  by (simp add: strip_suffix_def)

lemma split_once_append [simp]: "c \<notin> set a \<Longrightarrow> split_once c (a @ c # b) = Some (a, b)"
  by (induction a) auto

lemma split_once_None_iff: "split_once c s = None \<longleftrightarrow> c \<notin> set s"
  by (induction s) (auto split: option.splits)

lemma split_once_Some_iff: "split_once c s = Some (a, b) \<longleftrightarrow> s = a @ c # b \<and> c \<notin> set a"
proof
  assume "split_once c s = Some (a, b)"
  then show "s = a @ c # b \<and> c \<notin> set a"
    by (induction s arbitrary: a) (auto split: if_splits option.splits)
qed auto

lemma rsplit_once_append [simp]:
  assumes "c \<notin> set b"
  shows "rsplit_once c (a @ c # b) = Some (a, b)"
proof -
  have "split_once c (rev b @ c # rev a) = Some (rev b, rev a)"
    using assms by simp
  then show ?thesis by (simp add: rsplit_once_def)
qed

lemma split_on_nonempty [simp]: "split_on c s \<noteq> []"
  by (induction s) (auto split: list.splits)

lemma split_on_no_sep: "c \<notin> set s \<Longrightarrow> split_on c s = [s]"
  by (induction s) auto

lemma split_on_append: "c \<notin> set a \<Longrightarrow> split_on c (a @ c # s) = a # split_on c s"
  by (induction a) auto

lemma split_inclusive_concat [simp]: "concat (split_inclusive c s) = s"
  by (induction s) (auto split: list.splits)

lemma split_inclusive_append:
  "split_inclusive c (a @ c # s) = split_inclusive c (a @ [c]) @ split_inclusive c s"
proof (induction a)
  case (Cons x a)
  have "split_inclusive c (a @ [c]) \<noteq> []" by (cases a) (auto split: list.splits)
  with Cons show ?case by (auto split: list.splits)
qed simp

lemma split_inclusive_line: "c \<notin> set a \<Longrightarrow> split_inclusive c (a @ [c]) = [a @ [c]]"
  by (induction a) auto

lemma split_inclusive_line_Cons:
  "c \<notin> set a \<Longrightarrow> split_inclusive c (a @ c # s) = (a @ [c]) # split_inclusive c s"
  using split_inclusive_append [of c a s] by (simp add: split_inclusive_line)

section \<open>White space\<close>

definition ws_seqs :: "string list" where
  "ws_seqs =
     [[CHR 0x09], [CHR 0x0A], [CHR 0x0B], [CHR 0x0C], [CHR 0x0D], [CHR 0x20],
      [CHR 0xC2, CHR 0x85], [CHR 0xC2, CHR 0xA0], [CHR 0xE1, CHR 0x9A, CHR 0x80],
      [CHR 0xE2, CHR 0x80, CHR 0x80], [CHR 0xE2, CHR 0x80, CHR 0x81],
      [CHR 0xE2, CHR 0x80, CHR 0x82], [CHR 0xE2, CHR 0x80, CHR 0x83],
      [CHR 0xE2, CHR 0x80, CHR 0x84], [CHR 0xE2, CHR 0x80, CHR 0x85],
      [CHR 0xE2, CHR 0x80, CHR 0x86], [CHR 0xE2, CHR 0x80, CHR 0x87],
      [CHR 0xE2, CHR 0x80, CHR 0x88], [CHR 0xE2, CHR 0x80, CHR 0x89],
      [CHR 0xE2, CHR 0x80, CHR 0x8A], [CHR 0xE2, CHR 0x80, CHR 0xA8],
      [CHR 0xE2, CHR 0x80, CHR 0xA9], [CHR 0xE2, CHR 0x80, CHR 0xAF],
      [CHR 0xE2, CHR 0x81, CHR 0x9F], [CHR 0xE3, CHR 0x80, CHR 0x80]]"

text \<open>\<open>strip_seqs ws s\<close> drops elements of \<open>ws\<close> from the front as long as one is there.\<close>

function strip_seqs :: "string list \<Rightarrow> string \<Rightarrow> string" where
  "strip_seqs ws s =
     (case find (\<lambda>w. w \<noteq> [] \<and> starts_with w s) ws of
        None \<Rightarrow> s | Some w \<Rightarrow> strip_seqs ws (drop (length w) s))"
  by pat_completeness auto
termination
proof (relation "measure (\<lambda>(ws, s). length s)", goal_cases)
  case (2 ws s w)
  then have "w \<noteq> []" "starts_with w s" by (auto simp: find_Some_iff)
  then show ?case by (cases s) (auto simp: starts_with_def)
qed simp

declare strip_seqs.simps [simp del]

definition trim_start :: "string \<Rightarrow> string" where
  "trim_start s = strip_seqs ws_seqs s"

definition trim_end :: "string \<Rightarrow> string" where
  "trim_end s = rev (strip_seqs (map rev ws_seqs) (rev s))"

definition trim :: "string \<Rightarrow> string" where
  "trim s = trim_end (trim_start s)"

lemma strip_seqs_None:
  "find (\<lambda>w. w \<noteq> [] \<and> starts_with w s) ws = None \<Longrightarrow> strip_seqs ws s = s"
  by (subst strip_seqs.simps) simp

lemma strip_seqs_Some:
  "find (\<lambda>w. w \<noteq> [] \<and> starts_with w s) ws = Some w \<Longrightarrow>
   strip_seqs ws s = strip_seqs ws (drop (length w) s)"
  by (subst strip_seqs.simps) simp

lemma strip_seqs_decompose: "\<exists>p. s = p @ strip_seqs ws s"
proof (induction ws s rule: strip_seqs.induct)
  case (1 ws s)
  show ?case
  proof (cases "find (\<lambda>w. w \<noteq> [] \<and> starts_with w s) ws")
    case None
    then show ?thesis by (simp add: strip_seqs_None)
  next
    case (Some w)
    then have "s = w @ drop (length w) s"
      by (auto simp: find_Some_iff starts_with_iff)
    moreover obtain p where "drop (length w) s = p @ strip_seqs ws (drop (length w) s)"
      using 1 [OF Some] by blast
    ultimately have "s = (w @ p) @ strip_seqs ws (drop (length w) s)" by simp
    then show ?thesis unfolding strip_seqs_Some [OF Some] by blast
  qed
qed

lemma strip_seqs_length: "length (strip_seqs ws s) \<le> length s"
  using strip_seqs_decompose [of s ws] by (metis le_add2 length_append)

lemma strip_seqs_id_iff: "strip_seqs ws s = s \<longleftrightarrow> (\<forall>w \<in> set ws. w \<noteq> [] \<longrightarrow> \<not> starts_with w s)"
proof (cases "find (\<lambda>w. w \<noteq> [] \<and> starts_with w s) ws")
  case None
  then show ?thesis by (auto simp: strip_seqs_None find_None_iff)
next
  case (Some w)
  from Some have w: "w \<in> set ws" "w \<noteq> []" "starts_with w s"
    by (auto simp: find_Some_iff)
  then have "length (drop (length w) s) < length s"
    by (cases s) (auto simp: starts_with_def)
  then have "strip_seqs ws (drop (length w) s) \<noteq> s"
    using strip_seqs_length [of ws "drop (length w) s"] by auto
  with Some have "strip_seqs ws s \<noteq> s" by (simp add: strip_seqs_Some)
  with w show ?thesis by blast
qed

text \<open>A text has no white space at an end when trimming leaves it alone.\<close>

definition tight_start :: "string \<Rightarrow> bool" where
  "tight_start s = (trim_start s = s)"

definition tight_end :: "string \<Rightarrow> bool" where
  "tight_end s = (trim_end s = s)"

lemma trim_tight: "tight_start s \<Longrightarrow> tight_end s \<Longrightarrow> trim s = s"
  by (simp add: trim_def tight_start_def tight_end_def)

lemma tight_start_iff: "tight_start s \<longleftrightarrow> (\<forall>w \<in> set ws_seqs. \<not> starts_with w s)"
  unfolding tight_start_def trim_start_def strip_seqs_id_iff
  by (auto simp: ws_seqs_def)

lemma tight_end_iff: "tight_end s \<longleftrightarrow> (\<forall>w \<in> set ws_seqs. \<not> ends_with w s)"
proof -
  have rev: "starts_with (rev w) (rev s) \<longleftrightarrow> ends_with w s" for w
    unfolding starts_with_iff ends_with_iff
    by (metis rev_append rev_rev_ident)
  have "tight_end s \<longleftrightarrow> strip_seqs (map rev ws_seqs) (rev s) = rev s"
    unfolding tight_end_def trim_end_def by (metis rev_rev_ident)
  also have "\<dots> \<longleftrightarrow> (\<forall>w \<in> set ws_seqs. w \<noteq> [] \<longrightarrow> \<not> ends_with w s)"
    unfolding strip_seqs_id_iff by (simp add: rev)
  also have "\<dots> \<longleftrightarrow> (\<forall>w \<in> set ws_seqs. \<not> ends_with w s)"
    by (auto simp: ws_seqs_def)
  finally show ?thesis .
qed

text \<open>The bytes that can begin, and those that can end, a white-space character.\<close>

definition ws_first :: "char set" where
  "ws_first = {CHR 0x09, CHR 0x0A, CHR 0x0B, CHR 0x0C, CHR 0x0D, CHR 0x20, CHR 0xC2, CHR 0xE1,
     CHR 0xE2, CHR 0xE3}"

definition ws_last :: "char set" where
  "ws_last = {CHR 0x09, CHR 0x0A, CHR 0x0B, CHR 0x0C, CHR 0x0D, CHR 0x20, CHR 0x80, CHR 0x81,
     CHR 0x82, CHR 0x83, CHR 0x84, CHR 0x85, CHR 0x86, CHR 0x87, CHR 0x88, CHR 0x89, CHR 0x8A,
     CHR 0x9F, CHR 0xA0, CHR 0xA8, CHR 0xA9, CHR 0xAF}"

lemma tight_start_Nil [simp]: "tight_start []"
  by (simp add: tight_start_iff ws_seqs_def starts_with_def)

lemma tight_end_Nil [simp]: "tight_end []"
  by (simp add: tight_end_iff ws_seqs_def ends_with_def)

lemma tight_start_Cons [intro]: "c \<notin> ws_first \<Longrightarrow> tight_start (c # s)"
  by (simp add: tight_start_iff ws_seqs_def ws_first_def starts_with_def)

lemma ends_with_snoc: "ends_with (p @ [x]) (s @ [y]) \<longleftrightarrow> x = y \<and> ends_with p s"
  unfolding ends_with_iff by (metis append.assoc append1_eq_conv)

lemma tight_end_snoc [intro]: "c \<notin> ws_last \<Longrightarrow> tight_end (s @ [c])"
  unfolding tight_end_iff ws_seqs_def ws_last_def ends_with_iff
  by (auto simp: append_eq_Cons_conv Cons_eq_append_conv append_eq_append_conv2
      dest!: arg_cong [where f = last])

lemma trim_Nil [simp]: "trim [] = []"
  by (simp add: trim_tight)

text \<open>Appending to a tight start keeps it tight as long as no character straddles the join.\<close>

lemma tight_start_append:
  assumes "tight_start s" and "s \<noteq> []" and "c \<notin> (\<Union>w \<in> set ws_seqs. set w)"
  shows "tight_start (s @ c # t)"
proof -
  have False if w: "w \<in> set ws_seqs" and pre: "starts_with w (s @ c # t)" for w
  proof -
    from pre obtain r where r: "s @ c # t = w @ r" by (auto simp: starts_with_iff)
    then consider q where "s = w @ q" | q where "w = s @ c # q"
      by (auto simp: append_eq_append_conv2 Cons_eq_append_conv)
    then show False
    proof cases
      case 1
      then have "starts_with w s" by simp
      with assms(1) w show False by (simp add: tight_start_iff)
    next
      case 2
      with w assms(3) show False by auto
    qed
  qed
  then show ?thesis by (auto simp: tight_start_iff)
qed

lemma tight_end_append:
  assumes "tight_end t" and "t \<noteq> []" and "c \<notin> (\<Union>w \<in> set ws_seqs. set w)"
  shows "tight_end (s @ c # t)"
proof -
  have False if w: "w \<in> set ws_seqs" and suf: "ends_with w (s @ c # t)" for w
  proof -
    from suf obtain r where r: "s @ c # t = r @ w" by (auto simp: ends_with_iff)
    then consider q where "t = q @ w" | q where "w = q @ c # t"
      by (auto simp: append_eq_append_conv2 Cons_eq_append_conv)
    then show False
    proof cases
      case 1
      then have "ends_with w t" by (auto simp: ends_with_iff)
      with assms(1) w show False by (simp add: tight_end_iff)
    next
      case 2
      with w assms(3) show False by auto
    qed
  qed
  then show ?thesis by (auto simp: tight_end_iff)
qed

lemma ws_bytes: "(\<Union>w \<in> set ws_seqs. set w) \<subseteq> ws_first \<union> ws_last \<union> {CHR 0x9A}"
  by (simp add: ws_seqs_def ws_first_def ws_last_def)

section \<open>Printing lines\<close>

definition unlines :: "string list \<Rightarrow> string" where
  "unlines ls = concat (map (\<lambda>l. l @ [newline]) ls)"

lemma unlines_simps [simp]:
  "unlines [] = []" "unlines (l # ls) = l @ newline # unlines ls"
  "unlines (ls @ ms) = unlines ls @ unlines ms"
  by (simp_all add: unlines_def)

text \<open>A line whose text survives \<open>lines()\<close> and \<open>trim()\<close>.\<close>

definition plain_line :: "string \<Rightarrow> bool" where
  "plain_line l = (newline \<notin> set l \<and> tight_start l \<and> tight_end l)"

lemma split_unlines:
  "\<forall>l \<in> set ls. newline \<notin> set l \<Longrightarrow> split_inclusive newline (unlines ls) = map (\<lambda>l. l @ [newline]) ls"
proof (induction ls)
  case (Cons l ls)
  then show ?case using split_inclusive_line_Cons [of newline l "unlines ls"] by simp
qed simp

lemma line_body_plain:
  assumes "tight_end l"
  shows "line_body (l @ [newline]) = l"
proof -
  have "strip_suffix [newline] (l @ [newline]) = Some l" by simp
  moreover have "strip_suffix [carriage_return] l = None"
  proof -
    have "[carriage_return] \<in> set ws_seqs" by (simp add: carriage_return_def ws_seqs_def)
    with assms have "\<not> ends_with [carriage_return] l" by (simp add: tight_end_iff)
    then show ?thesis by (simp add: strip_suffix_None_iff)
  qed
  ultimately show ?thesis by (simp add: line_body_def)
qed

lemma lines_unlines:
  "\<forall>l \<in> set ls. plain_line l \<Longrightarrow> str_lines (unlines ls) = ls"
  by (simp add: str_lines_def split_unlines plain_line_def line_body_plain map_idI)

lemma equals_not_ws: "CHR ''='' \<notin> (\<Union>w \<in> set ws_seqs. set w)" "CHR ''='' \<notin> ws_first" "CHR ''='' \<notin> ws_last"
  using ws_bytes by (auto simp: ws_first_def ws_last_def)

end
