(* ===== verification/Rust_Num.thy ===== *)
theory Rust_Num
  imports Rust_Str
begin

text \<open>
  Reading and printing machine integers as text: \<open>from_str_radix\<close> and \<open>parse\<close> of the unsigned
  and signed types (with Rust's optional sign), decimal \<open>to_string\<close>, and the \<open>{:X}\<close> and
  zero-padded \<open>{:08X}\<close> formats. The error kind of a failed parse is not kept: the source either
  drops it or only prints it.
\<close>

section \<open>Digits\<close>

definition char_code :: "char \<Rightarrow> nat" where
  "char_code c = of_char c"

definition is_ascii_digit :: "char \<Rightarrow> bool" where
  "is_ascii_digit c = (48 \<le> char_code c \<and> char_code c \<le> 57)"

definition is_ascii_hexdigit :: "char \<Rightarrow> bool" where
  "is_ascii_hexdigit c =
     (is_ascii_digit c \<or> (65 \<le> char_code c \<and> char_code c \<le> 70)
      \<or> (97 \<le> char_code c \<and> char_code c \<le> 102))"

text \<open>\<open>char::to_digit\<close>, for a radix up to 36.\<close>

definition digit_val :: "nat \<Rightarrow> char \<Rightarrow> nat option" where
  "digit_val radix c =
     (let n = char_code c;
          d = (if 48 \<le> n \<and> n \<le> 57 then n - 48
               else if 65 \<le> n \<and> n \<le> 90 then n - 55
               else if 97 \<le> n \<and> n \<le> 122 then n - 87
               else radix)
      in if d < radix then Some d else None)"

fun digits_val :: "nat \<Rightarrow> nat \<Rightarrow> string \<Rightarrow> nat option" where
  "digits_val radix acc [] = Some acc"
| "digits_val radix acc (c # cs) =
     (case digit_val radix c of
        None \<Rightarrow> None | Some d \<Rightarrow> digits_val radix (acc * radix + d) cs)"

text \<open>
  \<open>uN::from_str_radix\<close> with \<open>bound = 2^N\<close>: one leading plus sign is accepted, a minus sign and an
  empty digit string are not, and a value of \<open>bound\<close> or more overflows.
\<close>

definition from_str_radix :: "nat \<Rightarrow> nat \<Rightarrow> string \<Rightarrow> nat option" where
  "from_str_radix bound radix s =
     (let ds = (if starts_with ''+'' s then drop 1 s else s)
      in if ds = [] then None
         else case digits_val radix 0 ds of
                None \<Rightarrow> None | Some n \<Rightarrow> if n < bound then Some n else None)"

abbreviation u16_max :: nat where "u16_max \<equiv> 65535"
abbreviation u32_bound :: nat where "u32_bound \<equiv> 4294967296"
abbreviation u64_bound :: nat where "u64_bound \<equiv> 18446744073709551616"

definition parse_u32 :: "string \<Rightarrow> nat option" where
  "parse_u32 s = from_str_radix u32_bound 10 s"

definition parse_u64 :: "string \<Rightarrow> nat option" where
  "parse_u64 s = from_str_radix u64_bound 10 s"

abbreviation i64_min :: int where "i64_min \<equiv> - 9223372036854775808"
abbreviation i64_max :: int where "i64_max \<equiv> 9223372036854775807"

definition parse_i64 :: "string \<Rightarrow> int option" where
  "parse_i64 s =
     (if starts_with ''-'' s
      then (if drop 1 s = [] then None
            else case digits_val 10 0 (drop 1 s) of
                   None \<Rightarrow> None
                 | Some n \<Rightarrow> if i64_min \<le> - int n then Some (- int n) else None)
      else map_option int (from_str_radix (2 ^ 63) 10 s))"

section \<open>Printing\<close>

definition digit_char :: "nat \<Rightarrow> char" where
  "digit_char d = (if d < 10 then char_of (48 + d) else char_of (55 + d))"

fun fmt_radix :: "nat \<Rightarrow> nat \<Rightarrow> string" where
  "fmt_radix radix n =
     (if radix < 2 \<or> n < radix then [digit_char n]
      else fmt_radix radix (n div radix) @ [digit_char (n mod radix)])"

declare fmt_radix.simps [simp del]

definition fmt_dec :: "nat \<Rightarrow> string" where "fmt_dec n = fmt_radix 10 n"
definition fmt_HEX :: "nat \<Rightarrow> string" where "fmt_HEX n = fmt_radix 16 n"

definition fmt_int :: "int \<Rightarrow> string" where
  "fmt_int i = (if i < 0 then ''-'' @ fmt_dec (nat (- i)) else fmt_dec (nat i))"

text \<open>The \<open>w\<close> low hexadecimal digits, and \<open>{:0wX}\<close>, which prints more digits when it must.\<close>

fun hex_digits :: "nat \<Rightarrow> nat \<Rightarrow> string" where
  "hex_digits 0 n = []"
| "hex_digits (Suc w) n = hex_digits w (n div 16) @ [digit_char (n mod 16)]"

definition fmt_HEX_pad :: "nat \<Rightarrow> nat \<Rightarrow> string" where
  "fmt_HEX_pad w n = replicate (w - length (fmt_HEX n)) (CHR ''0'') @ fmt_HEX n"

text \<open>\<open>to_ascii_lowercase\<close> and \<open>eq_ignore_ascii_case\<close>.\<close>

definition ascii_lower :: "char \<Rightarrow> char" where
  "ascii_lower c = (if 65 \<le> char_code c \<and> char_code c \<le> 90 then char_of (char_code c + 32) else c)"

definition eq_ignore_ascii_case :: "string \<Rightarrow> string \<Rightarrow> bool" where
  "eq_ignore_ascii_case a b = (map ascii_lower a = map ascii_lower b)"

section \<open>Debug rendering\<close>

text \<open>
  The derived \<open>Debug\<close>. A string is quoted with \<open>escape_debug\<close>, written out for ASCII; bytes of
  multi-byte characters are copied, which is what it does for printable characters.
\<close>

definition debug_char :: "char \<Rightarrow> string" where
  "debug_char c =
     (if c = CHR 0x22 then [CHR 0x5C, CHR 0x22]
      else if c = CHR 0x5C then [CHR 0x5C, CHR 0x5C]
      else if c = CHR 0x0A then [CHR 0x5C, CHR ''n'']
      else if c = CHR 0x0D then [CHR 0x5C, CHR ''r'']
      else if c = CHR 0x09 then [CHR 0x5C, CHR ''t'']
      else if c = CHR 0x00 then [CHR 0x5C, CHR ''0'']
      else if char_code c < 32 \<or> char_code c = 127
      then [CHR 0x5C, CHR ''u'', CHR 0x7B] @ map ascii_lower (fmt_HEX (char_code c)) @ [CHR 0x7D]
      else [c])"

definition debug_str :: "string \<Rightarrow> string" where
  "debug_str s = [CHR 0x22] @ concat (map debug_char s) @ [CHR 0x22]"

fun join_with :: "string \<Rightarrow> string list \<Rightarrow> string" where
  "join_with sep [] = []"
| "join_with sep [x] = x"
| "join_with sep (x # xs) = x @ sep @ join_with sep xs"

section \<open>Laws\<close>

lemma char_code_char_of [simp]: "n < 256 \<Longrightarrow> char_code (char_of n) = n"
  by (simp add: char_code_def)

lemma char_code_lt [simp]: "char_code c < 256"
  by (simp add: char_code_def)

lemma char_code_inject: "char_code c = char_code d \<longleftrightarrow> c = d"
  by (simp add: char_code_def of_char_eq_iff)

lemma char_code_digit [simp]:
  "d < 16 \<Longrightarrow> char_code (digit_char d) = (if d < 10 then 48 + d else 55 + d)"
  by (simp add: digit_char_def)

lemma digit_val_digit_char [simp]: "d < radix \<Longrightarrow> radix \<le> 16 \<Longrightarrow> digit_val radix (digit_char d) = Some d"
  by (auto simp: digit_val_def Let_def)

lemma digit_char_hex [simp]: "d < 16 \<Longrightarrow> is_ascii_hexdigit (digit_char d)"
  by (auto simp: is_ascii_hexdigit_def is_ascii_digit_def)

lemma digit_char_digit [simp]: "d < 10 \<Longrightarrow> is_ascii_digit (digit_char d)"
  by (auto simp: is_ascii_digit_def)

lemma digit_char_0: "digit_char 0 = CHR ''0''"
  by code_simp

lemma digit_val_hex: "is_ascii_hexdigit c \<longleftrightarrow> digit_val 16 c \<noteq> None"
  by (auto simp: is_ascii_hexdigit_def is_ascii_digit_def digit_val_def Let_def)

lemma digit_val_lt: "digit_val radix c = Some d \<Longrightarrow> d < radix"
  by (auto simp: digit_val_def Let_def split: if_splits)

lemma digits_val_append:
  "digits_val radix acc (s @ t) =
     (case digits_val radix acc s of None \<Rightarrow> None | Some n \<Rightarrow> digits_val radix n t)"
  by (induction s arbitrary: acc) (auto split: option.splits)

lemma digits_val_shift:
  "digits_val radix acc s = map_option (\<lambda>n. acc * radix ^ length s + n) (digits_val radix 0 s)"
proof (induction s arbitrary: acc)
  case (Cons c s)
  show ?case
  proof (cases "digit_val radix c")
    case (Some d)
    then show ?thesis
      using Cons [of "acc * radix + d"] Cons [of d]
      by (cases "digits_val radix 0 s") (auto simp: algebra_simps)
  qed simp
qed simp

lemma digits_val_bound: "digits_val radix 0 s = Some n \<Longrightarrow> 0 < radix \<Longrightarrow> n < radix ^ length s"
proof (induction s arbitrary: n)
  case (Cons c s)
  obtain d where d: "digit_val radix c = Some d"
    using Cons.prems by (cases "digit_val radix c") auto
  then obtain m where m: "digits_val radix 0 s = Some m" "n = d * radix ^ length s + m"
    using Cons.prems digits_val_shift [of radix d s] by auto
  have "m < radix ^ length s" using Cons.IH m Cons.prems by simp
  moreover have "Suc d * radix ^ length s \<le> radix * radix ^ length s"
    using digit_val_lt [OF d] by (intro mult_right_mono) auto
  ultimately show ?case using m by simp
qed simp

lemma fmt_radix_not_Nil [simp]: "fmt_radix radix n \<noteq> []"
  by (subst fmt_radix.simps) simp

lemma digits_val_fmt_radix:
  "2 \<le> radix \<Longrightarrow> radix \<le> 16 \<Longrightarrow> digits_val radix 0 (fmt_radix radix n) = Some n"
proof (induction radix n rule: fmt_radix.induct)
  case (1 radix n)
  show ?case
  proof (cases "n < radix")
    case True
    with 1 show ?thesis by (subst fmt_radix.simps) simp
  next
    case False
    with 1 have "digits_val radix 0 (fmt_radix radix (n div radix)) = Some (n div radix)" by simp
    with False 1 show ?thesis
      by (subst fmt_radix.simps) (simp add: digits_val_append)
  qed
qed

lemma fmt_radix_digits: "2 \<le> radix \<Longrightarrow> radix \<le> 16 \<Longrightarrow> c \<in> set (fmt_radix radix n) \<Longrightarrow>
   \<exists>d < radix. c = digit_char d"
proof (induction radix n rule: fmt_radix.induct)
  case (1 radix n)
  show ?case
  proof (cases "n < radix")
    case True
    with 1 show ?thesis by (subst (asm) (2) fmt_radix.simps) auto
  next
    case False
    with "1.prems" have "c \<in> set (fmt_radix radix (n div radix)) \<or> c = digit_char (n mod radix)"
      by (auto simp: fmt_radix.simps [of radix n])
    moreover have "n mod radix < radix" using "1.prems" by simp
    moreover have "\<not> (radix < 2 \<or> n < radix)" using "1.prems" False by simp
    ultimately show ?thesis using "1.IH" "1.prems"(1,2) by blast
  qed
qed

lemma fmt_dec_digits: "c \<in> set (fmt_dec n) \<Longrightarrow> is_ascii_digit c"
  unfolding fmt_dec_def using fmt_radix_digits [of 10 c n] by auto

lemma fmt_HEX_digits: "c \<in> set (fmt_HEX n) \<Longrightarrow> is_ascii_hexdigit c"
  unfolding fmt_HEX_def using fmt_radix_digits [of 16 c n] by auto

lemma fmt_dec_not_Nil [simp]: "fmt_dec n \<noteq> []"
  by (simp add: fmt_dec_def)

lemma fmt_HEX_not_Nil [simp]: "fmt_HEX n \<noteq> []"
  by (simp add: fmt_HEX_def)

lemma char_code_sign [simp]: "char_code (CHR ''+'') = 43" "char_code (CHR ''-'') = 45"
  "char_code (CHR ''/'') = 47"
  by (simp_all add: char_code_def)

lemma starts_with_sign: "starts_with [x] s \<Longrightarrow> (\<forall>c \<in> set s. P c) \<Longrightarrow> P x"
  by (auto simp: starts_with_iff)

lemma no_sign:
  assumes "\<forall>c \<in> set s. is_ascii_hexdigit c"
  shows "\<not> starts_with ''+'' s" "\<not> starts_with ''-'' s"
  using starts_with_sign [OF _ assms]
  by (fastforce simp: is_ascii_hexdigit_def is_ascii_digit_def)+

lemma hexdigit_if_digit: "is_ascii_digit c \<Longrightarrow> is_ascii_hexdigit c"
  by (simp add: is_ascii_hexdigit_def)

lemma from_str_radix_digits:
  assumes "\<forall>c \<in> set s. is_ascii_hexdigit c" "s \<noteq> []"
  shows "from_str_radix bound radix s =
    (case digits_val radix 0 s of None \<Rightarrow> None | Some n \<Rightarrow> if n < bound then Some n else None)"
  using assms no_sign [OF assms(1)] by (simp add: from_str_radix_def)

lemma from_str_radix_fmt_HEX [simp]: "n < bound \<Longrightarrow> from_str_radix bound 16 (fmt_HEX n) = Some n"
  by (subst from_str_radix_digits) (auto simp: fmt_HEX_digits fmt_HEX_def digits_val_fmt_radix
      dest: fmt_HEX_digits [unfolded fmt_HEX_def])

lemma from_str_radix_fmt_dec [simp]: "n < bound \<Longrightarrow> from_str_radix bound 10 (fmt_dec n) = Some n"
  by (subst from_str_radix_digits)
     (auto simp: fmt_dec_def digits_val_fmt_radix
       dest: fmt_dec_digits [unfolded fmt_dec_def] intro: hexdigit_if_digit)

lemma parse_u32_fmt [simp]: "n < u32_bound \<Longrightarrow> parse_u32 (fmt_dec n) = Some n"
  by (simp add: parse_u32_def)

lemma parse_u64_fmt [simp]: "n < u64_bound \<Longrightarrow> parse_u64 (fmt_dec n) = Some n"
  by (simp add: parse_u64_def)

lemma parse_i64_fmt [simp]:
  assumes "i64_min \<le> i" "i \<le> i64_max"
  shows "parse_i64 (fmt_int i) = Some i"
proof (cases "i < 0")
  case True
  then show ?thesis
    using assms digits_val_fmt_radix [of 10 "nat (- i)"]
    by (simp add: parse_i64_def fmt_int_def fmt_dec_def starts_with_Cons)
next
  case False
  have "\<not> starts_with ''-'' (fmt_dec (nat i))"
    by (rule no_sign) (blast intro: hexdigit_if_digit fmt_dec_digits)
  with False assms show ?thesis
    by (simp add: parse_i64_def fmt_int_def)
qed

lemma length_hex_digits [simp]: "length (hex_digits w n) = w"
  by (induction w arbitrary: n) auto

lemma hex_digits_hex: "c \<in> set (hex_digits w n) \<Longrightarrow> is_ascii_hexdigit c"
  by (induction w arbitrary: n) auto

lemma digits_val_hex_digits: "digits_val 16 0 (hex_digits w n) = Some (n mod 16 ^ w)"
proof (induction w arbitrary: n)
  case (Suc w)
  have "n mod 16 ^ Suc w = 16 * (n div 16 mod 16 ^ w) + n mod 16"
    by (simp add: mod_mult2_eq)
  with Suc show ?case by (simp add: digits_val_append mult.commute)
qed simp

lemma hex_digits_eq_fmt: "n < 16 ^ w \<Longrightarrow> 0 < w \<Longrightarrow> hex_digits w n = fmt_HEX_pad w n"
proof (induction w arbitrary: n)
  case (Suc w)
  show ?case
  proof (cases "n < 16")
    case True
    have "hex_digits w 0 = replicate w (CHR ''0'')" for w
      by (induction w) (simp_all add: digit_char_0 replicate_append_same)
    with True show ?thesis
      by (simp add: fmt_HEX_pad_def fmt_HEX_def fmt_radix.simps [of 16 n])
  next
    case False
    with Suc.prems have "0 < w" by (cases w) auto
    moreover have "n div 16 < 16 ^ w" using Suc.prems by (simp add: less_mult_imp_div_less mult.commute)
    ultimately have "hex_digits w (n div 16) = fmt_HEX_pad w (n div 16)" using Suc.IH by simp
    moreover have "fmt_radix 16 n = fmt_radix 16 (n div 16) @ [digit_char (n mod 16)]"
      using False by (subst fmt_radix.simps) simp
    ultimately show ?thesis by (simp add: fmt_HEX_pad_def fmt_HEX_def)
  qed
qed simp

lemma from_str_radix_hex_digits [simp]:
  assumes "0 < w" "n < 16 ^ w" "n < bound"
  shows "from_str_radix bound 16 (hex_digits w n) = Some n"
proof -
  have "hex_digits w n \<noteq> []" using assms(1) by (metis length_hex_digits list.size(3) not_less0)
  then show ?thesis
    using assms by (subst from_str_radix_digits) (auto simp: hex_digits_hex digits_val_hex_digits)
qed

lemma hexdigit_not_ws:
  assumes "is_ascii_hexdigit c"
  shows "c \<notin> ws_first" "c \<notin> ws_last"
  using assms
  by (auto simp: is_ascii_hexdigit_def is_ascii_digit_def ws_first_def ws_last_def char_code_def)

lemma hex_text_tight:
  assumes "\<forall>c \<in> set s. is_ascii_hexdigit c" "s \<noteq> []"
  shows "tight_start (s @ t)" "tight_end (t @ s)"
proof -
  obtain x xs where "s = x # xs" using assms(2) by (cases s) auto
  then show "tight_start (s @ t)" using assms(1) by (auto dest: hexdigit_not_ws)
  obtain y ys where "s = ys @ [y]" using assms(2) by (cases s rule: rev_cases) auto
  then show "tight_end (t @ s)"
    using assms(1) tight_end_snoc [of y "t @ ys"] by (auto dest: hexdigit_not_ws)
qed

text \<open>Fixed-width hexadecimal texts are ordered like the numbers they write.\<close>

lemma digit_char_less_iff: "a < 16 \<Longrightarrow> b < 16 \<Longrightarrow> digit_char a < digit_char b \<longleftrightarrow> a < b"
  by (simp add: less_char_def flip: char_code_def)

lemma digit_char_inject: "a < 16 \<Longrightarrow> b < 16 \<Longrightarrow> digit_char a = digit_char b \<longleftrightarrow> a = b"
  by (metis digit_val_digit_char option.inject order_refl)

lemma list_less_append:
  fixes s t :: "'a::order list"
  assumes "length s = length t"
  shows "s @ u < t @ v \<longleftrightarrow> s < t \<or> (s = t \<and> u < v)"
  using assms by (induction s t rule: list_induct2) auto

lemma hex_digits_less_iff:
  assumes "m < 16 ^ w" "n < 16 ^ w"
  shows "hex_digits w m < hex_digits w n \<longleftrightarrow> m < n"
  using assms
proof (induction w arbitrary: m n)
  case (Suc w)
  have b: "m div 16 < 16 ^ w" "n div 16 < 16 ^ w"
    using Suc.prems by (simp_all add: less_mult_imp_div_less mult.commute)
  have eq: "hex_digits w (m div 16) = hex_digits w (n div 16) \<longleftrightarrow> m div 16 = n div 16"
    using b by (metis digits_val_hex_digits mod_less option.inject)
  have "hex_digits (Suc w) m < hex_digits (Suc w) n \<longleftrightarrow>
      m div 16 < n div 16 \<or> (m div 16 = n div 16 \<and> m mod 16 < n mod 16)"
    using Suc.IH [OF b] eq by (simp add: list_less_append digit_char_less_iff)
  also have "\<dots> \<longleftrightarrow> m < n"
  proof -
    have "m = 16 * (m div 16) + m mod 16" "n = 16 * (n div 16) + n mod 16" by simp_all
    moreover have "m mod 16 < 16" "n mod 16 < 16" by simp_all
    ultimately show ?thesis by linarith
  qed
  finally show ?case .
qed simp

end
