(* ===== verification/Bytes.thy ===== *)
theory Bytes
  imports Prelude
begin

unbundle bit_operations_syntax

text \<open>
  Byte buffers as lists of 8-bit words, and the little-endian readings of Rust's
  \<open>from_le_bytes\<close>. \<open>slice b i n\<close> is \<open>&b[i..i + n]\<close>; the callers establish its bounds first.
\<close>

fun le_nat :: "u8 list \<Rightarrow> nat" where
  "le_nat [] = 0"
| "le_nat (b # bs) = unat b + 256 * le_nat bs"

fun le_bytes :: "nat \<Rightarrow> nat \<Rightarrow> u8 list" where
  "le_bytes 0 n = []"
| "le_bytes (Suc w) n = word_of_nat (n mod 256) # le_bytes w (n div 256)"

definition slice :: "'a list \<Rightarrow> nat \<Rightarrow> nat \<Rightarrow> 'a list" where
  "slice b off n = take n (drop off b)"

definition get_range :: "'a list \<Rightarrow> nat \<Rightarrow> nat \<Rightarrow> 'a list option" where
  "get_range b off n = (if off + n \<le> length b then Some (slice b off n) else None)"

definition u16_le :: "u8 list \<Rightarrow> u16" where "u16_le bs = word_of_nat (le_nat bs)"
definition u32_le :: "u8 list \<Rightarrow> u32" where "u32_le bs = word_of_nat (le_nat bs)"
definition u64_le :: "u8 list \<Rightarrow> u64" where "u64_le bs = word_of_nat (le_nat bs)"

lemma unat_u8_lt [simp]: "unat (b :: u8) < 256"
  using unsigned_less [where 'a = nat, of b] by simp

lemma unat_u16_lt [simp]: "unat (b :: u16) < 65536"
  using unsigned_less [where 'a = nat, of b] by simp

lemma unat_u32_lt [simp]: "unat (b :: u32) < 4294967296"
  using unsigned_less [where 'a = nat, of b] by simp

lemma unat_u64_lt [simp]: "unat (b :: u64) < 18446744073709551616"
  using unsigned_less [where 'a = nat, of b] by simp

lemma unat_ucast_u32_u64 [simp]: "unat (ucast (w :: u32) :: u64) = unat w"
proof -
  have "unat w < 18446744073709551616" using unat_u32_lt [of w] by linarith
  then show ?thesis by (simp add: unsigned_ucast_eq take_bit_eq_mod unat_mod)
qed

lemma unat_ucast_u16_u32 [simp]: "unat (ucast (w :: u16) :: u32) = unat w"
proof -
  have "unat w < 4294967296" using unat_u16_lt [of w] by linarith
  then show ?thesis by (simp add: unsigned_ucast_eq take_bit_eq_mod unat_mod)
qed

lemma unat_ucast_u8_u32 [simp]: "unat (ucast (w :: u8) :: u32) = unat w"
proof -
  have "unat w < 4294967296" using unat_u8_lt [of w] by linarith
  then show ?thesis by (simp add: unsigned_ucast_eq take_bit_eq_mod unat_mod)
qed

lemma unat_ucast_u64_u32: "unat (ucast (w :: u64) :: u32) = unat w mod 4294967296"
  by (simp add: unsigned_ucast_eq take_bit_eq_mod unat_mod)

lemma length_le_bytes [simp]: "length (le_bytes w n) = w"
  by (induction w arbitrary: n) auto

lemma le_nat_bound: "le_nat bs < 256 ^ length bs"
proof (induction bs)
  case (Cons b bs)
  have "unat b + 256 * le_nat bs < 256 + 256 * le_nat bs" by simp
  also have "\<dots> \<le> 256 * 256 ^ length bs"
    using Cons by (metis Suc_leI mult.commute mult_Suc mult_le_mono2)
  finally show ?case by simp
qed simp

lemma le_nat_le_bytes: "le_nat (le_bytes w n) = n mod 256 ^ w"
proof (induction w arbitrary: n)
  case (Suc w)
  have "n mod 256 ^ Suc w = 256 * (n div 256 mod 256 ^ w) + n mod 256"
    by (simp add: mod_mult2_eq)
  moreover have "unat (word_of_nat (n mod 256) :: u8) = n mod 256"
    by (simp add: unat_of_nat)
  ultimately show ?case using Suc by simp
qed simp

lemma u16_le_bytes [simp]: "u16_le (le_bytes 2 (unat x)) = x"
  by (simp add: u16_le_def le_nat_le_bytes)

lemma u32_le_bytes [simp]: "u32_le (le_bytes 4 (unat x)) = x"
  by (simp add: u32_le_def le_nat_le_bytes)

lemma u64_le_bytes [simp]: "u64_le (le_bytes 8 (unat x)) = x"
  by (simp add: u64_le_def le_nat_le_bytes)

lemma slice_append_left: "off + n \<le> length a \<Longrightarrow> slice (a @ b) off n = slice a off n"
  by (simp add: slice_def)

lemma slice_append_right: "length a \<le> off \<Longrightarrow> slice (a @ b) off n = slice b (off - length a) n"
  by (simp add: slice_def)

lemma slice_whole [simp]: "length a = n \<Longrightarrow> slice (a @ b) 0 n = a"
  by (simp add: slice_def)

lemma slice_full [simp]: "length a = n \<Longrightarrow> slice a 0 n = a"
  by (simp add: slice_def)

lemma slice_all [simp]: "slice a 0 (length a) = a"
  by (simp add: slice_def)

lemma length_slice [simp]: "off + n \<le> length b \<Longrightarrow> length (slice b off n) = n"
  by (simp add: slice_def)

end
