(* ===== verification/Lsn.thy ===== *)
theory Lsn
  imports Rust_Num Bytes
begin

unbundle bit_operations_syntax

text \<open>
  \<open>crates/pgbr-postgres/src/lsn.rs\<close>: log sequence numbers, WAL segment names, the enumeration of
  a segment range and the long header of a WAL segment.
\<close>

section \<open>Log sequence numbers\<close>

definition WAL_SEGMENT_SIZE_DEFAULT :: u64 where
  "WAL_SEGMENT_SIZE_DEFAULT = 16 * 1024 * 1024"

definition parse_lsn :: "string \<Rightarrow> u64 option" where
  "parse_lsn text =
     (case split_once (CHR ''/'') (trim text) of
        None \<Rightarrow> None
      | Some (hi_str, lo_str) \<Rightarrow>
          if hi_str = [] \<or> lo_str = [] then None
          else case from_str_radix u32_bound 16 hi_str of
                 None \<Rightarrow> None
               | Some hi \<Rightarrow>
                   (case from_str_radix u32_bound 16 lo_str of
                      None \<Rightarrow> None
                    | Some lo \<Rightarrow> Some (push_bit 32 (word_of_nat hi) OR word_of_nat lo)))"

definition lsn_hi :: "u64 \<Rightarrow> u64" where "lsn_hi lsn = drop_bit 32 lsn AND 0xFFFFFFFF"
definition lsn_lo :: "u64 \<Rightarrow> u64" where "lsn_lo lsn = lsn AND 0xFFFFFFFF"

definition lsn_to_string :: "u64 \<Rightarrow> string" where
  "lsn_to_string lsn = fmt_HEX (unat (lsn_hi lsn)) @ ''/'' @ fmt_HEX (unat (lsn_lo lsn))"

definition seg_size_or_default :: "u64 \<Rightarrow> u64" where
  "seg_size_or_default wal_segment_size =
     (if wal_segment_size = 0 then WAL_SEGMENT_SIZE_DEFAULT else wal_segment_size)"

definition lsn_to_wal_segment :: "u32 \<Rightarrow> u64 \<Rightarrow> u64 \<Rightarrow> string" where
  "lsn_to_wal_segment timeline lsn wal_segment_size =
     (let seg_size = seg_size_or_default wal_segment_size;
          lo_segment = lsn_lo lsn div seg_size
      in fmt_HEX_pad 8 (unat timeline) @ fmt_HEX_pad 8 (unat (lsn_hi lsn))
         @ fmt_HEX_pad 8 (unat lo_segment))"

definition lsn_text_to_wal_segment :: "u32 \<Rightarrow> string \<Rightarrow> u64 \<Rightarrow> string option" where
  "lsn_text_to_wal_segment timeline lsn_text wal_segment_size =
     (case parse_lsn lsn_text of
        None \<Rightarrow> None
      | Some lsn \<Rightarrow> Some (lsn_to_wal_segment timeline lsn wal_segment_size))"

section \<open>WAL segment names and ranges\<close>

definition LOGICAL_XLOG_FILE_SIZE :: u64 where "LOGICAL_XLOG_FILE_SIZE = 0x100000000"

definition segments_per_logical_file :: "u64 \<Rightarrow> u64" where
  "segments_per_logical_file wal_segment_size =
     LOGICAL_XLOG_FILE_SIZE div seg_size_or_default wal_segment_size"

definition parse_wal_segment :: "string \<Rightarrow> (u32 \<times> u32 \<times> u32) option" where
  "parse_wal_segment name =
     (if length name \<noteq> 24 \<or> \<not> list_all is_ascii_hexdigit name then None
      else case from_str_radix u32_bound 16 (take 8 name) of
             None \<Rightarrow> None
           | Some timeline \<Rightarrow>
               (case from_str_radix u32_bound 16 (take 8 (drop 8 name)) of
                  None \<Rightarrow> None
                | Some high \<Rightarrow>
                    (case from_str_radix u32_bound 16 (take 8 (drop 16 name)) of
                       None \<Rightarrow> None
                     | Some low \<Rightarrow>
                         Some (word_of_nat timeline, word_of_nat high, word_of_nat low))))"

text \<open>\<open>u32::try_from(n).ok()\<close>\<close>

definition u32_try_from :: "u64 \<Rightarrow> u32 option" where
  "u32_try_from n = (if unat n < u32_bound then Some (ucast n) else None)"

text \<open>The body of the \<open>for segno in start..=stop\<close> loop, which returns at the first failure.\<close>

fun collect_segments :: "u32 \<Rightarrow> u64 \<Rightarrow> nat list \<Rightarrow> string list option" where
  "collect_segments tli per_file [] = Some []"
| "collect_segments tli per_file (segno # rest) =
     (case u32_try_from (word_of_nat segno div per_file) of
        None \<Rightarrow> None
      | Some high \<Rightarrow>
          (case u32_try_from (word_of_nat segno mod per_file) of
             None \<Rightarrow> None
           | Some low \<Rightarrow>
               (case collect_segments tli per_file rest of
                  None \<Rightarrow> None
                | Some out \<Rightarrow>
                    Some ((fmt_HEX_pad 8 (unat tli) @ fmt_HEX_pad 8 (unat high)
                           @ fmt_HEX_pad 8 (unat low)) # out))))"

definition wal_segment_range :: "string \<Rightarrow> string \<Rightarrow> u64 \<Rightarrow> string list option" where
  "wal_segment_range start stop wal_segment_size =
     (case parse_wal_segment start of
        None \<Rightarrow> None
      | Some (start_tli, start_hi, start_lo) \<Rightarrow>
          (case parse_wal_segment stop of
             None \<Rightarrow> None
           | Some (stop_tli, stop_hi, stop_lo) \<Rightarrow>
               if start_tli \<noteq> stop_tli then None
               else let per_file = segments_per_logical_file wal_segment_size
                    in if per_file = 0 then None
                       else let start_segno = ucast start_hi * per_file + ucast start_lo;
                                stop_segno = ucast stop_hi * per_file + ucast stop_lo
                            in if stop_segno < start_segno then None
                               else collect_segments start_tli per_file
                                      [unat start_segno..<Suc (unat stop_segno)]))"

section \<open>The WAL segment header\<close>

definition XLP_LONG_HEADER :: u16 where "XLP_LONG_HEADER = 0x0002"
definition XLP_SYSID_OFFSET :: nat where "XLP_SYSID_OFFSET = 24"
definition XLP_SEG_SIZE_OFFSET :: nat where "XLP_SEG_SIZE_OFFSET = 32"
definition WAL_LONG_HEADER_LEN :: nat where "WAL_LONG_HEADER_LEN = XLP_SEG_SIZE_OFFSET + 4"

definition WAL_MAGIC_VERSIONS :: "(u16 \<times> string) list" where
  "WAL_MAGIC_VERSIONS =
     [(0xD093, ''9.6''), (0xD097, ''10''), (0xD098, ''11''), (0xD101, ''12''), (0xD106, ''13''),
      (0xD10D, ''14''), (0xD110, ''15''), (0xD113, ''16''), (0xD116, ''17''), (0xD117, ''18'')]"

record wal_header =
  wh_magic :: u16
  wh_version :: "string option"
  wh_timeline :: u32
  wh_system_id :: u64
  wh_segment_size :: u32

definition wal_version_from_magic :: "u16 \<Rightarrow> string option" where
  "wal_version_from_magic magic =
     map_option snd (find (\<lambda>(m, label). m = magic) WAL_MAGIC_VERSIONS)"

definition parse_wal_header :: "u8 list \<Rightarrow> wal_header option" where
  "parse_wal_header buf =
     (if length buf < WAL_LONG_HEADER_LEN then None
      else let magic = u16_le (slice buf 0 2);
               info = u16_le (slice buf 2 2)
           in if info AND XLP_LONG_HEADER = 0 then None
              else Some \<lparr>wh_magic = magic,
                         wh_version = wal_version_from_magic magic,
                         wh_timeline = u32_le (slice buf 4 4),
                         wh_system_id = u64_le (slice buf XLP_SYSID_OFFSET 8),
                         wh_segment_size = u32_le (slice buf XLP_SEG_SIZE_OFFSET 4)\<rparr>)"

section \<open>Arithmetic of the two halves\<close>

lemma lsn_lo_mod: "lsn_lo l = l mod 4294967296"
proof -
  have "lsn_lo l = take_bit 32 l"
    by (simp add: lsn_lo_def take_bit_eq_mask mask_eq_exp_minus_1)
  then show ?thesis by (simp add: take_bit_eq_mod)
qed

lemma push_drop_or_take: "push_bit n (drop_bit n w) OR take_bit n w = (w :: u64)"
  by (rule bit_word_eqI) (auto simp: bit_simps)

lemma lsn_hi_drop: "lsn_hi l = drop_bit 32 l"
proof -
  have "lsn_hi l = take_bit 32 (drop_bit 32 l)"
    by (simp add: lsn_hi_def take_bit_eq_mask mask_eq_exp_minus_1)
  also have "\<dots> = drop_bit 32 l"
    using unat_u64_lt [of l]
    by (simp add: word_unat_eq_iff take_bit_eq_mod drop_bit_eq_div unat_mod unat_div
        div_less_iff_less_mult)
  finally show ?thesis .
qed

lemma unat_lsn_lo: "unat (lsn_lo l) = unat l mod u32_bound"
  by (simp add: lsn_lo_mod unat_mod)

lemma unat_lsn_hi: "unat (lsn_hi l) = unat l div u32_bound"
  by (simp add: lsn_hi_drop drop_bit_eq_div unat_div)

lemma lsn_halves_lt [simp]: "unat (lsn_hi l) < u32_bound" "unat (lsn_lo l) < u32_bound"
  using unat_u64_lt [of l] by (simp_all add: unat_lsn_hi unat_lsn_lo div_less_iff_less_mult)

lemma lsn_join: "push_bit 32 (lsn_hi l) OR lsn_lo l = l"
  using push_drop_or_take [of 32 l] by (simp add: lsn_hi_drop lsn_lo_mod take_bit_eq_mod)

section \<open>Names of segment numbers\<close>

text \<open>
  The name of segment number \<open>n\<close> of a cluster whose logical files hold \<open>pf\<close> segments each: the
  specification the source's three formatting sites share.
\<close>

definition seg_name :: "nat \<Rightarrow> nat \<Rightarrow> nat \<Rightarrow> string" where
  "seg_name tli hi lo = hex_digits 8 tli @ hex_digits 8 hi @ hex_digits 8 lo"

definition segno_name :: "u32 \<Rightarrow> nat \<Rightarrow> nat \<Rightarrow> string" where
  "segno_name tli pf n = seg_name (unat tli) (n div pf) (n mod pf)"

lemma hex8: "n < u32_bound \<Longrightarrow> fmt_HEX_pad 8 n = hex_digits 8 n"
  by (simp add: hex_digits_eq_fmt)

lemma length_seg_name [simp]: "length (seg_name t h l) = 24"
  by (simp add: seg_name_def)

lemma seg_name_hex: "list_all is_ascii_hexdigit (seg_name t h l)"
  by (auto simp: seg_name_def list_all_iff dest: hex_digits_hex)

lemma take_seg_name:
  "take 8 (seg_name t h l) = hex_digits 8 t"
  "take 8 (drop 8 (seg_name t h l)) = hex_digits 8 h"
  "take 8 (drop 16 (seg_name t h l)) = hex_digits 8 l"
  by (simp_all add: seg_name_def)

lemma parse_seg_name:
  assumes "t < u32_bound" "h < u32_bound" "l < u32_bound"
  shows "parse_wal_segment (seg_name t h l) = Some (word_of_nat t, word_of_nat h, word_of_nat l)"
  using assms by (simp add: parse_wal_segment_def seg_name_hex take_seg_name)

lemma seg_name_less_iff:
  assumes "t < u32_bound" "h < u32_bound" "l < u32_bound"
    and "t' < u32_bound" "h' < u32_bound" "l' < u32_bound"
  shows "seg_name t h l < seg_name t' h' l' \<longleftrightarrow>
     t < t' \<or> (t = t' \<and> (h < h' \<or> (h = h' \<and> l < l')))"
proof -
  have inj: "hex_digits 8 a = hex_digits 8 b \<longleftrightarrow> a = b" if "a < u32_bound" "b < u32_bound" for a b
    using that hex_digits_less_iff [of a 8 b] hex_digits_less_iff [of b 8 a]
    by (cases a b rule: linorder_cases) auto
  show ?thesis
    using assms by (simp add: seg_name_def list_less_append hex_digits_less_iff inj)
qed

lemma segno_name_less:
  assumes "m < n" "n div pf < u32_bound" "0 < pf" "pf \<le> u32_bound"
  shows "segno_name tli pf m < segno_name tli pf n"
proof -
  have lo: "k mod pf < u32_bound" for k
    using assms(3,4) by (meson less_le_trans mod_less_divisor)
  have hi: "m div pf \<le> n div pf" using assms(1) by (simp add: div_le_mono)
  have "m div pf < n div pf \<or> (m div pf = n div pf \<and> m mod pf < n mod pf)"
  proof (cases "m div pf = n div pf")
    case True
    then have "m mod pf < n mod pf"
      using assms(1) by (metis div_mult_mod_eq nat_add_left_cancel_less)
    with True show ?thesis by simp
  next
    case False
    with hi show ?thesis by simp
  qed
  then show ?thesis
    unfolding segno_name_def using hi assms lo
    by (subst seg_name_less_iff) auto
qed

lemma unat_segments_per_logical_file:
  "unat (segments_per_logical_file s) = u32_bound div unat (seg_size_or_default s)"
  by (simp add: segments_per_logical_file_def LOGICAL_XLOG_FILE_SIZE_def unat_div)

lemma segments_per_logical_file_le: "unat (segments_per_logical_file s) \<le> u32_bound"
  by (simp add: unat_segments_per_logical_file)

lemma collect_segments_eq:
  assumes "pf \<noteq> 0" "unat pf \<le> u32_bound"
    and "\<forall>n \<in> set ns. n < u64_bound \<and> n div unat pf < u32_bound"
  shows "collect_segments tli pf ns = Some (map (segno_name tli (unat pf)) ns)"
  using assms(3)
proof (induction ns)
  case (Cons n ns)
  have pos: "0 < unat pf" using assms(1) by (simp add: unat_gt_0)
  have n: "unat (word_of_nat n :: u64) = n" using Cons.prems by (simp add: unat_of_nat)
  have lo: "n mod unat pf < u32_bound"
    using pos assms(2) by (meson less_le_trans mod_less_divisor)
  have hi: "n div unat pf < u32_bound" using Cons.prems by simp
  have "u32_try_from (word_of_nat n div pf) = Some (word_of_nat (n div unat pf))"
    using hi n by (simp add: u32_try_from_def unat_div word_unat_eq_iff unat_ucast_u64_u32 unat_of_nat)
  moreover have "u32_try_from (word_of_nat n mod pf) = Some (word_of_nat (n mod unat pf))"
    using lo n by (simp add: u32_try_from_def unat_mod word_unat_eq_iff unat_ucast_u64_u32 unat_of_nat)
  ultimately show ?case
    using Cons hi lo by (simp add: segno_name_def seg_name_def hex8 unat_of_nat)
qed simp

lemma segno_recombine:
  assumes "pf \<noteq> 0" "unat pf \<le> u32_bound" "n div unat pf < u32_bound"
  shows "unat ((ucast (word_of_nat (n div unat pf) :: u32) :: u64) * pf
           + ucast (word_of_nat (n mod unat pf) :: u32)) = n"
proof -
  have pos: "0 < unat pf" using assms(1) by (simp add: unat_gt_0)
  have lo: "n mod unat pf < u32_bound"
    using pos assms(2) by (meson less_le_trans mod_less_divisor)
  have "n < u32_bound * unat pf"
    using assms(3) pos by (simp add: div_less_iff_less_mult)
  also have "\<dots> \<le> u32_bound * u32_bound" using assms(2) by (rule mult_le_mono2)
  finally have n: "n < u64_bound" by simp
  have "n div unat pf * unat pf \<le> n" by simp
  with n have "n div unat pf * unat pf < u64_bound" by linarith
  with assms lo n show ?thesis
    by (simp add: unat_word_ariths unat_ucast_u64_u32 unat_of_nat)
qed

section \<open>Theorems\<close>

text \<open>Printing an LSN and parsing the text gives the LSN back, for every 64-bit value.\<close>

theorem parse_lsn_roundtrip: "parse_lsn (lsn_to_string l) = Some l"
proof -
  let ?h = "fmt_HEX (unat (lsn_hi l))" and ?l = "fmt_HEX (unat (lsn_lo l))"
  have hex: "\<forall>c \<in> set ?h. is_ascii_hexdigit c" "\<forall>c \<in> set ?l. is_ascii_hexdigit c"
    by (auto dest: fmt_HEX_digits)
  have "trim (?h @ ''/'' @ ?l) = ?h @ ''/'' @ ?l"
    using hex_text_tight(1) [OF hex(1), of "''/'' @ ?l"]
      hex_text_tight(2) [OF hex(2), of "?h @ ''/''"]
    by (intro trim_tight) simp_all
  moreover have "CHR ''/'' \<notin> set ?h"
    using hex(1) by (auto simp: is_ascii_hexdigit_def is_ascii_digit_def)
  ultimately have "split_once (CHR ''/'') (trim (lsn_to_string l)) = Some (?h, ?l)"
    by (simp add: lsn_to_string_def)
  then show ?thesis
    by (simp add: parse_lsn_def lsn_join)
qed

lemma lsn_to_wal_segment_segno:
  assumes "ws \<noteq> 0" "unat ws dvd u32_bound"
  shows "lsn_to_wal_segment t l ws
     = segno_name t (unat (segments_per_logical_file ws)) (unat l div unat ws)"
proof -
  define s where "s = unat ws"
  define pf where "pf = u32_bound div s"
  have s: "0 < s" "s * pf = u32_bound"
    using assms by (simp_all add: s_def pf_def unat_gt_0)
  have pf: "unat (segments_per_logical_file ws) = pf"
    using assms(1) by (simp add: unat_segments_per_logical_file seg_size_or_default_def pf_def s_def)
  have "unat l div s div pf = unat l div u32_bound"
    using s by (simp add: div_mult2_eq [symmetric])
  moreover have "unat l div s mod pf = unat l mod u32_bound div s"
    using s mod_mult2_eq [of "unat l" s pf] by simp
  moreover have "unat l mod u32_bound div s < u32_bound"
    by (meson div_le_dividend le_less_trans mod_less_divisor zero_less_numeral)
  ultimately show ?thesis
    using assms(1) pf unat_u64_lt [of l]
    by (simp add: lsn_to_wal_segment_def segno_name_def seg_name_def hex8 seg_size_or_default_def
        unat_lsn_hi unat_lsn_lo unat_div s_def div_less_iff_less_mult)
qed

text \<open>
  Between two segments of one timeline the enumeration returns exactly the names of the
  segment numbers from the first to the last, each once and in order, across any number of
  logical-file roll-overs.
\<close>

theorem wal_segment_range_exact:
  assumes "pf = unat (segments_per_logical_file ws)" "0 < pf"
    and "a \<le> b" "b div pf < u32_bound"
  shows "wal_segment_range (segno_name t pf a) (segno_name t pf b) ws
           = Some (map (segno_name t pf) [a..<Suc b])
         \<and> sorted_wrt (<) (map (segno_name t pf) [a..<Suc b])"
proof -
  let ?pf = "segments_per_logical_file ws"
  have le: "pf \<le> u32_bound" using assms(1) segments_per_logical_file_le by simp
  have ne: "?pf \<noteq> 0" using assms(1,2) by auto
  have hi: "n div pf < u32_bound" if "n \<le> b" for n
    using that assms(4) by (meson div_le_mono le_less_trans)
  have lo: "n mod pf < u32_bound" for n
    using assms(2) le by (meson less_le_trans mod_less_divisor)
  have parse: "parse_wal_segment (segno_name t pf n)
      = Some (t, word_of_nat (n div pf), word_of_nat (n mod pf))" if "n \<le> b" for n
    using hi [OF that] lo by (simp add: segno_name_def parse_seg_name)
  have rec: "unat ((ucast (word_of_nat (n div pf) :: u32) :: u64) * ?pf
      + ucast (word_of_nat (n mod pf) :: u32)) = n" if "n \<le> b" for n
    using segno_recombine [of ?pf n] ne le hi [OF that] assms(1) by simp
  have "b < u64_bound" using rec [of b] by (metis order_refl unat_u64_lt)
  then have all: "\<forall>n \<in> set [a..<Suc b]. n < u64_bound \<and> n div unat ?pf < u32_bound"
    using hi assms(1) by auto
  have "wal_segment_range (segno_name t pf a) (segno_name t pf b) ws
           = Some (map (segno_name t pf) [a..<Suc b])"
    using assms(3) ne le parse [of a] parse [of b] rec [of a] rec [of b] assms(1)
      collect_segments_eq [OF ne _ all, of t]
    by (simp add: wal_segment_range_def Let_def word_less_nat_alt del: upt_Suc)
  moreover have "sorted_wrt (<) (map (segno_name t pf) [a..<Suc b])"
    unfolding sorted_wrt_map
    by (rule sorted_wrt_mono_rel [OF _ sorted_wrt_upt])
       (auto intro!: segno_name_less hi simp: assms(2) le)
  ultimately show ?thesis ..
qed

theorem wal_segment_range_exact_witness:
  "wal_segment_range (segno_name 1 256 255) (segno_name 1 256 257) 0x1000000
     = Some [segno_name 1 256 255, segno_name 1 256 256, segno_name 1 256 257]"
proof -
  have pf: "256 = unat (segments_per_logical_file 0x1000000)"
    by (simp add: unat_segments_per_logical_file seg_size_or_default_def)
  have "[255..<Suc 257] = [255::nat, 256, 257]" by (simp add: upt_rec)
  then show ?thesis using wal_segment_range_exact [OF pf, of 255 257 1] by simp
qed

lemma lsn_segno_bound:
  assumes "ws \<noteq> 0" "unat ws dvd u32_bound"
  shows "0 < unat (segments_per_logical_file ws)"
    and "unat (l :: u64) div unat ws div unat (segments_per_logical_file ws) < u32_bound"
proof -
  have pf: "unat (segments_per_logical_file ws) = u32_bound div unat ws"
    using assms(1) by (simp add: unat_segments_per_logical_file seg_size_or_default_def)
  have ws: "0 < unat ws" using assms(1) by (simp add: unat_gt_0)
  then show "0 < unat (segments_per_logical_file ws)"
    using assms(2) pf by (simp add: dvd_imp_le div_greater_zero_iff)
  have "unat l div unat ws div (u32_bound div unat ws) = unat l div u32_bound"
    using assms(2) by (simp add: div_mult2_eq [symmetric])
  then show "unat l div unat ws div unat (segments_per_logical_file ws) < u32_bound"
    using pf unat_u64_lt [of l] by (simp add: div_less_iff_less_mult)
qed

text \<open>
  For a segment size that divides 4 GiB, every LSN between a backup's start and stop LSN lies
  in a segment whose name is in the enumerated range: the range misses no WAL the backup needs.
\<close>

theorem wal_segment_range_covers:
  assumes "ws \<noteq> 0" "unat ws dvd u32_bound" "start \<le> l" "l \<le> stop"
  shows "\<exists>segs. wal_segment_range (lsn_to_wal_segment t start ws) (lsn_to_wal_segment t stop ws) ws
             = Some segs \<and> lsn_to_wal_segment t l ws \<in> set segs"
proof -
  define pf where "pf = unat (segments_per_logical_file ws)"
  have name: "lsn_to_wal_segment t x ws = segno_name t pf (unat x div unat ws)" for x
    using lsn_to_wal_segment_segno [OF assms(1,2)] by (simp add: pf_def)
  have ord: "unat start div unat ws \<le> unat l div unat ws" "unat l div unat ws \<le> unat stop div unat ws"
    using assms(3,4) by (simp_all add: word_le_nat_alt div_le_mono)
  have "wal_segment_range (lsn_to_wal_segment t start ws) (lsn_to_wal_segment t stop ws) ws
      = Some (map (segno_name t pf) [unat start div unat ws..<Suc (unat stop div unat ws)])"
    unfolding name
    using wal_segment_range_exact [OF pf_def, of "unat start div unat ws" "unat stop div unat ws" t]
      lsn_segno_bound [OF assms(1,2)] ord pf_def by auto
  moreover have "unat l div unat ws \<in> set [unat start div unat ws..<Suc (unat stop div unat ws)]"
    unfolding set_upt atLeastLessThan_iff less_Suc_eq_le using ord by blast
  ultimately show ?thesis unfolding name by (metis image_eqI list.set_map)
qed

theorem wal_segment_range_covers_witness:
  "\<exists>segs. wal_segment_range (lsn_to_wal_segment 1 0xFE000000 0x1000000)
      (lsn_to_wal_segment 1 0x101000000 0x1000000) 0x1000000 = Some segs
      \<and> lsn_to_wal_segment 1 0x100000028 0x1000000 \<in> set segs"
  by (rule wal_segment_range_covers) simp_all

text \<open>
  Segment names of one timeline sort like the LSNs they contain, so the string comparisons of
  archive retention compare WAL positions.
\<close>

theorem lsn_to_wal_segment_mono:
  assumes "ws \<noteq> 0" "unat ws dvd u32_bound" "l \<le> l'"
  shows "lsn_to_wal_segment t l ws \<le> lsn_to_wal_segment t l' ws"
proof -
  define pf where "pf = unat (segments_per_logical_file ws)"
  have name: "lsn_to_wal_segment t x ws = segno_name t pf (unat x div unat ws)" for x
    using lsn_to_wal_segment_segno [OF assms(1,2)] by (simp add: pf_def)
  have le: "unat l div unat ws \<le> unat l' div unat ws"
    using assms(3) by (simp add: word_le_nat_alt div_le_mono)
  show ?thesis
  proof (cases "unat l div unat ws = unat l' div unat ws")
    case False
    then have "segno_name t pf (unat l div unat ws) < segno_name t pf (unat l' div unat ws)"
      using le lsn_segno_bound [OF assms(1,2)] segments_per_logical_file_le
      by (intro segno_name_less) (simp_all add: pf_def)
    then show ?thesis by (simp add: name)
  qed (simp add: name)
qed

theorem lsn_to_wal_segment_mono_witness:
  "lsn_to_wal_segment 2 0xFF000000 0x1000000 \<le> lsn_to_wal_segment 2 0x100000000 0x1000000"
  by (rule lsn_to_wal_segment_mono) simp_all

text \<open>
  The long header: a buffer that starts with the ten header fields in PostgreSQL's layout is
  decoded to those fields exactly when its long-header bit is set.
\<close>

lemma parse_wal_header_layout:
  "parse_wal_header
     (le_bytes 2 (unat magic) @ le_bytes 2 (unat info) @ le_bytes 4 (unat tli)
      @ le_bytes 8 (unat (pageaddr :: u64)) @ le_bytes 4 (unat (rem_len :: u32)) @ le_bytes 4 pad
      @ le_bytes 8 (unat sysid) @ le_bytes 4 (unat seg_size) @ rest)
   = (if info AND XLP_LONG_HEADER = 0 then None
      else Some \<lparr>wh_magic = magic, wh_version = wal_version_from_magic magic, wh_timeline = tli,
                 wh_system_id = sysid, wh_segment_size = seg_size\<rparr>)"
  by (simp add: parse_wal_header_def WAL_LONG_HEADER_LEN_def XLP_SEG_SIZE_OFFSET_def
      XLP_SYSID_OFFSET_def slice_append_right slice_append_left Let_def)

lemma parse_wal_header_short: "length buf < 36 \<Longrightarrow> parse_wal_header buf = None"
  by (simp add: parse_wal_header_def WAL_LONG_HEADER_LEN_def XLP_SEG_SIZE_OFFSET_def)

lemma parse_lsn_sign: "parse_lsn ''+1/+0'' = Some 0x100000000"
proof -
  have "trim ''+1/+0'' = ''+1/+0''"
    by (rule trim_tight)
       (simp_all add: tight_start_iff tight_end_iff ws_seqs_def starts_with_def ends_with_def)
  moreover have "from_str_radix u32_bound 16 ''+1'' = Some 1" "from_str_radix u32_bound 16 ''+0'' = Some 0"
    by (simp_all add: from_str_radix_def starts_with_def digit_val_def char_code_def)
  ultimately show ?thesis by (simp add: parse_lsn_def)
qed

end
