(* ===== verification/Label_Date.thy ===== *)
theory Label_Date
  imports Rust_Num
begin

text \<open>
  \<open>label_date_epoch\<close> of \<open>crates/pgbr-command/src/expire.rs\<close>: the UTC midnight of the date a backup label
  starts with, computed by the civil-date formula, and its agreement with the Gregorian calendar.
\<close>

text \<open>Rust's \<open>/\<close> on \<open>i64\<close> rounds toward zero.\<close>

definition tdiv :: "int \<Rightarrow> int \<Rightarrow> int" where
  "tdiv a b = sgn a * sgn b * (\<bar>a\<bar> div \<bar>b\<bar>)"

definition days_from_civil :: "int \<Rightarrow> int \<Rightarrow> int \<Rightarrow> int" where
  "days_from_civil year m d =
     (let y = (if m \<le> 2 then year - 1 else year);
          era = tdiv (if y \<ge> 0 then y else y - 399) 400;
          yoe = y - era * 400;
          doy = tdiv (153 * (if m > 2 then m - 3 else m + 9) + 2) 5 + d - 1;
          doe = yoe * 365 + tdiv yoe 4 - tdiv yoe 100 + doy
      in era * 146097 + doe - 719468)"

definition label_date_epoch :: "string \<Rightarrow> int option" where
  "label_date_epoch label =
     (if length label < 8 then None
      else
        let date = take 8 label in
        if \<not> list_all is_ascii_digit date then None
        else (case (parse_i64 (take 4 date), parse_i64 (take 2 (drop 4 date)), parse_i64 (drop 6 date)) of
            (Some y, Some m, Some d) \<Rightarrow>
              if \<not> (1 \<le> m \<and> m \<le> 12) \<or> \<not> (1 \<le> d \<and> d \<le> 31) then None
              else Some (days_from_civil y m d * 86400)
          | _ \<Rightarrow> None))"

section \<open>The calendar\<close>

definition is_leap :: "int \<Rightarrow> bool" where
  "is_leap y = (4 dvd y \<and> (\<not> 100 dvd y \<or> 400 dvd y))"

definition month_length :: "int \<Rightarrow> int \<Rightarrow> int" where
  "month_length y m = (if m = 2 then (if is_leap y then 29 else 28)
     else if m \<in> {4, 6, 9, 11} then 30 else 31)"

lemma tdiv_nonneg: "0 \<le> a \<Longrightarrow> 0 < b \<Longrightarrow> tdiv a b = a div b"
  by (cases "a = 0") (simp_all add: tdiv_def)

lemma era_floor: "tdiv (if y \<ge> 0 then y else y - 399) 400 = y div 400"
proof (cases "y \<ge> 0")
  case True
  then show ?thesis by (simp add: tdiv_nonneg)
next
  case False
  then have "sgn (y - 399) = - 1" "\<bar>y - 399\<bar> = 399 - y" by (simp_all add: sgn_if)
  then have "tdiv (y - 399) 400 = - ((399 - y) div 400)" unfolding tdiv_def by simp
  also have "(399 - y) div 400 = - (y div 400)"
  proof (rule int_div_pos_eq)
    show "399 - y = 400 * - (y div 400) + (399 - y mod 400)"
      using mult_div_mod_eq [of 400 y] by linarith
  qed (use pos_mod_sign [of 400 y] pos_mod_bound [of 400 y] in linarith)+
  finally show ?thesis using False by simp
qed

lemma div_in_cycle:
  fixes a b c :: int
  assumes "0 < b" "0 < c"
  shows "a div b = c * (a div (b * c)) + (a mod (b * c)) div b"
proof -
  have "a mod (b * c) = b * (a div b mod c) + a mod b" using assms by (intro zmod_zmult2_eq) simp
  then have "(a mod (b * c)) div b = a div b mod c" using assms by simp
  moreover have "a div (b * c) = a div b div c" using assms by (intro zdiv_zmult2_eq) simp
  ultimately show ?thesis by simp
qed

lemma div_step: "0 < k \<Longrightarrow> y div k = (y - 1) div k + (if k dvd y then 1 else 0)" for y k :: int
proof -
  assume k: "0 < k"
  have y: "y = k * (y div k) + y mod k" by simp
  show ?thesis
  proof (cases "k dvd y")
    case True
    then have "y - 1 = k * (y div k - 1) + (k - 1)" by (simp add: algebra_simps)
    then have "(y - 1) div k = y div k - 1"
      using k int_div_pos_eq [of "y - 1" k "y div k - 1" "k - 1"] by simp
    with True show ?thesis by simp
  next
    case False
    then have "0 < y mod k" using k by (simp add: dvd_eq_mod_eq_0 order_neq_le_trans)
    moreover have "y - 1 = k * (y div k) + (y mod k - 1)" using y by linarith
    moreover have "y mod k - 1 < k" using k pos_mod_bound [of k y] by linarith
    ultimately have "(y - 1) div k = y div k"
      using k int_div_pos_eq [of "y - 1" k "y div k" "y mod k - 1"] by simp
    with False show ?thesis by simp
  qed
qed

definition leap_days :: "int \<Rightarrow> int" where
  "leap_days y = y div 4 - y div 100 + y div 400"

lemma leap_count:
  "(r \<Longrightarrow> q) \<Longrightarrow> (q \<Longrightarrow> p) \<Longrightarrow>
   (if p then 1 else 0) - (if q then 1 else 0) + (if r then 1 else 0)
     = (if p \<and> (\<not> q \<or> r) then 1 else (0 :: int))"
  by auto

lemma leap_step: "leap_days y = leap_days (y - 1) + (if is_leap y then 1 else 0)"
proof -
  have cancel: "a + i - (b + j) + (c + k) = (a - b + c) + (i - j + k)" for a b c i j k :: int by simp
  have "4 dvd (100 :: int)" "100 dvd (400 :: int)" by simp_all
  then have "(if 4 dvd y then 1 else 0) - (if 100 dvd y then 1 else 0) + (if 400 dvd y then 1 else 0)
      = (if is_leap y then 1 else (0 :: int))"
    unfolding is_leap_def by (intro leap_count) (blast intro: dvd_trans)+
  then show ?thesis
    using cancel
    unfolding leap_days_def div_step [of 4 y, simplified] div_step [of 100 y, simplified]
      div_step [of 400 y, simplified] by presburger
qed

text \<open>The formula counts the leap days of a year that starts in March.\<close>

lemma days_from_civil_floor:
  assumes "1 \<le> m" "m \<le> 12"
  shows "days_from_civil year m d =
    (let y = (if m \<le> 2 then year - 1 else year) in
     365 * y + leap_days y +
     (153 * (if m > 2 then m - 3 else m + 9) + 2) div 5 + d - 719469)"
proof -
  define y where "y = (if m \<le> 2 then year - 1 else year)"
  define yoe where "yoe = y - y div 400 * 400"
  have yoe: "yoe = y mod 400" by (simp add: yoe_def minus_div_mult_eq_mod)
  then have "0 \<le> yoe" by simp
  moreover have "0 \<le> 153 * (if m > 2 then m - 3 else m + 9) + 2" using assms by simp
  moreover have "y div 4 = 100 * (y div 400) + yoe div 4" "y div 100 = 4 * (y div 400) + yoe div 100"
    using div_in_cycle [of 4 100 y] div_in_cycle [of 100 4 y] by (simp_all add: yoe)
  moreover have "y = 400 * (y div 400) + yoe" unfolding yoe by simp
  ultimately show ?thesis
    unfolding days_from_civil_def Let_def y_def [symmetric] era_floor yoe_def [symmetric]
    by (simp only: tdiv_nonneg leap_days_def)
qed

text \<open>The day count of a label's date is that of the Gregorian calendar: it is 0 on 1970-01-01, the
  next day counts one more, the first of the next month counts the length of the month more (leap
  years included), and January follows December.\<close>

theorem label_date_calendar:
  assumes "1 \<le> m" "m \<le> 12"
  shows "days_from_civil 1970 1 1 = 0 \<and>
    days_from_civil y m (d + 1) = days_from_civil y m d + 1 \<and>
    (if m = 12 then days_from_civil (y + 1) 1 1 else days_from_civil y (m + 1) 1)
      = days_from_civil y m 1 + month_length y m"
proof -
  note leap = leap_step [of y]
  have cases: "m = 1 \<or> m = 2 \<or> m = 3 \<or> m = 4 \<or> m = 5 \<or> m = 6 \<or> m = 7 \<or> m = 8 \<or> m = 9 \<or> m = 10 \<or>
      m = 11 \<or> m = 12" using assms by presburger
  have "days_from_civil 1970 1 1 = 0" by (simp add: days_from_civil_floor leap_days_def)
  moreover have "days_from_civil y m (d + 1) = days_from_civil y m d + 1"
    using assms by (simp add: days_from_civil_floor Let_def)
  moreover have "(if m = 12 then days_from_civil (y + 1) 1 1 else days_from_civil y (m + 1) 1)
      = days_from_civil y m 1 + month_length y m"
    using cases leap by (elim disjE) (simp_all add: days_from_civil_floor month_length_def Let_def)
  ultimately show ?thesis by blast
qed

lemma label_date_calendar_witness:
  "days_from_civil 2024 3 1 = days_from_civil 2024 2 1 + 29"
  using label_date_calendar [of 2 2024 1] by (simp add: month_length_def is_leap_def)

end
