(* ===== verification/Config_Types.thy ===== *)
theory Config_Types
  imports Rust_Num
begin

text \<open>
  \<open>crates/pgbr-config/src/types.rs\<close> and the value type of \<open>value.rs\<close>: the enumerations of the
  configuration model with their textual spellings, the typed option values and the merged
  configuration a command runs with.
\<close>

datatype config_command_role = RoleMain | RoleAsync | RoleLocal | RoleRemote

fun role_as_str :: "config_command_role \<Rightarrow> string" where
  "role_as_str RoleMain = ''main''"
| "role_as_str RoleAsync = ''async''"
| "role_as_str RoleLocal = ''local''"
| "role_as_str RoleRemote = ''remote''"

definition role_parse :: "string \<Rightarrow> config_command_role option" where
  "role_parse raw =
     (if raw = ''main'' then Some RoleMain
      else if raw = ''async'' then Some RoleAsync
      else if raw = ''local'' then Some RoleLocal
      else if raw = ''remote'' then Some RoleRemote
      else None)"

datatype option_type =
  TyBoolean | TyInteger | TySize | TyTime | TyPath | TyString | TyStringId | TyList | TyHash

definition option_type_parse :: "string \<Rightarrow> option_type option" where
  "option_type_parse raw =
     (if raw = ''boolean'' then Some TyBoolean
      else if raw = ''integer'' then Some TyInteger
      else if raw = ''size'' then Some TySize
      else if raw = ''time'' then Some TyTime
      else if raw = ''path'' then Some TyPath
      else if raw = ''string'' then Some TyString
      else if raw = ''string-id'' then Some TyStringId
      else if raw = ''list'' then Some TyList
      else if raw = ''hash'' then Some TyHash
      else None)"

fun option_type_as_str :: "option_type \<Rightarrow> string" where
  "option_type_as_str TyBoolean = ''boolean''"
| "option_type_as_str TyInteger = ''integer''"
| "option_type_as_str TySize = ''size''"
| "option_type_as_str TyTime = ''time''"
| "option_type_as_str TyPath = ''path''"
| "option_type_as_str TyString = ''string''"
| "option_type_as_str TyStringId = ''string-id''"
| "option_type_as_str TyList = ''list''"
| "option_type_as_str TyHash = ''hash''"

datatype option_section = SecGlobal | SecStanza

definition option_section_parse :: "string \<Rightarrow> option_section option" where
  "option_section_parse raw =
     (if raw = ''global'' then Some SecGlobal
      else if raw = ''stanza'' then Some SecStanza else None)"

fun option_section_as_str :: "option_section \<Rightarrow> string" where
  "option_section_as_str SecGlobal = ''global''"
| "option_section_as_str SecStanza = ''stanza''"

datatype default_type = DefLiteral | DefDynamic | DefQuote

definition default_type_parse :: "string \<Rightarrow> default_type option" where
  "default_type_parse raw =
     (if raw = ''literal'' then Some DefLiteral
      else if raw = ''dynamic'' then Some DefDynamic
      else if raw = ''quote'' then Some DefQuote else None)"

fun default_type_as_str :: "default_type \<Rightarrow> string" where
  "default_type_as_str DefLiteral = ''literal''"
| "default_type_as_str DefDynamic = ''dynamic''"
| "default_type_as_str DefQuote = ''quote''"

datatype option_group = GrpPg | GrpRepo

definition option_group_parse :: "string \<Rightarrow> option_group option" where
  "option_group_parse raw =
     (if raw = ''pg'' then Some GrpPg
      else if raw = ''repo'' then Some GrpRepo else None)"

fun option_group_as_str :: "option_group \<Rightarrow> string" where
  "option_group_as_str GrpPg = ''pg''"
| "option_group_as_str GrpRepo = ''repo''"

datatype lock_type = LockArchive | LockBackup | LockRestore | LockAll | LockNone

fun lock_type_as_str :: "lock_type \<Rightarrow> string" where
  "lock_type_as_str LockArchive = ''archive''"
| "lock_type_as_str LockBackup = ''backup''"
| "lock_type_as_str LockRestore = ''restore''"
| "lock_type_as_str LockAll = ''all''"
| "lock_type_as_str LockNone = ''none''"

definition lock_type_parse :: "string \<Rightarrow> lock_type option" where
  "lock_type_parse raw =
     (if raw = ''archive'' then Some LockArchive
      else if raw = ''backup'' then Some LockBackup
      else if raw = ''restore'' then Some LockRestore
      else if raw = ''all'' then Some LockAll
      else if raw = ''none'' then Some LockNone
      else None)"

text \<open>Each enumeration is declared in the order of its derived \<open>Ord\<close>.\<close>

instantiation option_group :: linorder
begin

definition less_eq_option_group :: "option_group \<Rightarrow> option_group \<Rightarrow> bool" where
  "less_eq_option_group a b = (a = GrpPg \<or> b = GrpRepo)"

definition less_option_group :: "option_group \<Rightarrow> option_group \<Rightarrow> bool" where
  "less_option_group a b = (a = GrpPg \<and> b = GrpRepo)"

instance
proof
  fix x y z :: option_group
  show "x < y \<longleftrightarrow> x \<le> y \<and> \<not> y \<le> x"
    by (cases x; cases y) (auto simp: less_eq_option_group_def less_option_group_def)
  show "x \<le> x" by (cases x) (auto simp: less_eq_option_group_def)
  show "x \<le> y \<Longrightarrow> y \<le> z \<Longrightarrow> x \<le> z" by (auto simp: less_eq_option_group_def)
  show "x \<le> y \<Longrightarrow> y \<le> x \<Longrightarrow> x = y" by (auto simp: less_eq_option_group_def)
  show "x \<le> y \<or> y \<le> x" by (cases x; cases y) (auto simp: less_eq_option_group_def)
qed

end

fun role_rank :: "config_command_role \<Rightarrow> nat" where
  "role_rank RoleMain = 0" | "role_rank RoleAsync = 1" | "role_rank RoleLocal = 2" | "role_rank RoleRemote = 3"

lemma role_rank_inject [simp]: "role_rank a = role_rank b \<longleftrightarrow> a = b"
  by (cases a; cases b) simp_all

instantiation config_command_role :: linorder
begin

definition less_eq_config_command_role :: "config_command_role \<Rightarrow> config_command_role \<Rightarrow> bool" where
  "less_eq_config_command_role a b = (role_rank a \<le> role_rank b)"

definition less_config_command_role :: "config_command_role \<Rightarrow> config_command_role \<Rightarrow> bool" where
  "less_config_command_role a b = (role_rank a < role_rank b)"

instance
proof
  fix x y z :: config_command_role
  show "x < y \<longleftrightarrow> x \<le> y \<and> \<not> y \<le> x"
    by (auto simp: less_eq_config_command_role_def less_config_command_role_def)
  show "x \<le> x" by (simp add: less_eq_config_command_role_def)
  show "x \<le> y \<Longrightarrow> y \<le> z \<Longrightarrow> x \<le> z" by (simp add: less_eq_config_command_role_def)
  show "x \<le> y \<Longrightarrow> y \<le> x \<Longrightarrow> x = y"
    using role_rank_inject [of x y] by (simp add: less_eq_config_command_role_def)
  show "x \<le> y \<or> y \<le> x" by (auto simp: less_eq_config_command_role_def)
qed

end

text \<open>
  An option value carries its type. Sizes and times are unsigned 64-bit counts and an integer is
  signed 64-bit; the parser establishes the bounds.
\<close>

datatype option_value =
    OvBoolean bool
  | OvInteger int
  | OvSize nat
  | OvTime nat
  | OvPath string
  | OvString string
  | OvStringId string
  | OvList "string list"
  | OvHash "(string, string) btree"

fun option_type_of :: "option_value \<Rightarrow> option_type" where
  "option_type_of (OvBoolean _) = TyBoolean"
| "option_type_of (OvInteger _) = TyInteger"
| "option_type_of (OvSize _) = TySize"
| "option_type_of (OvTime _) = TyTime"
| "option_type_of (OvPath _) = TyPath"
| "option_type_of (OvString _) = TyString"
| "option_type_of (OvStringId _) = TyStringId"
| "option_type_of (OvList _) = TyList"
| "option_type_of (OvHash _) = TyHash"

text \<open>The key \<open>(option_name, group_index)\<close> of an option, and the maps keyed by it.\<close>

type_synonym option_key = "string \<times> nat option"
type_synonym option_map = "(option_key, option_value) btree"

record loaded_config =
  lc_command :: string
  lc_role :: config_command_role
  lc_stanza :: "string option"
  lc_options :: option_map
  lc_params :: "string list"

definition config_get :: "loaded_config \<Rightarrow> string \<Rightarrow> nat option \<Rightarrow> option_value option" where
  "config_get config name idx = bt_get (lc_options config) (name, idx)"

lemma role_round_trip [simp]: "role_parse (role_as_str r) = Some r"
  by (cases r) (simp_all add: role_parse_def)

lemma option_type_round_trip [simp]: "option_type_parse (option_type_as_str t) = Some t"
  by (cases t) (simp_all add: option_type_parse_def)

lemma option_section_round_trip [simp]: "option_section_parse (option_section_as_str s) = Some s"
  by (cases s) (simp_all add: option_section_parse_def)

lemma default_type_round_trip [simp]: "default_type_parse (default_type_as_str d) = Some d"
  by (cases d) (simp_all add: default_type_parse_def)

lemma option_group_round_trip [simp]: "option_group_parse (option_group_as_str g) = Some g"
  by (cases g) (simp_all add: option_group_parse_def)

lemma lock_type_round_trip [simp]: "lock_type_parse (lock_type_as_str l) = Some l"
  by (cases l) (simp_all add: lock_type_parse_def)

text \<open>The spellings are the only texts the parsers accept.\<close>

lemma role_parse_Some: "role_parse raw = Some r \<longleftrightarrow> raw = role_as_str r"
  by (cases r) (auto simp: role_parse_def)

lemma option_type_parse_Some: "option_type_parse raw = Some t \<longleftrightarrow> raw = option_type_as_str t"
  by (cases t) (auto simp: option_type_parse_def)

end
