(* ===== verification/Storage.thy ===== *)
theory Storage
  imports Rust_Str
begin

text \<open>
  The storage interface of \<open>crates/pgbr-storage/src/lib.rs\<close>: paths, the typed errors, the
  directory entries and the operations of the \<open>Storage\<close> trait that the modelled commands call.
  A trait object is a record of functions that pass the backend's state; the backend is an
  arbitrary state type. \<open>Posix\<close> models the local backend and interprets the locale at the end.
\<close>

section \<open>Paths\<close>

text \<open>
  A path is its byte string. \<open>components\<close> drops empty and \<open>.\<close> components as \<open>Path::components\<close>
  does; \<open>join\<close> replaces the base when the argument is absolute.
\<close>

type_synonym path = string

definition is_absolute :: "path \<Rightarrow> bool" where
  "is_absolute p = starts_with ''/'' p"

definition path_join :: "path \<Rightarrow> path \<Rightarrow> path" where
  "path_join a b =
     (if is_absolute b then b
      else if a = [] \<or> ends_with ''/'' a then a @ b
      else a @ ''/'' @ b)"

definition components :: "path \<Rightarrow> string list" where
  "components p = filter (\<lambda>c. c \<noteq> [] \<and> c \<noteq> ''.'') (split_on (CHR ''/'') p)"

definition file_name :: "path \<Rightarrow> string option" where
  "file_name p = (case rev (components p) of
       [] \<Rightarrow> None
     | c # _ \<Rightarrow> if c = ''..'' then None else Some c)"

lemma components_Nil [simp]: "components [] = []"
  by (simp add: components_def)

lemma split_on_join: "split_on c (a @ c # b) = split_on c a @ split_on c b"
  by (induction a) (auto split: list.splits)

lemma components_slash: "components (a @ ''/'' @ b) = components a @ components b"
  by (simp add: components_def split_on_join)

lemma components_single:
  "CHR ''/'' \<notin> set n \<Longrightarrow> components n = (if n = [] \<or> n = ''.'' then [] else [n])"
  by (simp add: components_def split_on_no_sep)

lemma components_join:
  "\<not> is_absolute b \<Longrightarrow> components (path_join a b) = components a @ components b"
proof -
  assume rel: "\<not> is_absolute b"
  consider "a = []" | "ends_with ''/'' a" "a \<noteq> []" | "a \<noteq> []" "\<not> ends_with ''/'' a" by blast
  then show ?thesis
  proof cases
    case 2
    then obtain r where "a = r @ ''/''" by (auto simp: ends_with_iff)
    then have "components (a @ b) = components r @ components b"
      and "components a = components r"
      using components_slash [of r b] components_slash [of r "[]"] by simp_all
    with rel 2 show ?thesis by (simp add: path_join_def)
  qed (use rel components_slash in \<open>simp_all add: path_join_def\<close>)
qed

section \<open>Errors, entries, operations\<close>

datatype io_error = UnexpectedEof | IoClosed | IoBackend string

datatype storage_error =
    NotFound path
  | AlreadyExists path
  | PermissionDenied path
  | StBackend path string
  | StIo io_error

fun io_error_display :: "io_error \<Rightarrow> string" where
  "io_error_display UnexpectedEof = ''unexpected end of input''"
| "io_error_display IoClosed = ''i/o sink is closed''"
| "io_error_display (IoBackend msg) = msg"

fun storage_error_display :: "storage_error \<Rightarrow> string" where
  "storage_error_display (NotFound p) = ''not found: '' @ p"
| "storage_error_display (AlreadyExists p) = ''already exists: '' @ p"
| "storage_error_display (PermissionDenied p) = ''permission denied: '' @ p"
| "storage_error_display (StBackend p msg) = ''backend error at '' @ p @ '': '' @ msg"
| "storage_error_display (StIo e) = io_error_display e"

datatype storage_kind = KFile | KPath | KLink | KSpecial

record storage_info =
  si_path :: path
  si_kind :: storage_kind
  si_size :: nat
  si_modified :: "int option"

record 's storage_ops =
  so_exists :: "path \<Rightarrow> 's \<Rightarrow> (storage_error, bool) result \<times> 's"
  so_list :: "path \<Rightarrow> 's \<Rightarrow> (storage_error, storage_info list) result \<times> 's"
  so_read :: "path \<Rightarrow> 's \<Rightarrow> (storage_error, string) result \<times> 's"
  so_write :: "path \<Rightarrow> string \<Rightarrow> 's \<Rightarrow> (storage_error, unit) result \<times> 's"
  so_write_atomic :: "path \<Rightarrow> string \<Rightarrow> 's \<Rightarrow> (storage_error, unit) result \<times> 's"
  so_remove :: "path \<Rightarrow> bool \<Rightarrow> 's \<Rightarrow> (storage_error, unit) result \<times> 's"
  so_remove_path :: "path \<Rightarrow> bool \<Rightarrow> bool \<Rightarrow> 's \<Rightarrow> (storage_error, unit) result \<times> 's"
  so_is_local :: bool

section \<open>State-passing computations that may fail\<close>

text \<open>The \<open>?\<close> operator over a state-passing operation.\<close>

type_synonym ('s, 'e, 'a) action = "'s \<Rightarrow> ('e, 'a) result \<times> 's"

definition act_ok :: "'a \<Rightarrow> ('s, 'e, 'a) action" where
  "act_ok x = (\<lambda>s. (Inr x, s))"

definition act_err :: "'e \<Rightarrow> ('s, 'e, 'a) action" where
  "act_err e = (\<lambda>s. (Inl e, s))"

definition act_bind ::
  "('s, 'e, 'a) action \<Rightarrow> ('a \<Rightarrow> ('s, 'e, 'b) action) \<Rightarrow> ('s, 'e, 'b) action" where
  "act_bind m f = (\<lambda>s. case m s of (Inl e, t) \<Rightarrow> (Inl e, t) | (Inr x, t) \<Rightarrow> f x t)"

definition act_lift :: "('e, 'a) result \<Rightarrow> ('s, 'e, 'a) action" where
  "act_lift r = (\<lambda>s. (r, s))"

definition act_map_err :: "('e \<Rightarrow> 'f) \<Rightarrow> ('s, 'e, 'a) action \<Rightarrow> ('s, 'f, 'a) action" where
  "act_map_err g m = (\<lambda>s. case m s of (r, t) \<Rightarrow> (map_err g r, t))"

text \<open>\<open>match op { Ok(()) | Err(NotFound) => {}, Err(err) => return Err(err) }\<close>\<close>

definition act_ignore_missing ::
  "('s, storage_error, unit) action \<Rightarrow> ('s, storage_error, unit) action" where
  "act_ignore_missing m = (\<lambda>s. case m s of
       (Inl (NotFound _), t) \<Rightarrow> (Inr (), t)
     | (r, t) \<Rightarrow> (r, t))"

fun act_for :: "('x \<Rightarrow> ('s, 'e, unit) action) \<Rightarrow> 'x list \<Rightarrow> ('s, 'e, unit) action" where
  "act_for f [] = act_ok ()"
| "act_for f (x # xs) = act_bind (f x) (\<lambda>_. act_for f xs)"

named_theorems act_simps \<open>evaluation of the state-passing combinators\<close>

lemma act_ok_app [act_simps]: "act_ok x s = (Inr x, s)"
  by (simp add: act_ok_def)

lemma act_err_app [act_simps]: "act_err e s = (Inl e, s)"
  by (simp add: act_err_def)

lemma act_lift_app [act_simps]: "act_lift r s = (r, s)"
  by (simp add: act_lift_def)

lemma act_bind_Ok: "m s = (Inr x, t) \<Longrightarrow> act_bind m f s = f x t"
  by (simp add: act_bind_def)

lemma act_bind_Err: "m s = (Inl e, t) \<Longrightarrow> act_bind m f s = (Inl e, t)"
  by (simp add: act_bind_def)

lemma act_bind_Inr_iff:
  "act_bind m f s = (Inr y, u) \<longleftrightarrow> (\<exists>x t. m s = (Inr x, t) \<and> f x t = (Inr y, u))"
  by (cases "m s") (auto simp: act_bind_def split: sum.splits)

text \<open>
  A relation between the states before and after, kept by every step, is kept by a computation
  whether it succeeds or fails.
\<close>

definition act_keeps :: "('s \<Rightarrow> 's \<Rightarrow> bool) \<Rightarrow> ('s, 'e, 'a) action \<Rightarrow> bool" where
  "act_keeps R m = (\<forall>s. R s (snd (m s)))"

lemma act_keepsI [intro?]: "(\<And>s. R s (snd (m s))) \<Longrightarrow> act_keeps R m"
  by (simp add: act_keeps_def)

lemma act_keepsD: "act_keeps R m \<Longrightarrow> R s (snd (m s))"
  by (simp add: act_keeps_def)

lemma act_keeps_mono: "act_keeps R m \<Longrightarrow> (\<And>a b. R a b \<Longrightarrow> Q a b) \<Longrightarrow> act_keeps Q m"
  by (simp add: act_keeps_def)

lemma act_keeps_ok [simp]: "reflp R \<Longrightarrow> act_keeps R (act_ok x)"
  by (simp add: act_keeps_def act_ok_def reflpD)

lemma act_keeps_err [simp]: "reflp R \<Longrightarrow> act_keeps R (act_err e)"
  by (simp add: act_keeps_def act_err_def reflpD)

lemma act_keeps_lift [simp]: "reflp R \<Longrightarrow> act_keeps R (act_lift r)"
  by (simp add: act_keeps_def act_lift_def reflpD)

lemma act_keeps_bind:
  assumes "transp R" "act_keeps R m" "\<And>x. act_keeps R (f x)"
  shows "act_keeps R (act_bind m f)"
proof
  fix s
  obtain r t where m: "m s = (r, t)" by (cases "m s")
  with assms(2) have st: "R s t" by (metis act_keepsD snd_conv)
  show "R s (snd (act_bind m f s))"
  proof (cases r)
    case (Inl e)
    with m st show ?thesis by (simp add: act_bind_def)
  next
    case (Inr x)
    with m have "act_bind m f s = f x t" by (simp add: act_bind_def)
    moreover have "R t (snd (f x t))" using assms(3) by (rule act_keepsD)
    ultimately show ?thesis using assms(1) st by (metis transpD)
  qed
qed

lemma snd_act_map_err [simp]: "snd (act_map_err g m s) = snd (m s)"
  by (cases "m s") (simp add: act_map_err_def)

lemma snd_act_ignore_missing [simp]: "snd (act_ignore_missing m s) = snd (m s)"
  by (cases "m s") (simp add: act_ignore_missing_def split: sum.splits storage_error.splits)

lemma act_keeps_map_err [simp]: "act_keeps R (act_map_err g m) = act_keeps R m"
  by (simp add: act_keeps_def)

lemma act_keeps_ignore_missing [simp]: "act_keeps R (act_ignore_missing m) = act_keeps R m"
  by (simp add: act_keeps_def)

lemma act_keeps_for:
  assumes "reflp R" "transp R" "\<And>x. x \<in> set xs \<Longrightarrow> act_keeps R (f x)"
  shows "act_keeps R (act_for f xs)"
  using assms(3) by (induction xs) (auto intro!: act_keeps_bind assms(1,2) simp: assms(1))

section \<open>The contract\<close>

text \<open>
  What callers rely on, over a view of the stored files: \<open>key\<close> is the place a path names and \<open>view\<close>
  the contents of the file there. Reads change nothing; a write or a removal touches only its own
  place (an atomic write also its temporary sibling); an atomic write on a local backend that fails
  leaves the old contents; a recursive removal only deletes, and on success everything below. In a
  healthy state an existing file can be read. The laws say nothing about which operations fail.
\<close>

locale storage =
  fixes ops :: "'s storage_ops"
    and key :: "path \<Rightarrow> string list"
    and view :: "'s \<Rightarrow> string list \<Rightarrow> string option"
    and healthy :: "'s \<Rightarrow> bool"
  assumes exists_view: "view (snd (so_exists ops p s)) = view s"
    and exists_False: "so_exists ops p s = (Ok False, t) \<Longrightarrow> view s (key p) = None"
    and list_view: "view (snd (so_list ops p s)) = view s"
    and read_view: "view (snd (so_read ops p s)) = view s"
    and read_Ok: "so_read ops p s = (Ok b, t) \<Longrightarrow> view s (key p) = Some b"
    and read_healthy: "healthy s \<Longrightarrow> view s (key p) = Some b \<Longrightarrow>
          \<exists>t. so_read ops p s = (Ok b, t) \<and> healthy t"
    and write_frame: "k \<noteq> key p \<Longrightarrow> view (snd (so_write ops p b s)) k = view s k"
    and write_Ok: "so_write ops p b s = (Ok u, t) \<Longrightarrow> view t (key p) = Some b"
    and atomic_frame: "k \<noteq> key p \<Longrightarrow> k \<noteq> key (p @ ''.tmp'') \<Longrightarrow>
          view (snd (so_write_atomic ops p b s)) k = view s k"
    and atomic_Ok: "so_write_atomic ops p b s = (Ok u, t) \<Longrightarrow> view t (key p) = Some b"
    and atomic_Err: "so_is_local ops \<Longrightarrow> so_write_atomic ops p b s = (Err e, t) \<Longrightarrow>
          key p \<noteq> key (p @ ''.tmp'') \<Longrightarrow> view t (key p) = view s (key p)"
    and remove_frame: "k \<noteq> key p \<Longrightarrow> view (snd (so_remove ops p miss s)) k = view s k"
    and remove_Ok: "so_remove ops p miss s = (Ok u, t) \<Longrightarrow> view t (key p) = None"
    and remove_path_frame: "\<not> prefix (key p) k \<Longrightarrow>
          view (snd (so_remove_path ops p True miss s)) k = view s k"
    and remove_path_only: "view (snd (so_remove_path ops p True miss s)) k \<in> {None, view s k}"
    and remove_path_Ok: "so_remove_path ops p True miss s = (Ok u, t) \<Longrightarrow> prefix (key p) k \<Longrightarrow>
          view t k = None"
begin

text \<open>Everything outside a set of places is kept.\<close>

definition untouched :: "string list set \<Rightarrow> 's \<Rightarrow> 's \<Rightarrow> bool" where
  "untouched K s t = (\<forall>k. k \<notin> K \<longrightarrow> view t k = view s k)"

lemma untouched_refl [simp]: "reflp (untouched K)"
  by (simp add: reflp_def untouched_def)

lemma untouched_trans [simp]: "transp (untouched K)"
  by (simp add: transp_def untouched_def)

lemma untouched_mono: "untouched K s t \<Longrightarrow> K \<subseteq> L \<Longrightarrow> untouched L s t"
  by (auto simp: untouched_def)

lemma keeps_mono: "act_keeps (untouched K) m \<Longrightarrow> K \<subseteq> L \<Longrightarrow> act_keeps (untouched L) m"
  by (erule act_keeps_mono) (rule untouched_mono)

lemma untouched_reads [simp]:
  "act_keeps (untouched K) (so_exists ops p)" "act_keeps (untouched K) (so_list ops p)"
  "act_keeps (untouched K) (so_read ops p)"
  by (simp_all add: act_keeps_def untouched_def exists_view list_view read_view)

lemma untouched_write: "key p \<in> K \<Longrightarrow> act_keeps (untouched K) (so_write ops p b)"
  by (auto simp: act_keeps_def untouched_def intro!: write_frame)

lemma untouched_atomic:
  "key p \<in> K \<Longrightarrow> key (p @ ''.tmp'') \<in> K \<Longrightarrow> act_keeps (untouched K) (so_write_atomic ops p b)"
  unfolding act_keeps_def untouched_def by (metis atomic_frame)

lemma untouched_remove: "key p \<in> K \<Longrightarrow> act_keeps (untouched K) (so_remove ops p miss)"
  by (auto simp: act_keeps_def untouched_def intro!: remove_frame)

lemma untouched_remove_path:
  "{k. prefix (key p) k} \<subseteq> K \<Longrightarrow> act_keeps (untouched K) (so_remove_path ops p True miss)"
  unfolding act_keeps_def untouched_def by (metis mem_Collect_eq remove_path_frame subsetD)

end

end
