(* ===== verification/Command_Base.thy ===== *)
theory Command_Base
  imports Config_Types Storage
begin

text \<open>
  What every command of \<open>crates/pgbr-command\<close> shares: \<open>CommandError\<close> (\<open>lib.rs\<close>), the option
  lookups and the cipher resolution of \<open>cipher.rs\<close>, and the \<open>Debug\<close> rendering of option values
  that the error messages embed.
\<close>

section \<open>Errors\<close>

datatype command_error =
    UnknownCommand string
  | NotYetImplemented string
  | MissingOption string
  | CmdStorage storage_error
  | CmdIo io_error
  | CmdOther string

fun command_error_display :: "command_error \<Rightarrow> string" where
  "command_error_display (UnknownCommand c) = ''unknown command: '' @ c"
| "command_error_display (NotYetImplemented c) =
     ''command `'' @ c @ ''` is not yet implemented in the Rust port''"
| "command_error_display (MissingOption opt) = ''required option `'' @ opt @ ''` is missing''"
| "command_error_display (CmdStorage e) = storage_error_display e"
| "command_error_display (CmdIo e) = io_error_display e"
| "command_error_display (CmdOther msg) = msg"

section \<open>Debug rendering of option values\<close>

fun option_value_debug :: "option_value \<Rightarrow> string" where
  "option_value_debug (OvBoolean b) = (if b then ''Boolean(true)'' else ''Boolean(false)'')"
| "option_value_debug (OvInteger i) = ''Integer('' @ fmt_int i @ '')''"
| "option_value_debug (OvSize n) = ''Size('' @ fmt_dec n @ '')''"
| "option_value_debug (OvTime n) = ''Time('' @ fmt_dec n @ '')''"
| "option_value_debug (OvPath s) = ''Path('' @ debug_str s @ '')''"
| "option_value_debug (OvString s) = ''String('' @ debug_str s @ '')''"
| "option_value_debug (OvStringId s) = ''StringId('' @ debug_str s @ '')''"
| "option_value_debug (OvList xs) = ''List(['' @ join_with '', '' (map debug_str xs) @ ''])''"
| "option_value_debug (OvHash kvs) =
     ''Hash({'' @ join_with '', '' (map (\<lambda>(k, v). debug_str k @ '': '' @ debug_str v) kvs) @ ''})''"

section \<open>Repository selection and passphrase\<close>

definition active_repo_index :: "loaded_config \<Rightarrow> nat" where
  "active_repo_index config = (case config_get config ''repo'' None of
       Some (OvInteger n) \<Rightarrow> if n \<ge> 1 then (if n < int u32_bound then nat n else 1) else 1
     | _ \<Rightarrow> 1)"

datatype cipher_type = CipherNone | CipherAes256Cbc

definition cipher_from_str_id :: "string \<Rightarrow> cipher_type" where
  "cipher_from_str_id v = (if v = ''aes-256-cbc'' then CipherAes256Cbc else CipherNone)"

fun cipher_as_str_id :: "cipher_type \<Rightarrow> string" where
  "cipher_as_str_id CipherNone = ''none''"
| "cipher_as_str_id CipherAes256Cbc = ''aes-256-cbc''"

definition is_encrypted :: "cipher_type \<Rightarrow> bool" where
  "is_encrypted t = (t = CipherAes256Cbc)"

definition repo_string_id :: "loaded_config \<Rightarrow> string \<Rightarrow> nat \<Rightarrow> string option" where
  "repo_string_id config name index = (case config_get config name (Some index) of
       Some (OvStringId v) \<Rightarrow> Some v
     | _ \<Rightarrow> None)"

definition repo_string :: "loaded_config \<Rightarrow> string \<Rightarrow> nat \<Rightarrow> string option" where
  "repo_string config name index = (case config_get config name (Some index) of
       Some (OvString v) \<Rightarrow> Some v
     | _ \<Rightarrow> None)"

definition repo_cipher_type :: "loaded_config \<Rightarrow> nat \<Rightarrow> cipher_type" where
  "repo_cipher_type config index = (case repo_string_id config ''repo-cipher-type'' index of
       None \<Rightarrow> CipherNone
     | Some v \<Rightarrow> cipher_from_str_id v)"

definition repo_user_pass :: "loaded_config \<Rightarrow> nat \<Rightarrow> (command_error, string option) result" where
  "repo_user_pass config index =
     (if \<not> is_encrypted (repo_cipher_type config index) then Ok None
      else (case repo_string config ''repo-cipher-pass'' index of
          Some pass \<Rightarrow> if pass \<noteq> [] then Ok (Some pass) else Err (MissingOption ''repo-cipher-pass'')
        | None \<Rightarrow> Err (MissingOption ''repo-cipher-pass'')))"

definition active_user_pass :: "loaded_config \<Rightarrow> (command_error, string option) result" where
  "active_user_pass config = repo_user_pass config (active_repo_index config)"

lemma cipher_round_trip [simp]: "cipher_from_str_id (cipher_as_str_id t) = t"
  by (cases t) (simp_all add: cipher_from_str_id_def)

text \<open>
  An encrypted repository never proceeds without a passphrase, an unencrypted one never carries one.
\<close>

lemma repo_user_pass_cases:
  "repo_user_pass config i = Ok p \<Longrightarrow>
   (case p of None \<Rightarrow> repo_cipher_type config i = CipherNone
            | Some s \<Rightarrow> repo_cipher_type config i = CipherAes256Cbc \<and> s \<noteq> [])"
  by (cases "repo_cipher_type config i"; cases "repo_string config ''repo-cipher-pass'' i"; cases p)
     (auto simp: repo_user_pass_def is_encrypted_def split: if_splits)

end
