(* ===== verification/Json_Api.thy ===== *)
theory Json_Api
  imports Rust_Num
begin

text \<open>
  The JSON values of the source are \<open>serde_json::Value\<close>, which is not part of the repository. The
  definitions that read them take the accessors they use as a record of functions over an
  arbitrary type of values; nothing is assumed of these functions beyond what a theorem states.
\<close>

record 'j json_api =
  j_get :: "'j \<Rightarrow> string \<Rightarrow> 'j option"
  j_as_str :: "'j \<Rightarrow> string option"
  j_as_i64 :: "'j \<Rightarrow> int option"
  j_as_u64 :: "'j \<Rightarrow> nat option"
  j_as_array :: "'j \<Rightarrow> 'j list option"

text \<open>An instance for the concrete inputs of the witnesses.\<close>

datatype sample_json =
    SStr string
  | SInt int
  | SArr "sample_json list"
  | SObj "(string \<times> sample_json) list"

fun sample_get :: "sample_json \<Rightarrow> string \<Rightarrow> sample_json option" where
  "sample_get (SObj kvs) k = map_of kvs k"
| "sample_get _ k = None"

fun sample_as_str :: "sample_json \<Rightarrow> string option" where
  "sample_as_str (SStr s) = Some s"
| "sample_as_str _ = None"

fun sample_as_i64 :: "sample_json \<Rightarrow> int option" where
  "sample_as_i64 (SInt i) = Some i"
| "sample_as_i64 _ = None"

fun sample_as_u64 :: "sample_json \<Rightarrow> nat option" where
  "sample_as_u64 (SInt i) = (if 0 \<le> i then Some (nat i) else None)"
| "sample_as_u64 _ = None"

fun sample_as_array :: "sample_json \<Rightarrow> sample_json list option" where
  "sample_as_array (SArr xs) = Some xs"
| "sample_as_array _ = None"

definition sample_api :: "sample_json json_api" where
  "sample_api = \<lparr>j_get = sample_get, j_as_str = sample_as_str, j_as_i64 = sample_as_i64,
     j_as_u64 = sample_as_u64, j_as_array = sample_as_array\<rparr>"

end
