(* ===== verification/Expire_Retention.thy ===== *)
theory Expire_Retention
  imports Command_Base Json_Api
begin

text \<open>
  Backup retention of the \<open>expire\<close> command (\<open>crates/pgbr-command/src/expire.rs\<close>): the accessors of a
  \<open>[backup:current]\<close> entry, the retention options, the dependency closure of the adhoc modes and the
  decision which backups the full and differential policies keep.
\<close>

section \<open>Accessors of a backup.info entry\<close>

definition timestamp_stop :: "'j json_api \<Rightarrow> 'j \<Rightarrow> int" where
  "timestamp_stop J v = (case j_get J v ''backup-timestamp-stop'' of
       None \<Rightarrow> 0
     | Some x \<Rightarrow> (case j_as_i64 J x of None \<Rightarrow> 0 | Some n \<Rightarrow> n))"

definition backup_type :: "'j json_api \<Rightarrow> 'j \<Rightarrow> string" where
  "backup_type J v = (case j_get J v ''backup-type'' of
       None \<Rightarrow> []
     | Some x \<Rightarrow> (case j_as_str J x of None \<Rightarrow> [] | Some s \<Rightarrow> s))"

definition backup_references :: "'j json_api \<Rightarrow> 'j \<Rightarrow> string list" where
  "backup_references J v = (case j_get J v ''backup-reference'' of
       None \<Rightarrow> []
     | Some x \<Rightarrow> (case j_as_array J x of
           None \<Rightarrow> []
         | Some arr \<Rightarrow> List.map_filter (j_as_str J) arr))"

definition backup_archive_start :: "'j json_api \<Rightarrow> 'j \<Rightarrow> string option" where
  "backup_archive_start J v = (case j_get J v ''backup-archive-start'' of
       None \<Rightarrow> None | Some x \<Rightarrow> j_as_str J x)"

definition backup_archive_stop :: "'j json_api \<Rightarrow> 'j \<Rightarrow> string option" where
  "backup_archive_stop J v = (case j_get J v ''backup-archive-stop'' of
       None \<Rightarrow> None | Some x \<Rightarrow> j_as_str J x)"

definition backup_pg_id :: "'j json_api \<Rightarrow> 'j \<Rightarrow> nat option" where
  "backup_pg_id J v = (case j_get J v ''db-id'' of
       None \<Rightarrow> None
     | Some x \<Rightarrow> (case j_as_u64 J x of
           None \<Rightarrow> None
         | Some n \<Rightarrow> if n < u32_bound then Some n else None))"

section \<open>Options\<close>

definition process_max :: "loaded_config \<Rightarrow> nat" where
  "process_max config = (case config_get config ''process-max'' None of
       Some (OvInteger value) \<Rightarrow>
         if value \<ge> 1 then (if value < int u64_bound then nat value else 1) else 1
     | _ \<Rightarrow> 1)"

definition local_repo_root :: "loaded_config \<Rightarrow> nat \<Rightarrow> path option" where
  "local_repo_root config repo_index =
     (case (case config_get config ''repo-path'' (Some repo_index) of
              Some opt \<Rightarrow> Some opt
            | None \<Rightarrow> config_get config ''repo-path'' None) of
        Some (OvPath s) \<Rightarrow> if s \<noteq> [] then Some s else None
      | Some (OvString s) \<Rightarrow> if s \<noteq> [] then Some s else None
      | _ \<Rightarrow> None)"

definition set_option :: "loaded_config \<Rightarrow> string option" where
  "set_option config = (case config_get config ''set'' None of
       Some (OvString s) \<Rightarrow> Some s
     | Some (OvStringId s) \<Rightarrow> Some s
     | _ \<Rightarrow> None)"

definition oldest_option :: "loaded_config \<Rightarrow> bool" where
  "oldest_option config = (config_get config ''oldest'' None = Some (OvBoolean True))"

definition dry_run_option :: "loaded_config \<Rightarrow> bool" where
  "dry_run_option config = (config_get config ''dry-run'' None = Some (OvBoolean True))"

definition retention_option :: "loaded_config \<Rightarrow> string \<Rightarrow> nat \<Rightarrow> option_value option" where
  "retention_option config name repo_index =
     (case config_get config name (Some repo_index) of
        Some v \<Rightarrow> Some v
      | None \<Rightarrow> config_get config name None)"

text \<open>\<open>u32::try_from(n)\<close> of a positive count, and the two error texts of the lookups.\<close>

definition retention_count :: "string \<Rightarrow> int \<Rightarrow> (command_error, nat option) result" where
  "retention_count name n =
     (if n < int u32_bound then Ok (Some (nat n))
      else Err (CmdOther (name @ '' out of range: '' @ fmt_int n)))"

definition must_be_integer :: "string \<Rightarrow> option_value \<Rightarrow> command_error" where
  "must_be_integer name other =
     CmdOther (name @ '' must be an integer, got '' @ option_value_debug other)"

definition retention_full :: "loaded_config \<Rightarrow> nat \<Rightarrow> (command_error, nat option) result" where
  "retention_full config repo_index =
     (case retention_option config ''repo-retention-full'' repo_index of
        None \<Rightarrow> Ok None
      | Some (OvInteger n) \<Rightarrow>
          if n \<le> 0 then Ok (Some 0) else retention_count ''repo-retention-full'' n
      | Some other \<Rightarrow> Err (must_be_integer ''repo-retention-full'' other))"

datatype retention_full_kind = RtCount | RtTime

definition retention_full_type :: "loaded_config \<Rightarrow> nat \<Rightarrow> retention_full_kind" where
  "retention_full_type config repo_index =
     (case retention_option config ''repo-retention-full-type'' repo_index of
        Some (OvString s) \<Rightarrow> if eq_ignore_ascii_case s ''time'' then RtTime else RtCount
      | Some (OvStringId s) \<Rightarrow> if eq_ignore_ascii_case s ''time'' then RtTime else RtCount
      | _ \<Rightarrow> RtCount)"

definition retention_diff :: "loaded_config \<Rightarrow> nat \<Rightarrow> (command_error, nat option) result" where
  "retention_diff config repo_index =
     (case retention_option config ''repo-retention-diff'' repo_index of
        None \<Rightarrow> Ok None
      | Some (OvInteger n) \<Rightarrow>
          if n \<le> 0 then Ok None else retention_count ''repo-retention-diff'' n
      | Some other \<Rightarrow> Err (must_be_integer ''repo-retention-diff'' other))"

definition retention_history :: "loaded_config \<Rightarrow> nat \<Rightarrow> (command_error, nat option) result" where
  "retention_history config repo_index =
     (case retention_option config ''repo-retention-history'' repo_index of
        None \<Rightarrow> Ok None
      | Some (OvInteger n) \<Rightarrow>
          if n \<le> 0 then Ok None else retention_count ''repo-retention-history'' n
      | Some other \<Rightarrow> Err (must_be_integer ''repo-retention-history'' other))"

definition retention_archive :: "loaded_config \<Rightarrow> nat \<Rightarrow> (command_error, nat option) result" where
  "retention_archive config repo_index =
     (case retention_option config ''repo-retention-archive'' repo_index of
        None \<Rightarrow> Ok None
      | Some (OvInteger n) \<Rightarrow>
          if n \<le> 0 then Ok None else retention_count ''repo-retention-archive'' n
      | Some other \<Rightarrow> Err (must_be_integer ''repo-retention-archive'' other))"

section \<open>Dependency closure\<close>

text \<open>
  \<open>dependent_closure\<close>: one pass over the entries extends the set in place and records whether it
  grew; passes repeat until none grows.
\<close>

definition closure_visit ::
  "'j json_api \<Rightarrow> string \<times> 'j \<Rightarrow> bool \<times> string list \<Rightarrow> bool \<times> string list" where
  "closure_visit J entry st =
     (let (label, value) = entry; (grew, expire) = st in
      if label \<in> set expire then (grew, expire)
      else if list_ex (\<lambda>r. r \<in> set expire) (backup_references J value)
      then (True, bs_insert label expire)
      else (grew, expire))"

definition closure_pass :: "'j json_api \<Rightarrow> (string, 'j) btree \<Rightarrow> string list \<Rightarrow> bool \<times> string list"
  where "closure_pass J current expire = fold (closure_visit J) current (False, expire)"

text \<open>Every visit only adds labels of the map, and \<open>grew\<close> tells whether one was added.\<close>

lemma closure_visit_fold:
  assumes "fold (closure_visit J) entries (g, e) = (g', e')"
  shows "set e \<subseteq> set e' \<and> set e' \<subseteq> set e \<union> fst ` set entries \<and>
         (g' \<longleftrightarrow> g \<or> \<not> set e' \<subseteq> set e)"
  using assms
proof (induction entries arbitrary: g e)
  case (Cons entry entries)
  obtain l v where entry: "entry = (l, v)" by (cases entry)
  show ?case
  proof (cases "l \<notin> set e \<and> list_ex (\<lambda>r. r \<in> set e) (backup_references J v)")
    case True
    then have "closure_visit J entry (g, e) = (True, bs_insert l e)"
      by (simp add: closure_visit_def entry)
    with Cons.prems have "fold (closure_visit J) entries (True, bs_insert l e) = (g', e')" by simp
    from Cons.IH [OF this] True show ?thesis by (auto simp: entry)
  next
    case False
    then have "closure_visit J entry (g, e) = (g, e)"
      by (auto simp: closure_visit_def entry)
    with Cons.prems have "fold (closure_visit J) entries (g, e) = (g', e')" by simp
    from Cons.IH [OF this] show ?thesis by (auto simp: entry)
  qed
qed simp

lemma closure_pass_props:
  assumes "closure_pass J current e = (g, e')"
  shows "set e \<subseteq> set e'" "set e' \<subseteq> set e \<union> fst ` set current" "g \<longleftrightarrow> \<not> set e' \<subseteq> set e"
  using closure_visit_fold [of J current False e g e'] assms by (auto simp: closure_pass_def)

function dependent_loop ::
  "'j json_api \<Rightarrow> (string, 'j) btree \<Rightarrow> string list \<Rightarrow> string list" where
  "dependent_loop J current expire =
     (case closure_pass J current expire of (grew, e) \<Rightarrow>
        if grew then dependent_loop J current e else e)"
  by pat_completeness auto
termination
proof (relation "measure (\<lambda>(J, current, expire). card (fst ` set current - set expire))")
  fix J :: "'j json_api" and current :: "(string, 'j) btree" and expire grew e
  assume "(grew, e) = closure_pass J current expire" and grew
  then have "closure_pass J current expire = (grew, e)" by simp
  from closure_pass_props [OF this] \<open>grew\<close>
  have "fst ` set current - set e \<subset> fst ` set current - set expire" by auto
  then show "((J, current, e), (J, current, expire))
      \<in> measure (\<lambda>(J, current, expire). card (fst ` set current - set expire))"
    by (simp add: psubset_card_mono)
qed simp

declare dependent_loop.simps [simp del]

definition dependent_closure :: "'j json_api \<Rightarrow> (string, 'j) btree \<Rightarrow> string list \<Rightarrow> string list"
  where "dependent_closure J current seed = dependent_loop J current (bs_of seed)"

definition remaining_full_count :: "'j json_api \<Rightarrow> (string, 'j) btree \<Rightarrow> string list \<Rightarrow> nat" where
  "remaining_full_count J current expire =
     length (filter (\<lambda>(label, value). label \<notin> set expire \<and> backup_type J value = ''full'') current)"

text \<open>
  The specification: the labels from which a chain of references leads to a seed.
\<close>

inductive_set dependents :: "'j json_api \<Rightarrow> (string, 'j) btree \<Rightarrow> string list \<Rightarrow> string set"
  for J current seed where
  dep_seed: "l \<in> set seed \<Longrightarrow> l \<in> dependents J current seed"
| dep_ref: "(l, v) \<in> set current \<Longrightarrow> r \<in> set (backup_references J v) \<Longrightarrow>
     r \<in> dependents J current seed \<Longrightarrow> l \<in> dependents J current seed"

text \<open>A pass stays inside every closed set, and a pass that does not grow leaves a closed set.\<close>

lemma closure_visit_fold_inside:
  assumes "fold (closure_visit J) entries (g, e) = (g', e')" "set entries \<subseteq> set current"
    and "set e \<subseteq> dependents J current seed"
  shows "set e' \<subseteq> dependents J current seed"
  using assms
proof (induction entries arbitrary: g e)
  case (Cons entry entries)
  obtain l v where entry: "entry = (l, v)" by (cases entry)
  obtain g1 e1 where visit: "closure_visit J entry (g, e) = (g1, e1)"
    by (cases "closure_visit J entry (g, e)")
  have "set e1 \<subseteq> dependents J current seed"
  proof (cases "l \<notin> set e \<and> list_ex (\<lambda>r. r \<in> set e) (backup_references J v)")
    case True
    then obtain r where "r \<in> set (backup_references J v)" "r \<in> set e" by (auto simp: list_ex_iff)
    then have "l \<in> dependents J current seed"
      using Cons.prems entry by (intro dep_ref [of l v _ r]) auto
    with True visit Cons.prems show ?thesis by (auto simp: closure_visit_def entry)
  next
    case False
    with visit Cons.prems show ?thesis by (auto simp: closure_visit_def entry split: if_splits)
  qed
  with Cons.IH [of g1 e1] Cons.prems visit show ?case by simp
qed simp

lemma closure_visit_fold_closed:
  assumes "fold (closure_visit J) entries (g, e) = (g', e')" "set e' \<subseteq> set e"
    and "(l, v) \<in> set entries" "r \<in> set (backup_references J v)" "r \<in> set e"
  shows "l \<in> set e"
  using assms
proof (induction entries arbitrary: g e)
  case (Cons entry entries)
  obtain m w where entry: "entry = (m, w)" by (cases entry)
  obtain g1 e1 where visit: "closure_visit J entry (g, e) = (g1, e1)"
    by (cases "closure_visit J entry (g, e)")
  have rest: "fold (closure_visit J) entries (g1, e1) = (g', e')"
    using Cons.prems visit by simp
  have one: "set e \<subseteq> set e1" "m \<in> set e1 \<or> \<not> list_ex (\<lambda>r. r \<in> set e) (backup_references J w)"
    using visit by (auto simp: closure_visit_def entry split: if_splits)
  have "set e1 \<subseteq> set e'" using closure_visit_fold [OF rest] by simp
  with Cons.prems(2) one have same: "set e1 = set e" by auto
  show ?case
  proof (cases "(l, v) = entry")
    case True
    with Cons.prems(4,5) have "list_ex (\<lambda>r. r \<in> set e) (backup_references J w)"
      by (auto simp: list_ex_iff entry)
    with one(2) same True entry show ?thesis by simp
  next
    case False
    then show ?thesis using Cons.IH [OF rest] Cons.prems same by simp
  qed
qed simp

lemma dependent_loop_inside:
  "set e \<subseteq> dependents J current seed \<Longrightarrow> set (dependent_loop J current e) \<subseteq> dependents J current seed"
proof (induction J current e rule: dependent_loop.induct)
  case (1 J current e)
  obtain g e' where pass: "closure_pass J current e = (g, e')" by (cases "closure_pass J current e")
  then have "set e' \<subseteq> dependents J current seed"
    using closure_visit_fold_inside [of J current False e g e'] 1(2) by (simp add: closure_pass_def)
  then show ?case using 1(1) pass by (subst dependent_loop.simps) simp
qed

lemma dependent_loop_closed:
  assumes "(l, v) \<in> set current" "r \<in> set (backup_references J v)"
    and "r \<in> set (dependent_loop J current e)"
  shows "l \<in> set (dependent_loop J current e)"
  using assms
proof (induction J current e rule: dependent_loop.induct)
  case (1 J current e)
  obtain g e' where pass: "closure_pass J current e = (g, e')" by (cases "closure_pass J current e")
  show ?case
  proof (cases g)
    case True
    then show ?thesis using 1 pass by (subst dependent_loop.simps) (simp add: dependent_loop.simps [of J current e])
  next
    case False
    then have eq: "set e' = set e" using closure_pass_props [OF pass] by auto
    have loop: "dependent_loop J current e = e'" using pass False by (simp add: dependent_loop.simps)
    show ?thesis
      using closure_visit_fold_closed [of J current False e g e' l v r] pass 1(2-4) eq loop
      by (simp add: closure_pass_def)
  qed
qed

lemma dependent_loop_extends: "set e \<subseteq> set (dependent_loop J current e)"
proof (induction J current e rule: dependent_loop.induct)
  case (1 J current e)
  obtain g e' where pass: "closure_pass J current e = (g, e')" by (cases "closure_pass J current e")
  then show ?case
    using 1 closure_pass_props(1) [OF pass] by (subst dependent_loop.simps) auto
qed

lemma set_dependent_closure:
  "set (dependent_closure J current seed) = dependents J current seed"
proof
  show "set (dependent_closure J current seed) \<subseteq> dependents J current seed"
    unfolding dependent_closure_def
    by (rule dependent_loop_inside) (auto intro: dep_seed)
  show "dependents J current seed \<subseteq> set (dependent_closure J current seed)"
  proof
    fix l
    assume "l \<in> dependents J current seed"
    then show "l \<in> set (dependent_closure J current seed)"
    proof induction
      case (dep_seed l)
      then show ?case
        using dependent_loop_extends [of "bs_of seed" J current] by (auto simp: dependent_closure_def)
    next
      case (dep_ref l v r)
      then show ?case unfolding dependent_closure_def by (blast intro: dependent_loop_closed)
    qed
  qed
qed

lemma sorted_closure_visit_fold:
  "sorted_wrt (<) (snd st) \<Longrightarrow> sorted_wrt (<) (snd (fold (closure_visit J) entries st))"
proof (induction entries arbitrary: st)
  case (Cons entry entries)
  have "sorted_wrt (<) (snd (closure_visit J entry st))"
    using Cons.prems by (cases st; cases entry) (auto simp: closure_visit_def)
  with Cons.IH show ?case by simp
qed simp

lemma sorted_dependent_closure: "sorted_wrt (<) (dependent_closure J current seed)"
proof -
  have "sorted_wrt (<) e \<Longrightarrow> sorted_wrt (<) (dependent_loop J current e)" for e
  proof (induction J current e rule: dependent_loop.induct)
    case (1 J current e)
    obtain g e' where pass: "closure_pass J current e = (g, e')"
      by (cases "closure_pass J current e")
    then have "sorted_wrt (<) e'"
      using sorted_closure_visit_fold [of "(False, e)" J current] 1(2)
      by (simp add: closure_pass_def)
    then show ?case using 1(1) pass by (subst dependent_loop.simps) simp
  qed
  then show ?thesis by (simp add: dependent_closure_def)
qed

lemma closure_leaves_no_reference:
  assumes "(l, v) \<in> set current" "l \<notin> set (dependent_closure J current seed)"
    and "r \<in> set (backup_references J v)"
  shows "r \<notin> set (dependent_closure J current seed)"
  using assms dep_ref [of l v current r J seed] unfolding set_dependent_closure by blast

text \<open>C16. The closure that adhoc expiry removes is exactly the set of backups from which a chain of
  references, of any length, leads to a seed, listed in ascending order without repetition; the
  references of the backups outside it never lead into it.\<close>

theorem dependent_closure_exact:
  "set (dependent_closure J current seed) = dependents J current seed \<and>
   sorted_wrt (<) (dependent_closure J current seed) \<and>
   (\<Union>(l, v) \<in> {(l, v) \<in> set current. l \<notin> set (dependent_closure J current seed)}.
      set (backup_references J v)) \<inter> set (dependent_closure J current seed) = {}"
  using set_dependent_closure [of J current seed] sorted_dependent_closure [of J current seed]
    closure_leaves_no_reference [of _ _ current J seed] by fast

section \<open>Full and differential retention\<close>

text \<open>The entries, oldest first by stop time and then label.\<close>

type_synonym 'j entries = "(string \<times> 'j) list"

definition entry_le :: "'j json_api \<Rightarrow> string \<times> 'j \<Rightarrow> string \<times> 'j \<Rightarrow> bool" where
  "entry_le J a b =
     (timestamp_stop J (snd a) < timestamp_stop J (snd b) \<or>
      (timestamp_stop J (snd a) = timestamp_stop J (snd b) \<and> fst a \<le> fst b))"

definition sort_entries :: "'j json_api \<Rightarrow> (string, 'j) btree \<Rightarrow> 'j entries" where
  "sort_entries J current = sort_by (entry_le J) current"

definition is_type :: "'j json_api \<Rightarrow> string \<Rightarrow> string \<times> 'j \<Rightarrow> bool" where
  "is_type J ty e = (backup_type J (snd e) = ty)"

definition mark_full ::
  "'j json_api \<Rightarrow> 'j entries \<Rightarrow> nat \<Rightarrow> bool list \<times> int option \<Rightarrow> bool list \<times> int option" where
  "mark_full J entries idx st =
     (let (keep_label, last_full_ts) = st; ts = timestamp_stop J (snd (entries ! idx)) in
      (keep_label[idx := True],
       Some (case last_full_ts of None \<Rightarrow> ts | Some c \<Rightarrow> min c ts)))"

definition full_retention_keep ::
  "'j json_api \<Rightarrow> 'j entries \<Rightarrow> nat \<Rightarrow> retention_full_kind \<Rightarrow> int \<Rightarrow> bool list \<times> int option" where
  "full_retention_keep J entries keep_full full_type now_secs =
     (let keep_label = replicate (length entries) False in
      if keep_full = 0 then (keep_label, None)
      else
        let full_idxs = filter (\<lambda>i. is_type J ''full'' (entries ! i)) [0..<length entries] in
        case full_type of
          RtCount \<Rightarrow>
            fold (mark_full J entries) (drop (length full_idxs - keep_full) full_idxs)
              (keep_label, None)
        | RtTime \<Rightarrow>
            let cutoff = now_secs - int keep_full * 86400;
                (keep, last_full_ts) = fold (\<lambda>idx st.
                    if cutoff \<le> timestamp_stop J (snd (entries ! idx))
                    then mark_full J entries idx st else st) full_idxs (keep_label, None)
            in if last_full_ts = None \<and> full_idxs \<noteq> []
               then (keep[last full_idxs := True],
                     Some (timestamp_stop J (snd (entries ! last full_idxs))))
               else (keep, last_full_ts))"

text \<open>The loop of \<open>expire_inner\<close> that keeps what hangs off a retained full.\<close>

definition keep_chain :: "'j json_api \<Rightarrow> 'j entries \<Rightarrow> bool list \<Rightarrow> int option \<Rightarrow> bool list" where
  "keep_chain J entries keep_label cutoff_full_ts = (case cutoff_full_ts of
       None \<Rightarrow> keep_label
     | Some cutoff \<Rightarrow>
         map2 (\<lambda>e k. k \<or> (cutoff \<le> timestamp_stop J (snd e) \<and> \<not> is_type J ''full'' e))
           entries keep_label)"

definition apply_diff_retention ::
  "'j json_api \<Rightarrow> 'j entries \<Rightarrow> bool list \<Rightarrow> nat \<Rightarrow> bool list" where
  "apply_diff_retention J entries keep_label keep_diff =
     (let kept_diffs = sort_by (\<lambda>a b. entry_le J (entries ! b) (entries ! a))
            (filter (\<lambda>i. keep_label ! i \<and> is_type J ''diff'' (entries ! i)) [0..<length entries]) in
      if length kept_diffs \<le> keep_diff then keep_label
      else
        let drop_diff_labels = bs_of (map (\<lambda>i. fst (entries ! i)) (drop keep_diff kept_diffs)) in
        map2 (\<lambda>e k. k \<and>
            \<not> (is_type J ''diff'' e \<and> fst e \<in> set drop_diff_labels) \<and>
            \<not> (is_type J ''incr'' e \<and>
               list_ex (\<lambda>r. r \<in> set drop_diff_labels) (backup_references J (snd e))))
          entries keep_label)"

text \<open>The keep flags of \<open>expire_inner\<close>, and the partition of the labels by them.\<close>

definition retention_keep ::
  "'j json_api \<Rightarrow> 'j entries \<Rightarrow> nat \<Rightarrow> retention_full_kind \<Rightarrow> nat option \<Rightarrow> int \<Rightarrow> bool list" where
  "retention_keep J entries keep_full full_type keep_diff now_secs =
     (let (keep_label, cutoff_full_ts) =
            full_retention_keep J entries keep_full full_type now_secs;
          chain = keep_chain J entries keep_label cutoff_full_ts
      in case keep_diff of
           None \<Rightarrow> chain
         | Some n \<Rightarrow> apply_diff_retention J entries chain n)"

subsection \<open>What the flags select\<close>

lemma mark_full_app:
  "mark_full J entries i (keep, old) =
     (keep[i := True],
      Some (Min (insert (timestamp_stop J (snd (entries ! i))) (Option.set_option old))))"
  by (cases old) (simp_all add: mark_full_def Let_def min.commute)

lemma mark_full_fold:
  assumes "fold (mark_full J entries) idxs (keep, old) = (keep', old')"
    and "\<And>i. i \<in> set idxs \<Longrightarrow> i < length keep"
  shows "length keep' = length keep \<and>
         (\<forall>i < length keep. keep' ! i = (keep ! i \<or> i \<in> set idxs)) \<and>
         old' = (if idxs = [] then old else
           Some (Min ((\<lambda>i. timestamp_stop J (snd (entries ! i))) ` set idxs \<union> Option.set_option old)))"
  using assms
proof (induction idxs arbitrary: keep old)
  case (Cons i idxs)
  let ?f = "\<lambda>i. timestamp_stop J (snd (entries ! i))"
  let ?new = "Some (Min (insert (?f i) (Option.set_option old)))"
  have "fold (mark_full J entries) idxs (keep[i := True], ?new) = (keep', old')"
    using Cons.prems(1) by (simp add: mark_full_app)
  from Cons.IH [OF this] Cons.prems(2)
  have IH: "length keep' = length keep"
      "\<forall>k < length keep. keep' ! k = (keep[i := True] ! k \<or> k \<in> set idxs)"
    and old': "old' = (if idxs = [] then ?new else Some (Min (?f ` set idxs \<union> Option.set_option ?new)))"
    by auto
  have "finite (Option.set_option old)" by (cases old) auto
  then have "Min (?f ` set idxs \<union> Option.set_option ?new)
      = Min (?f ` set (i # idxs) \<union> Option.set_option old)" if "idxs \<noteq> []"
    using that by (cases "Option.set_option old = {}") (auto simp: min.left_commute Min_Un insert_commute)
  then have "old' = Some (Min (?f ` set (i # idxs) \<union> Option.set_option old))"
    using old' by (cases "idxs = []") auto
  with IH show ?case using Cons.prems(2) by (auto simp: nth_list_update)
qed simp

lemma full_keep_flags:
  assumes "length keep = length entries" "distinct idxs" "sorted idxs"
    and "\<And>i. i < length entries \<Longrightarrow> keep ! i = (i \<in> set idxs)" "\<And>i. i \<in> set idxs \<Longrightarrow> i < length entries"
  shows "selected keep entries = map ((!) entries) idxs"
proof -
  have "filter ((!) keep) [0..<length entries] = filter (\<lambda>i. i \<in> set idxs) [0..<length entries]"
    using assms(4) by (intro filter_cong) auto
  also have "\<dots> = idxs"
    using assms(2,3,5) by (intro sorted_distinct_set_unique sorted_wrt_filter) auto
  finally show ?thesis using selected_by_index [OF assms(1)] by simp
qed

lemma full_retention_count_aux:
  fixes J :: "'j json_api" and entries :: "'j entries" and n :: nat and now :: int
  defines "fulls \<equiv> filter (is_type J ''full'') entries"
  assumes "0 < n"
  defines "kept \<equiv> drop (length fulls - n) fulls"
  shows "length (fst (full_retention_keep J entries n RtCount now)) = length entries \<and>
    selected (fst (full_retention_keep J entries n RtCount now)) entries = kept \<and>
    snd (full_retention_keep J entries n RtCount now) =
      (if kept = [] then None else Some (Min ((\<lambda>e. timestamp_stop J (snd e)) ` set kept)))"
proof -
  define all where "all = filter (\<lambda>i. is_type J ''full'' (entries ! i)) [0..<length entries]"
  define idxs where "idxs = drop (length all - n) all"
  obtain keep cut where run:
    "fold (mark_full J entries) idxs (replicate (length entries) False, None) = (keep, cut)"
    by (cases "fold (mark_full J entries) idxs (replicate (length entries) False, None)")
  then have eq: "full_retention_keep J entries n RtCount now = (keep, cut)"
    using assms by (simp add: full_retention_keep_def all_def idxs_def)
  have fulls: "map ((!) entries) all = fulls"
    unfolding fulls_def all_def by (rule map_nth_filter)
  have kept: "kept = map ((!) entries) idxs"
    unfolding kept_def idxs_def fulls [symmetric] by (simp add: drop_map)
  have idxs: "sorted idxs" "distinct idxs" "\<And>i. i \<in> set idxs \<Longrightarrow> i < length entries"
    unfolding idxs_def all_def
    by (auto intro!: sorted_wrt_drop sorted_wrt_filter distinct_drop dest: in_set_dropD)
  then have m: "length keep = length entries" "\<forall>i < length entries. keep ! i = (i \<in> set idxs)"
    "cut = (if idxs = [] then None
       else Some (Min ((\<lambda>i. timestamp_stop J (snd (entries ! i))) ` set idxs)))"
    using mark_full_fold [OF run] by auto
  have "selected keep entries = kept"
    unfolding kept using m idxs by (intro full_keep_flags) auto
  moreover have "cut = (if kept = [] then None
      else Some (Min ((\<lambda>e. timestamp_stop J (snd e)) ` set kept)))"
    unfolding m(3) kept by (simp add: image_image)
  ultimately show ?thesis using eq m by simp
qed

lemma full_retention_time_aux:
  fixes J :: "'j json_api" and entries :: "'j entries" and n :: nat and now :: int
  defines "fulls \<equiv> filter (is_type J ''full'') entries"
  assumes "0 < n"
  defines "inside \<equiv> filter (\<lambda>e. now - int n * 86400 \<le> timestamp_stop J (snd e)) fulls"
  defines "kept \<equiv> if inside = [] \<and> fulls \<noteq> [] then [last fulls] else inside"
  shows "length (fst (full_retention_keep J entries n RtTime now)) = length entries \<and>
    selected (fst (full_retention_keep J entries n RtTime now)) entries = kept \<and>
    snd (full_retention_keep J entries n RtTime now) =
      (if kept = [] then None else Some (Min ((\<lambda>e. timestamp_stop J (snd e)) ` set kept)))"
proof -
  define ts where "ts i = timestamp_stop J (snd (entries ! i))" for i
  define c where "c = now - int n * 86400"
  define all where "all = filter (\<lambda>i. is_type J ''full'' (entries ! i)) [0..<length entries]"
  define idxs where "idxs = filter (\<lambda>i. c \<le> ts i) all"
  obtain keep cut where run:
    "fold (mark_full J entries) idxs (replicate (length entries) False, None) = (keep, cut)"
    by (cases "fold (mark_full J entries) idxs (replicate (length entries) False, None)")
  have cond: "fold (\<lambda>i st. if c \<le> ts i then mark_full J entries i st else st) is st
      = fold (mark_full J entries) (filter (\<lambda>i. c \<le> ts i) is) st" for "is" st
    by (induction "is" arbitrary: st) auto
  have "fold (\<lambda>i st. if c \<le> ts i then mark_full J entries i st else st) all
      (replicate (length entries) False, None) = (keep, cut)"
    unfolding cond using run unfolding idxs_def .
  note loop = this
  have "n \<noteq> 0" using assms(2) by simp
  then have "full_retention_keep J entries n RtTime now =
      (case fold (\<lambda>i st. if c \<le> ts i then mark_full J entries i st else st) all
          (replicate (length entries) False, None) of
        (keep, cut) \<Rightarrow> if cut = None \<and> all \<noteq> []
          then (keep[last all := True], Some (ts (last all))) else (keep, cut))"
    unfolding full_retention_keep_def all_def ts_def c_def Let_def
    by (simp only: if_False retention_full_kind.case)
  then have eq: "full_retention_keep J entries n RtTime now =
      (if cut = None \<and> all \<noteq> [] then (keep[last all := True], Some (ts (last all)))
       else (keep, cut))"
    unfolding loop prod.case .
  have fulls: "map ((!) entries) all = fulls"
    unfolding fulls_def all_def by (rule map_nth_filter)
  then have none: "all = [] \<longleftrightarrow> fulls = []" by (metis map_is_Nil_conv)
  have inside: "inside = map ((!) entries) idxs"
    unfolding inside_def fulls [symmetric] idxs_def c_def ts_def by (simp add: filter_map o_def)
  have mem: "\<And>i. i \<in> set all \<Longrightarrow> i < length entries" unfolding all_def by auto
  have "sorted all" unfolding all_def by (rule sorted_wrt_filter) simp
  then have idxs: "sorted idxs" unfolding idxs_def by (rule sorted_wrt_filter)
  have "distinct all" unfolding all_def by simp
  then have dist: "distinct idxs" unfolding idxs_def by simp
  have below: "\<And>i. i \<in> set idxs \<Longrightarrow> i < length entries" using mem unfolding idxs_def by simp
  then have m: "length keep = length entries" "\<forall>i < length entries. keep ! i = (i \<in> set idxs)"
    "cut = (if idxs = [] then None else Some (Min (ts ` set idxs)))"
    using mark_full_fold [OF run] below by (auto simp: ts_def)
  show ?thesis
  proof (cases "idxs = [] \<and> all \<noteq> []")
    case True
    then have lt: "last all < length entries" using mem last_in_set by blast
    have "selected (keep[last all := True]) entries = map ((!) entries) [last all]"
      using m True lt by (intro full_keep_flags) (auto simp: nth_list_update)
    moreover have newest: "entries ! last all = last fulls"
      using fulls True by (metis last_map)
    moreover have "kept = [last fulls]"
      using True none inside by (simp add: kept_def)
    moreover have "full_retention_keep J entries n RtTime now =
        (keep[last all := True], Some (ts (last all)))"
      using eq True m(3) by simp
    ultimately show ?thesis using m by (simp add: ts_def)
  next
    case False
    then have kept: "kept = map ((!) entries) idxs"
      using none inside by (auto simp: kept_def)
    moreover have "full_retention_keep J entries n RtTime now = (keep, cut)"
      using False eq m(3) by auto
    moreover have "selected keep entries = map ((!) entries) idxs"
      using m idxs dist below by (intro full_keep_flags) auto
    moreover have "cut = (if kept = [] then None
        else Some (Min ((\<lambda>e. timestamp_stop J (snd e)) ` set kept)))"
      unfolding m(3) kept by (simp add: image_image ts_def)
    ultimately show ?thesis using m by simp
  qed
qed

lemma selected_keep_chain:
  assumes "length keep = length entries" "distinct entries"
  shows "selected (keep_chain J entries keep (Some c)) entries =
    filter (\<lambda>e. e \<in> set (selected keep entries) \<or>
                (c \<le> timestamp_stop J (snd e) \<and> \<not> is_type J ''full'' e)) entries"
  using selected_map2 [OF assms, of "\<lambda>e k. k \<or> (c \<le> timestamp_stop J (snd e) \<and> \<not> is_type J ''full'' e)"]
  by (simp add: keep_chain_def)

lemma length_keep_chain [simp]:
  "length keep = length entries \<Longrightarrow> length (keep_chain J entries keep c) = length entries"
  by (simp add: keep_chain_def split: option.splits)

text \<open>The order of the entries: strictly ascending in (stop time, label).\<close>

definition ordered_entries :: "'j json_api \<Rightarrow> 'j entries \<Rightarrow> bool" where
  "ordered_entries J entries =
     (sorted_wrt (\<lambda>a b. entry_le J a b \<and> \<not> entry_le J b a) entries \<and> distinct (map fst entries))"

lemma ordered_sort_entries:
  assumes "bt_ok current"
  shows "ordered_entries J (sort_entries J current)" "set (sort_entries J current) = set current"
proof -
  let ?s = "sort_entries J current"
  show same: "set ?s = set current" by (simp add: sort_entries_def)
  have "distinct (map fst current)" using assms by (rule bt_ok_distinct)
  then have inj: "inj_on fst (set ?s)" and "distinct current"
    using same by (auto simp: distinct_map)
  then have dist: "distinct (map fst ?s)" by (simp add: distinct_map sort_entries_def)
  have "sorted_wrt (entry_le J) ?s"
    unfolding sort_entries_def by (rule sorted_sort_by) (auto simp: entry_le_def)
  moreover have "\<not> entry_le J b a" if "entry_le J a b" "fst a \<noteq> fst b" for a b :: "string \<times> 'a"
    using that by (auto simp: entry_le_def)
  ultimately have "sorted_wrt (\<lambda>a b. entry_le J a b \<and> \<not> entry_le J b a) ?s"
    using dist unfolding sorted_wrt_iff_nth_less distinct_conv_nth by simp
  with dist show "ordered_entries J ?s" by (simp add: ordered_entries_def)
qed

lemma ordered_distinct: "ordered_entries J entries \<Longrightarrow> distinct entries"
  by (auto simp: ordered_entries_def distinct_map)

lemma selected_diff_retention:
  fixes J :: "'j json_api" and entries :: "'j entries" and n :: nat
  assumes len: "length keep = length entries" and ord: "ordered_entries J entries"
  defines "diffs \<equiv> filter (is_type J ''diff'') (selected keep entries)"
  defines "dropped \<equiv> fst ` set (take (length diffs - n) diffs)"
  shows "selected (apply_diff_retention J entries keep n) entries =
    filter (\<lambda>e. \<not> (is_type J ''diff'' e \<and> fst e \<in> dropped) \<and>
                \<not> (is_type J ''incr'' e \<and> set (backup_references J (snd e)) \<inter> dropped \<noteq> {}))
      (selected keep entries)"
proof -
  define idxs where "idxs = filter (\<lambda>i. keep ! i \<and> is_type J ''diff'' (entries ! i)) [0..<length entries]"
  have below: "\<And>i. i \<in> set idxs \<Longrightarrow> i < length entries" by (simp add: idxs_def)
  have "sorted_wrt (<) idxs" unfolding idxs_def by (rule sorted_wrt_filter) simp
  moreover have "\<not> entry_le J (entries ! j) (entries ! i)" if "i < j" "j < length entries" for i j
    using ord that by (auto simp: ordered_entries_def sorted_wrt_iff_nth_less)
  ultimately have "sorted_wrt (\<lambda>a b. \<not> entry_le J (entries ! b) (entries ! a)) idxs"
    using below by (auto simp: sorted_wrt_iff_nth_less)
  then have sorted: "sort_by (\<lambda>a b. entry_le J (entries ! b) (entries ! a)) idxs = rev idxs"
    by (rule sort_by_rev)
  have "map ((!) entries) idxs
      = map ((!) entries) (filter (\<lambda>i. is_type J ''diff'' (entries ! i)) (filter ((!) keep) [0..<length entries]))"
    by (simp add: idxs_def conj_commute)
  also have "\<dots> = diffs"
    unfolding diffs_def selected_by_index [OF len] by (simp add: filter_map o_def)
  finally have diffs: "map ((!) entries) idxs = diffs" .
  then have ln: "length idxs = length diffs" by (metis length_map)
  have labels: "set (map (\<lambda>i. fst (entries ! i)) (drop n (rev idxs))) = dropped"
  proof -
    have "set (map (\<lambda>i. fst (entries ! i)) (drop n (rev idxs)))
        = fst ` set (map ((!) entries) (take (length idxs - n) idxs))"
      by (simp add: drop_rev image_image)
    then show ?thesis unfolding dropped_def diffs [symmetric] take_map ln by simp
  qed
  have dist: "distinct entries" using ord by (rule ordered_distinct)
  show ?thesis
  proof (cases "length diffs \<le> n")
    case True
    then have "apply_diff_retention J entries keep n = keep" "dropped = {}"
      using sorted ln unfolding apply_diff_retention_def idxs_def [symmetric] Let_def
      by (simp_all add: dropped_def)
    then show ?thesis by simp
  next
    case False
    then have "apply_diff_retention J entries keep n =
      map2 (\<lambda>e k. k \<and> \<not> (is_type J ''diff'' e \<and> fst e \<in> dropped) \<and>
        \<not> (is_type J ''incr'' e \<and> list_ex (\<lambda>r. r \<in> dropped) (backup_references J (snd e))))
        entries keep"
      using sorted ln labels unfolding apply_diff_retention_def idxs_def [symmetric] Let_def
      by simp
    then have "selected (apply_diff_retention J entries keep n) entries =
      filter (\<lambda>e. e \<in> set (selected keep entries) \<and> \<not> (is_type J ''diff'' e \<and> fst e \<in> dropped) \<and>
        \<not> (is_type J ''incr'' e \<and> list_ex (\<lambda>r. r \<in> dropped) (backup_references J (snd e)))) entries"
      using selected_map2 [OF len dist] by simp
    also have "\<dots> = filter (\<lambda>e. \<not> (is_type J ''diff'' e \<and> fst e \<in> dropped) \<and>
        \<not> (is_type J ''incr'' e \<and> list_ex (\<lambda>r. r \<in> dropped) (backup_references J (snd e))))
        (filter (\<lambda>e. e \<in> set (selected keep entries)) entries)"
      by (simp add: conj_commute)
    also have "filter (\<lambda>e. e \<in> set (selected keep entries)) entries = selected keep entries"
      using selected_filter [OF len dist] by simp
    finally show ?thesis by (auto simp: list_ex_iff intro!: filter_cong)
  qed
qed

subsection \<open>The policies\<close>

text \<open>The two readings of \<open>repo-retention-full\<close>, as the documentation states them.\<close>

definition kept_fulls ::
  "'j json_api \<Rightarrow> 'j entries \<Rightarrow> nat \<Rightarrow> retention_full_kind \<Rightarrow> int \<Rightarrow> 'j entries" where
  "kept_fulls J entries n full_type now =
     (let fulls = filter (is_type J ''full'') entries;
          inside = filter (\<lambda>e. now - int n * 86400 \<le> timestamp_stop J (snd e)) fulls
      in if n = 0 \<or> fulls = [] then []
         else case full_type of
           RtCount \<Rightarrow> drop (length fulls - n) fulls
         | RtTime \<Rightarrow> if inside = [] then [last fulls] else inside)"

lemma full_retention_keep_spec:
  "length (fst (full_retention_keep J entries n full_type now)) = length entries \<and>
   selected (fst (full_retention_keep J entries n full_type now)) entries
     = kept_fulls J entries n full_type now \<and>
   snd (full_retention_keep J entries n full_type now) =
     (let kept = kept_fulls J entries n full_type now in
      if kept = [] then None else Some (Min ((\<lambda>e. timestamp_stop J (snd e)) ` set kept)))"
proof (cases "n = 0")
  case True
  have "selected (replicate (length entries) False) entries = []"
    by (induction entries) simp_all
  with True show ?thesis by (simp add: full_retention_keep_def kept_fulls_def)
next
  case False
  have count: "kept_fulls J entries n RtCount now =
      drop (length (filter (is_type J ''full'') entries) - n) (filter (is_type J ''full'') entries)"
    using False by (simp add: kept_fulls_def Let_def)
  have time: "kept_fulls J entries n RtTime now =
      (let fulls = filter (is_type J ''full'') entries;
           inside = filter (\<lambda>e. now - int n * 86400 \<le> timestamp_stop J (snd e)) fulls
       in if inside = [] \<and> fulls \<noteq> [] then [last fulls] else inside)"
    using False
    by (cases "filter (is_type J ''full'') entries = []")
       (simp_all add: kept_fulls_def Let_def del: filter_filter)
  show ?thesis
  proof (cases full_type)
    case RtCount
    show ?thesis
      using full_retention_count_aux [of n J entries now] False
      unfolding RtCount count Let_def by blast
  next
    case RtTime
    show ?thesis
      using full_retention_time_aux [of n J entries now] False
      unfolding RtTime time Let_def by blast
  qed
qed

lemma kept_fulls_count:
  "kept_fulls J entries n RtCount now =
     (if n = 0 then []
      else drop (length (filter (is_type J ''full'') entries) - n) (filter (is_type J ''full'') entries))"
  by (simp add: kept_fulls_def Let_def)

lemma kept_fulls_time:
  "kept_fulls J entries n RtTime now =
     (if n = 0 \<or> filter (is_type J ''full'') entries = [] then []
      else let inside = filter (\<lambda>e. now - int n * 86400 \<le> timestamp_stop J (snd e))
                          (filter (is_type J ''full'') entries)
        in if inside = [] then [last (filter (is_type J ''full'') entries)] else inside)"
  by (simp add: kept_fulls_def Let_def del: filter_filter)

lemma ordered_fulls:
  "ordered_entries J entries \<Longrightarrow>
   sorted_wrt (\<lambda>a b. entry_le J a b \<and> \<not> entry_le J b a) (filter (is_type J ty) entries)"
  unfolding ordered_entries_def by (intro sorted_wrt_filter) simp

lemma newest_is_last:
  assumes "ordered_entries J entries" "e \<in> set (filter (is_type J ty) entries)"
  shows "timestamp_stop J (snd e) \<le> timestamp_stop J (snd (last (filter (is_type J ty) entries)))"
  using sorted_wrt_last [OF ordered_fulls [OF assms(1)] assms(2)] by (auto simp: entry_le_def)

lemma kept_fulls_subset: "set (kept_fulls J entries n ft now) \<subseteq> set (filter (is_type J ''full'') entries)"
proof (cases ft)
  case RtCount
  then show ?thesis by (simp add: kept_fulls_count set_drop_subset del: set_filter)
next
  case RtTime
  then show ?thesis
    using last_in_set [of "filter (is_type J ''full'') entries"]
    by (auto simp: kept_fulls_time Let_def split: if_splits simp del: filter_filter)
qed

lemma kept_fulls_newest:
  assumes "0 < n" "filter (is_type J ''full'') entries \<noteq> []" "ordered_entries J entries"
  shows "last (filter (is_type J ''full'') entries) \<in> set (kept_fulls J entries n ft now)"
proof -
  define fulls where "fulls = filter (is_type J ''full'') entries"
  have ne: "fulls \<noteq> []" using assms(2) by (simp add: fulls_def)
  have newest: "\<And>e. e \<in> set fulls \<Longrightarrow> timestamp_stop J (snd e) \<le> timestamp_stop J (snd (last fulls))"
    unfolding fulls_def by (rule newest_is_last [OF assms(3)])
  show ?thesis
  proof (cases ft)
    case RtCount
    have less: "length fulls - n < length fulls"
      using assms(1) ne by (metis diff_less length_greater_0_conv)
    then have "last (drop (length fulls - n) fulls) = last fulls" by (rule last_drop)
    moreover have "drop (length fulls - n) fulls \<noteq> []" using less by (metis drop_eq_Nil not_le)
    ultimately have "last fulls \<in> set (drop (length fulls - n) fulls)" by (metis last_in_set)
    then show ?thesis using assms(1) unfolding RtCount kept_fulls_count fulls_def [symmetric] by simp
  next
    case RtTime
    define inside where "inside = filter (\<lambda>e. now - int n * 86400 \<le> timestamp_stop J (snd e)) fulls"
    have "last fulls \<in> set inside" if "inside \<noteq> []"
    proof -
      from last_in_set [OF that] have "last inside \<in> set fulls"
        "now - int n * 86400 \<le> timestamp_stop J (snd (last inside))"
        by (auto simp: inside_def)
      with newest [of "last inside"] last_in_set [OF ne] show ?thesis by (simp add: inside_def)
    qed
    then show ?thesis
      using assms(1) ne
      unfolding RtTime kept_fulls_time fulls_def [symmetric] inside_def [symmetric] Let_def by simp
  qed
qed

lemma kept_fulls_upward:
  assumes "ordered_entries J entries" "r \<in> set (kept_fulls J entries n ft now)"
    and "p \<in> set entries" "is_type J ''full'' p"
    and later: "timestamp_stop J (snd r) < timestamp_stop J (snd p)"
  shows "p \<in> set (kept_fulls J entries n ft now)"
proof -
  define fulls where "fulls = filter (is_type J ''full'') entries"
  have p: "p \<in> set fulls" using assms(3,4) by (simp add: fulls_def)
  have n: "n \<noteq> 0" using assms(2) by (cases "n = 0") (simp_all add: kept_fulls_def)
  have not_le: "\<not> (entry_le J p r \<and> \<not> entry_le J r p)" using later by (simp add: entry_le_def)
  show ?thesis
  proof (cases ft)
    case RtCount
    show ?thesis
      using sorted_wrt_drop_upward [OF ordered_fulls [OF assms(1), of "''full''"], of r] assms(2) p not_le n
      unfolding RtCount kept_fulls_count fulls_def by simp
  next
    case RtTime
    define inside where "inside = filter (\<lambda>e. now - int n * 86400 \<le> timestamp_stop J (snd e)) fulls"
    have kept: "kept_fulls J entries n ft now = (if inside = [] then [last fulls] else inside)"
      using n p unfolding RtTime kept_fulls_time fulls_def [symmetric] inside_def [symmetric] Let_def
      by auto
    show ?thesis
    proof (cases "inside = []")
      case True
      then have "r = last fulls" using assms(2) kept by simp
      with newest_is_last [OF assms(1) p [unfolded fulls_def]] later have False
        by (simp add: fulls_def)
      then show ?thesis ..
    next
      case False
      then have "now - int n * 86400 \<le> timestamp_stop J (snd r)"
        using assms(2) kept by (simp add: inside_def)
      then have "p \<in> set inside" using p later by (simp add: inside_def)
      with False kept show ?thesis by simp
    qed
  qed
qed

text \<open>The backups that survive a retention pass.\<close>

definition survivors ::
  "'j json_api \<Rightarrow> 'j entries \<Rightarrow> nat \<Rightarrow> retention_full_kind \<Rightarrow> nat option \<Rightarrow> int \<Rightarrow> 'j entries" where
  "survivors J entries n ft kd now = selected (retention_keep J entries n ft kd now) entries"

lemma survivors_none:
  assumes "ordered_entries J entries"
  shows "survivors J entries n ft None now =
    (let kept = kept_fulls J entries n ft now in
     if kept = [] then []
     else filter (\<lambda>e. e \<in> set kept \<or>
        (Min ((\<lambda>e. timestamp_stop J (snd e)) ` set kept) \<le> timestamp_stop J (snd e) \<and>
         \<not> is_type J ''full'' e)) entries)"
    (is "_ = ?rhs")
  and "length (retention_keep J entries n ft None now) = length entries"
proof -
  obtain keep cut where run: "full_retention_keep J entries n ft now = (keep, cut)"
    by (cases "full_retention_keep J entries n ft now")
  note spec = full_retention_keep_spec [of J entries n ft now, unfolded run Let_def fst_conv snd_conv]
  have eq: "retention_keep J entries n ft None now = keep_chain J entries keep cut"
    by (simp add: retention_keep_def run)
  have len: "length keep = length entries" using spec by blast
  show "survivors J entries n ft None now = ?rhs"
  proof (cases "kept_fulls J entries n ft now = []")
    case True
    then show ?thesis using spec eq by (simp add: survivors_def keep_chain_def)
  next
    case False
    then show ?thesis
      using spec selected_keep_chain [OF len ordered_distinct [OF assms]]
      unfolding survivors_def eq by (simp add: Let_def)
  qed
  show "length (retention_keep J entries n ft None now) = length entries"
    using eq len by simp
qed

definition expired_diffs :: "'j json_api \<Rightarrow> 'j entries \<Rightarrow> nat \<Rightarrow> string set" where
  "expired_diffs J kept n =
     (let diffs = filter (is_type J ''diff'') kept in fst ` set (take (length diffs - n) diffs))"

lemma survivors_diff:
  assumes "ordered_entries J entries"
  shows "survivors J entries n ft (Some d) now =
    (let kept = survivors J entries n ft None now; dropped = expired_diffs J kept d in
     filter (\<lambda>e. \<not> (is_type J ''diff'' e \<and> fst e \<in> dropped) \<and>
                 \<not> (is_type J ''incr'' e \<and> set (backup_references J (snd e)) \<inter> dropped \<noteq> {})) kept)"
proof -
  have "retention_keep J entries n ft (Some d) now =
      apply_diff_retention J entries (retention_keep J entries n ft None now) d"
    by (simp add: retention_keep_def split: prod.splits)
  then show ?thesis
    using selected_diff_retention [OF survivors_none(2) [OF assms] assms, of n ft now d]
    by (simp add: survivors_def expired_diffs_def Let_def)
qed


text \<open>A retention pass with a positive full count never expires the newest full backup, whatever
  the retention type, the differential retention and the clock, when the stanza has one.\<close>

theorem newest_full_survives:
  assumes "ordered_entries J entries" "0 < n"
    and "filter (is_type J ''full'') entries \<noteq> []"
  shows "last (filter (is_type J ''full'') entries) \<in> set (survivors J entries n ft kd now)"
proof -
  let ?f = "last (filter (is_type J ''full'') entries)"
  have kept: "?f \<in> set (kept_fulls J entries n ft now)"
    using assms by (intro kept_fulls_newest)
  have f: "?f \<in> set entries" "is_type J ''full'' ?f" using last_in_set [OF assms(3)] by auto
  have "kept_fulls J entries n ft now \<noteq> []" using kept by auto
  then have none: "?f \<in> set (survivors J entries n ft None now)"
    using kept f by (simp add: survivors_none(1) [OF assms(1)] Let_def)
  show ?thesis
  proof (cases kd)
    case (Some d)
    then show ?thesis using none f(2)
      by (auto simp: survivors_diff [OF assms(1)] Let_def is_type_def)
  qed (use none in simp)
qed

text \<open>Differential retention keeps, of the differential backups that full retention left, exactly
  the newest N, and no full backup is lost to it.\<close>

theorem diff_retention_policy:
  assumes "ordered_entries J entries"
  shows "filter (is_type J ''diff'') (survivors J entries n ft (Some d) now) =
      (let diffs = filter (is_type J ''diff'') (survivors J entries n ft None now) in
       drop (length diffs - d) diffs) \<and>
    filter (is_type J ''full'') (survivors J entries n ft (Some d) now) =
      filter (is_type J ''full'') (survivors J entries n ft None now)"
proof -
  let ?kept = "survivors J entries n ft None now"
  let ?diffs = "filter (is_type J ''diff'') ?kept"
  have "distinct (map fst ?diffs)"
  proof -
    have "distinct (map fst entries)" using assms by (simp add: ordered_entries_def)
    moreover have "set ?diffs \<subseteq> set entries"
      using selected_subset by (fastforce simp: survivors_def)
    moreover have "distinct ?kept"
      using ordered_distinct [OF assms] by (auto simp: survivors_none(1) [OF assms] Let_def)
    ultimately show ?thesis by (auto simp: distinct_map intro: inj_on_subset)
  qed
  then have "filter (\<lambda>e. fst e \<notin> fst ` set (take k ?diffs)) ?diffs = drop k ?diffs" for k
  proof -
    assume dist: "distinct (map fst ?diffs)"
    have disj: "fst ` set (take k ?diffs) \<inter> fst ` set (drop k ?diffs) = {}"
      using dist by (metis append_take_drop_id distinct_append list.set_map map_append)
    have "filter (\<lambda>e. fst e \<notin> fst ` set (take k ?diffs)) (take k ?diffs @ drop k ?diffs) = drop k ?diffs"
      unfolding filter_append using disj by (auto simp: filter_empty_conv filter_id_conv)
    then show ?thesis by simp
  qed
  then have "filter (\<lambda>e. fst e \<notin> expired_diffs J ?kept d) ?diffs = drop (length ?diffs - d) ?diffs"
    by (simp only: expired_diffs_def Let_def)
  moreover have "filter (is_type J ''diff'') (survivors J entries n ft (Some d) now)
      = filter (\<lambda>e. fst e \<notin> expired_diffs J ?kept d) ?diffs"
    unfolding survivors_diff [OF assms] Let_def filter_filter
    by (rule filter_cong) (auto simp: is_type_def)
  moreover have "filter (is_type J ''full'') (survivors J entries n ft (Some d) now)
      = filter (is_type J ''full'') ?kept"
    unfolding survivors_diff [OF assms] Let_def filter_filter
    by (rule filter_cong) (auto simp: is_type_def)
  ultimately show ?thesis by (simp only: Let_def simp_thms)
qed

subsection \<open>Dependency chains\<close>

text \<open>
  The references of a repository written by \<open>backup\<close>: a full backup has none; a differential or
  incremental one refers to backups of its own full-backup period, so that no other full backup
  stopped between the referenced backup and it.
\<close>

definition refs_in_period :: "'j json_api \<Rightarrow> 'j entries \<Rightarrow> bool" where
  "refs_in_period J entries =
     (\<forall>e \<in> set entries. \<forall>r \<in> set (backup_references J (snd e)).
        \<not> is_type J ''full'' e \<and>
        (\<exists>p \<in> set entries. fst p = r \<and>
           (\<forall>f \<in> set entries. is_type J ''full'' f \<longrightarrow> f = p \<or>
              timestamp_stop J (snd f) < timestamp_stop J (snd p) \<or>
              timestamp_stop J (snd e) < timestamp_stop J (snd f))))"

text \<open>
  Reference lists that name the whole chain: a differential backup refers to full backups only, and an
  incremental one also refers to everything its references refer to.
\<close>

definition refs_complete :: "'j json_api \<Rightarrow> 'j entries \<Rightarrow> bool" where
  "refs_complete J entries =
     (\<forall>e \<in> set entries. \<forall>p \<in> set entries. fst p \<in> set (backup_references J (snd e)) \<longrightarrow>
        (is_type J ''incr'' e \<and> set (backup_references J (snd p)) \<subseteq> set (backup_references J (snd e))) \<or>
        (is_type J ''diff'' e \<and> is_type J ''full'' p))"

definition chains_intact :: "'j json_api \<Rightarrow> 'j entries \<Rightarrow> bool" where
  "chains_intact J kept =
     list_all (\<lambda>e. list_all (\<lambda>r. r \<in> fst ` set kept) (backup_references J (snd e))) kept"

lemma survivors_none_chain:
  assumes ord: "ordered_entries J entries" and refs: "refs_in_period J entries"
    and e: "e \<in> set (survivors J entries n ft None now)" and r: "r \<in> set (backup_references J (snd e))"
  shows "\<exists>p \<in> set (survivors J entries n ft None now). fst p = r"
proof -
  let ?ts = "\<lambda>e. timestamp_stop J (snd e)"
  define kept where "kept = kept_fulls J entries n ft now"
  have ne: "kept \<noteq> []" and surv: "set (survivors J entries n ft None now) =
      {e \<in> set entries. e \<in> set kept \<or> (Min (?ts ` set kept) \<le> ?ts e \<and> \<not> is_type J ''full'' e)}"
    using e unfolding survivors_none(1) [OF ord] kept_def [symmetric] Let_def by (auto split: if_splits)
  have "Min (?ts ` set kept) \<in> ?ts ` set kept" using ne by (intro Min_in) auto
  then obtain R where R: "R \<in> set kept" "?ts R = Min (?ts ` set kept)" by auto
  have full: "R \<in> set entries" "is_type J ''full'' R"
    using kept_fulls_subset [of J entries n ft now] R(1) by (auto simp: kept_def)
  obtain p where p: "p \<in> set entries" "fst p = r" and nf: "\<not> is_type J ''full'' e"
    and between: "\<And>f. f \<in> set entries \<Longrightarrow> is_type J ''full'' f \<Longrightarrow>
      f = p \<or> ?ts f < ?ts p \<or> ?ts e < ?ts f"
    using refs e r surv unfolding refs_in_period_def by blast
  have "e \<notin> set kept" using kept_fulls_subset [of J entries n ft now] nf by (auto simp: kept_def)
  then have "?ts R \<le> ?ts e" using e surv R(2) by auto
  with between [OF full] have cases: "R = p \<or> ?ts R < ?ts p" by auto
  have "p \<in> set (survivors J entries n ft None now)"
  proof (cases "is_type J ''full'' p")
    case True
    then have "p \<in> set kept"
      using cases R(1) kept_fulls_upward [OF ord, of R n ft now p] p(1) by (auto simp: kept_def)
    then show ?thesis using p surv by simp
  next
    case False
    then have "?ts R < ?ts p" using cases full(2) by blast
    then show ?thesis using False p(1) R(2) unfolding surv by simp
  qed
  with p show ?thesis by blast
qed

lemma survivors_diff_chain:
  assumes ord: "ordered_entries J entries" and refs: "refs_in_period J entries"
    and complete: "refs_complete J entries"
    and e: "e \<in> set (survivors J entries n ft (Some d) now)"
    and r: "r \<in> set (backup_references J (snd e))"
  shows "\<exists>p \<in> set (survivors J entries n ft (Some d) now). fst p = r"
proof -
  define dropped where "dropped = expired_diffs J (survivors J entries n ft None now) d"
  have surv: "set (survivors J entries n ft (Some d) now) =
      {e \<in> set (survivors J entries n ft None now).
         \<not> (is_type J ''diff'' e \<and> fst e \<in> dropped) \<and>
         \<not> (is_type J ''incr'' e \<and> set (backup_references J (snd e)) \<inter> dropped \<noteq> {})}"
    unfolding survivors_diff [OF ord] dropped_def Let_def by simp
  have e0: "e \<in> set (survivors J entries n ft None now)" using e surv by simp
  obtain p where p: "p \<in> set (survivors J entries n ft None now)" "fst p = r"
    using survivors_none_chain [OF ord refs e0 r] by blast
  have inside: "e \<in> set entries" "p \<in> set entries"
    using e0 p(1) selected_subset unfolding survivors_def by fast+
  then consider
      "is_type J ''incr'' e" "set (backup_references J (snd p)) \<subseteq> set (backup_references J (snd e))"
    | "is_type J ''diff'' e" "is_type J ''full'' p"
    using complete r p(2) unfolding refs_complete_def by blast
  then have "p \<in> set (survivors J entries n ft (Some d) now)"
  proof cases
    case 1
    then have "set (backup_references J (snd e)) \<inter> dropped = {}" using e surv by simp
    then have "fst p \<notin> dropped" "set (backup_references J (snd p)) \<inter> dropped = {}"
      using 1(2) r p(2) by auto
    with p(1) show ?thesis unfolding surv by simp
  next
    case 2
    then show ?thesis using p unfolding surv by (simp add: is_type_def)
  qed
  with p show ?thesis by blast
qed

text \<open>C5. When every backup refers only to backups of its own full-backup period, full retention leaves
  no surviving backup without a backup it refers to; and when the reference lists name the whole
  chain, differential retention leaves none either.\<close>

theorem retention_keeps_chains:
  assumes "ordered_entries J entries" "refs_in_period J entries"
    and "kd = None \<or> refs_complete J entries"
  shows "chains_intact J (survivors J entries n ft kd now)"
proof (cases kd)
  case None
  then show ?thesis
    using survivors_none_chain [OF assms(1,2)] by (force simp: chains_intact_def list_all_iff)
next
  case (Some d)
  then have "refs_complete J entries" using assms(3) by simp
  from survivors_diff_chain [OF assms(1,2) this] Some show ?thesis
    by (force simp: chains_intact_def list_all_iff)
qed

text \<open>A history as \<open>backup\<close> records it: an incremental backup refers to its direct predecessor only.\<close>

definition sample_backup :: "string \<Rightarrow> int \<Rightarrow> string list \<Rightarrow> sample_json" where
  "sample_backup ty ts refs =
     SObj [(''backup-type'', SStr ty), (''backup-timestamp-stop'', SInt ts),
           (''backup-reference'', SArr (map SStr refs))]"

definition sample_history :: "(string \<times> sample_json) list" where
  "sample_history =
     [(''F'', sample_backup ''full'' 100 []),
      (''F_D1'', sample_backup ''diff'' 200 [''F'']),
      (''F_I1'', sample_backup ''incr'' 300 [''F_D1'']),
      (''F_I2'', sample_backup ''incr'' 400 [''F_I1'']),
      (''F_S2'', sample_backup ''diff'' 500 [''F''])]"

lemma sample_backup_fields [simp]:
  "backup_type sample_api (sample_backup ty ts refs) = ty"
  "timestamp_stop sample_api (sample_backup ty ts refs) = ts"
  "backup_references sample_api (sample_backup ty ts refs) = refs"
proof -
  have "List.map_filter sample_as_str (map SStr refs) = refs"
    by (induction refs) (simp_all add: List.map_filter_simps)
  then show "backup_references sample_api (sample_backup ty ts refs) = refs"
    by (simp add: backup_references_def sample_api_def sample_backup_def)
qed (simp_all add: backup_type_def timestamp_stop_def sample_api_def sample_backup_def)

lemma retention_keeps_chains_witness:
  "chains_intact sample_api (survivors sample_api sample_history 1 RtCount None 0)"
  by (rule retention_keeps_chains)
     (simp_all add: ordered_entries_def refs_in_period_def sample_history_def is_type_def entry_le_def)


lemma sample_history_ordered: "ordered_entries sample_api sample_history"
  by (simp add: ordered_entries_def sample_history_def entry_le_def)

lemma newest_full_survives_witness:
  "last (filter (is_type sample_api ''full'') sample_history)
     \<in> set (survivors sample_api sample_history 1 RtTime (Some 1) 1000000)"
  by (rule newest_full_survives [OF sample_history_ordered]) (simp_all add: sample_history_def is_type_def)

lemma diff_retention_policy_witness:
  "filter (is_type sample_api ''diff'') (survivors sample_api sample_history 1 RtCount (Some 1) 0) =
      (let diffs = filter (is_type sample_api ''diff'') (survivors sample_api sample_history 1 RtCount None 0) in
       drop (length diffs - 1) diffs)"
  using diff_retention_policy [OF sample_history_ordered, of 1 RtCount 1 0] by blast

end
