(* ===== verification/Expire_Archive.thy ===== *)
theory Expire_Archive
  imports Expire_Retention
begin

text \<open>
  WAL-archive retention of the \<open>expire\<close> command (\<open>crates/pgbr-command/src/expire.rs\<close>): the anchor types,
  the per-archive-id plan, the test whether a segment is kept, the cutoff of the flat layout and the
  file-name classifiers. The storage side is in \<open>Expire_Command\<close>.

  A slice \<open>s[0..n]\<close> of the source is \<open>take n s\<close>; the source would panic when the cut falls inside a
  multi-byte character, which the WAL names and labels the program writes do not contain.
\<close>

section \<open>Names\<close>

definition strip_compress_suffix :: "string \<Rightarrow> string" where
  "strip_compress_suffix name =
     (case strip_suffix ''.gz'' name of Some base \<Rightarrow> base | None \<Rightarrow>
      (case strip_suffix ''.zst'' name of Some base \<Rightarrow> base | None \<Rightarrow>
       (case strip_suffix ''.bz2'' name of Some base \<Rightarrow> base | None \<Rightarrow>
        (case strip_suffix ''.lz4'' name of Some base \<Rightarrow> base | None \<Rightarrow> name))))"

definition is_archive_id :: "string \<Rightarrow> bool" where
  "is_archive_id name = (case rsplit_once (CHR ''-'') name of
       None \<Rightarrow> False
     | Some (version, ident) \<Rightarrow>
         if ident = [] \<or> \<not> list_all is_ascii_digit ident then False
         else version \<noteq> [] \<and> list_all (\<lambda>b. is_ascii_digit b \<or> b = CHR ''.'') version \<and>
              list_ex is_ascii_digit version)"

definition looks_like_wal_segment :: "string \<Rightarrow> bool" where
  "looks_like_wal_segment name = (24 \<le> length name \<and> list_all is_ascii_hexdigit (take 24 name))"

section \<open>Anchor types\<close>

datatype archive_retention_type = ArtFull | ArtDiff | ArtIncr

definition archive_retention_parse :: "string \<Rightarrow> archive_retention_type" where
  "archive_retention_parse s =
     (if s = ''diff'' then ArtDiff else if s = ''incr'' then ArtIncr else ArtFull)"

fun art_includes :: "archive_retention_type \<Rightarrow> string \<Rightarrow> bool" where
  "art_includes ArtFull ty = (ty = ''full'')"
| "art_includes ArtDiff ty = (ty = ''full'' \<or> ty = ''diff'')"
| "art_includes ArtIncr ty = (ty = ''full'' \<or> ty = ''diff'' \<or> ty = ''incr'')"

definition retention_archive_type :: "loaded_config \<Rightarrow> nat \<Rightarrow> archive_retention_type" where
  "retention_archive_type config repo_index =
     (case retention_option config ''repo-retention-archive-type'' repo_index of
        Some (OvString s) \<Rightarrow> archive_retention_parse s
      | _ \<Rightarrow> ArtFull)"

section \<open>The plan\<close>

record backup_for_archive =
  ba_label :: string
  ba_type :: string
  ba_archive_id :: string
  ba_start :: "string option"
  ba_stop :: "string option"

record archive_range =
  ar_start :: string
  ar_stop :: "string option"

record archive_id_plan =
  ap_archive_id :: string
  ap_drop_all :: bool
  ap_ranges :: "archive_range list"
  ap_skip_expiry :: bool
  ap_history_timeline :: "string option"

definition plan_drop :: "string \<Rightarrow> archive_id_plan" where
  "plan_drop archive_id = \<lparr>ap_archive_id = archive_id, ap_drop_all = True, ap_ranges = [],
     ap_skip_expiry = False, ap_history_timeline = None\<rparr>"

definition plan_skip :: "string \<Rightarrow> archive_id_plan" where
  "plan_skip archive_id = \<lparr>ap_archive_id = archive_id, ap_drop_all = False, ap_ranges = [],
     ap_skip_expiry = True, ap_history_timeline = None\<rparr>"

definition keep_ranges :: "backup_for_archive list \<Rightarrow> backup_for_archive \<Rightarrow> archive_range list" where
  "keep_ranges local retention_backup = List.map_filter (\<lambda>b.
       if ba_label retention_backup < ba_label b then None
       else (case ba_start b of
           None \<Rightarrow> None
         | Some start \<Rightarrow> Some \<lparr>ar_start = start,
             ar_stop = (if ba_label b = ba_label retention_backup then None else ba_stop b)\<rparr>)) local"

definition plan_for ::
  "backup_for_archive list \<Rightarrow> string list \<Rightarrow> string \<times> bool \<Rightarrow> archive_id_plan option" where
  "plan_for backups retained_window entry =
     (let (archive_id, is_current) = entry;
          local = sort_by (\<lambda>a b. ba_label a \<le> ba_label b)
            (filter (\<lambda>b. ba_archive_id b = archive_id) backups)
      in if local = [] then (if is_current then None else Some (plan_drop archive_id))
         else
           let local_retained = filter (\<lambda>b. ba_label b \<in> set retained_window) local;
               retention_backup = (if local_retained = [] then last local else hd local_retained)
           in case ba_start retention_backup of
                None \<Rightarrow> Some (plan_skip archive_id)
              | Some start \<Rightarrow>
                  Some \<lparr>ap_archive_id = archive_id, ap_drop_all = False,
                    ap_ranges = keep_ranges local retention_backup, ap_skip_expiry = False,
                    ap_history_timeline = (if 8 \<le> length start then Some (take 8 start) else None)\<rparr>)"

text \<open>The anchor list, newest first, and the labels of the newest \<open>keep_archive\<close> anchors.\<close>

definition archive_anchors ::
  "backup_for_archive list \<Rightarrow> archive_retention_type \<Rightarrow> backup_for_archive list" where
  "archive_anchors backups retention_type = sort_by (\<lambda>a b. ba_label b \<le> ba_label a)
     (filter (\<lambda>b. art_includes retention_type (ba_type b)) backups)"

definition retained_window ::
  "backup_for_archive list \<Rightarrow> archive_retention_type \<Rightarrow> nat \<Rightarrow> string list" where
  "retained_window backups retention_type keep_archive =
     bs_of (map ba_label (take keep_archive (archive_anchors backups retention_type)))"

definition compute_archive_plan ::
  "backup_for_archive list \<Rightarrow> (string \<times> bool) list \<Rightarrow> archive_retention_type \<Rightarrow> nat \<Rightarrow>
   archive_id_plan list" where
  "compute_archive_plan backups archive_ids retention_type keep_archive =
     (let anchors = archive_anchors backups retention_type in
      if anchors = [] \<or> length anchors < keep_archive then []
      else List.map_filter (plan_for backups (retained_window backups retention_type keep_archive))
             archive_ids)"

definition segment_in_ranges :: "string \<Rightarrow> archive_range list \<Rightarrow> bool" where
  "segment_in_ranges segment ranges =
     (let key = take 24 segment in
      list_ex (\<lambda>r. take 24 (ar_start r) \<le> key \<and>
        (case ar_stop r of None \<Rightarrow> True | Some stop \<Rightarrow> key \<le> take 24 stop)) ranges)"

type_synonym version_by_id = "(nat, string) btree"

definition backups_for_archive ::
  "'j json_api \<Rightarrow> (string, 'j) btree \<Rightarrow> version_by_id \<Rightarrow> backup_for_archive list" where
  "backups_for_archive J current history = List.map_filter (\<lambda>(label, value).
       case backup_pg_id J value of
         None \<Rightarrow> None
       | Some pg_id \<Rightarrow> (case bt_get history pg_id of
             None \<Rightarrow> None
           | Some version \<Rightarrow> Some \<lparr>ba_label = label, ba_type = backup_type J value,
               ba_archive_id = version @ ''-'' @ fmt_dec pg_id,
               ba_start = backup_archive_start J value,
               ba_stop = backup_archive_stop J value\<rparr>)) current"

text \<open>
  The decision of \<open>remove_wal_under\<close> for one leaf: the base name when the file is to be removed.
\<close>

definition wal_victim :: "archive_id_plan \<Rightarrow> string \<Rightarrow> string option" where
  "wal_victim plan name =
     (let base = strip_compress_suffix name in
      case strip_suffix ''.history'' base of
        Some timeline \<Rightarrow>
          (case ap_history_timeline plan of
             Some keep_below \<Rightarrow>
               if 8 \<le> length timeline \<and> take 8 timeline < keep_below then Some base else None
           | None \<Rightarrow> None)
      | None \<Rightarrow>
          if \<not> looks_like_wal_segment base then None
          else if \<not> segment_in_ranges base (ap_ranges plan) then Some base else None)"

section \<open>The flat layout\<close>

definition anchor_backups_oldest_first ::
  "'j json_api \<Rightarrow> (string, 'j) btree \<Rightarrow> string list \<Rightarrow> archive_retention_type \<Rightarrow> 'j list" where
  "anchor_backups_oldest_first J current kept_labels archive_type =
     filter (\<lambda>value. art_includes archive_type (backup_type J value))
       (List.map_filter (bt_get current) kept_labels)"

definition flat_cutoff :: "'j json_api \<Rightarrow> nat \<Rightarrow> 'j list \<Rightarrow> string option" where
  "flat_cutoff J keep_archive anchors =
     (if length anchors < keep_archive \<or> keep_archive = 0 then None
      else backup_archive_start J (anchors ! (length anchors - keep_archive)))"

definition flat_victims :: "string list \<Rightarrow> string \<Rightarrow> string list" where
  "flat_victims loose_files cutoff = filter (\<lambda>f. strip_compress_suffix f < cutoff) loose_files"

section \<open>What the plan keeps\<close>

lemma plan_origin:
  assumes "plan \<in> set (compute_archive_plan backups ids ty keep)"
  obtains aid cur where "(aid, cur) \<in> set ids"
    "plan_for backups (retained_window backups ty keep) (aid, cur) = Some plan"
  using assms unfolding compute_archive_plan_def Let_def
  by (auto simp: set_map_filter split: if_splits)

text \<open>The local backups of an archive-id, oldest first, and the backup that anchors it.\<close>

definition local_backups :: "backup_for_archive list \<Rightarrow> string \<Rightarrow> backup_for_archive list" where
  "local_backups backups aid = sort_by (\<lambda>a b. ba_label a \<le> ba_label b)
     (filter (\<lambda>b. ba_archive_id b = aid) backups)"

definition retention_anchor ::
  "backup_for_archive list \<Rightarrow> string list \<Rightarrow> string \<Rightarrow> backup_for_archive" where
  "retention_anchor backups window aid =
     (let inside = filter (\<lambda>b. ba_label b \<in> set window) (local_backups backups aid) in
      if inside = [] then last (local_backups backups aid) else hd inside)"

lemma set_local_backups [simp]:
  "set (local_backups backups aid) = {b \<in> set backups. ba_archive_id b = aid}"
  by (simp add: local_backups_def)

lemma sorted_local_backups:
  "sorted_wrt (\<lambda>a b. ba_label a \<le> ba_label b) (local_backups backups aid)"
  unfolding local_backups_def by (rule sorted_sort_by) auto

lemma retention_anchor_local:
  assumes "local_backups backups aid \<noteq> []"
  shows "retention_anchor backups window aid \<in> set (local_backups backups aid)"
proof -
  let ?in = "filter (\<lambda>b. ba_label b \<in> set window) (local_backups backups aid)"
  have "hd ?in \<in> set (local_backups backups aid)" if "?in \<noteq> []"
    using hd_in_set [OF that] by simp
  then show ?thesis
    using last_in_set [OF assms] by (auto simp: retention_anchor_def Let_def simp del: set_local_backups)
qed

text \<open>No local backup of the retained window is older than the anchor.\<close>

lemma retention_anchor_oldest:
  assumes "b \<in> set (local_backups backups aid)" "ba_label b \<in> set window"
  shows "ba_label (retention_anchor backups window aid) \<le> ba_label b"
proof -
  define inside where "inside = filter (\<lambda>b. ba_label b \<in> set window) (local_backups backups aid)"
  have b: "b \<in> set inside" using assms by (simp add: inside_def)
  have "sorted_wrt (\<lambda>a b. ba_label a \<le> ba_label b) inside"
    unfolding inside_def by (rule sorted_wrt_filter) (rule sorted_local_backups)
  with b have "ba_label (hd inside) \<le> ba_label b" by (cases inside) auto
  moreover have "inside \<noteq> []" using b by auto
  ultimately show ?thesis
    unfolding retention_anchor_def inside_def [symmetric] Let_def by simp
qed

lemma plan_for_cases:
  "plan_for backups window (aid, cur) =
    (if local_backups backups aid = [] then (if cur then None else Some (plan_drop aid))
     else
       let anchor = retention_anchor backups window aid in
       case ba_start anchor of
         None \<Rightarrow> Some (plan_skip aid)
       | Some start \<Rightarrow> Some \<lparr>ap_archive_id = aid, ap_drop_all = False,
           ap_ranges = keep_ranges (local_backups backups aid) anchor, ap_skip_expiry = False,
           ap_history_timeline = (if 8 \<le> length start then Some (take 8 start) else None)\<rparr>)"
  by (simp only: plan_for_def local_backups_def [symmetric] retention_anchor_def Let_def prod.case)

lemma segment_in_keep_ranges:
  "segment_in_ranges seg (keep_ranges local anchor) \<longleftrightarrow>
   (\<exists>b \<in> set local. \<exists>start. ba_label b \<le> ba_label anchor \<and> ba_start b = Some start \<and>
      take 24 start \<le> take 24 seg \<and>
      (ba_label b = ba_label anchor \<or>
       (case ba_stop b of None \<Rightarrow> True | Some stop \<Rightarrow> take 24 seg \<le> take 24 stop)))"
  (is "?l \<longleftrightarrow> ?r")
proof
  assume ?l
  then obtain r where r: "r \<in> set (keep_ranges local anchor)" "take 24 (ar_start r) \<le> take 24 seg"
    "case ar_stop r of None \<Rightarrow> True | Some stop \<Rightarrow> take 24 seg \<le> take 24 stop"
    by (auto simp: segment_in_ranges_def list_ex_iff Let_def)
  from r(1) obtain b where b: "b \<in> set local" "\<not> ba_label anchor < ba_label b"
    "ba_start b = Some (ar_start r)"
    "ar_stop r = (if ba_label b = ba_label anchor then None else ba_stop b)"
    by (auto simp: keep_ranges_def set_map_filter split: if_splits option.splits)
  show ?r
    using b r(2,3) by (intro bexI [of _ b] exI [of _ "ar_start r"]) (auto split: if_splits)
next
  assume ?r
  then obtain b start where b: "b \<in> set local" "ba_label b \<le> ba_label anchor" "ba_start b = Some start"
    "take 24 start \<le> take 24 seg" "ba_label b = ba_label anchor \<or>
       (case ba_stop b of None \<Rightarrow> True | Some stop \<Rightarrow> take 24 seg \<le> take 24 stop)" by blast
  let ?r = "\<lparr>ar_start = start, ar_stop = (if ba_label b = ba_label anchor then None else ba_stop b)\<rparr>"
  have "?r \<in> set (keep_ranges local anchor)"
    unfolding keep_ranges_def set_map_filter using b by (intro bexI [of _ b]) auto
  then show ?l
    using b(4,5) unfolding segment_in_ranges_def Let_def list_ex_iff
    by (intro bexI [of _ ?r]) (auto split: option.splits)
qed

text \<open>
  A later backup of an archive-id does not start in earlier WAL: the order the labels and the WAL
  positions of a cluster have.\<close>

definition starts_ascend :: "backup_for_archive list \<Rightarrow> bool" where
  "starts_ascend backups =
     (\<forall>a \<in> set backups. \<forall>b \<in> set backups. \<forall>s t.
        ba_archive_id a = ba_archive_id b \<and> ba_label a < ba_label b \<and>
        ba_start a = Some s \<and> ba_start b = Some t \<longrightarrow> take 24 s \<le> take 24 t)"

text \<open>The WAL a backup needs to become consistent, and all later WAL when it is in the window.\<close>

definition needs_segment :: "string list \<Rightarrow> backup_for_archive \<Rightarrow> string \<Rightarrow> bool" where
  "needs_segment window b seg = (case ba_start b of
       None \<Rightarrow> False
     | Some start \<Rightarrow> take 24 start \<le> take 24 seg \<and>
         (ba_label b \<in> set window \<or>
          (case ba_stop b of None \<Rightarrow> False | Some stop \<Rightarrow> take 24 seg \<le> take 24 stop)))"

lemma needed_segment_kept:
  assumes plan: "plan \<in> set (compute_archive_plan backups ids ty keep)"
    and mono: "starts_ascend backups"
    and b: "b \<in> set backups" "ba_archive_id b = ap_archive_id plan"
    and need: "needs_segment (retained_window backups ty keep) b seg"
  shows "\<not> ap_drop_all plan \<and> (ap_skip_expiry plan \<or> segment_in_ranges seg (ap_ranges plan))"
proof -
  define window where "window = retained_window backups ty keep"
  from plan_origin [OF plan] obtain aid cur where
    plan_for: "plan_for backups window (aid, cur) = Some plan" unfolding window_def by metis
  have aid: "ap_archive_id plan = aid"
    using plan_for unfolding plan_for_cases
    by (auto simp: plan_drop_def plan_skip_def Let_def split: if_splits option.splits)
  then have b_local: "b \<in> set (local_backups backups aid)" using b by simp
  then have ne: "local_backups backups aid \<noteq> []" by (auto simp del: set_local_backups)
  define anchor where "anchor = retention_anchor backups window aid"
  have anchor: "anchor \<in> set backups" "ba_archive_id anchor = aid"
    using retention_anchor_local [OF ne, of window] by (simp_all add: anchor_def)
  obtain start where start: "ba_start b = Some start" "take 24 start \<le> take 24 seg"
    and rest: "ba_label b \<in> set window \<or>
      (case ba_stop b of None \<Rightarrow> False | Some stop \<Rightarrow> take 24 seg \<le> take 24 stop)"
    using need unfolding needs_segment_def window_def by (auto split: option.splits)
  show ?thesis
  proof (cases "ba_start anchor")
    case None
    then have "plan = plan_skip aid"
      using plan_for ne unfolding plan_for_cases by (simp add: anchor_def [symmetric] Let_def)
    then show ?thesis by (simp add: plan_skip_def)
  next
    case (Some anchor_start)
    then have p: "\<not> ap_drop_all plan" "ap_ranges plan = keep_ranges (local_backups backups aid) anchor"
      using plan_for ne unfolding plan_for_cases by (auto simp: anchor_def [symmetric] Let_def)
    have "segment_in_ranges seg (ap_ranges plan)"
    proof (cases "ba_label b \<le> ba_label anchor")
      case True
      have "ba_label b = ba_label anchor \<or>
          (case ba_stop b of None \<Rightarrow> True | Some stop \<Rightarrow> take 24 seg \<le> take 24 stop)"
        using rest True retention_anchor_oldest [OF b_local, of window]
        by (auto simp: anchor_def split: option.splits)
      then show ?thesis
        unfolding p segment_in_keep_ranges using True start b_local by blast
    next
      case False
      then have "take 24 anchor_start \<le> take 24 start"
        using mono anchor b aid Some start(1) unfolding starts_ascend_def by (metis not_le)
      then show ?thesis
        unfolding p segment_in_keep_ranges
        using anchor Some start(2) by (intro bexI [of _ anchor] exI [of _ anchor_start]) auto
    qed
    with p show ?thesis by blast
  qed
qed


text \<open>The archive directory of an archive-id is dropped as a whole exactly when the pass runs, no
  surviving backup belongs to it and it is not the current cluster.\<close>

theorem archive_drop_exact:
  "{ap_archive_id plan |plan. plan \<in> set (compute_archive_plan backups ids ty keep) \<and> ap_drop_all plan} =
   (if archive_anchors backups ty = [] \<or> length (archive_anchors backups ty) < keep then {}
    else {aid. (aid, False) \<in> set ids \<and> aid \<notin> ba_archive_id ` set backups})"
proof (cases "archive_anchors backups ty = [] \<or> length (archive_anchors backups ty) < keep")
  case True
  then show ?thesis by (auto simp: compute_archive_plan_def)
next
  case False
  define window where "window = retained_window backups ty keep"
  have drop: "plan_for backups window (aid, cur) = Some plan \<and> ap_drop_all plan \<longleftrightarrow>
      plan = plan_drop aid \<and> \<not> cur \<and> aid \<notin> ba_archive_id ` set backups" for aid cur plan
  proof (cases "local_backups backups aid = []")
    case True
    then have "aid \<notin> ba_archive_id ` set backups"
      using set_local_backups [of backups aid] by auto
    with True show ?thesis unfolding plan_for_cases by (auto simp: plan_drop_def)
  next
    case nonempty: False
    then obtain b where "b \<in> set (local_backups backups aid)" by (meson last_in_set)
    then have "aid \<in> ba_archive_id ` set backups" by auto
    with nonempty show ?thesis
      unfolding plan_for_cases by (auto simp: plan_skip_def Let_def split: option.splits)
  qed
  have "plan \<in> set (compute_archive_plan backups ids ty keep) \<longleftrightarrow>
      (\<exists>aid cur. (aid, cur) \<in> set ids \<and> plan_for backups window (aid, cur) = Some plan)" for plan
    using False by (auto simp: compute_archive_plan_def set_map_filter window_def Let_def)
  then have "{ap_archive_id plan |plan. plan \<in> set (compute_archive_plan backups ids ty keep) \<and> ap_drop_all plan}
      = {ap_archive_id plan |plan aid cur. (aid, cur) \<in> set ids \<and>
           (plan_for backups window (aid, cur) = Some plan \<and> ap_drop_all plan)}"
    by blast
  also have "\<dots> = {aid. (aid, False) \<in> set ids \<and> aid \<notin> ba_archive_id ` set backups}"
  proof -
    have "ap_archive_id (plan_drop aid) = aid" for aid by (simp add: plan_drop_def)
    then show ?thesis unfolding drop by auto metis
  qed
  finally show ?thesis using False by simp
qed

text \<open>A cluster with two full backups, one of them in the window.\<close>

definition sample_backups :: "backup_for_archive list" where
  "sample_backups =
     [\<lparr>ba_label = ''20260101F'', ba_type = ''full'', ba_archive_id = ''14-1'',
       ba_start = Some ''000000010000000000000002'', ba_stop = Some ''000000010000000000000003''\<rparr>,
      \<lparr>ba_label = ''20260102F'', ba_type = ''full'', ba_archive_id = ''14-1'',
       ba_start = Some ''000000010000000000000008'', ba_stop = Some ''000000010000000000000009''\<rparr>]"

lemma sample_plan:
  "compute_archive_plan sample_backups [(''14-1'', True)] ArtFull 1 =
    [\<lparr>ap_archive_id = ''14-1'', ap_drop_all = False,
      ap_ranges = [\<lparr>ar_start = ''000000010000000000000002'', ar_stop = Some ''000000010000000000000003''\<rparr>,
                   \<lparr>ar_start = ''000000010000000000000008'', ar_stop = None\<rparr>],
      ap_skip_expiry = False, ap_history_timeline = Some ''00000001''\<rparr>]"
  by (simp add: compute_archive_plan_def archive_anchors_def retained_window_def plan_for_def
      keep_ranges_def sample_backups_def sort_by_def bs_of_def List.map_filter_simps)

lemma sample_window: "retained_window sample_backups ArtFull 1 = [''20260102F'']"
  by (simp add: archive_anchors_def retained_window_def sample_backups_def sort_by_def bs_of_def)


text \<open>C30. The flat layout expires the history file of the timeline it keeps: a file
  \<open><timeline>.history\<close> is removed for every cutoff segment of that same timeline.\<close>

theorem flat_layout_loses_current_history:
  assumes "length timeline = 8" "length rest = 16" "list_all is_ascii_hexdigit rest"
  shows "flat_victims [timeline @ ''.history''] (timeline @ rest) = [timeline @ ''.history'']"
proof -
  obtain c cs where rest: "rest = c # cs" using assms(2) by (cases rest) auto
  then have "is_ascii_hexdigit c" using assms(3) by simp
  then have "CHR ''.'' < c" by (auto simp: is_ascii_hexdigit_def is_ascii_digit_def char_code_def less_char_def)
  then have "timeline @ ''.history'' < timeline @ rest"
    by (simp add: rest list_less_append)
  moreover have "strip_compress_suffix (timeline @ ''.history'') = timeline @ ''.history''"
    by (simp add: strip_compress_suffix_def strip_suffix_def ends_with_def starts_with_def)
  ultimately show ?thesis by (simp add: flat_victims_def)
qed

lemma flat_layout_loses_current_history_witness:
  "flat_victims [''00000002.history''] ''000000020000000000000005'' = [''00000002.history'']"
  using flat_layout_loses_current_history [of "''00000002''" "''0000000000000005''"]
  by (simp add: is_ascii_hexdigit_def is_ascii_digit_def char_code_def)

end
