(* ===== verification/Info_Format.thy ===== *)
theory Info_Format
  imports Rust_Num
begin

text \<open>
  \<open>crates/pgbr-info/src/format.rs\<close>: the INI document shared by \<open>archive.info\<close>, \<open>backup.info\<close> and
  \<open>backup.manifest\<close>, its parser and renderer, and the checksum that both files carry. SHA-1 is not part
  of the repository and is the parameter \<open>sha1\<close>, any function from texts to digests.
\<close>

section \<open>Documents\<close>

text \<open>\<open>InfoFile\<close>: the sections in order, each with its entries in order.\<close>

type_synonym info_entries = "(string \<times> string) list"
type_synonym info_file = "(string \<times> info_entries) list"

abbreviation backrest_section :: string where "backrest_section \<equiv> ''backrest''"
abbreviation checksum_key :: string where "checksum_key \<equiv> ''backrest-checksum''"
abbreviation cipher_section :: string where "cipher_section \<equiv> ''cipher''"
abbreviation cipher_pass_key :: string where "cipher_pass_key \<equiv> ''cipher-pass''"

definition info_get :: "info_file \<Rightarrow> string \<Rightarrow> string \<Rightarrow> string option" where
  "info_get file section key =
     (case im_get file section of None \<Rightarrow> None | Some s \<Rightarrow> im_get s key)"

definition info_set :: "string \<Rightarrow> string \<Rightarrow> string \<Rightarrow> info_file \<Rightarrow> info_file" where
  "info_set section key value file =
     im_insert section
       (im_insert key value (case im_get file section of None \<Rightarrow> [] | Some s \<Rightarrow> s)) file"

datatype format_error =
    InvalidLine nat string
  | UnterminatedSection nat string
  | ChecksumMismatch string string
  | MissingChecksum

fun format_error_display :: "format_error \<Rightarrow> string" where
  "format_error_display (InvalidLine n line) = ''invalid line '' @ fmt_dec n @ '': '' @ line"
| "format_error_display (UnterminatedSection n line) =
     ''unterminated section header on line '' @ fmt_dec n @ '': '' @ line"
| "format_error_display (ChecksumMismatch actual expected) =
     ''invalid checksum, actual '' @ [CHR 0x27] @ actual @ [CHR 0x27] @ '' but expected '' @
     [CHR 0x27] @ expected @ [CHR 0x27]"
| "format_error_display MissingChecksum = ''missing backrest-checksum entry''"

section \<open>Parser and renderer\<close>

fun parse_lines ::
  "nat \<Rightarrow> string list \<Rightarrow> info_file \<Rightarrow> string option \<Rightarrow> (format_error, info_file) result" where
  "parse_lines n [] file current = Ok file"
| "parse_lines n (raw # lines) file current =
     (let trimmed = trim raw in
      if trimmed = [] \<or> starts_with ''#'' trimmed \<or> starts_with '';'' trimmed
      then parse_lines (n + 1) lines file current
      else case strip_prefix ''['' trimmed of
        Some rest \<Rightarrow>
          (case strip_suffix '']'' rest of
             Some name \<Rightarrow> parse_lines (n + 1) lines (im_entry name [] file) (Some name)
           | None \<Rightarrow> Err (UnterminatedSection n raw))
      | None \<Rightarrow>
          (case split_once (CHR ''='') trimmed of
             None \<Rightarrow> Err (InvalidLine n raw)
           | Some (key, value) \<Rightarrow>
               parse_lines (n + 1) lines
                 (info_set (case current of None \<Rightarrow> [] | Some s \<Rightarrow> s) key value file) current))"

definition parse :: "string \<Rightarrow> (format_error, info_file) result" where
  "parse content = parse_lines 1 (str_lines content) [] None"

definition render_entry :: "string \<times> string \<Rightarrow> string" where
  "render_entry e = fst e @ ''='' @ snd e @ [newline]"

definition render_section :: "string \<times> info_entries \<Rightarrow> string" where
  "render_section s = ''['' @ fst s @ '']'' @ [newline] @ concat (map render_entry (snd s))"

fun render_from :: "bool \<Rightarrow> info_file \<Rightarrow> string" where
  "render_from first [] = []"
| "render_from first (s # ss) =
     (if first then [] else [newline]) @ render_section s @ render_from False ss"

definition render :: "info_file \<Rightarrow> string" where
  "render file = render_from True file"

section \<open>The checksum\<close>

definition hex_lower :: "u8 list \<Rightarrow> string" where
  "hex_lower bytes = concat (map (\<lambda>b. map ascii_lower (hex_digits 2 (unat b))) bytes)"

definition checksum :: "(string \<Rightarrow> u8 list) \<Rightarrow> string \<Rightarrow> string" where
  "checksum sha1 content = hex_lower (sha1 content)"

definition checksum_prefix :: string where
  "checksum_prefix = checksum_key @ ''=''"

definition is_checksum_line :: "string \<Rightarrow> bool" where
  "is_checksum_line line =
     (let body = (case strip_suffix [newline] line of None \<Rightarrow> line | Some b \<Rightarrow> b) in
      starts_with checksum_prefix (trim_start body))"

definition strip_checksum_line :: "string \<Rightarrow> string" where
  "strip_checksum_line content =
     concat (filter (\<lambda>l. \<not> is_checksum_line l) (split_inclusive newline content))"

definition trim_matches :: "char \<Rightarrow> string \<Rightarrow> string" where
  "trim_matches c s = rev (dropWhile (\<lambda>x. x = c) (rev (dropWhile (\<lambda>x. x = c) s)))"

definition checksumed_load ::
  "(string \<Rightarrow> u8 list) \<Rightarrow> string \<Rightarrow> (format_error, info_file) result" where
  "checksumed_load sha1 raw =
     rbind (parse raw) (\<lambda>file.
     rbind (ok_or MissingChecksum (info_get file backrest_section checksum_key)) (\<lambda>expected_raw.
       let expected = trim_matches (CHR 0x22) (trim expected_raw);
           actual = checksum sha1 (strip_checksum_line raw)
       in if actual \<noteq> expected then Err (ChecksumMismatch actual expected) else Ok file))"

definition drop_checksum :: "info_file \<Rightarrow> info_file" where
  "drop_checksum file =
     (case im_get file backrest_section of
        None \<Rightarrow> file
      | Some entries \<Rightarrow> im_insert backrest_section (im_remove checksum_key entries) file)"

definition with_checksum :: "(string \<Rightarrow> u8 list) \<Rightarrow> info_file \<Rightarrow> info_file" where
  "with_checksum sha1 file =
     (let body_file = drop_checksum file;
          digest = checksum sha1 (render body_file)
      in info_set backrest_section checksum_key ([CHR 0x22] @ digest @ [CHR 0x22]) body_file)"

definition checksumed_render :: "(string \<Rightarrow> u8 list) \<Rightarrow> info_file \<Rightarrow> string" where
  "checksumed_render sha1 file = render (with_checksum sha1 file)"

section \<open>Well-formed documents\<close>

text \<open>The documents the text can carry: what a line or a header cannot hold is excluded.\<close>

definition wf_entry :: "string \<times> string \<Rightarrow> bool" where
  "wf_entry e =
     (CHR ''='' \<notin> set (fst e) \<and> newline \<notin> set (fst e) \<and> newline \<notin> set (snd e) \<and>
      tight_start (fst e) \<and> tight_end (snd e) \<and>
      \<not> starts_with ''#'' (fst e) \<and> \<not> starts_with '';'' (fst e) \<and> \<not> starts_with ''['' (fst e))"

definition wf_section :: "string \<times> info_entries \<Rightarrow> bool" where
  "wf_section s = (newline \<notin> set (fst s) \<and> distinct (map fst (snd s)) \<and> list_all wf_entry (snd s))"

definition wf_info :: "info_file \<Rightarrow> bool" where
  "wf_info file = (distinct (map fst file) \<and> list_all wf_section file)"

text \<open>The checksum key is reserved to the section of that name.\<close>

definition checksum_reserved :: "info_file \<Rightarrow> bool" where
  "checksum_reserved file =
     list_all (\<lambda>s. fst s = backrest_section \<or> checksum_key \<notin> fst ` set (snd s)) file"

section \<open>Lines of a rendered document\<close>

definition entry_line :: "string \<times> string \<Rightarrow> string" where
  "entry_line e = fst e @ ''='' @ snd e"

definition header_line :: "string \<Rightarrow> string" where
  "header_line s = ''['' @ s @ '']''"

fun doc_lines :: "bool \<Rightarrow> info_file \<Rightarrow> string list" where
  "doc_lines first [] = []"
| "doc_lines first (s # ss) =
     (if first then [] else [[]]) @ header_line (fst s) # map entry_line (snd s) @ doc_lines False ss"

lemma render_from_lines: "render_from first file = unlines (doc_lines first file)"
proof (induction "file" arbitrary: first)
  case (Cons s ss)
  have "concat (map render_entry es) = unlines (map entry_line es)" for es
    by (induction es) (simp_all add: render_entry_def entry_line_def)
  with Cons show ?case by (simp add: render_section_def header_line_def)
qed simp

lemma render_lines: "render file = unlines (doc_lines True file)"
  by (simp add: render_def render_from_lines)

lemma plain_entry_line: "wf_entry e \<Longrightarrow> plain_line (entry_line e)"
proof -
  assume wf: "wf_entry e"
  have "tight_start (fst e @ CHR ''='' # snd e)"
    using wf equals_not_ws tight_start_append [of "fst e" "CHR ''=''" "snd e"]
    by (cases "fst e") (auto simp: wf_entry_def intro: tight_start_Cons)
  moreover have "tight_end (fst e @ CHR ''='' # snd e)"
    using wf equals_not_ws tight_end_append [of "snd e" "CHR ''=''" "fst e"]
    by (cases "snd e") (auto simp: wf_entry_def intro: tight_end_snoc)
  moreover have "newline \<noteq> CHR ''=''" by (simp add: newline_def)
  ultimately show ?thesis
    using wf by (simp add: plain_line_def entry_line_def wf_entry_def)
qed

lemma plain_header_line: "newline \<notin> set s \<Longrightarrow> plain_line (header_line s)"
  using tight_start_Cons [of "CHR ''[''" "s @ '']''"] tight_end_snoc [of "CHR '']''" "CHR ''['' # s"]
  by (simp add: plain_line_def header_line_def ws_first_def ws_last_def newline_def)

lemma plain_doc_lines: "list_all wf_section file \<Longrightarrow> l \<in> set (doc_lines first file) \<Longrightarrow> plain_line l"
proof (induction "file" arbitrary: first)
  case (Cons s ss)
  have "plain_line []" by (simp add: plain_line_def)
  with Cons show ?case
    by (auto simp: wf_section_def list_all_iff plain_header_line plain_entry_line split: if_splits)
qed simp

section \<open>Parsing a rendered document\<close>

lemma parse_plain_header:
  "newline \<notin> set s \<Longrightarrow>
   parse_lines n (header_line s # ls) file cur = parse_lines (n + 1) ls (im_entry s [] file) (Some s)"
proof -
  assume "newline \<notin> set s"
  then have "trim (header_line s) = header_line s"
    using plain_header_line trim_tight by (simp add: plain_line_def)
  moreover have "strip_prefix ''['' (header_line s) = Some (s @ '']'')"
    by (simp add: header_line_def strip_prefix_def starts_with_def)
  moreover have "strip_suffix '']'' (s @ '']'') = Some s" by (rule strip_suffix_append)
  ultimately show ?thesis
    by (simp add: header_line_def starts_with_def)
qed

lemma parse_plain_entry:
  assumes "wf_entry e"
  shows "parse_lines n (entry_line e # ls) file (Some s) =
    parse_lines (n + 1) ls (info_set s (fst e) (snd e) file) (Some s)"
proof -
  have "trim (entry_line e) = entry_line e"
    using plain_entry_line [OF assms] trim_tight by (simp add: plain_line_def)
  moreover have "split_once (CHR ''='') (entry_line e) = Some (fst e, snd e)"
    using assms by (simp add: entry_line_def wf_entry_def)
  moreover have "entry_line e \<noteq> []" "\<not> starts_with ''#'' (entry_line e)"
      "\<not> starts_with '';'' (entry_line e)" "strip_prefix ''['' (entry_line e) = None"
    using assms by (cases "fst e"; simp add: entry_line_def wf_entry_def starts_with_def strip_prefix_def)+
  ultimately show ?thesis by (cases e) simp
qed

lemma parse_blank: "parse_lines n ([] # ls) file cur = parse_lines (n + 1) ls file cur"
  by simp

lemma parse_entries:
  assumes "list_all wf_entry es" "distinct (map fst (done @ es))" "s \<notin> fst ` set acc"
  shows "parse_lines n (map entry_line es @ ls) (acc @ [(s, done)]) (Some s) =
    parse_lines (n + length es) ls (acc @ [(s, done @ es)]) (Some s)"
  using assms
proof (induction es arbitrary: n "done")
  case (Cons e es)
  have get: "im_get (acc @ [(s, done)]) s = Some done"
    using Cons.prems(3) by (simp add: im_get_None_iff [THEN iffD2])
  have "im_insert (fst e) (snd e) done = done @ [e]"
    using Cons.prems(2) by (simp add: im_insert_fresh)
  then have "info_set s (fst e) (snd e) (acc @ [(s, done)]) = acc @ [(s, done @ [e])]"
    using Cons.prems(3) get by (simp add: info_set_def im_insert_at)
  then show ?case
    using Cons.IH [of "done @ [e]" "n + 1"] Cons.prems parse_plain_entry [of e] by simp
qed simp

lemma parse_doc_lines:
  assumes "list_all wf_section file" "distinct (map fst (acc @ file))"
  shows "parse_lines n (doc_lines first file) acc cur = Ok (acc @ file)"
  using assms
proof (induction "file" arbitrary: n first acc cur)
  case (Cons s ss)
  obtain name es where s: "s = (name, es)" by (cases s)
  have wf: "newline \<notin> set name" "distinct (map fst es)" "list_all wf_entry es"
    using Cons.prems(1) s by (simp_all add: wf_section_def)
  have fresh: "name \<notin> fst ` set acc" using Cons.prems(2) s by auto
  then have entry: "im_entry name [] acc = acc @ [(name, [])]"
    by (simp add: im_entry_def im_get_None_iff)
  have "parse_lines m (header_line name # map entry_line es @ doc_lines False ss) acc c = Ok (acc @ s # ss)"
    for m c
    using parse_plain_header [OF wf(1)] entry parse_entries [OF wf(3), of "[]" name acc] wf(2) fresh
      Cons.IH [of "acc @ [s]"] Cons.prems s
    by simp
  then show ?case using parse_blank by (cases first) (simp_all add: s)
qed simp

lemma parse_render: "wf_info file \<Longrightarrow> parse (render file) = Ok file"
  using lines_unlines [of "doc_lines True file"] plain_doc_lines [of "file" _ True] parse_doc_lines [of "file" "[]"]
  by (simp add: parse_def render_lines wf_info_def)

section \<open>The checksum line\<close>

lemma checksum_line_plain:
  "plain_line l \<Longrightarrow> is_checksum_line (l @ [newline]) = starts_with checksum_prefix l"
  by (simp add: is_checksum_line_def plain_line_def tight_start_def)

lemma checksum_entry_line:
  assumes "CHR ''='' \<notin> set (fst e)"
  shows "starts_with checksum_prefix (entry_line e) \<longleftrightarrow> fst e = checksum_key"
proof
  assume "starts_with checksum_prefix (entry_line e)"
  then obtain r where r: "entry_line e = checksum_key @ CHR ''='' # r"
    by (auto simp: starts_with_iff checksum_prefix_def)
  have "split_once (CHR ''='') (entry_line e) = Some (fst e, snd e)"
    using assms by (simp add: entry_line_def)
  moreover have "split_once (CHR ''='') (entry_line e) = Some (checksum_key, r)"
    unfolding r by (rule split_once_append) simp
  ultimately show "fst e = checksum_key" by (metis Pair_inject option.inject)
next
  assume "fst e = checksum_key"
  then have "entry_line e = checksum_prefix @ snd e" by (simp add: entry_line_def checksum_prefix_def)
  then show "starts_with checksum_prefix (entry_line e)" by (metis starts_with_append)
qed

lemma strip_checksum_unlines:
  "\<forall>l \<in> set ls. plain_line l \<Longrightarrow>
   strip_checksum_line (unlines ls) = unlines (filter (\<lambda>l. \<not> starts_with checksum_prefix l) ls)"
proof -
  assume plain: "\<forall>l \<in> set ls. plain_line l"
  then have "filter (\<lambda>l. \<not> is_checksum_line l) (map (\<lambda>l. l @ [newline]) ls)
      = map (\<lambda>l. l @ [newline]) (filter (\<lambda>l. \<not> starts_with checksum_prefix l) ls)"
    by (induction ls) (simp_all add: checksum_line_plain)
  moreover have "split_inclusive newline (unlines ls) = map (\<lambda>l. l @ [newline]) ls"
    using plain by (intro split_unlines) (simp add: plain_line_def)
  ultimately show ?thesis by (simp add: strip_checksum_line_def unlines_def)
qed

definition without_checksum :: "info_file \<Rightarrow> info_file" where
  "without_checksum file = map (\<lambda>s. (fst s, filter (\<lambda>e. fst e \<noteq> checksum_key) (snd s))) file"

lemma checksum_lines:
  "list_all wf_section file \<Longrightarrow>
   filter (\<lambda>l. \<not> starts_with checksum_prefix l) (doc_lines first file)
     = doc_lines first (without_checksum file)"
proof (induction "file" arbitrary: first)
  case (Cons s ss)
  have header: "\<not> starts_with checksum_prefix (header_line n)"
    "\<not> starts_with checksum_prefix []" for n
    by (simp_all add: header_line_def starts_with_def checksum_prefix_def)
  have "filter (\<lambda>l. \<not> starts_with checksum_prefix l) (map entry_line es)
      = map entry_line (filter (\<lambda>e. fst e \<noteq> checksum_key) es)" if "list_all wf_entry es" for es
    using that
  proof (induction es)
    case (Cons e es)
    then have "CHR ''='' \<notin> set (fst e)" by (simp add: wf_entry_def)
    from checksum_entry_line [OF this] Cons show ?case by simp
  qed simp
  with Cons header show ?case by (simp add: wf_section_def without_checksum_def)
qed (simp add: without_checksum_def)

lemma strip_checksum_render:
  "list_all wf_section file \<Longrightarrow> strip_checksum_line (render file) = render (without_checksum file)"
  using strip_checksum_unlines [of "doc_lines True file"] plain_doc_lines [of "file" _ True]
  by (simp add: render_lines checksum_lines)

lemma hex_lower_chars:
  assumes "c \<in> set (hex_lower bytes)"
  shows "c \<noteq> CHR 0x22 \<and> c \<noteq> newline"
proof -
  obtain d where d: "is_ascii_hexdigit d" "c = ascii_lower d"
    using assms hex_digits_hex by (fastforce simp: hex_lower_def)
  have "char_code c \<ge> 48"
  proof (cases "65 \<le> char_code d \<and> char_code d \<le> 90")
    case True
    then have "char_code d + 32 < 256" by simp
    with True show ?thesis unfolding d(2) ascii_lower_def by simp
  next
    case False
    with d show ?thesis by (auto simp: ascii_lower_def is_ascii_hexdigit_def is_ascii_digit_def)
  qed
  then show ?thesis by (auto simp: newline_def char_code_def)
qed

lemma trim_matches_quotes:
  assumes "CHR 0x22 \<notin> set s"
  shows "trim_matches (CHR 0x22) ([CHR 0x22] @ s @ [CHR 0x22]) = s"
proof -
  have drop: "dropWhile (\<lambda>x. x = CHR 0x22) t = t" if "CHR 0x22 \<notin> set t" for t
    using that by (cases t) auto
  show ?thesis
  proof (cases s)
    case (Cons c cs)
    with assms have "c \<noteq> CHR 0x22" by auto
    then show ?thesis using drop [of "rev s"] assms Cons by (simp add: trim_matches_def)
  qed (simp add: trim_matches_def)
qed

lemma split_at_section:
  assumes "im_get file k = Some es" "distinct (map fst file)"
  obtains pre post where "file = pre @ (k, es) # post" "k \<notin> fst ` set pre" "k \<notin> fst ` set post"
proof -
  have "(k, es) \<in> set file" using assms(1) by (auto simp: im_get_def dest: map_of_SomeD)
  then obtain pre post where f: "file = pre @ (k, es) # post" by (meson split_list)
  with assms(2) have "k \<notin> fst ` set pre" "k \<notin> fst ` set post" by auto
  with f that show thesis by blast
qed

lemma without_checksum_id:
  "list_all (\<lambda>s. checksum_key \<notin> fst ` set (snd s)) file \<Longrightarrow> without_checksum file = file"
  unfolding without_checksum_def by (induction "file") (force simp: filter_id_conv)+

text \<open>The checksum entry ends up last in its section; nothing else changes.\<close>

lemma with_checksum_shape:
  assumes "wf_info file" "checksum_reserved file" "im_get file backrest_section \<noteq> None"
  obtains pre es post v where
    "drop_checksum file = pre @ (backrest_section, es) # post"
    "with_checksum sha1 file = pre @ (backrest_section, es @ [(checksum_key, v)]) # post"
    "v = [CHR 0x22] @ checksum sha1 (render (drop_checksum file)) @ [CHR 0x22]"
    "wf_info (drop_checksum file)" "without_checksum (drop_checksum file) = drop_checksum file"
    "checksum_key \<notin> fst ` set es"
proof -
  obtain all where all: "im_get file backrest_section = Some all" using assms(3) by auto
  obtain pre post where f: "file = pre @ (backrest_section, all) # post"
    and fresh: "backrest_section \<notin> fst ` set pre" "backrest_section \<notin> fst ` set post"
    using split_at_section [OF all] assms(1) by (auto simp: wf_info_def)
  define es where "es = im_remove checksum_key all"
  define v where "v = [CHR 0x22] @ checksum sha1 (render (drop_checksum file)) @ [CHR 0x22]"
  have es: "checksum_key \<notin> fst ` set es" by (auto simp: es_def im_remove_def)
  have dropped: "drop_checksum file = pre @ (backrest_section, es) # post"
    using all f fresh by (simp add: drop_checksum_def im_insert_at es_def)
  have get: "im_get (pre @ (backrest_section, es) # post) backrest_section = Some es"
    using fresh by (simp add: im_get_None_iff [THEN iffD2])
  have ins: "im_insert checksum_key v es = es @ [(checksum_key, v)]"
    using es by (rule im_insert_fresh)
  have shape: "with_checksum sha1 file = pre @ (backrest_section, es @ [(checksum_key, v)]) # post"
  proof -
    have "with_checksum sha1 file = info_set backrest_section checksum_key v (drop_checksum file)"
      by (simp add: with_checksum_def v_def Let_def)
    then show ?thesis using fresh ins get unfolding dropped info_set_def by (simp add: im_insert_at)
  qed
  have "distinct (map fst all)" "list_all wf_entry all"
    using assms(1) f by (simp_all add: wf_info_def wf_section_def)
  then have "distinct (map fst es)" "list_all wf_entry es"
    by (auto simp: es_def im_remove_def list_all_iff distinct_map inj_on_def)
  then have wf: "wf_info (drop_checksum file)"
    using assms(1) f unfolding dropped by (auto simp: wf_info_def wf_section_def)
  have "list_all (\<lambda>s. checksum_key \<notin> fst ` set (snd s)) (drop_checksum file)"
  proof -
    have "fst s \<noteq> backrest_section" if "s \<in> set pre \<union> set post" for s
      using that fresh by (metis Un_iff image_eqI)
    moreover have "fst s = backrest_section \<or> checksum_key \<notin> fst ` set (snd s)" if "s \<in> set file" for s
      using that assms(2) by (simp add: checksum_reserved_def list_all_iff)
    ultimately have "checksum_key \<notin> fst ` set (snd s)" if "s \<in> set pre \<union> set post" for s
      using that f by (metis Un_iff list.set_intros(2) set_append)
    then show ?thesis using es unfolding dropped list_all_iff by simp
  qed
  then show thesis
    using that [OF dropped shape v_def wf _ es] without_checksum_id by blast
qed

text \<open>What is loaded back after a save: the document with its fresh checksum.\<close>

lemma load_render_ok:
  assumes "wf_info file" "checksum_reserved file" "im_get file backrest_section \<noteq> None"
  shows "checksumed_load sha1 (checksumed_render sha1 file) = Ok (with_checksum sha1 file)"
proof -
  obtain pre es post v where dropped: "drop_checksum file = pre @ (backrest_section, es) # post"
    and shape: "with_checksum sha1 file = pre @ (backrest_section, es @ [(checksum_key, v)]) # post"
    and v: "v = [CHR 0x22] @ checksum sha1 (render (drop_checksum file)) @ [CHR 0x22]"
    and wf: "wf_info (drop_checksum file)" "without_checksum (drop_checksum file) = drop_checksum file"
    and es: "checksum_key \<notin> fst ` set es"
    by (rule with_checksum_shape [OF assms])
  let ?digest = "checksum sha1 (render (drop_checksum file))"
  have chars: "CHR 0x22 \<notin> set ?digest" "newline \<notin> set ?digest"
    using hex_lower_chars by (auto simp: checksum_def)
  have tight: "tight_start v" "tight_end v"
    unfolding v using tight_start_Cons [of "CHR 0x22"] tight_end_snoc [of "CHR 0x22" "CHR 0x22 # ?digest"]
    by (simp_all add: ws_first_def ws_last_def)
  have "wf_entry (checksum_key, v)"
    using chars tight by (auto simp: wf_entry_def v newline_def starts_with_def ws_first_def intro!: tight_start_Cons)
  then have wf1: "wf_info (with_checksum sha1 file)"
    using wf(1) es unfolding shape dropped by (auto simp: wf_info_def wf_section_def)
  have stripped: "without_checksum (with_checksum sha1 file) = drop_checksum file"
    using wf(2) unfolding shape dropped by (auto simp: without_checksum_def)
  have fresh: "backrest_section \<notin> fst ` set pre"
    using wf(1) unfolding dropped by (auto simp: wf_info_def)
  have "info_get (with_checksum sha1 file) backrest_section checksum_key = Some v"
    using fresh es unfolding shape info_get_def by (simp add: im_get_None_iff [THEN iffD2])
  moreover have "trim_matches (CHR 0x22) (trim v) = ?digest"
    using trim_tight [OF tight] chars trim_matches_quotes unfolding v by simp
  moreover have "strip_checksum_line (render (with_checksum sha1 file)) = render (drop_checksum file)"
    using strip_checksum_render wf1 stripped by (simp add: wf_info_def)
  ultimately show ?thesis
    using parse_render [OF wf1] by (simp add: checksumed_load_def checksumed_render_def)
qed

text \<open>Saving and loading an info document: whatever the checksum function, a well-formed document with
  a \<open>[backrest]\<close> section is read back, its checksum verified, as the same sections and entries in the
  same order with the checksum entry at the end of \<open>[backrest]\<close>.\<close>

theorem info_document_roundtrip:
  assumes "wf_info file" "checksum_reserved file" "im_get file backrest_section \<noteq> None"
  shows "checksumed_load sha1 (checksumed_render sha1 file) = Ok (with_checksum sha1 file) \<and>
    without_checksum (with_checksum sha1 file) = without_checksum file"
proof -
  obtain pre es post v where dropped: "drop_checksum file = pre @ (backrest_section, es) # post"
    and shape: "with_checksum sha1 file = pre @ (backrest_section, es @ [(checksum_key, v)]) # post"
    by (rule with_checksum_shape [OF assms]) blast
  obtain all where all: "im_get file backrest_section = Some all" using assms(3) by auto
  obtain pre' post' where f: "file = pre' @ (backrest_section, all) # post'"
    and fresh: "backrest_section \<notin> fst ` set pre'" "backrest_section \<notin> fst ` set post'"
    using split_at_section [OF all] assms(1) by (auto simp: wf_info_def)
  have "without_checksum (drop_checksum file) = without_checksum file"
    using all fresh by (simp add: f drop_checksum_def im_insert_at im_remove_def without_checksum_def
        case_prod_beta)
  moreover have "without_checksum (with_checksum sha1 file) = without_checksum (drop_checksum file)"
    unfolding shape dropped by (simp add: without_checksum_def)
  ultimately show ?thesis using load_render_ok [OF assms] by simp
qed

definition sample_doc :: info_file where
  "sample_doc = [(''backrest'', [(''backrest-format'', ''5'')]), (''db'', [(''db-id'', ''1'')])]"

definition sample_sha1 :: "string \<Rightarrow> u8 list" where
  "sample_sha1 s = [of_nat (length s)]"

lemma sample_tight:
  "tight_start ''backrest-format''" "tight_start ''db-id''" "tight_end ''5''" "tight_end ''1''"
  using tight_end_snoc [of "CHR ''5''" "[]"] tight_end_snoc [of "CHR ''1''" "[]"]
  by (auto simp: ws_first_def ws_last_def intro!: tight_start_Cons)

lemma info_document_roundtrip_witness:
  "checksumed_load sample_sha1 (checksumed_render sample_sha1 sample_doc)
     = Ok (with_checksum sample_sha1 sample_doc)"
  using info_document_roundtrip [of sample_doc sample_sha1]
  by (simp add: sample_doc_def wf_info_def wf_section_def wf_entry_def checksum_reserved_def
      newline_def starts_with_def sample_tight)

text \<open>A document without a \<open>[backrest]\<close> section does not survive a save: the section that the renderer
  adds for the checksum is not in the text the checksum was taken over, so that loading the file
  reports a checksum mismatch (unless the two texts collide).\<close>

theorem checksum_without_backrest_mismatch:
  assumes "wf_info file" "checksum_reserved file" "im_get file backrest_section = None"
    and "checksum sha1 (render (file @ [(backrest_section, [])])) \<noteq> checksum sha1 (render file)"
  shows "checksumed_load sha1 (checksumed_render sha1 file) =
    Err (ChecksumMismatch (checksum sha1 (render (file @ [(backrest_section, [])])))
           (checksum sha1 (render file)))"
proof -
  let ?digest = "checksum sha1 (render file)"
  define v where "v = [CHR 0x22] @ ?digest @ [CHR 0x22]"
  have fresh: "backrest_section \<notin> fst ` set file" using assms(3) by (simp add: im_get_None_iff)
  have shape: "with_checksum sha1 file = file @ [(backrest_section, [(checksum_key, v)])]"
    using assms(3) fresh
    by (simp add: with_checksum_def drop_checksum_def info_set_def v_def im_insert_fresh Let_def)
  have chars: "CHR 0x22 \<notin> set ?digest" "newline \<notin> set ?digest"
    using hex_lower_chars by (auto simp: checksum_def)
  have tight: "tight_start v" "tight_end v"
    unfolding v_def using tight_start_Cons [of "CHR 0x22"] tight_end_snoc [of "CHR 0x22" "CHR 0x22 # ?digest"]
    by (simp_all add: ws_first_def ws_last_def)
  have "wf_entry (checksum_key, v)"
    using chars tight
    by (auto simp: wf_entry_def v_def newline_def starts_with_def ws_first_def intro!: tight_start_Cons)
  then have wf1: "wf_info (with_checksum sha1 file)"
    using assms(1) fresh unfolding shape by (auto simp: wf_info_def wf_section_def newline_def)
  have "list_all (\<lambda>s. checksum_key \<notin> fst ` set (snd s)) file"
    using assms(2) fresh unfolding checksum_reserved_def list_all_iff by (metis image_eqI)
  then have "without_checksum (with_checksum sha1 file) = file @ [(backrest_section, [])]"
    using without_checksum_id unfolding shape by (simp add: without_checksum_def)
  then have "strip_checksum_line (render (with_checksum sha1 file)) = render (file @ [(backrest_section, [])])"
    using strip_checksum_render wf1 by (simp add: wf_info_def)
  moreover have "info_get (with_checksum sha1 file) backrest_section checksum_key = Some v"
    using assms(3) unfolding shape info_get_def by simp
  moreover have "trim_matches (CHR 0x22) (trim v) = ?digest"
    using trim_tight [OF tight] chars trim_matches_quotes unfolding v_def by simp
  ultimately show ?thesis
    using parse_render [OF wf1] assms(4) by (simp add: checksumed_load_def checksumed_render_def Let_def)
qed

lemma checksum_without_backrest_mismatch_witness:
  "checksumed_load sample_sha1 (checksumed_render sample_sha1 []) =
     Err (ChecksumMismatch ''0b'' ''00'')"
proof -
  have hex: "map ascii_lower (hex_digits 2 11) = ''0b''" "map ascii_lower (hex_digits 2 0) = ''00''"
    by code_simp+
  have "checksum sample_sha1 (render ([] @ [(backrest_section, [])])) = ''0b''"
    using hex(1) by (simp add: checksum_def hex_lower_def sample_sha1_def render_def render_section_def)
  moreover have "checksum sample_sha1 (render []) = ''00''"
    using hex(2) by (simp add: checksum_def hex_lower_def sample_sha1_def render_def)
  ultimately show ?thesis
    using checksum_without_backrest_mismatch [of "[]" sample_sha1]
    by (simp add: wf_info_def checksum_reserved_def)
qed

end
