(* ===== verification/Utf8.thy ===== *)
theory Utf8
  imports Rust_Num
begin

text \<open>
  \<open>str::from_utf8\<close>: the byte strings that are well-formed UTF-8 (Unicode table 3-7). A Rust \<open>String\<close>
  always is; bytes read from a file need not be.
\<close>

definition in_range :: "nat \<Rightarrow> nat \<Rightarrow> char \<Rightarrow> bool" where
  "in_range lo hi c = (lo \<le> char_code c \<and> char_code c \<le> hi)"

definition cont :: "char \<Rightarrow> bool" where
  "cont c = in_range 128 191 c"

text \<open>The number of bytes of the character a text starts with, 0 when there is none.\<close>

definition char1 :: "char \<Rightarrow> bool" where
  "char1 a = in_range 0 127 a"

definition char2 :: "char \<Rightarrow> char \<Rightarrow> bool" where
  "char2 a b = (in_range 194 223 a \<and> cont b)"

definition char3 :: "char \<Rightarrow> char \<Rightarrow> char \<Rightarrow> bool" where
  "char3 a b c =
     ((in_range 224 224 a \<and> in_range 160 191 b \<or>
       (in_range 225 236 a \<or> in_range 238 239 a) \<and> cont b \<or>
       in_range 237 237 a \<and> in_range 128 159 b) \<and> cont c)"

definition char4 :: "char \<Rightarrow> char \<Rightarrow> char \<Rightarrow> char \<Rightarrow> bool" where
  "char4 a b c d =
     ((in_range 240 240 a \<and> in_range 144 191 b \<or>
       in_range 241 243 a \<and> cont b \<or>
       in_range 244 244 a \<and> in_range 128 143 b) \<and> cont c \<and> cont d)"

fun utf8_len :: "string \<Rightarrow> nat" where
  "utf8_len (a # b # c # d # s) =
     (if char1 a then 1 else if char2 a b then 2 else if char3 a b c then 3
      else if char4 a b c d then 4 else 0)"
| "utf8_len [a, b, c] = (if char1 a then 1 else if char2 a b then 2 else if char3 a b c then 3 else 0)"
| "utf8_len [a, b] = (if char1 a then 1 else if char2 a b then 2 else 0)"
| "utf8_len [a] = (if char1 a then 1 else 0)"
| "utf8_len [] = 0"

function utf8_valid :: "string \<Rightarrow> bool" where
  "utf8_valid s =
     (if s = [] then True
      else if utf8_len s = 0 then False
      else utf8_valid (drop (utf8_len s) s))"
  by pat_completeness auto
termination by (relation "measure length") auto

declare utf8_valid.simps [simp del]

lemma utf8_valid_Nil [simp]: "utf8_valid []"
  by (simp add: utf8_valid.simps [of "[]"])

lemma utf8_len_append:
  assumes "utf8_len s \<noteq> 0"
  shows "utf8_len (s @ t) = utf8_len s" "utf8_len s \<le> length s"
  using assms by (cases s rule: utf8_len.cases; cases t rule: utf8_len.cases; simp split: if_splits)+

lemma utf8_valid_append: "utf8_valid s \<Longrightarrow> utf8_valid t \<Longrightarrow> utf8_valid (s @ t)"
proof (induction s rule: utf8_valid.induct)
  case (1 s)
  show ?case
  proof (cases "s = []")
    case False
    then have n: "utf8_len s \<noteq> 0" and rest: "utf8_valid (drop (utf8_len s) s)"
      using 1(2) unfolding utf8_valid.simps [of s] by (simp_all split: if_splits)
    then have "utf8_valid (drop (utf8_len s) s @ t)" using 1 False by blast
    then show ?thesis
      using utf8_len_append [OF n] n False by (simp add: utf8_valid.simps [of "s @ t"])
  qed (use 1 in simp)
qed

lemma utf8_valid_ascii: "list_all (\<lambda>c. char_code c < 128) s \<Longrightarrow> utf8_valid s"
  proof (induction s)
  case (Cons c s)
  then have "utf8_len (c # s) = 1"
    by (cases "c # s" rule: utf8_len.cases) (simp_all add: char1_def in_range_def)
  then show ?case using Cons by (simp add: utf8_valid.simps [of "c # s"])
qed simp

lemma utf8_valid_concat: "\<forall>s \<in> set ss. utf8_valid s \<Longrightarrow> utf8_valid (concat ss)"
  by (induction ss) (auto intro: utf8_valid_append)

end
