(* ===== verification/Info_Codec.thy ===== *)
theory Info_Codec
  imports Info_Format Utf8 Storage Json_Api
begin

text \<open>
  What \<open>archive.info\<close> and \<open>backup.info\<close> share (\<open>crates/pgbr-info/src/lib.rs\<close>, the helpers of
  \<open>archive.rs\<close> and the encryption wrappers of \<open>cipher.rs\<close>): errors, required fields, decoding and encoding
  under a passphrase, and loading and saving with the \<open>.copy\<close> mirror. The JSON codec, SHA-1 and the
  cipher filter are not part of the modelled code: they are the fields of \<open>info_env\<close>.
\<close>

section \<open>Errors and environment\<close>

datatype info_error =
    IeIo io_error
  | IeStorage storage_error
  | IeFormat format_error
  | IeMissingField string string
  | IeInvalidValue string string
  | IeJson string string

fun info_error_display :: "info_error \<Rightarrow> string" where
  "info_error_display (IeIo e) = ''info i/o error: '' @ io_error_display e"
| "info_error_display (IeStorage e) = ''info storage error: '' @ storage_error_display e"
| "info_error_display (IeFormat e) = ''info format error: '' @ format_error_display e"
| "info_error_display (IeMissingField section key) =
     ''missing required field ['' @ section @ ''].'' @ key"
| "info_error_display (IeInvalidValue context value) =
     ''invalid value in '' @ context @ '': '' @ value"
| "info_error_display (IeJson context err) = ''json error in '' @ context @ '': '' @ err"

definition info_error_from_storage :: "storage_error \<Rightarrow> info_error" where
  "info_error_from_storage e = (case e of StIo io \<Rightarrow> IeIo io | other \<Rightarrow> IeStorage other)"

record db_history_entry =
  dh_db_id :: nat
  dh_db_version :: string

record 'j info_env =
  ie_sha1 :: "string \<Rightarrow> u8 list"
  ie_encrypt :: "string \<Rightarrow> string \<Rightarrow> (io_error, string) result"
  ie_decrypt :: "string \<Rightarrow> string \<Rightarrow> (io_error, string) result"
  ie_json_string :: "string \<Rightarrow> string"
  ie_parse_string :: "string \<Rightarrow> string option"
  ie_print :: "'j \<Rightarrow> string"
  ie_parse :: "string \<Rightarrow> (string, 'j) result"
  ie_print_history :: "db_history_entry \<Rightarrow> string option"
  ie_parse_history :: "string \<Rightarrow> (string, db_history_entry) result"

section \<open>Fields\<close>

definition strip_json_quotes :: "'j info_env \<Rightarrow> string \<Rightarrow> string" where
  "strip_json_quotes E value =
     (let trimmed = trim value in
      if starts_with [CHR 0x22] trimmed \<and> ends_with [CHR 0x22] trimmed \<and> 2 \<le> length trimmed
      then (case ie_parse_string E trimmed of Some s \<Rightarrow> s | None \<Rightarrow> trimmed)
      else trimmed)"

definition parse_required_string ::
  "'j info_env \<Rightarrow> info_file \<Rightarrow> string \<Rightarrow> string \<Rightarrow> (info_error, string) result" where
  "parse_required_string E file section key =
     rbind (ok_or (IeMissingField section key) (info_get file section key)) (\<lambda>raw.
       Ok (strip_json_quotes E raw))"

definition parse_required_u32 :: "info_file \<Rightarrow> string \<Rightarrow> string \<Rightarrow> (info_error, nat) result" where
  "parse_required_u32 file section key =
     rbind (ok_or (IeMissingField section key) (info_get file section key)) (\<lambda>raw.
       ok_or (IeMissingField section key) (parse_u32 (trim raw)))"

definition parse_required_u64 :: "info_file \<Rightarrow> string \<Rightarrow> string \<Rightarrow> (info_error, nat) result" where
  "parse_required_u64 file section key =
     rbind (ok_or (IeMissingField section key) (info_get file section key)) (\<lambda>raw.
       ok_or (IeMissingField section key) (parse_u64 (trim raw)))"

text \<open>The \<open>[db:history]\<close> block of both files.\<close>

definition parse_history_rows ::
  "'j info_env \<Rightarrow> info_file \<Rightarrow> (info_error, (nat, db_history_entry) btree) result" where
  "parse_history_rows E file = (case im_get file ''db:history'' of
       None \<Rightarrow> Ok []
     | Some rows \<Rightarrow> try_fold (\<lambda>(key, raw_value) history.
         rbind (ok_or (IeInvalidValue ''[db:history] row key'' key) (parse_u32 key)) (\<lambda>ident.
         rbind (map_err (IeJson (''[db:history].'' @ key)) (ie_parse_history E raw_value)) (\<lambda>entry.
           Ok (bt_insert ident entry history)))) rows [])"

definition set_history_rows ::
  "'j info_env \<Rightarrow> (nat, db_history_entry) btree \<Rightarrow> info_file \<Rightarrow> info_file" where
  "set_history_rows E history file = fold (\<lambda>(ident, entry).
     info_set ''db:history'' (fmt_dec ident)
       (case ie_print_history E entry of Some json \<Rightarrow> json | None \<Rightarrow> ''{}'')) history file"

section \<open>Encryption and bytes\<close>

definition decode_maybe_encrypted ::
  "'j info_env \<Rightarrow> string \<Rightarrow> string option \<Rightarrow> (info_error, string) result" where
  "decode_maybe_encrypted E raw passphrase = (case passphrase of
       Some pass \<Rightarrow> if pass \<noteq> [] then map_err IeIo (ie_decrypt E pass raw) else Ok raw
     | None \<Rightarrow> Ok raw)"

definition encode_maybe_encrypted ::
  "'j info_env \<Rightarrow> string \<Rightarrow> string option \<Rightarrow> (info_error, string) result" where
  "encode_maybe_encrypted E plaintext passphrase = (case passphrase of
       Some pass \<Rightarrow> if pass \<noteq> [] then map_err IeIo (ie_encrypt E pass plaintext) else Ok plaintext
     | None \<Rightarrow> Ok plaintext)"

text \<open>The message of the UTF-8 error names its position in the source; only its prefix is kept.\<close>

definition bytes_to_text :: "string \<Rightarrow> (info_error, string) result" where
  "bytes_to_text bytes =
     (if utf8_valid bytes then Ok bytes else Err (IeFormat (InvalidLine 0 ''non-utf8 input'')))"

definition from_bytes_keyed ::
  "'j info_env \<Rightarrow> (info_file \<Rightarrow> (info_error, 'a) result) \<Rightarrow> string \<Rightarrow> string option \<Rightarrow>
   (info_error, 'a \<times> string option) result" where
  "from_bytes_keyed E from_file raw passphrase =
     rbind (decode_maybe_encrypted E raw passphrase) (\<lambda>plaintext.
     rbind (bytes_to_text plaintext) (\<lambda>text.
     rbind (map_err IeFormat (checksumed_load (ie_sha1 E) text)) (\<lambda>file.
     let cipher_pass = map_option (strip_json_quotes E) (info_get file cipher_section cipher_pass_key) in
     rbind (from_file file) (\<lambda>x. Ok (x, cipher_pass)))))"

definition to_bytes_keyed ::
  "'j info_env \<Rightarrow> ('a \<Rightarrow> string option \<Rightarrow> info_file) \<Rightarrow> 'a \<Rightarrow> string option \<Rightarrow> string option \<Rightarrow>
   (info_error, string) result" where
  "to_bytes_keyed E to_file x passphrase cipher_pass =
     encode_maybe_encrypted E (checksumed_render (ie_sha1 E) (to_file x cipher_pass)) passphrase"

definition info_from_text ::
  "'j info_env \<Rightarrow> (info_file \<Rightarrow> (info_error, 'a) result) \<Rightarrow> string \<Rightarrow> (info_error, 'a) result" where
  "info_from_text E from_file raw =
     rbind (map_err IeFormat (checksumed_load (ie_sha1 E) raw)) from_file"

section \<open>Storage\<close>

definition copy_path :: "path \<Rightarrow> path" where
  "copy_path p = p @ ''.copy''"

definition read_and_decode ::
  "'s storage_ops \<Rightarrow> path \<Rightarrow> (string \<Rightarrow> (info_error, 'a) result) \<Rightarrow> ('s, info_error, 'a) action" where
  "read_and_decode ops p decode =
     act_bind (act_map_err info_error_from_storage (so_read ops p)) (\<lambda>bytes. act_lift (decode bytes))"

definition load_keyed ::
  "'s storage_ops \<Rightarrow> 'j info_env \<Rightarrow> (info_file \<Rightarrow> (info_error, 'a) result) \<Rightarrow> path \<Rightarrow> string option \<Rightarrow>
   ('s, info_error, 'a \<times> string option) action" where
  "load_keyed ops E from_file p passphrase = (\<lambda>s.
     let decode = (\<lambda>bytes. from_bytes_keyed E from_file bytes passphrase) in
     case read_and_decode ops p decode s of
       (Inr v, t) \<Rightarrow> (Ok v, t)
     | (Inl primary_err, t) \<Rightarrow> (case read_and_decode ops (copy_path p) decode t of
           (Inr v, u) \<Rightarrow> (Ok v, u)
         | (Inl _, u) \<Rightarrow> (Err primary_err, u)))"

definition write_with_copy :: "'s storage_ops \<Rightarrow> path \<Rightarrow> string \<Rightarrow> ('s, info_error, unit) action" where
  "write_with_copy ops p bytes =
     act_bind (act_map_err info_error_from_storage (so_write_atomic ops (copy_path p) bytes)) (\<lambda>_.
     act_map_err info_error_from_storage (so_write_atomic ops p bytes))"

definition save_keyed ::
  "'s storage_ops \<Rightarrow> 'j info_env \<Rightarrow> ('a \<Rightarrow> string option \<Rightarrow> info_file) \<Rightarrow> 'a \<Rightarrow> path \<Rightarrow> string option \<Rightarrow>
   string option \<Rightarrow> ('s, info_error, unit) action" where
  "save_keyed ops E to_file x p passphrase cipher_pass =
     act_bind (act_lift (to_bytes_keyed E to_file x passphrase cipher_pass)) (\<lambda>bytes.
       write_with_copy ops p bytes)"

text \<open>The plain save of \<open>save\<close>: no mirror, no atomic replacement.\<close>

definition info_save ::
  "'s storage_ops \<Rightarrow> 'j info_env \<Rightarrow> ('a \<Rightarrow> string option \<Rightarrow> info_file) \<Rightarrow> 'a \<Rightarrow> path \<Rightarrow>
   ('s, info_error, unit) action" where
  "info_save ops E to_file x p =
     act_map_err info_error_from_storage
       (so_write ops p (checksumed_render (ie_sha1 E) (to_file x None)))"

section \<open>The codec contract\<close>

text \<open>
  What a typed wrapper owes: on the values it supports the document it builds is well-formed and
  is read back as the same value and the same sub-key.
\<close>

locale info_codec =
  fixes E :: "'j info_env"
    and to_file :: "'a \<Rightarrow> string option \<Rightarrow> info_file"
    and from_file :: "info_file \<Rightarrow> (info_error, 'a) result"
    and supported :: "'a \<Rightarrow> string option \<Rightarrow> bool"
  assumes doc_wf: "supported x c \<Longrightarrow> wf_info (to_file x c)"
    and doc_reserved: "supported x c \<Longrightarrow> checksum_reserved (to_file x c)"
    and doc_backrest: "supported x c \<Longrightarrow> im_get (to_file x c) backrest_section \<noteq> None"
    and doc_utf8: "supported x c \<Longrightarrow> utf8_valid (checksumed_render (ie_sha1 E) (to_file x c))"
    and doc_from: "supported x c \<Longrightarrow> from_file (with_checksum (ie_sha1 E) (to_file x c)) = Ok x"
    and doc_cipher: "supported x c \<Longrightarrow>
          map_option (strip_json_quotes E)
            (info_get (with_checksum (ie_sha1 E) (to_file x c)) cipher_section cipher_pass_key) = c"
begin

lemma loaded:
  "supported x c \<Longrightarrow> checksumed_load (ie_sha1 E) (checksumed_render (ie_sha1 E) (to_file x c)) =
     Ok (with_checksum (ie_sha1 E) (to_file x c))"
  by (intro load_render_ok doc_wf doc_reserved doc_backrest)

lemma text_roundtrip:
  assumes "supported x c"
  shows "info_from_text E from_file (checksumed_render (ie_sha1 E) (to_file x c)) = Ok x"
  using loaded [of x c] doc_from assms
  by (simp add: info_from_text_def)

lemma bytes_roundtrip:
  assumes "supported x c" "to_bytes_keyed E to_file x pass c = Ok b"
    and "\<And>p t. pass = Some p \<Longrightarrow> ie_encrypt E p t = Ok b \<Longrightarrow> ie_decrypt E p b = Ok t"
  shows "from_bytes_keyed E from_file b pass = Ok (x, c)"
proof -
  let ?text = "checksumed_render (ie_sha1 E) (to_file x c)"
  have "decode_maybe_encrypted E b pass = Ok ?text"
    using assms(2,3)
    by (auto simp: to_bytes_keyed_def encode_maybe_encrypted_def decode_maybe_encrypted_def
        split: option.splits if_splits)
  then show ?thesis
    using loaded [of x c] doc_from doc_utf8
      doc_cipher assms(1)
    by (simp add: from_bytes_keyed_def bytes_to_text_def)
qed

end

section \<open>Saving and loading over a storage\<close>

locale info_store = storage ops key view healthy + info_codec E to_file from_file supported
  for ops :: "'s storage_ops" and key view healthy
    and E :: "'j info_env" and to_file :: "'a \<Rightarrow> string option \<Rightarrow> info_file" and from_file supported +
  assumes local_backend: "so_is_local ops"
begin

text \<open>The file, its mirror and their temporary siblings are four places.\<close>

definition apart :: "path \<Rightarrow> bool" where
  "apart p = distinct [key p, key (p @ ''.tmp''), key (copy_path p), key (copy_path p @ ''.tmp'')]"

definition loads :: "'s \<Rightarrow> path \<Rightarrow> string option \<Rightarrow> 'a \<times> string option \<Rightarrow> bool" where
  "loads s p pass v = (\<exists>b. view s (key p) = Some b \<and> from_bytes_keyed E from_file b pass = Ok v)"

lemma load_primary:
  assumes "healthy s" "loads s p pass v"
  shows "\<exists>t. load_keyed ops E from_file p pass s = (Ok v, t) \<and> view t = view s"
proof -
  obtain b where b: "view s (key p) = Some b" "from_bytes_keyed E from_file b pass = Ok v"
    using assms(2) by (auto simp: loads_def)
  obtain t where t: "so_read ops p s = (Ok b, t)" using read_healthy [OF assms(1) b(1)] by blast
  then have "view t = view s" using read_view [of p s] by simp
  with t b(2) show ?thesis
    by (simp add: load_keyed_def read_and_decode_def act_bind_def act_map_err_def act_lift_def)
qed

text \<open>A primary that does not decode is replaced by the mirror.\<close>

lemma load_fallback:
  assumes "healthy s" "view s (key p) = Some b" "from_bytes_keyed E from_file b pass = Err e"
    and "loads s (copy_path p) pass v"
  shows "\<exists>t. load_keyed ops E from_file p pass s = (Ok v, t) \<and> view t = view s"
proof -
  obtain t where t: "so_read ops p s = (Ok b, t)" "healthy t"
    using read_healthy [OF assms(1,2)] by blast
  then have vt: "view t = view s" using read_view [of p s] by simp
  obtain c where c: "view t (key (copy_path p)) = Some c" "from_bytes_keyed E from_file c pass = Ok v"
    using assms(4) vt by (auto simp: loads_def)
  obtain u where u: "so_read ops (copy_path p) t = (Ok c, u)" using read_healthy [OF t(2) c(1)] by blast
  then have "view u = view s" using read_view [of "copy_path p" t] vt by simp
  with t u c(2) assms(3) show ?thesis
    by (simp add: load_keyed_def read_and_decode_def act_bind_def act_map_err_def act_lift_def)
qed

text \<open>A keyed save is all or nothing for a later load, wherever it is interrupted.\<close>

lemma save_keyed_atomic:
  assumes "apart p" "supported x c" "loads s p pass old"
    and cipher: "\<And>q t b. pass = Some q \<Longrightarrow> ie_encrypt E q t = Ok b \<Longrightarrow> ie_decrypt E q b = Ok t"
    and run: "save_keyed ops E to_file x p pass c s = (r, t)"
    and later: "healthy u" "view u = view t"
  shows "\<exists>w. load_keyed ops E from_file p pass u = (Ok (case r of Inr _ \<Rightarrow> (x, c) | Inl _ \<Rightarrow> old), w)"
proof -
  have "loads t p pass (case r of Inr _ \<Rightarrow> (x, c) | Inl _ \<Rightarrow> old)"
  proof (cases "to_bytes_keyed E to_file x pass c")
    case (Inl e)
    then have "r = Err e" "t = s"
      using run by (simp_all add: save_keyed_def act_bind_def act_lift_def)
    then show ?thesis using assms(3) by simp
  next
    case (Inr b)
    have new: "from_bytes_keyed E from_file b pass = Ok (x, c)"
      using bytes_roundtrip [OF assms(2) Inr] cipher by blast
    obtain r1 s1 where mirror: "so_write_atomic ops (copy_path p) b s = (r1, s1)"
      by (cases "so_write_atomic ops (copy_path p) b s")
    have keep1: "view s1 (key p) = view s (key p)"
      using atomic_frame [of "key p" "copy_path p" b s] mirror assms(1) by (auto simp: apart_def)
    show ?thesis
    proof (cases r1)
      case (Inl e)
      then have "r = Err (info_error_from_storage e)" "t = s1"
        using run Inr mirror
        by (simp_all add: save_keyed_def write_with_copy_def act_bind_def act_lift_def act_map_err_def)
      then show ?thesis using assms(3) keep1 by (simp add: loads_def)
    next
      case mirrored: (Inr v)
      obtain r2 s2 where primary: "so_write_atomic ops p b s1 = (r2, s2)"
        by (cases "so_write_atomic ops p b s1")
      have res: "r = map_err info_error_from_storage r2" "t = s2"
        using run Inr mirror mirrored primary
        by (simp_all add: save_keyed_def write_with_copy_def act_bind_def act_lift_def act_map_err_def)
      show ?thesis
      proof (cases r2)
        case (Inl e)
        then have "view s2 (key p) = view s1 (key p)"
          using atomic_Err [OF local_backend, of p b s1 e s2] primary assms(1) by (auto simp: apart_def)
        then show ?thesis using res Inl assms(3) keep1 by (simp add: loads_def)
      next
        case (Inr v')
        then have "view s2 (key p) = Some b" using atomic_Ok primary by metis
        then show ?thesis using res Inr new by (simp add: loads_def)
      qed
    qed
  qed
  then have "loads u p pass (case r of Inr _ \<Rightarrow> (x, c) | Inl _ \<Rightarrow> old)"
    using later(2) by (simp add: loads_def)
  from load_primary [OF later(1) this] show ?thesis by blast
qed

end

end
