(* ===== verification/Info_Files.thy ===== *)
theory Info_Files
  imports Info_Codec
begin

text \<open>
  The typed wrappers \<open>InfoArchive\<close> (\<open>crates/pgbr-info/src/archive.rs\<close>) and \<open>InfoBackup\<close>
  (\<open>backup.rs\<close>): how each is written to and read from a document, and that both meet the codec contract.
\<close>

section \<open>Documents the wrappers build\<close>

record info_archive =
  iar_backrest_format :: nat
  iar_backrest_version :: string
  iar_db_id :: nat
  iar_db_system_id :: nat
  iar_db_version :: string
  iar_history :: "(nat, db_history_entry) btree"

record 'j info_backup =
  ib_backrest_format :: nat
  ib_backrest_version :: string
  ib_db_id :: nat
  ib_db_system_id :: nat
  ib_db_version :: string
  ib_db_catalog_version :: nat
  ib_db_control_version :: nat
  ib_current :: "(string, 'j) btree"
  ib_history :: "(nat, db_history_entry) btree"

definition set_cipher :: "'j info_env \<Rightarrow> string option \<Rightarrow> info_file \<Rightarrow> info_file" where
  "set_cipher E cipher_pass file = (case cipher_pass of
       None \<Rightarrow> file
     | Some pass \<Rightarrow> info_set cipher_section cipher_pass_key (ie_json_string E pass) file)"

definition archive_to_file :: "'j info_env \<Rightarrow> info_archive \<Rightarrow> string option \<Rightarrow> info_file" where
  "archive_to_file E x cipher_pass =
     (let file = info_set ''backrest'' ''backrest-format'' (fmt_dec (iar_backrest_format x)) [];
          file = info_set ''backrest'' ''backrest-version'' (ie_json_string E (iar_backrest_version x)) file;
          file = set_cipher E cipher_pass file;
          file = info_set ''db'' ''db-id'' (fmt_dec (iar_db_id x)) file;
          file = info_set ''db'' ''db-system-id'' (fmt_dec (iar_db_system_id x)) file;
          file = info_set ''db'' ''db-version'' (ie_json_string E (iar_db_version x)) file
      in set_history_rows E (iar_history x) file)"

definition archive_from_file :: "'j info_env \<Rightarrow> info_file \<Rightarrow> (info_error, info_archive) result" where
  "archive_from_file E file =
     rbind (parse_required_u32 file ''backrest'' ''backrest-format'') (\<lambda>backrest_format.
     rbind (parse_required_string E file ''backrest'' ''backrest-version'') (\<lambda>backrest_version.
     rbind (parse_required_u32 file ''db'' ''db-id'') (\<lambda>db_id.
     rbind (parse_required_u64 file ''db'' ''db-system-id'') (\<lambda>db_system_id.
     rbind (parse_required_string E file ''db'' ''db-version'') (\<lambda>db_version.
     rbind (parse_history_rows E file) (\<lambda>history.
       Ok \<lparr>iar_backrest_format = backrest_format, iar_backrest_version = backrest_version,
           iar_db_id = db_id, iar_db_system_id = db_system_id, iar_db_version = db_version,
           iar_history = history\<rparr>))))))"

definition backup_to_file :: "'j info_env \<Rightarrow> 'j info_backup \<Rightarrow> string option \<Rightarrow> info_file" where
  "backup_to_file E x cipher_pass =
     (let file = info_set ''backrest'' ''backrest-format'' (fmt_dec (ib_backrest_format x)) [];
          file = info_set ''backrest'' ''backrest-version'' (ie_json_string E (ib_backrest_version x)) file;
          file = set_cipher E cipher_pass file;
          file = fold (\<lambda>(label, value). info_set ''backup:current'' label (ie_print E value))
                   (ib_current x) file;
          file = info_set ''db'' ''db-catalog-version'' (fmt_dec (ib_db_catalog_version x)) file;
          file = info_set ''db'' ''db-control-version'' (fmt_dec (ib_db_control_version x)) file;
          file = info_set ''db'' ''db-id'' (fmt_dec (ib_db_id x)) file;
          file = info_set ''db'' ''db-system-id'' (fmt_dec (ib_db_system_id x)) file;
          file = info_set ''db'' ''db-version'' (ie_json_string E (ib_db_version x)) file
      in set_history_rows E (ib_history x) file)"

definition parse_current_rows ::
  "'j info_env \<Rightarrow> info_file \<Rightarrow> (info_error, (string, 'j) btree) result" where
  "parse_current_rows E file = (case im_get file ''backup:current'' of
       None \<Rightarrow> Ok []
     | Some rows \<Rightarrow> try_fold (\<lambda>(label, raw_value) current.
         rbind (map_err (IeJson (''[backup:current].'' @ label)) (ie_parse E raw_value)) (\<lambda>value.
           Ok (bt_insert label value current))) rows [])"

definition backup_from_file :: "'j info_env \<Rightarrow> info_file \<Rightarrow> (info_error, 'j info_backup) result" where
  "backup_from_file E file =
     rbind (parse_required_u32 file ''backrest'' ''backrest-format'') (\<lambda>backrest_format.
     rbind (parse_required_string E file ''backrest'' ''backrest-version'') (\<lambda>backrest_version.
     rbind (parse_required_u32 file ''db'' ''db-id'') (\<lambda>db_id.
     rbind (parse_required_u64 file ''db'' ''db-system-id'') (\<lambda>db_system_id.
     rbind (parse_required_string E file ''db'' ''db-version'') (\<lambda>db_version.
     rbind (parse_required_u32 file ''db'' ''db-catalog-version'') (\<lambda>db_catalog_version.
     rbind (parse_required_u32 file ''db'' ''db-control-version'') (\<lambda>db_control_version.
     rbind (parse_current_rows E file) (\<lambda>current.
     rbind (parse_history_rows E file) (\<lambda>history.
       Ok \<lparr>ib_backrest_format = backrest_format, ib_backrest_version = backrest_version,
           ib_db_id = db_id, ib_db_system_id = db_system_id, ib_db_version = db_version,
           ib_db_catalog_version = db_catalog_version, ib_db_control_version = db_control_version,
           ib_current = current, ib_history = history\<rparr>)))))))))"

text \<open>\<open>set_backup_cipher_pass\<close> and \<open>backup_cipher_pass\<close>; the object update is a function of the codec.\<close>

definition set_backup_cipher_pass ::
  "('j \<Rightarrow> string \<Rightarrow> string \<Rightarrow> 'j option) \<Rightarrow> string \<Rightarrow> string \<Rightarrow> 'j info_backup \<Rightarrow> 'j info_backup" where
  "set_backup_cipher_pass put label sub_pass x = (case bt_get (ib_current x) label of
       None \<Rightarrow> x
     | Some entry \<Rightarrow> (case put entry ''backup-cipher-pass'' sub_pass of
           None \<Rightarrow> x
         | Some entry' \<Rightarrow> x\<lparr>ib_current := bt_insert label entry' (ib_current x)\<rparr>))"

definition backup_cipher_pass :: "'j json_api \<Rightarrow> 'j info_backup \<Rightarrow> string \<Rightarrow> string option" where
  "backup_cipher_pass J x label = (case bt_get (ib_current x) label of
       None \<Rightarrow> None
     | Some entry \<Rightarrow> (case j_get J entry ''backup-cipher-pass'' of
           None \<Rightarrow> None
         | Some v \<Rightarrow> j_as_str J v))"

section \<open>Values the codecs support\<close>

text \<open>A printed JSON value is one line of UTF-8 without white space at the end.\<close>

definition one_line :: "string \<Rightarrow> bool" where
  "one_line t = (newline \<notin> set t \<and> tight_end t \<and> utf8_valid t)"

definition string_ok :: "'j info_env \<Rightarrow> string \<Rightarrow> bool" where
  "string_ok E s =
     (let t = ie_json_string E s in
      (\<exists>body. t = [CHR 0x22] @ body @ [CHR 0x22]) \<and> one_line t \<and> ie_parse_string E t = Some s)"

definition history_ok :: "'j info_env \<Rightarrow> (nat, db_history_entry) btree \<Rightarrow> bool" where
  "history_ok E history =
     (bt_ok history \<and> list_all (\<lambda>(ident, entry). ident < u32_bound \<and>
        (case ie_print_history E entry of
           None \<Rightarrow> False
         | Some t \<Rightarrow> one_line t \<and> ie_parse_history E t = Ok entry)) history)"

definition label_ok :: "string \<Rightarrow> bool" where
  "label_ok l = (utf8_valid l \<and> CHR ''='' \<notin> set l \<and> newline \<notin> set l \<and> tight_start l \<and>
     \<not> starts_with ''#'' l \<and> \<not> starts_with '';'' l \<and> \<not> starts_with ''['' l \<and> l \<noteq> checksum_key)"

definition archive_supported :: "'j info_env \<Rightarrow> info_archive \<Rightarrow> string option \<Rightarrow> bool" where
  "archive_supported E x c =
     (iar_backrest_format x < u32_bound \<and> iar_db_id x < u32_bound \<and> iar_db_system_id x < u64_bound \<and>
      string_ok E (iar_backrest_version x) \<and> string_ok E (iar_db_version x) \<and>
      pred_option (string_ok E) c \<and> history_ok E (iar_history x))"

definition backup_supported :: "'j info_env \<Rightarrow> 'j info_backup \<Rightarrow> string option \<Rightarrow> bool" where
  "backup_supported E x c =
     (ib_backrest_format x < u32_bound \<and> ib_db_id x < u32_bound \<and> ib_db_system_id x < u64_bound \<and>
      ib_db_catalog_version x < u32_bound \<and> ib_db_control_version x < u32_bound \<and>
      string_ok E (ib_backrest_version x) \<and> string_ok E (ib_db_version x) \<and>
      pred_option (string_ok E) c \<and> history_ok E (ib_history x) \<and> bt_ok (ib_current x) \<and>
      list_all (\<lambda>(label, value). label_ok label \<and> one_line (ie_print E value) \<and>
        ie_parse E (ie_print E value) = Ok value) (ib_current x))"

section \<open>Shapes\<close>

lemma fold_info_set:
  assumes "s \<notin> fst ` set file" "distinct (map fst (done @ rows))" "done \<noteq> []"
  shows "fold (\<lambda>(k, v). info_set s k v) rows (file @ [(s, done)]) = file @ [(s, done @ rows)]"
  using assms(2,3)
proof (induction rows arbitrary: "done")
  case (Cons r rows)
  have "info_set s (fst r) (snd r) (file @ [(s, done)]) = file @ [(s, done @ [r])]"
    using assms(1) Cons.prems(1)
    by (simp add: info_set_def im_get_None_iff [THEN iffD2] im_insert_fresh im_insert_at)
  then show ?case using Cons.IH [of "done @ [r]"] Cons.prems by (simp add: case_prod_beta)
qed simp

lemma set_rows:
  assumes "s \<notin> fst ` set file" "distinct (map fst rows)"
  shows "fold (\<lambda>(k, v). info_set s k v) rows file = (if rows = [] then file else file @ [(s, rows)])"
proof (cases rows)
  case (Cons r rest)
  have "info_set s (fst r) (snd r) file = file @ [(s, [r])]"
    using assms(1) by (simp add: info_set_def im_get_None_iff [THEN iffD2] im_insert_fresh)
  then show ?thesis using fold_info_set [of s "file" "[r]" rest] assms Cons by (simp add: case_prod_beta)
qed simp

definition history_rows :: "'j info_env \<Rightarrow> (nat, db_history_entry) btree \<Rightarrow> info_entries" where
  "history_rows E history = map (\<lambda>(ident, entry). (fmt_dec ident,
     case ie_print_history E entry of Some json \<Rightarrow> json | None \<Rightarrow> ''{}'')) history"

lemma fmt_dec_inj: "fmt_dec a = fmt_dec b \<longleftrightarrow> a = b"
proof
  assume eq: "fmt_dec a = fmt_dec b"
  have "from_str_radix (Suc (a + b)) 10 (fmt_dec a) = Some a" by (rule from_str_radix_fmt_dec) simp
  moreover have "from_str_radix (Suc (a + b)) 10 (fmt_dec b) = Some b" by (rule from_str_radix_fmt_dec) simp
  ultimately show "a = b" unfolding eq by (metis option.inject)
qed simp

lemma history_rows_Nil [simp]: "history_rows E history = [] \<longleftrightarrow> history = []"
  by (simp add: history_rows_def)

lemma distinct_history_rows: "bt_ok history \<Longrightarrow> distinct (map fst (history_rows E history))"
  using bt_ok_distinct [of history]
  by (auto simp: history_rows_def distinct_map inj_on_def fmt_dec_inj case_prod_beta comp_def)

lemma set_history_shape:
  assumes "''db:history'' \<notin> fst ` set file" "bt_ok history"
  shows "set_history_rows E history file =
    (if history = [] then file else file @ [(''db:history'', history_rows E history)])"
proof -
  have "set_history_rows E history file =
      fold (\<lambda>(k, v). info_set ''db:history'' k v) (history_rows E history) file"
    unfolding set_history_rows_def history_rows_def
    by (induction history arbitrary: "file") (auto simp: case_prod_beta)
  then show ?thesis
    using set_rows [OF assms(1) distinct_history_rows [OF assms(2)], of E] by simp
qed

lemma parse_history_set:
  assumes "history_ok E history"
    and "im_get file ''db:history'' = (if history = [] then None else Some (history_rows E history))"
  shows "parse_history_rows E file = Ok history"
proof (cases "history = []")
  case True
  then show ?thesis using assms(2) by (simp add: parse_history_rows_def)
next
  case False
  let ?step = "\<lambda>(key, raw_value) history.
         rbind (ok_or (IeInvalidValue ''[db:history] row key'' key) (parse_u32 key)) (\<lambda>ident.
         rbind (map_err (IeJson (''[db:history].'' @ key)) (ie_parse_history E raw_value)) (\<lambda>entry.
           Ok (bt_insert ident entry history)))"
  have "try_fold ?step (history_rows E rows) acc = Ok (fold (\<lambda>(k, v). bt_insert k v) rows acc)"
    if "list_all (\<lambda>(ident, entry). ident < u32_bound \<and> (case ie_print_history E entry of
           None \<Rightarrow> False | Some t \<Rightarrow> one_line t \<and> ie_parse_history E t = Ok entry)) rows" for rows acc
    using that
    by (induction rows arbitrary: acc) (auto simp: history_rows_def split: option.splits)
  then have "try_fold ?step (history_rows E history) [] = Ok history"
    using assms(1) by (simp add: history_ok_def bt_rebuild)
  then show ?thesis using False assms(2) by (simp add: parse_history_rows_def)
qed

lemma parse_current_set:
  assumes "bt_ok current" "list_all (\<lambda>(label, value). ie_parse E (ie_print E value) = Ok value) current"
    and "im_get file ''backup:current'' = (if current = [] then None
           else Some (map (\<lambda>(l, v). (l, ie_print E v)) current))"
  shows "parse_current_rows E file = Ok current"
proof (cases "current = []")
  case True
  then show ?thesis using assms(3) by (simp add: parse_current_rows_def)
next
  case False
  let ?step = "\<lambda>(label, raw_value) current.
         rbind (map_err (IeJson (''[backup:current].'' @ label)) (ie_parse E raw_value)) (\<lambda>value.
           Ok (bt_insert label value current))"
  have "try_fold ?step (map (\<lambda>(l, v). (l, ie_print E v)) rows) acc = Ok (fold (\<lambda>(k, v). bt_insert k v) rows acc)"
    if "list_all (\<lambda>(label, value). ie_parse E (ie_print E value) = Ok value) rows" for rows acc
    using that by (induction rows arbitrary: acc) auto
  then have "try_fold ?step (map (\<lambda>(l, v). (l, ie_print E v)) current) [] = Ok current"
    using assms(1,2) by (simp add: bt_rebuild)
  then show ?thesis using False assms(3) by (simp add: parse_current_rows_def)
qed

definition cipher_rows :: "'j info_env \<Rightarrow> string option \<Rightarrow> info_file" where
  "cipher_rows E c = (case c of None \<Rightarrow> []
     | Some pass \<Rightarrow> [(cipher_section, [(cipher_pass_key, ie_json_string E pass)])])"

definition optional_section :: "string \<Rightarrow> info_entries \<Rightarrow> info_file" where
  "optional_section s rows = (if rows = [] then [] else [(s, rows)])"

lemma archive_shape:
  assumes "bt_ok (iar_history x)"
  shows "archive_to_file E x c =
    [(''backrest'', [(''backrest-format'', fmt_dec (iar_backrest_format x)),
                     (''backrest-version'', ie_json_string E (iar_backrest_version x))])] @
    cipher_rows E c @
    [(''db'', [(''db-id'', fmt_dec (iar_db_id x)), (''db-system-id'', fmt_dec (iar_db_system_id x)),
               (''db-version'', ie_json_string E (iar_db_version x))])] @
    optional_section ''db:history'' (history_rows E (iar_history x))"
  by (cases c)
     (simp_all add: archive_to_file_def set_cipher_def cipher_rows_def info_set_def Let_def
       set_history_shape [OF _ assms] optional_section_def)

lemma map_fst_current: "map fst (map (\<lambda>(l, v). (l, ie_print E v)) current) = map fst current"
  by (induction current) auto

lemma current_shape:
  assumes "''backup:current'' \<notin> fst ` set file" "bt_ok current"
  shows "fold (\<lambda>(label, value). info_set ''backup:current'' label (ie_print E value)) current file =
    file @ optional_section ''backup:current'' (map (\<lambda>(l, v). (l, ie_print E v)) current)"
proof -
  have "fold (\<lambda>(label, value). info_set ''backup:current'' label (ie_print E value)) current file =
      fold (\<lambda>(k, v). info_set ''backup:current'' k v) (map (\<lambda>(l, v). (l, ie_print E v)) current) file"
    by (induction current arbitrary: "file") (auto simp: case_prod_beta)
  moreover note map_fst_current [of E current]
  then have "distinct (map fst (map (\<lambda>(l, v). (l, ie_print E v)) current))"
    using bt_ok_distinct [OF assms(2)] by metis
  note rows = set_rows [OF assms(1) this]
  ultimately show ?thesis unfolding optional_section_def rows by simp
qed

lemma backup_shape:
  assumes "bt_ok (ib_history x)" "bt_ok (ib_current x)"
  shows "backup_to_file E x c =
    [(''backrest'', [(''backrest-format'', fmt_dec (ib_backrest_format x)),
                     (''backrest-version'', ie_json_string E (ib_backrest_version x))])] @
    cipher_rows E c @
    optional_section ''backup:current'' (map (\<lambda>(l, v). (l, ie_print E v)) (ib_current x)) @
    [(''db'', [(''db-catalog-version'', fmt_dec (ib_db_catalog_version x)),
               (''db-control-version'', fmt_dec (ib_db_control_version x)),
               (''db-id'', fmt_dec (ib_db_id x)), (''db-system-id'', fmt_dec (ib_db_system_id x)),
               (''db-version'', ie_json_string E (ib_db_version x))])] @
    optional_section ''db:history'' (history_rows E (ib_history x))"
  by (cases c)
     (simp_all add: backup_to_file_def set_cipher_def cipher_rows_def info_set_def Let_def
       set_history_shape [OF _ assms(1)] current_shape [OF _ assms(2)] optional_section_def)

text \<open>The checksum goes to the end of a first section \<open>[backrest]\<close>.\<close>

lemma with_checksum_first:
  assumes "checksum_key \<notin> fst ` set es"
  shows "\<exists>v. with_checksum sha1 ((backrest_section, es) # rest) =
    (backrest_section, es @ [(checksum_key, v)]) # rest"
proof -
  have "im_remove checksum_key es = es"
    unfolding im_remove_def filter_id_conv using assms by force
  then show ?thesis
    using assms
    by (simp add: with_checksum_def drop_checksum_def info_set_def Let_def im_insert_fresh)
qed

section \<open>Documents whose texts fit their lines\<close>

definition doc_ok :: "info_file \<Rightarrow> bool" where
  "doc_ok file =
     (distinct (map fst file) \<and>
      list_all (\<lambda>s. newline \<notin> set (fst s) \<and> utf8_valid (fst s) \<and> distinct (map fst (snd s)) \<and>
        list_all (\<lambda>e. label_ok (fst e) \<and> one_line (snd e)) (snd s)) file)"

lemma doc_ok_wf: "doc_ok file \<Longrightarrow> wf_info file"
  by (auto simp: doc_ok_def wf_info_def wf_section_def wf_entry_def label_ok_def one_line_def list_all_iff)

lemma doc_ok_reserved: "doc_ok file \<Longrightarrow> checksum_reserved file"
  by (force simp: doc_ok_def checksum_reserved_def label_ok_def list_all_iff)

lemma utf8_valid_snoc_ascii:
  "char_code c < 128 \<Longrightarrow> utf8_valid s \<Longrightarrow> utf8_valid (s @ [c])" "char_code c < 128 \<Longrightarrow> utf8_valid s \<Longrightarrow> utf8_valid (c # s)"
  using utf8_valid_append [of s "[c]"] utf8_valid_append [of "[c]" s] utf8_valid_ascii [of "[c]"] by auto

definition doc_utf8 :: "info_file \<Rightarrow> bool" where
  "doc_utf8 file = list_all (\<lambda>s. utf8_valid (fst s) \<and>
     list_all (\<lambda>e. utf8_valid (fst e) \<and> utf8_valid (snd e)) (snd s)) file"

lemma ascii_codes [simp]:
  "char_code newline < 128" "char_code (CHR ''='') < 128" "char_code (CHR ''['') < 128"
  "char_code (CHR '']'') < 128" "char_code (CHR 0x22) < 128"
  by (simp_all add: newline_def char_code_def)

lemma doc_utf8_render: "doc_utf8 file \<Longrightarrow> utf8_valid (render_from first file)"
proof (induction "file" arbitrary: first)
  case (Cons s ss)
  have "utf8_valid (render_entry e)" if "utf8_valid (fst e)" "utf8_valid (snd e)" for e
    using that by (auto simp: render_entry_def intro!: utf8_valid_append utf8_valid_snoc_ascii)
  then have "utf8_valid (concat (map render_entry (snd s)))"
    using Cons.prems by (intro utf8_valid_concat) (auto simp: doc_utf8_def list_all_iff)
  moreover have "utf8_valid (fst s)" "doc_utf8 ss" using Cons.prems by (simp_all add: doc_utf8_def)
  moreover have "utf8_valid (if first then [] else [newline])"
    using utf8_valid_snoc_ascii(1) [of newline "[]"] by simp
  ultimately show ?case
    using Cons.IH by (auto simp: render_section_def intro!: utf8_valid_append utf8_valid_snoc_ascii)
qed simp

lemma hex_lower_ascii: "c \<in> set (hex_lower bytes) \<Longrightarrow> char_code c < 128"
proof -
  assume "c \<in> set (hex_lower bytes)"
  then obtain d where d: "is_ascii_hexdigit d" "c = ascii_lower d"
    using hex_digits_hex by (fastforce simp: hex_lower_def)
  then show ?thesis
    by (cases "65 \<le> char_code d \<and> char_code d \<le> 90")
       (auto simp: ascii_lower_def is_ascii_hexdigit_def is_ascii_digit_def)
qed

lemma doc_ok_utf8:
  assumes "doc_ok file" "im_get file backrest_section \<noteq> None"
  shows "utf8_valid (checksumed_render sha1 file)"
proof -
  obtain pre es post v where dropped: "drop_checksum file = pre @ (backrest_section, es) # post"
    and shape: "with_checksum sha1 file = pre @ (backrest_section, es @ [(checksum_key, v)]) # post"
    and v: "v = [CHR 0x22] @ checksum sha1 (render (drop_checksum file)) @ [CHR 0x22]"
    by (rule with_checksum_shape [OF doc_ok_wf [OF assms(1)] doc_ok_reserved [OF assms(1)] assms(2)]) blast
  have "list_all (\<lambda>c. char_code c < 128) v"
    using hex_lower_ascii by (auto simp: v checksum_def list_all_iff)
  then have utf8_v: "utf8_valid v" by (rule utf8_valid_ascii)
  have key: "utf8_valid checksum_key" by (rule utf8_valid_ascii) (simp add: char_code_def)
  have "doc_utf8 file"
    using assms(1) by (auto simp: doc_ok_def doc_utf8_def label_ok_def one_line_def list_all_iff)
  then have "doc_utf8 (drop_checksum file)"
  proof (cases "im_get file backrest_section")
    case (Some all)
    have "distinct (map fst file)" using assms(1) by (simp add: doc_ok_def)
    then obtain pre' post' where f: "file = pre' @ (backrest_section, all) # post'"
      and fresh: "backrest_section \<notin> fst ` set pre'" "backrest_section \<notin> fst ` set post'"
      using split_at_section [OF Some] by metis
    show ?thesis
      using \<open>doc_utf8 file\<close> fresh
      by (auto simp: f drop_checksum_def im_insert_at im_get_None_iff [THEN iffD2] doc_utf8_def
          im_remove_def list_all_iff)
  qed (simp add: drop_checksum_def)
  then have "doc_utf8 (with_checksum sha1 file)"
    using utf8_v key unfolding dropped shape by (simp add: doc_utf8_def)
  then show ?thesis by (simp add: checksumed_render_def render_def doc_utf8_render)
qed

section \<open>The two wrappers meet the contract\<close>

text \<open>Names and numbers: printable ASCII without the equals sign.\<close>

definition plain_char :: "char \<Rightarrow> bool" where
  "plain_char c = (33 \<le> char_code c \<and> char_code c < 127 \<and> c \<noteq> CHR ''='')"

lemma plain_char_facts:
  "plain_char c \<Longrightarrow> c \<notin> ws_first" "plain_char c \<Longrightarrow> c \<notin> ws_last" "plain_char c \<Longrightarrow> c \<noteq> newline"
  by (auto simp: plain_char_def ws_first_def ws_last_def newline_def char_code_def)

lemma plain_text:
  assumes "list_all plain_char s"
  shows "utf8_valid s" "CHR ''='' \<notin> set s" "newline \<notin> set s" "tight_start s" "tight_end s"
proof -
  have "list_all (\<lambda>c. char_code c < 128) s"
    using assms by (rule list.pred_mono_strong) (simp add: plain_char_def)
  then show "utf8_valid s" by (rule utf8_valid_ascii)
  show "CHR ''='' \<notin> set s" "newline \<notin> set s"
    using assms plain_char_facts(3) by (auto simp: list_all_iff plain_char_def)
  show "tight_start s" using assms by (cases s) (auto dest: plain_char_facts)
  show "tight_end s" using assms by (cases s rule: rev_cases) (auto dest: plain_char_facts)
qed

lemma plain_label:
  assumes "list_all plain_char s" "s = c # cs" "c \<notin> {CHR 0x23, CHR 0x3B, CHR 0x5B}" "s \<noteq> checksum_key"
  shows "label_ok s"
  using plain_text [OF assms(1)] assms(2-4) by (simp add: label_ok_def starts_with_def)

lemma plain_line_text: "list_all plain_char s \<Longrightarrow> one_line s"
  using plain_text [of s] by (simp add: one_line_def)

lemma plain_fmt_dec: "list_all plain_char (fmt_dec n)"
proof -
  have "plain_char c" if "c \<in> set (fmt_dec n)" for c
    using fmt_dec_digits [OF that] by (auto simp: plain_char_def is_ascii_digit_def char_code_def)
  then show ?thesis by (simp add: list_all_iff)
qed

lemma fmt_dec_line [simp]: "one_line (fmt_dec n)" "trim (fmt_dec n) = fmt_dec n"
  using plain_text [OF plain_fmt_dec, of n] by (simp_all add: one_line_def trim_tight)

lemma fmt_dec_label: "label_ok (fmt_dec n)"
proof -
  obtain c cs where cs: "fmt_dec n = c # cs" by (cases "fmt_dec n") auto
  then have digit: "is_ascii_digit c" using fmt_dec_digits [of c n] by simp
  have "fmt_dec n \<noteq> checksum_key"
  proof
    assume "fmt_dec n = checksum_key"
    with cs have "c = CHR ''b''" by simp
    with digit show False by (simp add: is_ascii_digit_def char_code_def)
  qed
  moreover have "c \<notin> {CHR 0x23, CHR 0x3B, CHR 0x5B}"
    using digit by (auto simp: is_ascii_digit_def char_code_def)
  ultimately show ?thesis using plain_label [OF plain_fmt_dec cs] by blast
qed

lemma field_labels [simp]:
  "label_ok ''backrest-format''" "label_ok ''backrest-version''" "label_ok cipher_pass_key"
  "label_ok ''db-id''" "label_ok ''db-system-id''" "label_ok ''db-version''"
  "label_ok ''db-catalog-version''" "label_ok ''db-control-version''"
  by ((rule plain_label; (rule refl)?; simp add: plain_char_def char_code_def))+

lemma section_names [simp]:
  "newline \<notin> set backrest_section" "utf8_valid backrest_section"
  "newline \<notin> set cipher_section" "utf8_valid cipher_section"
  "newline \<notin> set ''backup:current''" "utf8_valid ''backup:current''"
  "newline \<notin> set ''db''" "utf8_valid ''db''"
  "newline \<notin> set ''db:history''" "utf8_valid ''db:history''"
  by ((rule plain_text; simp add: plain_char_def char_code_def))+

lemma string_ok_line: "string_ok E s \<Longrightarrow> one_line (ie_json_string E s)"
  by (simp add: string_ok_def Let_def)

lemma string_ok_strip: "string_ok E s \<Longrightarrow> strip_json_quotes E (ie_json_string E s) = s"
proof -
  assume ok: "string_ok E s"
  define t where "t = ie_json_string E s"
  have facts: "\<exists>body. t = [CHR 0x22] @ body @ [CHR 0x22]" "tight_end t" "ie_parse_string E t = Some s"
    using ok by (auto simp: string_ok_def one_line_def t_def Let_def)
  obtain body where body: "t = [CHR 0x22] @ body @ [CHR 0x22]" using facts(1) by blast
  have "tight_start t" unfolding body by (auto simp: ws_first_def intro!: tight_start_Cons)
  then have "trim t = t" using facts(2) by (rule trim_tight)
  moreover have "starts_with [CHR 0x22] t" "ends_with [CHR 0x22] t" "2 \<le> length t"
    unfolding body ends_with_iff by (simp_all add: starts_with_def)
  ultimately show ?thesis
    using facts(3) unfolding t_def by (simp add: strip_json_quotes_def)
qed

lemma history_rows_ok:
  assumes "history_ok E history"
  shows "list_all (\<lambda>e. label_ok (fst e) \<and> one_line (snd e)) (history_rows E history)"
  using assms
  by (auto simp: history_ok_def history_rows_def list_all_iff fmt_dec_label split: option.splits)

lemma doc_ok_parts:
  "doc_ok file \<Longrightarrow> s \<notin> fst ` set file \<Longrightarrow> newline \<notin> set s \<Longrightarrow> utf8_valid s \<Longrightarrow>
   distinct (map fst rows) \<Longrightarrow> list_all (\<lambda>e. label_ok (fst e) \<and> one_line (snd e)) rows \<Longrightarrow>
   doc_ok (file @ optional_section s rows)"
  by (auto simp: doc_ok_def optional_section_def)

definition base_rows :: "'j info_env \<Rightarrow> nat \<Rightarrow> string \<Rightarrow> info_entries" where
  "base_rows E fmt version =
     [(''backrest-format'', fmt_dec fmt), (''backrest-version'', ie_json_string E version)]"

lemma base_doc:
  assumes "string_ok E version" "pred_option (string_ok E) c"
  shows "doc_ok ([(backrest_section, base_rows E fmt version)] @ cipher_rows E c)"
  using assms string_ok_line
  by (cases c) (auto simp: doc_ok_def base_rows_def cipher_rows_def newline_def)

lemma archive_doc:
  assumes "archive_supported E x c"
  shows "archive_to_file E x c =
      (backrest_section, base_rows E (iar_backrest_format x) (iar_backrest_version x)) #
      cipher_rows E c @
      [(''db'', [(''db-id'', fmt_dec (iar_db_id x)), (''db-system-id'', fmt_dec (iar_db_system_id x)),
               (''db-version'', ie_json_string E (iar_db_version x))])] @
      optional_section ''db:history'' (history_rows E (iar_history x))" (is ?shape)
    and "doc_ok (archive_to_file E x c)"
proof -
  have sup: "bt_ok (iar_history x)" "history_ok E (iar_history x)"
      "string_ok E (iar_backrest_version x)" "string_ok E (iar_db_version x)" "pred_option (string_ok E) c"
    using assms by (simp_all add: archive_supported_def history_ok_def)
  show shape: ?shape using archive_shape [OF sup(1)] by (simp add: base_rows_def)
  let ?base = "[(backrest_section, base_rows E (iar_backrest_format x) (iar_backrest_version x))] @
      cipher_rows E c"
  let ?db = "[(''db-id'', fmt_dec (iar_db_id x)), (''db-system-id'', fmt_dec (iar_db_system_id x)),
      (''db-version'', ie_json_string E (iar_db_version x))]"
  have "doc_ok (?base @ optional_section ''db'' ?db)"
    using string_ok_line [OF sup(4)]
    by (intro doc_ok_parts [OF base_doc [OF sup(3,5)]]) (auto simp: newline_def cipher_rows_def split: option.splits)
  then have "doc_ok ((?base @ optional_section ''db'' ?db) @
      optional_section ''db:history'' (history_rows E (iar_history x)))"
    using distinct_history_rows [OF sup(1)] history_rows_ok [OF sup(2)]
    by (elim doc_ok_parts) (auto simp: newline_def cipher_rows_def optional_section_def split: option.splits)
  then show "doc_ok (archive_to_file E x c)" by (simp add: shape optional_section_def)
qed

lemma backup_doc:
  assumes "backup_supported E x c"
  shows "backup_to_file E x c =
      (backrest_section, base_rows E (ib_backrest_format x) (ib_backrest_version x)) #
      cipher_rows E c @
      optional_section ''backup:current'' (map (\<lambda>(l, v). (l, ie_print E v)) (ib_current x)) @
      [(''db'', [(''db-catalog-version'', fmt_dec (ib_db_catalog_version x)),
               (''db-control-version'', fmt_dec (ib_db_control_version x)),
               (''db-id'', fmt_dec (ib_db_id x)), (''db-system-id'', fmt_dec (ib_db_system_id x)),
               (''db-version'', ie_json_string E (ib_db_version x))])] @
      optional_section ''db:history'' (history_rows E (ib_history x))" (is ?shape)
    and "doc_ok (backup_to_file E x c)"
proof -
  have sup: "bt_ok (ib_history x)" "history_ok E (ib_history x)" "bt_ok (ib_current x)"
      "string_ok E (ib_backrest_version x)" "string_ok E (ib_db_version x)" "pred_option (string_ok E) c"
      "list_all (\<lambda>(label, value). label_ok label \<and> one_line (ie_print E value)) (ib_current x)"
    using assms by (auto simp: backup_supported_def history_ok_def list_all_iff)
  show shape: ?shape using backup_shape [OF sup(1,3)] by (simp add: base_rows_def)
  let ?base = "[(backrest_section, base_rows E (ib_backrest_format x) (ib_backrest_version x))] @
      cipher_rows E c"
  let ?current = "map (\<lambda>(l, v). (l, ie_print E v)) (ib_current x)"
  let ?db = "[(''db-catalog-version'', fmt_dec (ib_db_catalog_version x)),
      (''db-control-version'', fmt_dec (ib_db_control_version x)),
      (''db-id'', fmt_dec (ib_db_id x)), (''db-system-id'', fmt_dec (ib_db_system_id x)),
      (''db-version'', ie_json_string E (ib_db_version x))]"
  have "map fst ?current = map fst (ib_current x)" by (rule map_fst_current)
  then have "distinct (map fst ?current)" using bt_ok_distinct [OF sup(3)] by metis
  moreover have "list_all (\<lambda>e. label_ok (fst e) \<and> one_line (snd e)) ?current"
    using sup(7) by (auto simp: list_all_iff)
  ultimately have "doc_ok (?base @ optional_section ''backup:current'' ?current)"
    by (intro doc_ok_parts [OF base_doc [OF sup(4,6)]]) (auto simp: newline_def cipher_rows_def split: option.splits)
  then have "doc_ok ((?base @ optional_section ''backup:current'' ?current) @ optional_section ''db'' ?db)"
    using string_ok_line [OF sup(5)]
    by (elim doc_ok_parts) (auto simp: newline_def cipher_rows_def optional_section_def split: option.splits)
  then have "doc_ok (((?base @ optional_section ''backup:current'' ?current) @ optional_section ''db'' ?db) @
      optional_section ''db:history'' (history_rows E (ib_history x)))"
    using distinct_history_rows [OF sup(1)] history_rows_ok [OF sup(2)]
    by (elim doc_ok_parts) (auto simp: newline_def cipher_rows_def optional_section_def split: option.splits)
  then show "doc_ok (backup_to_file E x c)" by (simp add: shape optional_section_def)
qed

lemma im_get_optional [simp]:
  "im_get (optional_section s rows) k = (if k = s \<and> rows \<noteq> [] then Some rows else None)"
  by (simp add: optional_section_def)

lemma im_get_cipher [simp]:
  "im_get (cipher_rows E c) k =
     (if k = cipher_section then map_option (\<lambda>p. [(cipher_pass_key, ie_json_string E p)]) c else None)"
  by (cases c) (simp_all add: cipher_rows_def)

lemma base_fields:
  assumes "fmt < u32_bound" "string_ok E version" "im_get file backrest_section = Some (base_rows E fmt version @ rows)"
  shows "parse_required_u32 file backrest_section ''backrest-format'' = Ok fmt"
    "parse_required_string E file backrest_section ''backrest-version'' = Ok version"
  using assms by (simp_all add: parse_required_u32_def parse_required_string_def info_get_def base_rows_def
      string_ok_strip)

lemma base_rows_fresh: "checksum_key \<notin> fst ` set (base_rows E fmt version)"
  by (simp add: base_rows_def)

lemma archive_from_to:
  assumes "archive_supported E x c"
  shows "archive_from_file E (with_checksum sha1 (archive_to_file E x c)) = Ok x"
    and "map_option (strip_json_quotes E)
      (info_get (with_checksum sha1 (archive_to_file E x c)) cipher_section cipher_pass_key) = c"
proof -
  let ?db = "[(''db-id'', fmt_dec (iar_db_id x)), (''db-system-id'', fmt_dec (iar_db_system_id x)),
      (''db-version'', ie_json_string E (iar_db_version x))]"
  have sup: "iar_backrest_format x < u32_bound" "iar_db_id x < u32_bound" "iar_db_system_id x < u64_bound"
      "string_ok E (iar_backrest_version x)" "string_ok E (iar_db_version x)" "pred_option (string_ok E) c"
      "history_ok E (iar_history x)"
    using assms by (simp_all add: archive_supported_def)
  obtain v where "with_checksum sha1 (archive_to_file E x c) =
      (backrest_section, base_rows E (iar_backrest_format x) (iar_backrest_version x) @ [(checksum_key, v)]) #
      cipher_rows E c @ [(''db'', ?db)] @
      optional_section ''db:history'' (history_rows E (iar_history x))"
    unfolding archive_doc(1) [OF assms] using with_checksum_first [OF base_rows_fresh] by blast
  then obtain d where doc: "d = with_checksum sha1 (archive_to_file E x c)"
    and get: "im_get d backrest_section =
        Some (base_rows E (iar_backrest_format x) (iar_backrest_version x) @ [(checksum_key, v)])"
      "im_get d cipher_section = map_option (\<lambda>p. [(cipher_pass_key, ie_json_string E p)]) c"
      "im_get d ''db'' = Some ?db"
      "im_get d ''db:history'' =
         (if iar_history x = [] then None else Some (history_rows E (iar_history x)))"
    by (cases c) simp_all
  have "archive_from_file E d = Ok x"
    using base_fields [OF sup(1,4) get(1)] sup parse_history_set [OF sup(7) get(4)] get(3)
    by (simp add: archive_from_file_def parse_required_u32_def parse_required_u64_def
        parse_required_string_def info_get_def string_ok_strip)
  then show "archive_from_file E (with_checksum sha1 (archive_to_file E x c)) = Ok x"
    by (simp add: doc)
  have "map_option (strip_json_quotes E) (info_get d cipher_section cipher_pass_key) = c"
    using get(2) sup(6) by (cases c) (simp_all add: info_get_def string_ok_strip)
  then show "map_option (strip_json_quotes E)
      (info_get (with_checksum sha1 (archive_to_file E x c)) cipher_section cipher_pass_key) = c"
    by (simp add: doc)
qed

lemma backup_from_to:
  assumes "backup_supported E x c"
  shows "backup_from_file E (with_checksum sha1 (backup_to_file E x c)) = Ok x"
    and "map_option (strip_json_quotes E)
      (info_get (with_checksum sha1 (backup_to_file E x c)) cipher_section cipher_pass_key) = c"
proof -
  let ?db = "[(''db-catalog-version'', fmt_dec (ib_db_catalog_version x)),
      (''db-control-version'', fmt_dec (ib_db_control_version x)),
      (''db-id'', fmt_dec (ib_db_id x)), (''db-system-id'', fmt_dec (ib_db_system_id x)),
      (''db-version'', ie_json_string E (ib_db_version x))]"
  let ?current = "map (\<lambda>(l, v). (l, ie_print E v)) (ib_current x)"
  have sup: "ib_backrest_format x < u32_bound" "ib_db_id x < u32_bound" "ib_db_system_id x < u64_bound"
      "ib_db_catalog_version x < u32_bound" "ib_db_control_version x < u32_bound"
      "string_ok E (ib_backrest_version x)" "string_ok E (ib_db_version x)" "pred_option (string_ok E) c"
      "history_ok E (ib_history x)" "bt_ok (ib_current x)"
      "list_all (\<lambda>(label, value). ie_parse E (ie_print E value) = Ok value) (ib_current x)"
    using assms by (auto simp: backup_supported_def list_all_iff)
  obtain v where "with_checksum sha1 (backup_to_file E x c) =
      (backrest_section, base_rows E (ib_backrest_format x) (ib_backrest_version x) @ [(checksum_key, v)]) #
      cipher_rows E c @ optional_section ''backup:current'' ?current @ [(''db'', ?db)] @
      optional_section ''db:history'' (history_rows E (ib_history x))"
    unfolding backup_doc(1) [OF assms] using with_checksum_first [OF base_rows_fresh] by blast
  then obtain d where doc: "d = with_checksum sha1 (backup_to_file E x c)"
    and get: "im_get d backrest_section =
        Some (base_rows E (ib_backrest_format x) (ib_backrest_version x) @ [(checksum_key, v)])"
      "im_get d cipher_section = map_option (\<lambda>p. [(cipher_pass_key, ie_json_string E p)]) c"
      "im_get d ''db'' = Some ?db"
      "im_get d ''db:history'' =
         (if ib_history x = [] then None else Some (history_rows E (ib_history x)))"
      "im_get d ''backup:current'' = (if ib_current x = [] then None else Some ?current)"
    by (cases c) simp_all
  have "backup_from_file E d = Ok x"
    using base_fields [OF sup(1,6) get(1)] sup parse_history_set [OF sup(9) get(4)]
      parse_current_set [OF sup(10,11) get(5)] get(3)
    by (simp add: backup_from_file_def parse_required_u32_def parse_required_u64_def
        parse_required_string_def info_get_def string_ok_strip)
  then show "backup_from_file E (with_checksum sha1 (backup_to_file E x c)) = Ok x"
    by (simp add: doc)
  have "map_option (strip_json_quotes E) (info_get d cipher_section cipher_pass_key) = c"
    using get(2) sup(8) by (cases c) (simp_all add: info_get_def string_ok_strip)
  then show "map_option (strip_json_quotes E)
      (info_get (with_checksum sha1 (backup_to_file E x c)) cipher_section cipher_pass_key) = c"
    by (simp add: doc)
qed

end
