(* ===== verification/Posix.thy ===== *)
theory Posix
  imports Storage
begin

text \<open>
  The local backend (\<open>crates/pgbr-storage/src/posix.rs\<close>) over a model of the file system calls it makes.
  A file system maps component lists to nodes. Every call may fail: the state carries the faults of the
  calls to come, each with the number of bytes written or entries removed before the fault struck, so
  that partial effects and crashes are part of the model. Symbolic links are nodes of their own and are
  not followed; \<open>..\<close> is a name like any other; times are not kept (\<open>modified\<close> is always None).
\<close>

section \<open>File system calls\<close>

datatype fs_node = NFile string | NDir | NLink string | NSpecial

datatype fs_errno = ENotFound | EAlreadyExists | EPermission | EOther string

type_synonym fs_path = "string list"
type_synonym fs_nodes = "(fs_path \<times> fs_node) list"

datatype fs_fault = FPermission | FOther string

record posix_fs =
  fs_nodes :: fs_nodes
  fs_faults :: "(fs_fault \<times> nat) option list"

fun fault_errno :: "fs_fault \<Rightarrow> fs_errno" where
  "fault_errno FPermission = EPermission"
| "fault_errno (FOther msg) = EOther msg"

text \<open>The next call's fault.\<close>

definition fs_tick :: "posix_fs \<Rightarrow> (fs_errno \<times> nat) option \<times> posix_fs" where
  "fs_tick s = (case fs_faults s of
       [] \<Rightarrow> (None, s)
     | f # fs \<Rightarrow> (map_option (\<lambda>(e, n). (fault_errno e, n)) f, s\<lparr>fs_faults := fs\<rparr>))"

type_synonym 'a fs_result = "(fs_errno, 'a) result \<times> posix_fs"

text \<open>The node at a path; the path must lead through directories.\<close>

definition fs_node_at :: "fs_nodes \<Rightarrow> fs_path \<Rightarrow> fs_node option" where
  "fs_node_at ns p = (if p = [] then Some NDir else im_get ns p)"

fun fs_walk :: "fs_nodes \<Rightarrow> fs_path \<Rightarrow> fs_path \<Rightarrow> (fs_errno, fs_node) result" where
  "fs_walk ns at [] = (case fs_node_at ns at of None \<Rightarrow> Err ENotFound | Some n \<Rightarrow> Ok n)"
| "fs_walk ns at (c # cs) = (case fs_node_at ns at of
       None \<Rightarrow> Err ENotFound
     | Some NDir \<Rightarrow> fs_walk ns (at @ [c]) cs
     | Some _ \<Rightarrow> Err (EOther ''Not a directory''))"

definition fs_lstat :: "fs_path \<Rightarrow> posix_fs \<Rightarrow> fs_node fs_result" where
  "fs_lstat p s0 = (case fs_tick s0 of
       (Some (e, _), s) \<Rightarrow> (Err e, s)
     | (None, s) \<Rightarrow> (fs_walk (fs_nodes s) [] p, s))"

definition fs_read_dir :: "fs_path \<Rightarrow> posix_fs \<Rightarrow> string list fs_result" where
  "fs_read_dir p s0 = (case fs_tick s0 of
       (Some (e, _), s) \<Rightarrow> (Err e, s)
     | (None, s) \<Rightarrow> (case fs_walk (fs_nodes s) [] p of
           Inl e \<Rightarrow> (Err e, s)
         | Inr NDir \<Rightarrow> (Ok (bs_of (map (\<lambda>(q, _). last q)
               (filter (\<lambda>(q, _). q \<noteq> [] \<and> butlast q = p) (fs_nodes s)))), s)
         | Inr _ \<Rightarrow> (Err (EOther ''Not a directory''), s)))"

definition fs_read_file :: "fs_path \<Rightarrow> posix_fs \<Rightarrow> string fs_result" where
  "fs_read_file p s0 = (case fs_tick s0 of
       (Some (e, _), s) \<Rightarrow> (Err e, s)
     | (None, s) \<Rightarrow> (case fs_walk (fs_nodes s) [] p of
           Inl e \<Rightarrow> (Err e, s)
         | Inr (NFile b) \<Rightarrow> (Ok b, s)
         | Inr _ \<Rightarrow> (Err (EOther ''Is a directory''), s)))"

definition fs_put :: "fs_path \<Rightarrow> fs_node \<Rightarrow> posix_fs \<Rightarrow> posix_fs" where
  "fs_put p n s = s\<lparr>fs_nodes := im_insert p n (fs_nodes s)\<rparr>"

definition fs_drop :: "(fs_path \<Rightarrow> bool) \<Rightarrow> posix_fs \<Rightarrow> posix_fs" where
  "fs_drop gone s = s\<lparr>fs_nodes := filter (\<lambda>(q, _). \<not> gone q) (fs_nodes s)\<rparr>"

text \<open>\<open>File::create\<close>: open for writing, created or truncated.\<close>

definition fs_create :: "fs_path \<Rightarrow> posix_fs \<Rightarrow> unit fs_result" where
  "fs_create p s0 = (case fs_tick s0 of
       (Some (e, _), s) \<Rightarrow> (Err e, s)
     | (None, s) \<Rightarrow>
         if p = [] then (Err (EOther ''Is a directory''), s)
         else (case fs_walk (fs_nodes s) [] (butlast p) of
             Inl e \<Rightarrow> (Err e, s)
           | Inr NDir \<Rightarrow> (case im_get (fs_nodes s) p of
                 None \<Rightarrow> (Ok (), fs_put p (NFile []) s)
               | Some (NFile _) \<Rightarrow> (Ok (), fs_put p (NFile []) s)
               | Some _ \<Rightarrow> (Err (EOther ''Is a directory''), s))
           | Inr _ \<Rightarrow> (Err (EOther ''Not a directory''), s)))"

text \<open>\<open>write_all\<close> on a freshly created file: a fault leaves a prefix.\<close>

definition fs_write_all :: "fs_path \<Rightarrow> string \<Rightarrow> posix_fs \<Rightarrow> unit fs_result" where
  "fs_write_all p b s0 = (case fs_tick s0 of (fault, s) \<Rightarrow>
       (case im_get (fs_nodes s) p of
          Some (NFile _) \<Rightarrow> (case fault of
              Some (e, n) \<Rightarrow> (Err e, fs_put p (NFile (take n b)) s)
            | None \<Rightarrow> (Ok (), fs_put p (NFile b) s))
        | _ \<Rightarrow> (Err (EOther ''Bad file descriptor''), s)))"

definition fs_sync :: "posix_fs \<Rightarrow> unit fs_result" where
  "fs_sync s0 = (case fs_tick s0 of (Some (e, _), s) \<Rightarrow> (Err e, s) | (None, s) \<Rightarrow> (Ok (), s))"

definition fs_remove_file :: "fs_path \<Rightarrow> posix_fs \<Rightarrow> unit fs_result" where
  "fs_remove_file p s0 = (case fs_tick s0 of
       (Some (e, _), s) \<Rightarrow> (Err e, s)
     | (None, s) \<Rightarrow> (case fs_walk (fs_nodes s) [] p of
           Inl e \<Rightarrow> (Err e, s)
         | Inr n \<Rightarrow>
             if n = NDir then (Err (EOther ''Is a directory''), s)
             else (Ok (), fs_drop (\<lambda>q. q = p) s)))"

text \<open>\<open>rename\<close> of a file onto a file or a free name.\<close>

definition fs_rename :: "fs_path \<Rightarrow> fs_path \<Rightarrow> posix_fs \<Rightarrow> unit fs_result" where
  "fs_rename a b s0 = (case fs_tick s0 of
       (Some (e, _), s) \<Rightarrow> (Err e, s)
     | (None, s) \<Rightarrow> (case fs_walk (fs_nodes s) [] a of
           Inl e \<Rightarrow> (Err e, s)
         | Inr n \<Rightarrow>
             if n = NDir \<or> b = [] \<or> im_get (fs_nodes s) b = Some NDir
             then (Err (EOther ''Is a directory''), s)
             else (case fs_walk (fs_nodes s) [] (butlast b) of
                 Inl e \<Rightarrow> (Err e, s)
               | Inr d \<Rightarrow>
                   if d \<noteq> NDir then (Err (EOther ''Not a directory''), s)
                   else if a = b then (Ok (), s)
                   else (Ok (), fs_put b n (fs_drop (\<lambda>q. q = a) s)))))"

text \<open>\<open>remove_dir_all\<close>: the entries below, then the directory; a fault leaves the rest.\<close>

definition fs_remove_dir_all :: "fs_path \<Rightarrow> posix_fs \<Rightarrow> unit fs_result" where
  "fs_remove_dir_all p s0 = (case fs_tick s0 of
       (fault, s) \<Rightarrow> (case fs_walk (fs_nodes s) [] p of
           Inl e \<Rightarrow> (Err (case fault of Some (f, _) \<Rightarrow> f | None \<Rightarrow> e), s)
         | Inr d \<Rightarrow>
             if d \<noteq> NDir
             then (Err (case fault of Some (f, _) \<Rightarrow> f | None \<Rightarrow> EOther ''Not a directory''), s)
             else (case fault of
                None \<Rightarrow> (Ok (), fs_drop (prefix p) s)
              | Some (f, n) \<Rightarrow>
                  (Err f, fs_drop (\<lambda>q. q \<in> set (take n (filter (strict_prefix p)
                     (map fst (fs_nodes s))))) s))))"

definition fs_remove_dir :: "fs_path \<Rightarrow> posix_fs \<Rightarrow> unit fs_result" where
  "fs_remove_dir p s0 = (case fs_tick s0 of
       (Some (e, _), s) \<Rightarrow> (Err e, s)
     | (None, s) \<Rightarrow> (case fs_walk (fs_nodes s) [] p of
           Inl e \<Rightarrow> (Err e, s)
         | Inr d \<Rightarrow>
             if d \<noteq> NDir then (Err (EOther ''Not a directory''), s)
             else if list_ex (strict_prefix p) (map fst (fs_nodes s))
             then (Err (EOther ''Directory not empty''), s)
             else (Ok (), fs_drop (\<lambda>q. q = p) s)))"

section \<open>The backend\<close>

definition posix_resolve :: "path \<Rightarrow> path \<Rightarrow> path" where
  "posix_resolve root p = (if is_absolute p then p else path_join root p)"

definition posix_key :: "path \<Rightarrow> path \<Rightarrow> fs_path" where
  "posix_key root p = components (posix_resolve root p)"

definition map_io :: "fs_errno \<Rightarrow> path \<Rightarrow> storage_error" where
  "map_io e p = (case e of
       ENotFound \<Rightarrow> NotFound p
     | EAlreadyExists \<Rightarrow> AlreadyExists p
     | EPermission \<Rightarrow> PermissionDenied p
     | EOther msg \<Rightarrow> StBackend p msg)"

fun node_kind :: "fs_node \<Rightarrow> storage_kind" where
  "node_kind (NFile _) = KFile"
| "node_kind NDir = KPath"
| "node_kind (NLink _) = KLink"
| "node_kind NSpecial = KSpecial"

definition info_from_metadata :: "path \<Rightarrow> fs_node \<Rightarrow> storage_info" where
  "info_from_metadata p n = \<lparr>si_path = p, si_kind = node_kind n,
     si_size = (case n of NFile b \<Rightarrow> length b | _ \<Rightarrow> 0), si_modified = None\<rparr>"

definition posix_exists :: "path \<Rightarrow> path \<Rightarrow> posix_fs \<Rightarrow> (storage_error, bool) result \<times> posix_fs" where
  "posix_exists root p s =
     (let resolved = posix_resolve root p in
      case fs_lstat (components resolved) s of
        (Inr _, t) \<Rightarrow> (Ok True, t)
      | (Inl e, t) \<Rightarrow> if e = ENotFound then (Ok False, t) else (Err (map_io e resolved), t))"

text \<open>The entries of a directory, each with its own metadata call.\<close>

fun posix_stat_entries ::
  "path \<Rightarrow> string list \<Rightarrow> posix_fs \<Rightarrow> (storage_error, storage_info list) result \<times> posix_fs" where
  "posix_stat_entries resolved [] s = (Ok [], s)"
| "posix_stat_entries resolved (n # ns) s =
     (let entry = path_join resolved n in
      case fs_lstat (components entry) s of
        (Inl e, t) \<Rightarrow> (Err (map_io e entry), t)
      | (Inr node, t) \<Rightarrow> (case posix_stat_entries resolved ns t of
            (Inl e, u) \<Rightarrow> (Err e, u)
          | (Inr rest, u) \<Rightarrow> (Ok (info_from_metadata entry node # rest), u)))"

definition posix_list ::
  "path \<Rightarrow> path \<Rightarrow> posix_fs \<Rightarrow> (storage_error, storage_info list) result \<times> posix_fs" where
  "posix_list root p s =
     (let resolved = posix_resolve root p in
      case fs_read_dir (components resolved) s of
        (Inl e, t) \<Rightarrow> (Err (map_io e resolved), t)
      | (Inr names, t) \<Rightarrow> posix_stat_entries resolved names t)"

fun errno_text :: "fs_errno \<Rightarrow> string" where
  "errno_text ENotFound = ''No such file or directory''"
| "errno_text EAlreadyExists = ''File exists''"
| "errno_text EPermission = ''Permission denied''"
| "errno_text (EOther msg) = msg"

definition io_backend :: "path \<Rightarrow> fs_errno \<Rightarrow> storage_error" where
  "io_backend p e = StIo (IoBackend (p @ '': '' @ errno_text e))"

text \<open>\<open>open_read\<close> and \<open>read_all\<close>: a failure after the open is an \<open>IoError\<close>.\<close>

definition posix_read :: "path \<Rightarrow> path \<Rightarrow> posix_fs \<Rightarrow> (storage_error, string) result \<times> posix_fs" where
  "posix_read root p s =
     (let resolved = posix_resolve root p in
      case fs_lstat (components resolved) s of
        (Inl e, t) \<Rightarrow> (Err (map_io e resolved), t)
      | (Inr _, t) \<Rightarrow> (case fs_read_file (components resolved) t of
            (Inl e, u) \<Rightarrow> (Err (io_backend resolved e), u)
          | (Inr b, u) \<Rightarrow> (Ok b, u)))"

text \<open>\<open>open_write\<close>, \<open>write\<close>, \<open>flush\<close> (nothing to do for a file) and \<open>close\<close>.\<close>

definition posix_write ::
  "path \<Rightarrow> path \<Rightarrow> string \<Rightarrow> posix_fs \<Rightarrow> (storage_error, unit) result \<times> posix_fs" where
  "posix_write root p b =
     (let resolved = posix_resolve root p; k = components resolved in
      act_bind (act_map_err (\<lambda>e. map_io e resolved) (fs_create k)) (\<lambda>_.
      act_bind (act_map_err (io_backend resolved) (fs_write_all k b)) (\<lambda>_.
      act_map_err (io_backend resolved) fs_sync)))"

definition act_ignore :: "('s, 'e, unit) action \<Rightarrow> ('s, 'f, unit) action" where
  "act_ignore m = (\<lambda>s. case m s of (_, t) \<Rightarrow> (Ok (), t))"

definition write_atomic_local ::
  "path \<Rightarrow> string \<Rightarrow> posix_fs \<Rightarrow> (storage_error, unit) result \<times> posix_fs" where
  "write_atomic_local p b =
     (let tmp = p @ ''.tmp''; k = components p; kt = components tmp in
      act_bind (act_ignore (fs_remove_file kt)) (\<lambda>_.
      act_bind (act_map_err (\<lambda>e. map_io e tmp) (fs_create kt)) (\<lambda>_.
      act_bind (act_map_err (\<lambda>e. map_io e tmp) (fs_write_all kt b)) (\<lambda>_.
      act_bind (act_map_err (\<lambda>e. map_io e tmp) fs_sync) (\<lambda>_.
      act_map_err (\<lambda>e. map_io e p) (fs_rename kt k))))))"

definition posix_write_atomic ::
  "path \<Rightarrow> path \<Rightarrow> string \<Rightarrow> posix_fs \<Rightarrow> (storage_error, unit) result \<times> posix_fs" where
  "posix_write_atomic root p b = write_atomic_local (posix_resolve root p) b"

definition posix_remove ::
  "path \<Rightarrow> path \<Rightarrow> bool \<Rightarrow> posix_fs \<Rightarrow> (storage_error, unit) result \<times> posix_fs" where
  "posix_remove root p error_on_missing s =
     (let resolved = posix_resolve root p in
      case fs_remove_file (components resolved) s of
        (Inr _, t) \<Rightarrow> (Ok (), t)
      | (Inl e, t) \<Rightarrow> if e = ENotFound \<and> \<not> error_on_missing then (Ok (), t)
                     else (Err (map_io e resolved), t))"

definition posix_remove_path ::
  "path \<Rightarrow> path \<Rightarrow> bool \<Rightarrow> bool \<Rightarrow> posix_fs \<Rightarrow> (storage_error, unit) result \<times> posix_fs" where
  "posix_remove_path root p recursive error_on_missing s =
     (let resolved = posix_resolve root p in
      case (if recursive then fs_remove_dir_all (components resolved) s
            else fs_remove_dir (components resolved) s) of
        (Inr _, t) \<Rightarrow> (Ok (), t)
      | (Inl e, t) \<Rightarrow> if e = ENotFound \<and> \<not> error_on_missing then (Ok (), t)
                     else (Err (map_io e resolved), t))"

definition posix_ops :: "path \<Rightarrow> posix_fs storage_ops" where
  "posix_ops root = \<lparr>so_exists = posix_exists root, so_list = posix_list root,
     so_read = posix_read root, so_write = posix_write root,
     so_write_atomic = posix_write_atomic root, so_remove = posix_remove root,
     so_remove_path = posix_remove_path root, so_is_local = True\<rparr>"

section \<open>The view of the files\<close>

definition fs_view :: "posix_fs \<Rightarrow> fs_path \<Rightarrow> string option" where
  "fs_view s k = (case fs_walk (fs_nodes s) [] k of Inr (NFile b) \<Rightarrow> Some b | _ \<Rightarrow> None)"

definition fs_healthy :: "posix_fs \<Rightarrow> bool" where
  "fs_healthy s = list_all (\<lambda>f. f = None) (fs_faults s)"

lemma walk_Ok:
  "fs_walk ns at cs = Ok n \<longleftrightarrow>
   (\<forall>i < length cs. fs_node_at ns (at @ take i cs) = Some NDir) \<and> fs_node_at ns (at @ cs) = Some n"
proof (induction cs arbitrary: at)
  case (Cons c cs)
  have "(\<forall>i < length (c # cs). fs_node_at ns (at @ take i (c # cs)) = Some NDir) \<longleftrightarrow>
      fs_node_at ns at = Some NDir \<and>
      (\<forall>i < length cs. fs_node_at ns ((at @ [c]) @ take i cs) = Some NDir)"
    by (auto simp: less_Suc_eq_0_disj)
  with Cons [of "at @ [c]"] show ?case by (auto split: option.splits fs_node.splits)
qed (auto split: option.splits)

lemma view_Some:
  "fs_view s k = Some b \<longleftrightarrow>
   (\<forall>i < length k. fs_node_at (fs_nodes s) (take i k) = Some NDir) \<and>
   fs_node_at (fs_nodes s) k = Some (NFile b)"
proof -
  have "fs_view s k = Some b \<longleftrightarrow> fs_walk (fs_nodes s) [] k = Ok (NFile b)"
    by (cases "fs_walk (fs_nodes s) [] k") (auto simp: fs_view_def split: fs_node.splits)
  then show ?thesis by (simp add: walk_Ok)
qed

lemma view_eqI: "(\<And>b. fs_view s k = Some b \<longleftrightarrow> fs_view t l = Some b) \<Longrightarrow> fs_view s k = fs_view t l"
  by (cases "fs_view s k"; cases "fs_view t l") auto

lemma tick_nodes: "fs_tick s = (f, t) \<Longrightarrow> fs_nodes t = fs_nodes s"
  by (auto simp: fs_tick_def split: list.splits)

lemma tick_view [simp]: "fs_tick s = (f, t) \<Longrightarrow> fs_view t = fs_view s"
  by (rule ext) (simp add: fs_view_def tick_nodes)

lemma tick_healthy: "fs_healthy s \<Longrightarrow> fs_tick s = (f, t) \<Longrightarrow> f = None \<and> fs_healthy t"
  by (cases "fs_faults s") (auto simp: fs_tick_def fs_healthy_def)

lemma node_at_put: "fs_node_at (fs_nodes (fs_put p n s)) q =
  (if q = p \<and> p \<noteq> [] then Some n else fs_node_at (fs_nodes s) q)"
  by (auto simp: fs_node_at_def fs_put_def)

lemma node_at_drop: "fs_node_at (fs_nodes (fs_drop gone s)) q =
  (if q \<noteq> [] \<and> gone q then None else fs_node_at (fs_nodes s) q)"
proof -
  have "im_get (filter (\<lambda>(a, _). \<not> gone a) ns) q = (if gone q then None else im_get ns q)" for ns :: fs_nodes
    by (induction ns) (auto split: if_splits)
  then show ?thesis by (simp add: fs_node_at_def fs_drop_def)
qed

lemma view_put:
  assumes "n \<noteq> NDir" "im_get (fs_nodes s) p \<noteq> Some NDir" "k \<noteq> p"
  shows "fs_view (fs_put p n s) k = fs_view s k"
proof (rule view_eqI)
  fix b
  have "fs_node_at (fs_nodes (fs_put p n s)) q = Some NDir \<longleftrightarrow> fs_node_at (fs_nodes s) q = Some NDir" for q
    using assms(1,2) by (cases "q = p \<and> p \<noteq> []") (simp_all only: node_at_put, simp_all add: fs_node_at_def)
  with assms(3) show "fs_view (fs_put p n s) k = Some b \<longleftrightarrow> fs_view s k = Some b"
    by (simp add: view_Some node_at_put)
qed

lemma view_put_same:
  assumes "p \<noteq> []" "fs_walk (fs_nodes s) [] (butlast p) = Ok NDir"
  shows "fs_view (fs_put p (NFile b) s) p = Some b"
proof -
  have "fs_node_at (fs_nodes s) (take i p) = Some NDir \<and> take i p \<noteq> p" if "i < length p" for i
  proof -
    have "take i p = take i (butlast p)" using that by (simp add: take_butlast)
    then show ?thesis
      using assms(2) that unfolding walk_Ok
      by (cases "i = length p - 1") (auto simp: butlast_conv_take dest: arg_cong [where f = length])
  qed
  with assms(1) show ?thesis by (simp add: view_Some node_at_put)
qed

lemma view_drop_only: "fs_view (fs_drop gone s) k \<in> {None, fs_view s k}"
proof (cases "fs_view (fs_drop gone s) k")
  case (Some b)
  have node: "fs_node_at (fs_nodes (fs_drop gone s)) q = Some n \<Longrightarrow> fs_node_at (fs_nodes s) q = Some n" for q n
    by (simp add: node_at_drop split: if_splits)
  from Some have "fs_view s k = Some b" unfolding view_Some by (simp add: node)
  with Some show ?thesis by simp
qed simp

lemma view_drop_frame: "(\<And>q. prefix q k \<Longrightarrow> \<not> gone q) \<Longrightarrow> fs_view (fs_drop gone s) k = fs_view s k"
  by (rule view_eqI) (auto simp: view_Some node_at_drop take_is_prefix)

lemma view_drop_file:
  assumes "fs_walk (fs_nodes s) [] a = Ok n" "n \<noteq> NDir" "k \<noteq> a"
  shows "fs_view (fs_drop (\<lambda>q. q = a) s) k = fs_view s k"
proof -
  have "fs_node_at (fs_nodes s) a \<noteq> Some NDir" using assms(1,2) by (auto simp: walk_Ok)
  then have "fs_node_at (fs_nodes (fs_drop (\<lambda>q. q = a) s)) q = Some NDir \<longleftrightarrow> fs_node_at (fs_nodes s) q = Some NDir"
    for q by (auto simp: node_at_drop)
  moreover have "fs_node_at (fs_nodes (fs_drop (\<lambda>q. q = a) s)) k = fs_node_at (fs_nodes s) k"
    using assms(3) by (simp add: node_at_drop)
  ultimately show ?thesis by (intro view_eqI) (simp add: view_Some)
qed

lemma tick_not_missing: "fs_tick s = (Some (e, n), t) \<Longrightarrow> e \<noteq> ENotFound"
proof -
  have "fault_errno f \<noteq> ENotFound" for f by (cases f) simp_all
  then show "fs_tick s = (Some (e, n), t) \<Longrightarrow> e \<noteq> ENotFound"
    by (cases "fs_faults s") (auto simp: fs_tick_def)
qed

section \<open>Each call on the view\<close>

lemma lstat_view [simp]: "fs_view (snd (fs_lstat p s)) = fs_view s"
  by (auto simp: fs_lstat_def split: prod.splits option.splits)

lemma read_dir_view [simp]: "fs_view (snd (fs_read_dir p s)) = fs_view s"
  by (auto simp: fs_read_dir_def split: prod.splits option.splits sum.splits fs_node.splits)

lemma read_file_view [simp]: "fs_view (snd (fs_read_file p s)) = fs_view s"
  by (auto simp: fs_read_file_def split: prod.splits option.splits sum.splits fs_node.splits)

lemma sync_view [simp]: "fs_view (snd (fs_sync s)) = fs_view s"
  by (auto simp: fs_sync_def split: prod.splits option.splits)

lemma call_view:
  "fs_lstat p s = (x, t) \<Longrightarrow> fs_view t = fs_view s"
  "fs_read_dir p s = (y, t) \<Longrightarrow> fs_view t = fs_view s"
  "fs_read_file p s = (z, t) \<Longrightarrow> fs_view t = fs_view s"
  using lstat_view [of p s] read_dir_view [of p s] read_file_view [of p s] by simp_all

lemma create_frame: "k \<noteq> p \<Longrightarrow> fs_view (snd (fs_create p s)) k = fs_view s k"
  by (auto simp: fs_create_def view_put split: prod.splits option.splits sum.splits fs_node.splits)

lemma write_all_frame: "k \<noteq> p \<Longrightarrow> fs_view (snd (fs_write_all p b s)) k = fs_view s k"
  by (auto simp: fs_write_all_def view_put split: prod.splits option.splits fs_node.splits)

lemma remove_file_frame: "k \<noteq> p \<Longrightarrow> fs_view (snd (fs_remove_file p s)) k = fs_view s k"
proof -
  assume k: "k \<noteq> p"
  obtain f s1 where tick: "fs_tick s = (f, s1)" by (cases "fs_tick s")
  have "snd (fs_remove_file p s) = s1 \<or> (\<exists>n. fs_walk (fs_nodes s1) [] p = Ok n \<and> n \<noteq> NDir \<and>
      snd (fs_remove_file p s) = fs_drop (\<lambda>q. q = p) s1)"
    using tick by (cases f; cases "fs_walk (fs_nodes s1) [] p") (simp_all add: fs_remove_file_def split: prod.splits)
  then show ?thesis using tick view_drop_file [of s1 p _ k] k by auto
qed

lemma create_Ok: "fs_create p s = (Ok u, t) \<Longrightarrow> fs_view t p = Some []"
  by (auto simp: fs_create_def split: prod.splits option.splits sum.splits fs_node.splits if_splits
      intro!: view_put_same)

lemma view_put_over:
  assumes "fs_view s p = Some c"
  shows "fs_view (fs_put p (NFile b) s) p = Some b"
proof -
  have "p \<noteq> []" using assms by (auto simp: view_Some fs_node_at_def)
  moreover have "take i p \<noteq> p" if "i < length p" for i
    using that by (auto dest: arg_cong [where f = length])
  ultimately show ?thesis using assms by (simp add: view_Some node_at_put)
qed

lemma write_all_Ok:
  assumes "fs_write_all p b s = (Ok u, t)" "fs_view s p = Some c"
  shows "fs_view t p = Some b"
proof -
  obtain f s1 where tick: "fs_tick s = (f, s1)" by (cases "fs_tick s")
  then have "t = fs_put p (NFile b) s1"
    using assms(1) by (auto simp: fs_write_all_def split: option.splits fs_node.splits)
  with tick assms(2) show ?thesis by (simp add: view_put_over)
qed

lemma rename_frame: "k \<noteq> a \<Longrightarrow> k \<noteq> b \<Longrightarrow> fs_view (snd (fs_rename a b s)) k = fs_view s k"
  and rename_Err: "fs_rename a b s = (Err e, t) \<Longrightarrow> fs_view t = fs_view s"
  and rename_Ok: "fs_rename a b s = (Ok u, t) \<Longrightarrow> fs_view s a = Some c \<Longrightarrow> fs_view t b = Some c"
proof -
  obtain f s1 where tick: "fs_tick s = (f, s1)" by (cases "fs_tick s")
  then have v: "fs_view s1 = fs_view s" by simp
  define walk where "walk = fs_walk (fs_nodes s1) [] a"
  define parent where "parent = fs_walk (fs_nodes s1) [] (butlast b)"
  define R where "R = fs_rename a b s"
  have R: "R = (case f of
       Some (e, _) \<Rightarrow> (Err e, s1)
     | None \<Rightarrow> (case walk of Inl e \<Rightarrow> (Err e, s1) | Inr n \<Rightarrow>
         if n = NDir \<or> b = [] \<or> im_get (fs_nodes s1) b = Some NDir then (Err (EOther ''Is a directory''), s1)
         else (case parent of Inl e \<Rightarrow> (Err e, s1) | Inr d \<Rightarrow>
           if d \<noteq> NDir then (Err (EOther ''Not a directory''), s1)
           else if a = b then (Ok (), s1)
           else (Ok (), fs_put b n (fs_drop (\<lambda>q. q = a) s1)))))"
    unfolding R_def fs_rename_def tick walk_def parent_def by (cases f) simp_all
  have "(\<exists>e. R = (Err e, s1)) \<or> (a = b \<and> R = (Ok (), s1)) \<or>
    (\<exists>n. walk = Ok n \<and> n \<noteq> NDir \<and> b \<noteq> [] \<and> a \<noteq> b \<and> parent = Ok NDir \<and>
       im_get (fs_nodes s1) b \<noteq> Some NDir \<and> R = (Ok (), fs_put b n (fs_drop (\<lambda>q. q = a) s1)))"
    unfolding R by (cases f; cases walk; cases parent) (simp_all split: prod.split)
  then consider (err) e where "fs_rename a b s = (Err e, s1)"
    | (same) "a = b" "fs_rename a b s = (Ok (), s1)"
    | (move) n where "walk = Ok n" "n \<noteq> NDir" "b \<noteq> []" "a \<noteq> b"
        "parent = Ok NDir" "im_get (fs_nodes s1) b \<noteq> Some NDir"
        "fs_rename a b s = (Ok (), fs_put b n (fs_drop (\<lambda>q. q = a) s1))"
    unfolding R_def by blast
  note cases = this
  have get: "im_get (fs_nodes (fs_drop (\<lambda>q. q = a) s1)) b \<noteq> Some NDir"
    if "im_get (fs_nodes s1) b \<noteq> Some NDir" "b \<noteq> []"
    using node_at_drop [of "\<lambda>q. q = a" s1 b] that by (auto simp: fs_node_at_def split: if_splits)
  show "k \<noteq> a \<Longrightarrow> k \<noteq> b \<Longrightarrow> fs_view (snd (fs_rename a b s)) k = fs_view s k"
    using cases
  proof cases
    case move
    assume "k \<noteq> a" "k \<noteq> b"
    then show ?thesis
      using move view_put [OF move(2) get [OF move(6,3)], of k] view_drop_file [OF move(1)[unfolded walk_def] move(2), of k] v
      by simp
  qed (use v in simp_all)
  show "fs_rename a b s = (Err e, t) \<Longrightarrow> fs_view t = fs_view s"
    using cases v by cases auto
  show "fs_rename a b s = (Ok u, t) \<Longrightarrow> fs_view s a = Some c \<Longrightarrow> fs_view t b = Some c"
    using cases
  proof cases
    case move
    assume ok: "fs_rename a b s = (Ok u, t)" and c: "fs_view s a = Some c"
    have "fs_view s1 a = Some c" using c v by simp
    then have "n = NFile c" using move(1) by (auto simp: view_Some walk_Ok walk_def)
    moreover have "fs_walk (fs_nodes (fs_drop (\<lambda>q. q = a) s1)) [] (butlast b) = Ok NDir"
    proof -
      have "fs_node_at (fs_nodes s1) a \<noteq> Some NDir" using move(1,2) by (auto simp: walk_Ok walk_def)
      then have "fs_node_at (fs_nodes s1) q = Some NDir \<Longrightarrow>
          fs_node_at (fs_nodes (fs_drop (\<lambda>q. q = a) s1)) q = Some NDir" for q
        by (auto simp: node_at_drop)
      with move(5) show ?thesis by (simp add: walk_Ok parent_def)
    qed
    moreover have "t = fs_put b n (fs_drop (\<lambda>q. q = a) s1)" using ok move(7) by simp
    ultimately show ?thesis using view_put_same [OF move(3)] by simp
  qed (use v in simp_all)
qed

lemma walk_missing:
  assumes "fs_walk (fs_nodes s) [] p = Err ENotFound" "prefix p k"
  shows "fs_view s k = None"
proof (rule ccontr)
  assume "fs_view s k \<noteq> None"
  then obtain b where b: "fs_view s k = Some b" by auto
  from assms(2) obtain r where k: "k = p @ r" by (auto simp: prefix_def)
  have dirs: "fs_node_at (fs_nodes s) (take i k) = Some NDir" if "i < length k" for i
    using b that by (simp add: view_Some)
  have "fs_node_at (fs_nodes s) (take i p) = Some NDir" if "i < length p" for i
    using dirs [of i] that by (simp add: k)
  moreover have "\<exists>n. fs_node_at (fs_nodes s) p = Some n"
    using dirs [of "length p"] b by (cases "r = []") (auto simp: k view_Some)
  ultimately have "\<exists>n. fs_walk (fs_nodes s) [] p = Ok n" by (simp add: walk_Ok)
  with assms(1) show False by simp
qed

lemma remove_dir_all_view:
  "fs_view (snd (fs_remove_dir_all p s)) k \<in> {None, fs_view s k}"
  "\<not> prefix p k \<Longrightarrow> fs_view (snd (fs_remove_dir_all p s)) k = fs_view s k"
  "fst (fs_remove_dir_all p s) \<in> {Ok (), Err ENotFound} \<Longrightarrow> prefix p k \<Longrightarrow>
     fs_view (snd (fs_remove_dir_all p s)) k = None"
proof -
  obtain f s1 where tick: "fs_tick s = (f, s1)" by (cases "fs_tick s")
  then have v: "fs_view s1 = fs_view s" by simp
  define walk where "walk = fs_walk (fs_nodes s1) [] p"
  define some where "some n = (\<lambda>q. q \<in> set (take n (filter (strict_prefix p) (map fst (fs_nodes s1)))))" for n
  have some: "some n q \<Longrightarrow> prefix p q" for n q
    by (auto simp: some_def dest!: in_set_takeD)
  define R where "R = fs_remove_dir_all p s"
  have R: "R = (case walk of
      Inl e \<Rightarrow> (Err (case f of Some (g, _) \<Rightarrow> g | None \<Rightarrow> e), s1)
    | Inr d \<Rightarrow> if d \<noteq> NDir then (Err (case f of Some (g, _) \<Rightarrow> g | None \<Rightarrow> EOther ''Not a directory''), s1)
        else (case f of None \<Rightarrow> (Ok (), fs_drop (prefix p) s1)
              | Some (g, n) \<Rightarrow> (Err g, fs_drop (some n) s1)))"
    unfolding R_def fs_remove_dir_all_def tick walk_def some_def by simp
  have fault: "f = Some (g, n) \<Longrightarrow> g \<noteq> ENotFound" for g n using tick tick_not_missing by blast
  have "(\<exists>e. R = (Err e, s1) \<and> (e = ENotFound \<longrightarrow> walk = Err ENotFound)) \<or>
      (walk = Ok NDir \<and> R = (Ok (), fs_drop (prefix p) s1)) \<or>
      (\<exists>g n. g \<noteq> ENotFound \<and> R = (Err g, fs_drop (some n) s1))"
    unfolding R by (cases f; cases walk) (auto dest: fault)
  then consider (err) e where "R = (Err e, s1)" "e = ENotFound \<Longrightarrow> walk = Err ENotFound"
    | (all) "walk = Ok NDir" "R = (Ok (), fs_drop (prefix p) s1)"
    | (part) g n where "g \<noteq> ENotFound" "R = (Err g, fs_drop (some n) s1)" by blast
  note cases = this
  show "fs_view (snd (fs_remove_dir_all p s)) k \<in> {None, fs_view s k}"
    using cases unfolding R_def [symmetric] v [symmetric] by cases (use view_drop_only in auto)
  show "fs_view (snd (fs_remove_dir_all p s)) k = fs_view s k" if "\<not> prefix p k"
  proof -
    have "\<not> prefix p q" if "prefix q k" for q using that \<open>\<not> prefix p k\<close> prefix_order.trans by blast
    note outside = this
    show ?thesis
      using cases
    proof cases
      case err
      then show ?thesis using v by (simp add: R_def [symmetric])
    next
      case all
      then show ?thesis using v view_drop_frame [of k "prefix p" s1] outside by (simp add: R_def [symmetric])
    next
      case (part g n)
      have "fs_view (fs_drop (some n) s1) k = fs_view s1 k"
        using outside some by (intro view_drop_frame) blast
      with part v show ?thesis by (simp add: R_def [symmetric])
    qed
  qed
  show "fs_view (snd (fs_remove_dir_all p s)) k = None"
    if ok: "fst (fs_remove_dir_all p s) \<in> {Ok (), Err ENotFound}" and k: "prefix p k"
    using cases
  proof cases
    case err
    then show ?thesis
      using ok k walk_missing [of s1 p k] unfolding R_def [symmetric] walk_def by auto
  next
    case all
    have "fs_view (fs_drop (prefix p) s1) k = None"
    proof (rule ccontr)
      assume "fs_view (fs_drop (prefix p) s1) k \<noteq> None"
      then obtain b where "fs_view (fs_drop (prefix p) s1) k = Some b" by auto
      with k have "k = []" "fs_node_at (fs_nodes s1) k = Some (NFile b)"
        by (auto simp: view_Some node_at_drop split: if_splits)
      then show False by (simp add: fs_node_at_def)
    qed
    with all show ?thesis unfolding R_def [symmetric] by simp
  next
    case part
    then show ?thesis using ok unfolding R_def [symmetric] by simp
  qed
qed

section \<open>The backend meets the storage contract\<close>

lemma stat_entries_view [simp]: "fs_view (snd (posix_stat_entries r ns s)) = fs_view s"
proof (induction r ns s rule: posix_stat_entries.induct)
  case (2 r n ns s)
  obtain x t where stat: "fs_lstat (components (path_join r n)) s = (x, t)"
    by (cases "fs_lstat (components (path_join r n)) s")
  then have "fs_view t = fs_view s" using lstat_view [of "components (path_join r n)" s] by simp
  with stat 2 show ?case by (auto simp: Let_def split: sum.splits prod.splits)
qed simp

lemma keep_view_refl: "reflp (\<lambda>s t. fs_view t k = fs_view s k)" and
  keep_view_trans: "transp (\<lambda>s t. fs_view t k = fs_view s k)"
  by (auto simp: reflp_def transp_def)

lemma posix_write_frame:
  assumes "k \<noteq> posix_key root p"
  shows "fs_view (snd (posix_write root p b s)) k = fs_view s k"
proof -
  have "act_keeps (\<lambda>s t. fs_view t k = fs_view s k) (posix_write root p b)"
    using assms unfolding posix_write_def Let_def posix_key_def
    by (intro act_keeps_bind keep_view_trans) (simp_all add: act_keeps_def create_frame write_all_frame)
  then show ?thesis by (rule act_keepsD)
qed

lemma act_map_err_Inr [simp]: "act_map_err g m s = (Ok x, t) \<longleftrightarrow> m s = (Ok x, t)"
  by (cases "m s") (simp add: act_map_err_def)

lemma posix_write_Ok: "posix_write root p b s = (Ok u, t) \<Longrightarrow> fs_view t (posix_key root p) = Some b"
proof -
  assume "posix_write root p b s = (Ok u, t)"
  then obtain u1 s1 u2 s2 where *: "fs_create (posix_key root p) s = (Ok u1, s1)"
    "fs_write_all (posix_key root p) b s1 = (Ok u2, s2)" "fs_sync s2 = (Ok u, t)"
    by (auto simp: posix_write_def Let_def posix_key_def act_bind_Inr_iff)
  from write_all_Ok [OF *(2) create_Ok [OF *(1)]] *(3) sync_view [of s2]
  show ?thesis by simp
qed

lemma snd_act_ignore [simp]: "snd (act_ignore m s) = snd (m s)"
  by (simp add: act_ignore_def split_def)

definition atomic_prepare :: "path \<Rightarrow> string \<Rightarrow> (posix_fs, storage_error, unit) action" where
  "atomic_prepare p b =
     (let tmp = p @ ''.tmp''; kt = components tmp in
      act_bind (act_ignore (fs_remove_file kt)) (\<lambda>_.
      act_bind (act_map_err (\<lambda>e. map_io e tmp) (fs_create kt)) (\<lambda>_.
      act_bind (act_map_err (\<lambda>e. map_io e tmp) (fs_write_all kt b)) (\<lambda>_.
      act_map_err (\<lambda>e. map_io e tmp) fs_sync))))"

lemma write_atomic_prepare:
  "write_atomic_local p b = act_bind (atomic_prepare p b) (\<lambda>_.
     act_map_err (\<lambda>e. map_io e p) (fs_rename (components (p @ ''.tmp'')) (components p)))"
proof -
  have assoc: "act_bind (act_bind m f) g = act_bind m (\<lambda>x. act_bind (f x) g)"
    for m :: "('s, 'e, 'a) action" and f :: "'a \<Rightarrow> ('s, 'e, 'b) action" and g :: "'b \<Rightarrow> ('s, 'e, 'c) action"
    by (rule ext) (auto simp: act_bind_def split: prod.splits sum.splits)
  show ?thesis by (simp add: write_atomic_local_def atomic_prepare_def Let_def assoc)
qed

lemma atomic_prepare_frame:
  assumes "k \<noteq> components (p @ ''.tmp'')"
  shows "fs_view (snd (atomic_prepare p b s)) k = fs_view s k"
proof -
  have "act_keeps (\<lambda>s t. fs_view t k = fs_view s k) (atomic_prepare p b)"
    using assms unfolding atomic_prepare_def Let_def
    by (intro act_keeps_bind keep_view_trans)
       (simp_all add: act_keeps_def remove_file_frame create_frame write_all_frame)
  then show ?thesis by (rule act_keepsD)
qed

lemma atomic_prepare_Ok:
  "atomic_prepare p b s = (Ok u, t) \<Longrightarrow> fs_view t (components (p @ ''.tmp'')) = Some b"
proof -
  let ?k = "components (p @ ''.tmp'')"
  assume "atomic_prepare p b s = (Ok u, t)"
  then obtain s0 u1 s1 u2 s2 where *: "fs_create ?k s0 = (Ok u1, s1)"
    "fs_write_all ?k b s1 = (Ok u2, s2)" "fs_sync s2 = (Ok u, t)"
    by (auto simp: atomic_prepare_def Let_def act_bind_Inr_iff)
  from write_all_Ok [OF *(2) create_Ok [OF *(1)]] *(3) sync_view [of s2]
  show ?thesis by simp
qed

lemma write_atomic_cases:
  obtains (prep) e t where "atomic_prepare p b s = (Err e, t)" "write_atomic_local p b s = (Err e, t)"
  | (ren) u t r where "atomic_prepare p b s = (Ok u, t)"
      "fs_rename (components (p @ ''.tmp'')) (components p) t = r"
      "write_atomic_local p b s = (map_err (\<lambda>e. map_io e p) (fst r), snd r)"
proof (cases "atomic_prepare p b s")
  case (Pair x t)
  show thesis
  proof (cases x)
    case (Inl e)
    then show thesis using Pair prep by (simp add: write_atomic_prepare act_bind_def)
  next
    case (Inr u)
    then show thesis using Pair ren [of u t]
      by (simp add: write_atomic_prepare act_bind_def act_map_err_def split_def)
  qed
qed

lemma resolve_tmp: "posix_resolve root p @ ''.tmp'' = posix_resolve root (p @ ''.tmp'')"
proof -
  have "is_absolute (p @ ''.tmp'') = is_absolute p"
    by (cases p) (simp_all add: is_absolute_def starts_with_def)
  then show ?thesis by (simp add: posix_resolve_def path_join_def)
qed

lemma posix_atomic_frame:
  assumes "k \<noteq> posix_key root p" "k \<noteq> posix_key root (p @ ''.tmp'')"
  shows "fs_view (snd (posix_write_atomic root p b s)) k = fs_view s k"
proof -
  let ?r = "posix_resolve root p"
  have k: "k \<noteq> components ?r" "k \<noteq> components (?r @ ''.tmp'')"
    using assms unfolding posix_key_def resolve_tmp [symmetric] by auto
  show ?thesis
  proof (rule write_atomic_cases [of ?r b s])
    fix e t
    assume "atomic_prepare ?r b s = (Err e, t)" "write_atomic_local ?r b s = (Err e, t)"
    then show ?thesis
      using atomic_prepare_frame [OF k(2), of b s] by (simp add: posix_write_atomic_def)
  next
    fix u t r
    assume "atomic_prepare ?r b s = (Ok u, t)" "fs_rename (components (?r @ ''.tmp'')) (components ?r) t = r"
      "write_atomic_local ?r b s = (map_err (\<lambda>e. map_io e ?r) (fst r), snd r)"
    then show ?thesis
      using atomic_prepare_frame [OF k(2), of b s] rename_frame [OF k(2,1), of t]
      by (simp add: posix_write_atomic_def)
  qed
qed

lemma posix_atomic_Ok:
  assumes "posix_write_atomic root p b s = (Ok u, t)"
  shows "fs_view t (posix_key root p) = Some b"
proof -
  let ?r = "posix_resolve root p"
  from assms obtain u1 s1 where *: "atomic_prepare ?r b s = (Ok u1, s1)"
    "fs_rename (components (?r @ ''.tmp'')) (components ?r) s1 = (Ok u, t)"
    by (auto simp: posix_write_atomic_def write_atomic_prepare act_bind_Inr_iff)
  from rename_Ok [OF *(2) atomic_prepare_Ok [OF *(1)]] show ?thesis by (simp add: posix_key_def)
qed

lemma posix_atomic_Err:
  assumes "posix_write_atomic root p b s = (Err e, t)" "posix_key root p \<noteq> posix_key root (p @ ''.tmp'')"
  shows "fs_view t (posix_key root p) = fs_view s (posix_key root p)"
proof -
  let ?r = "posix_resolve root p"
  have k: "components ?r \<noteq> components (?r @ ''.tmp'')"
    using assms(2) unfolding posix_key_def resolve_tmp [symmetric] .
  show ?thesis unfolding posix_key_def
  proof (rule write_atomic_cases [of ?r b s])
    fix e' t'
    assume "atomic_prepare ?r b s = (Err e', t')" "write_atomic_local ?r b s = (Err e', t')"
    then show "fs_view t (components ?r) = fs_view s (components ?r)"
      using atomic_prepare_frame [OF k, of b s] assms(1) by (simp add: posix_write_atomic_def)
  next
    fix u t' r
    assume *: "atomic_prepare ?r b s = (Ok u, t')" "fs_rename (components (?r @ ''.tmp'')) (components ?r) t' = r"
      "write_atomic_local ?r b s = (map_err (\<lambda>e. map_io e ?r) (fst r), snd r)"
    then have "map_err (\<lambda>e. map_io e ?r) (fst r) = Err e" "t = snd r"
      using assms(1) by (simp_all add: posix_write_atomic_def)
    then obtain e'' where "r = (Err e'', t)" by (cases r; cases "fst r") auto
    with *(2) have "fs_view t = fs_view t'" by (metis rename_Err)
    then show "fs_view t (components ?r) = fs_view s (components ?r)"
      using atomic_prepare_frame [OF k, of b s] *(1) by simp
  qed
qed

lemma remove_file_done:
  assumes "fs_remove_file p s = (x, t)" "x = Ok u \<or> x = Err ENotFound"
  shows "fs_view t p = None"
proof -
  obtain f s1 where tick: "fs_tick s = (f, s1)" by (cases "fs_tick s")
  define walk where "walk = fs_walk (fs_nodes s1) [] p"
  have R: "(x, t) = (case f of Some (e, _) \<Rightarrow> (Err e, s1) | None \<Rightarrow> (case walk of Inl e \<Rightarrow> (Err e, s1)
      | Inr n \<Rightarrow> if n = NDir then (Err (EOther ''Is a directory''), s1) else (Ok (), fs_drop (\<lambda>q. q = p) s1)))"
    using assms(1) unfolding fs_remove_file_def tick walk_def by (cases f) simp_all
  have fault: "f = Some (g, n) \<Longrightarrow> g \<noteq> ENotFound" for g n using tick tick_not_missing by blast
  have "(walk = Err ENotFound \<and> t = s1) \<or> (\<exists>n. walk = Ok n \<and> n \<noteq> NDir \<and> t = fs_drop (\<lambda>q. q = p) s1)"
    using R assms(2) fault by (cases f; cases walk) (auto split: if_splits)
  then show ?thesis
  proof
    assume "walk = Err ENotFound \<and> t = s1"
    then show ?thesis using walk_missing [of s1 p p] by (simp add: walk_def)
  next
    assume "\<exists>n. walk = Ok n \<and> n \<noteq> NDir \<and> t = fs_drop (\<lambda>q. q = p) s1"
    then obtain n where n: "walk = Ok n" "n \<noteq> NDir" "t = fs_drop (\<lambda>q. q = p) s1" by blast
    then have "p \<noteq> []" by (auto simp: walk_def fs_node_at_def)
    then have "fs_node_at (fs_nodes t) p = None" by (simp add: n(3) node_at_drop)
    then show ?thesis by (cases "fs_view t p") (auto simp: view_Some)
  qed
qed

lemma lstat_missing: "fs_lstat p s = (Err ENotFound, t) \<Longrightarrow> fs_view s p = None"
proof -
  assume a: "fs_lstat p s = (Err ENotFound, t)"
  obtain f s1 where tick: "fs_tick s = (f, s1)" by (cases "fs_tick s")
  have "f = None"
  proof (cases f)
    case (Some g)
    then show ?thesis
      using a tick tick_not_missing by (cases g) (auto simp: fs_lstat_def)
  qed
  then have "fs_walk (fs_nodes s1) [] p = Err ENotFound" using a tick by (auto simp: fs_lstat_def)
  then have "fs_view s1 p = None" by (rule walk_missing) simp
  with tick show ?thesis by simp
qed

lemma read_file_Ok: "fs_read_file p s = (Ok b, t) \<Longrightarrow> fs_view s p = Some b"
proof -
  assume a: "fs_read_file p s = (Ok b, t)"
  obtain f s1 where tick: "fs_tick s = (f, s1)" by (cases "fs_tick s")
  have "fs_walk (fs_nodes s1) [] p = Ok (NFile b)"
    using a tick
    by (cases f; cases "fs_walk (fs_nodes s1) [] p") (auto simp: fs_read_file_def split: fs_node.splits)
  then have "fs_view s1 p = Some b" by (simp add: fs_view_def)
  with tick show ?thesis by simp
qed

lemma view_walk: "fs_view s p = Some b \<longleftrightarrow> fs_walk (fs_nodes s) [] p = Ok (NFile b)"
  by (simp add: view_Some walk_Ok)

lemma lstat_healthy:
  "fs_healthy s \<Longrightarrow> fs_view s p = Some b \<Longrightarrow> \<exists>t. fs_lstat p s = (Ok (NFile b), t) \<and> fs_healthy t"
  by (cases "fs_tick s") (auto simp: fs_lstat_def view_walk tick_nodes dest: tick_healthy)

lemma read_file_healthy:
  "fs_healthy s \<Longrightarrow> fs_view s p = Some b \<Longrightarrow> \<exists>t. fs_read_file p s = (Ok b, t) \<and> fs_healthy t"
  by (cases "fs_tick s") (auto simp: fs_read_file_def view_walk tick_nodes dest: tick_healthy)

interpretation px: storage "posix_ops root" "posix_key root" fs_view fs_healthy for root
proof
  fix p q :: path and s t :: posix_fs and b :: string and k :: fs_path and miss :: bool
    and u :: unit and e :: storage_error
  show "fs_view (snd (so_exists (posix_ops root) p s)) = fs_view s"
    by (auto simp: posix_ops_def posix_exists_def Let_def dest: call_view split: prod.splits sum.splits)
  show "fs_view s (posix_key root p) = None" if "so_exists (posix_ops root) p s = (Ok False, t)"
  proof -
    from that have "fs_lstat (components (posix_resolve root p)) s = (Err ENotFound, t)"
      by (auto simp: posix_ops_def posix_exists_def Let_def split: prod.splits sum.splits if_splits)
    then show ?thesis unfolding posix_key_def by (rule lstat_missing)
  qed
  show "fs_view (snd (so_list (posix_ops root) p s)) = fs_view s"
    by (cases "fs_read_dir (components (posix_resolve root p)) s")
       (auto simp: posix_ops_def posix_list_def Let_def dest: call_view split: sum.splits)
  show "fs_view (snd (so_read (posix_ops root) p s)) = fs_view s"
    by (auto simp: posix_ops_def posix_read_def Let_def dest!: call_view split: prod.splits sum.splits)
  show "fs_view s (posix_key root p) = Some b" if "so_read (posix_ops root) p s = (Ok b, t)"
  proof -
    from that obtain n s1 where *: "fs_lstat (posix_key root p) s = (Ok n, s1)"
      "fs_read_file (posix_key root p) s1 = (Ok b, t)"
      by (auto simp: posix_ops_def posix_read_def Let_def posix_key_def split: prod.splits sum.splits)
    from read_file_Ok [OF *(2)] call_view(1) [OF *(1)] show ?thesis by simp
  qed
  show "\<exists>t. so_read (posix_ops root) p s = (Ok b, t) \<and> fs_healthy t"
    if h: "fs_healthy s" and v: "fs_view s (posix_key root p) = Some b"
  proof -
    obtain s1 where s1: "fs_lstat (posix_key root p) s = (Ok (NFile b), s1)" "fs_healthy s1"
      using lstat_healthy [OF h v] by blast
    then have "fs_view s1 (posix_key root p) = Some b" using v call_view(1) by metis
    from read_file_healthy [OF s1(2) this] s1(1) show ?thesis
      by (auto simp: posix_ops_def posix_read_def Let_def posix_key_def)
  qed
  show "fs_view (snd (so_write (posix_ops root) p b s)) k = fs_view s k" if "k \<noteq> posix_key root p"
    using posix_write_frame [OF that] by (simp add: posix_ops_def)
  show "fs_view t (posix_key root p) = Some b" if "so_write (posix_ops root) p b s = (Ok u, t)"
    using posix_write_Ok that by (simp add: posix_ops_def)
  show "fs_view (snd (so_write_atomic (posix_ops root) p b s)) k = fs_view s k"
    if "k \<noteq> posix_key root p" "k \<noteq> posix_key root (p @ ''.tmp'')"
    using posix_atomic_frame [OF that] by (simp add: posix_ops_def)
  show "fs_view t (posix_key root p) = Some b" if "so_write_atomic (posix_ops root) p b s = (Ok u, t)"
    using posix_atomic_Ok that by (simp add: posix_ops_def)
  show "fs_view t (posix_key root p) = fs_view s (posix_key root p)"
    if "so_write_atomic (posix_ops root) p b s = (Err e, t)" "posix_key root p \<noteq> posix_key root (p @ ''.tmp'')"
    using posix_atomic_Err that by (simp add: posix_ops_def)
  show "fs_view (snd (so_remove (posix_ops root) p miss s)) k = fs_view s k" if "k \<noteq> posix_key root p"
    using remove_file_frame [of k "posix_key root p" s] that
    by (auto simp: posix_ops_def posix_remove_def Let_def posix_key_def split: prod.splits sum.splits)
  show "fs_view t (posix_key root p) = None" if "so_remove (posix_ops root) p miss s = (Ok u, t)"
    using remove_file_done [of "posix_key root p" s] that
    by (auto simp: posix_ops_def posix_remove_def Let_def posix_key_def split: prod.splits sum.splits if_splits)
  show "fs_view (snd (so_remove_path (posix_ops root) p True miss s)) k = fs_view s k"
    if "\<not> prefix (posix_key root p) k"
    using remove_dir_all_view(2) [OF that, of s]
    by (auto simp: posix_ops_def posix_remove_path_def Let_def posix_key_def split: prod.splits sum.splits)
  show "fs_view (snd (so_remove_path (posix_ops root) p True miss s)) k \<in> {None, fs_view s k}"
    using remove_dir_all_view(1) [of "posix_key root p" s k]
    by (auto simp: posix_ops_def posix_remove_path_def Let_def posix_key_def split: prod.splits sum.splits)
  show "fs_view t k = None"
    if "so_remove_path (posix_ops root) p True miss s = (Ok u, t)" "prefix (posix_key root p) k"
    using remove_dir_all_view(3) [of "posix_key root p" s k] that
    by (auto simp: posix_ops_def posix_remove_path_def Let_def posix_key_def split: prod.splits sum.splits if_splits)
qed

section \<open>Crash safety\<close>

text \<open>The crash-safe write of the local backend: wherever a fault strikes, the target holds the new
  contents when the write reports success and its old contents when it reports an error, and no
  other file changes but the temporary sibling.\<close>

theorem posix_write_atomic_all_or_nothing:
  assumes "posix_key root p \<noteq> posix_key root (p @ ''.tmp'')"
  shows "fs_view (snd (posix_write_atomic root p b s)) (posix_key root p) =
      (case fst (posix_write_atomic root p b s) of
         Inr _ \<Rightarrow> Some b
       | Inl _ \<Rightarrow> fs_view s (posix_key root p)) \<and>
    (k \<notin> {posix_key root p, posix_key root (p @ ''.tmp'')} \<longrightarrow>
       fs_view (snd (posix_write_atomic root p b s)) k = fs_view s k)"
proof -
  obtain r t where run: "posix_write_atomic root p b s = (r, t)"
    by (cases "posix_write_atomic root p b s")
  then show ?thesis
    using posix_atomic_Ok [of root p b s _ t] posix_atomic_Err [of root p b s _ t] assms
      posix_atomic_frame [of k root p b s]
    by (cases r) auto
qed

definition sample_fs :: posix_fs where
  "sample_fs = \<lparr>fs_nodes = [([''d''], NDir), ([''d'', ''f''], NFile ''old'')],
     fs_faults = [None, None, Some (FPermission, 1)]\<rparr>"

lemma posix_write_atomic_all_or_nothing_witness:
  "fs_view (snd (posix_write_atomic ''/'' ''d/f'' ''new'' sample_fs)) [''d'', ''f''] = Some ''old''"
proof -
  have keys: "posix_key ''/'' ''d/f'' = [''d'', ''f'']" "posix_key ''/'' (''d/f'' @ ''.tmp'') = [''d'', ''f.tmp'']"
    by (simp_all add: posix_key_def posix_resolve_def is_absolute_def starts_with_def path_join_def
        ends_with_def components_def)
  have "fst (posix_write_atomic ''/'' ''d/f'' ''new'' sample_fs) = Err (PermissionDenied ''/d/f.tmp'')"
    by code_simp
  moreover have "fs_view sample_fs [''d'', ''f''] = Some ''old''" by code_simp
  ultimately show ?thesis
    using posix_write_atomic_all_or_nothing [of "''/''" "''d/f''" "''new''" sample_fs]
    unfolding keys by simp
qed

text \<open>The plain write of the local backend is not crash safe: it truncates first, so a fault before the
  data is out loses the old contents.\<close>

theorem posix_write_loses_contents:
  "fs_view (snd (posix_write ''/'' ''d/f'' ''new'' (sample_fs\<lparr>fs_faults := [None, Some (FOther ''EIO'', 1)]\<rparr>)))
     [''d'', ''f''] = Some ''n''"
  by code_simp

end
