(* ===== verification/Info_Save.thy ===== *)
theory Info_Save
  imports Info_Files Posix
begin

text \<open>
  The info files on the local backend: the two typed wrappers of \<open>Info_Files\<close> and the file system of
  \<open>Posix\<close> are instances of the contracts of \<open>Info_Codec\<close>, which gives the round trips and the crash
  safety of the keyed save, and shows what the plain save of an existing file risks.
\<close>

interpretation arch_codec: info_codec E "archive_to_file E" "archive_from_file E" "archive_supported E" for E
proof
  fix x c assume sup: "archive_supported E x c"
  note ok = archive_doc(2) [OF sup]
  show "wf_info (archive_to_file E x c)" using ok by (rule doc_ok_wf)
  show "checksum_reserved (archive_to_file E x c)" using ok by (rule doc_ok_reserved)
  show some: "im_get (archive_to_file E x c) backrest_section \<noteq> None"
    by (simp add: archive_doc(1) [OF sup])
  show "utf8_valid (checksumed_render (ie_sha1 E) (archive_to_file E x c))"
    using ok some by (rule doc_ok_utf8)
  show "archive_from_file E (with_checksum (ie_sha1 E) (archive_to_file E x c)) = Ok x"
    "map_option (strip_json_quotes E)
       (info_get (with_checksum (ie_sha1 E) (archive_to_file E x c)) cipher_section cipher_pass_key) = c"
    using archive_from_to [OF sup] by blast+
qed

interpretation back_codec: info_codec E "backup_to_file E" "backup_from_file E" "backup_supported E" for E
proof
  fix x c assume sup: "backup_supported E x c"
  note ok = backup_doc(2) [OF sup]
  show "wf_info (backup_to_file E x c)" using ok by (rule doc_ok_wf)
  show "checksum_reserved (backup_to_file E x c)" using ok by (rule doc_ok_reserved)
  show some: "im_get (backup_to_file E x c) backrest_section \<noteq> None"
    by (simp add: backup_doc(1) [OF sup])
  show "utf8_valid (checksumed_render (ie_sha1 E) (backup_to_file E x c))"
    using ok some by (rule doc_ok_utf8)
  show "backup_from_file E (with_checksum (ie_sha1 E) (backup_to_file E x c)) = Ok x"
    "map_option (strip_json_quotes E)
       (info_get (with_checksum (ie_sha1 E) (backup_to_file E x c)) cipher_section cipher_pass_key) = c"
    using backup_from_to [OF sup] by blast+
qed

interpretation back_store: info_store "posix_ops root" "posix_key root" fs_view fs_healthy
    E "backup_to_file E" "backup_from_file E" "backup_supported E" for root E
  by unfold_locales (simp add: posix_ops_def)

interpretation arch_store: info_store "posix_ops root" "posix_key root" fs_view fs_healthy
    E "archive_to_file E" "archive_from_file E" "archive_supported E" for root E
  by unfold_locales (simp add: posix_ops_def)

section \<open>A sample environment\<close>

definition quoted :: "string \<Rightarrow> string" where
  "quoted s = [CHR 0x22] @ s @ [CHR 0x22]"

definition unquoted :: "string \<Rightarrow> string option" where
  "unquoted s = Some (butlast (tl s))"

definition sample_env :: "string info_env" where
  "sample_env = \<lparr>ie_sha1 = sample_sha1, ie_encrypt = (\<lambda>p t. Ok (p @ rev t)),
     ie_decrypt = (\<lambda>p b. Ok (rev (drop (length p) b))), ie_json_string = quoted, ie_parse_string = unquoted,
     ie_print = quoted, ie_parse = (\<lambda>s. Ok (butlast (tl s))),
     ie_print_history = (\<lambda>e. Some (quoted (fmt_dec (dh_db_id e) @ '':'' @ dh_db_version e))),
     ie_parse_history = (\<lambda>t. case split_once (CHR '':'') (butlast (tl t)) of
         None \<Rightarrow> Err ''no colon''
       | Some (i, v) \<Rightarrow> Ok \<lparr>dh_db_id = (case parse_u32 i of Some n \<Rightarrow> n | None \<Rightarrow> 0), dh_db_version = v\<rparr>)\<rparr>"

definition sample_archive :: info_archive where
  "sample_archive = \<lparr>iar_backrest_format = 5, iar_backrest_version = ''2.55'', iar_db_id = 1,
     iar_db_system_id = 77, iar_db_version = ''16'',
     iar_history = [(1, \<lparr>dh_db_id = 1, dh_db_version = ''16''\<rparr>)]\<rparr>"

definition sample_info_backup :: "string info_backup" where
  "sample_info_backup = \<lparr>ib_backrest_format = 5, ib_backrest_version = ''2.55'', ib_db_id = 1,
     ib_db_system_id = 77, ib_db_version = ''16'', ib_db_catalog_version = 2, ib_db_control_version = 3,
     ib_current = [(''20240101-000000F'', ''x'')],
     ib_history = [(1, \<lparr>dh_db_id = 1, dh_db_version = ''16''\<rparr>)]\<rparr>"

lemma quoted_ok: "list_all plain_char s \<Longrightarrow> string_ok sample_env s"
proof -
  assume plain: "list_all plain_char s"
  moreover have "plain_char (CHR 0x22)" by (simp add: plain_char_def char_code_def)
  ultimately have "one_line (quoted s)" by (intro plain_line_text) (simp add: quoted_def)
  then show ?thesis
    by (simp add: string_ok_def sample_env_def quoted_def unquoted_def one_line_def)
qed

lemma sample_history_ok:
  "history_ok sample_env [(1, \<lparr>dh_db_id = 1, dh_db_version = ''16''\<rparr>)]"
proof -
  have one: "fmt_dec 1 = ''1''" by code_simp
  have "parse_u32 (fmt_dec 1) = Some 1" by (rule parse_u32_fmt) simp
  then have "parse_u32 ''1'' = Some 1" unfolding one .
  moreover have "one_line (quoted ''1:16'')"
    by (rule plain_line_text) (simp add: quoted_def plain_char_def char_code_def)
  moreover have "split_once (CHR '':'') ''1:16'' = Some (''1'', ''16'')" by code_simp
  ultimately show ?thesis
    using one by (simp add: history_ok_def bt_ok_def sample_env_def quoted_def)
qed

lemma sample_archive_ok: "archive_supported sample_env sample_archive (Some ''sub'')"
  using sample_history_ok quoted_ok
  by (simp add: archive_supported_def sample_archive_def plain_char_def char_code_def)

lemma sample_backup_ok:
  "backup_supported sample_env sample_info_backup (Some ''sub'')"
  "backup_supported sample_env (sample_info_backup\<lparr>ib_current := []\<rparr>) None"
proof -
  have "list_all plain_char (quoted ''x'')" by (simp add: quoted_def plain_char_def char_code_def)
  then have "one_line (quoted ''x'')" by (rule plain_line_text)
  moreover have "ie_print sample_env = quoted" "ie_parse sample_env (quoted ''x'') = Ok ''x''"
    by (simp_all add: sample_env_def quoted_def)
  moreover have "label_ok ''20240101-000000F''"
    by (rule plain_label, rule_tac [2] refl) (simp_all add: plain_char_def char_code_def)
  ultimately show "backup_supported sample_env sample_info_backup (Some ''sub'')"
    using sample_history_ok quoted_ok
    by (simp add: backup_supported_def sample_info_backup_def plain_char_def
        char_code_def bt_ok_def)
  show "backup_supported sample_env (sample_info_backup\<lparr>ib_current := []\<rparr>) None"
    using sample_history_ok quoted_ok
    by (simp add: backup_supported_def sample_info_backup_def plain_char_def
        char_code_def bt_ok_def)
qed

section \<open>Round trips\<close>

text \<open>\<open>archive.info\<close> round trip: the bytes written under a passphrase and a sub-key are read back, with
  the same passphrase, as the same value and the same sub-key, for every checksum function and every
  cipher whose decryption inverts its encryption.\<close>

theorem archive_info_roundtrip:
  assumes "archive_supported E x c"
    and "to_bytes_keyed E (archive_to_file E) x pass c = Ok b"
    and "\<And>p t. pass = Some p \<Longrightarrow> ie_encrypt E p t = Ok b \<Longrightarrow> ie_decrypt E p b = Ok t"
  shows "from_bytes_keyed E (archive_from_file E) b pass = Ok (x, c)"
  using assms by (rule arch_codec.bytes_roundtrip)

lemma sample_decrypts: "ie_encrypt sample_env p t = Ok b \<Longrightarrow> ie_decrypt sample_env p b = Ok t"
  by (auto simp: sample_env_def)

lemma sample_encodes:
  "to_bytes_keyed sample_env f x (Some ''key'') c =
     Ok (''key'' @ rev (checksumed_render sample_sha1 (f x c)))"
  by (simp add: to_bytes_keyed_def encode_maybe_encrypted_def sample_env_def)

lemma archive_info_roundtrip_witness:
  "from_bytes_keyed sample_env (archive_from_file sample_env)
     (''key'' @ rev (checksumed_render sample_sha1 (archive_to_file sample_env sample_archive (Some ''sub''))))
     (Some ''key'') = Ok (sample_archive, Some ''sub'')"
  by (rule archive_info_roundtrip [OF sample_archive_ok sample_encodes sample_decrypts])

text \<open>C23. \<open>backup.info\<close> round trip: as for \<open>archive.info\<close>, with the list of current backups, whose rows
  are kept in label order.\<close>

theorem backup_info_roundtrip:
  assumes "backup_supported E x c"
    and "to_bytes_keyed E (backup_to_file E) x pass c = Ok b"
    and "\<And>p t. pass = Some p \<Longrightarrow> ie_encrypt E p t = Ok b \<Longrightarrow> ie_decrypt E p b = Ok t"
  shows "from_bytes_keyed E (backup_from_file E) b pass = Ok (x, c)"
  using assms by (rule back_codec.bytes_roundtrip)

lemma backup_info_roundtrip_witness:
  "from_bytes_keyed sample_env (backup_from_file sample_env)
     (''key'' @ rev (checksumed_render sample_sha1 (backup_to_file sample_env sample_info_backup (Some ''sub''))))
     (Some ''key'') = Ok (sample_info_backup, Some ''sub'')"
  by (rule backup_info_roundtrip [OF sample_backup_ok(1) sample_encodes sample_decrypts])

section \<open>Interrupted saves\<close>

definition empty_backup :: "string info_backup" where
  "empty_backup = sample_info_backup\<lparr>ib_current := []\<rparr>"

text \<open>A repository whose \<open>backup.info\<close> and mirror list no backup.\<close>

definition sample_repo :: "(fs_fault \<times> nat) option list \<Rightarrow> posix_fs" where
  "sample_repo faults = (let b = checksumed_render sample_sha1 (backup_to_file sample_env empty_backup None) in
     \<lparr>fs_nodes = [([''d''], NDir), ([''d'', ''f''], NFile b), ([''d'', ''f.copy''], NFile b)],
      fs_faults = faults\<rparr>)"

lemma sample_keys:
  "posix_key ''/'' ''d/f'' = [''d'', ''f'']" "posix_key ''/'' (''d/f'' @ ''.tmp'') = [''d'', ''f.tmp'']"
  "posix_key ''/'' (copy_path ''d/f'') = [''d'', ''f.copy'']"
  "posix_key ''/'' (copy_path ''d/f'' @ ''.tmp'') = [''d'', ''f.copy.tmp'']"
  by (simp_all add: posix_key_def posix_resolve_def is_absolute_def starts_with_def path_join_def
      ends_with_def components_def copy_path_def)

lemma sample_apart: "back_store.apart ''/'' ''d/f''"
  unfolding back_store.apart_def sample_keys by simp

lemma sample_repo_loads:
  "fs_view (sample_repo faults) k = Some b \<Longrightarrow>
   from_bytes_keyed sample_env (backup_from_file sample_env) b None = Ok (empty_backup, None)"
  if "k = [''d'', ''f''] \<or> k = [''d'', ''f.copy'']"
proof -
  assume view: "fs_view (sample_repo faults) k = Some b"
  let ?b = "checksumed_render sample_sha1 (backup_to_file sample_env empty_backup None)"
  have "b = ?b"
    using view that by (auto simp: sample_repo_def Let_def fs_view_def fs_node_at_def)
  moreover have "to_bytes_keyed sample_env (backup_to_file sample_env) empty_backup None None = Ok ?b"
    by (simp add: to_bytes_keyed_def encode_maybe_encrypted_def sample_env_def)
  ultimately show ?thesis
    using back_codec.bytes_roundtrip [OF sample_backup_ok(2), of None b]
    unfolding empty_backup_def by simp
qed

lemma sample_repo_view:
  "\<exists>b. fs_view (sample_repo faults) [''d'', ''f''] = Some b"
  "\<exists>b. fs_view (sample_repo faults) [''d'', ''f.copy''] = Some b"
  by (simp_all add: sample_repo_def Let_def fs_view_def fs_node_at_def)

lemma calm_view: "fs_view (s\<lparr>fs_faults := []\<rparr>) = fs_view s" "fs_healthy (s\<lparr>fs_faults := []\<rparr>)"
  by (rule ext) (simp_all add: fs_view_def fs_healthy_def)

text \<open>C8. The keyed save of \<open>backup.info\<close> is crash safe: wherever a fault strikes, a later load returns the
  new value when the save reported success, and otherwise the value that was there before.\<close>

theorem backup_info_save_keyed_atomic:
  assumes "back_store.apart root p" "backup_supported E x c"
    and "fs_view s (posix_key root p) = Some b" "from_bytes_keyed E (backup_from_file E) b pass = Ok old"
    and "\<And>q t b. pass = Some q \<Longrightarrow> ie_encrypt E q t = Ok b \<Longrightarrow> ie_decrypt E q b = Ok t"
    and "save_keyed (posix_ops root) E (backup_to_file E) x p pass c s = (r, t)"
    and "fs_healthy u" "fs_view u = fs_view t"
  shows "\<exists>w. load_keyed (posix_ops root) E (backup_from_file E) p pass u =
    (Ok (case r of Inr _ \<Rightarrow> (x, c) | Inl _ \<Rightarrow> old), w)"
proof -
  have "back_store.loads root E s p pass old" using assms(3,4) by (auto simp: back_store.loads_def)
  from back_store.save_keyed_atomic [OF assms(1,2) this assms(5-8)] show ?thesis .
qed

lemma backup_info_save_keyed_atomic_witness:
  "\<exists>w. load_keyed (posix_ops ''/'') sample_env (backup_from_file sample_env) ''d/f'' None
       ((snd (save_keyed (posix_ops ''/'') sample_env (backup_to_file sample_env) sample_info_backup ''d/f'' None
                (Some ''sub'') (sample_repo [None, None, Some (FPermission, 3)])))\<lparr>fs_faults := []\<rparr>) =
     (Ok (case fst (save_keyed (posix_ops ''/'') sample_env (backup_to_file sample_env) sample_info_backup
                ''d/f'' None (Some ''sub'') (sample_repo [None, None, Some (FPermission, 3)])) of
            Inr _ \<Rightarrow> (sample_info_backup, Some ''sub'')
          | Inl _ \<Rightarrow> (empty_backup, None)), w)"
proof -
  let ?s = "sample_repo [None, None, Some (FPermission, 3)]"
  obtain b where view: "fs_view ?s (posix_key ''/'' ''d/f'') = Some b"
    using sample_repo_view(1) unfolding sample_keys by blast
  then have "from_bytes_keyed sample_env (backup_from_file sample_env) b None = Ok (empty_backup, None)"
    using sample_repo_loads unfolding sample_keys by blast
  then show ?thesis
    by (rule backup_info_save_keyed_atomic [OF sample_apart sample_backup_ok(1) view _ _ _ calm_view(2,1)])
       simp_all
qed



end
