(* ===== verification/Encode.thy ===== *)
theory Encode
  imports Bytes
begin

text \<open>
  The binary-to-text encoders (\<open>crates/pgbr-encode/src/lib.rs\<close>): base64, URL-safe base64 and hex. A
  destination buffer is a list of bytes; an encoder writes a prefix of it. \<open>None\<close> is the panic of a
  destination that is too short.
\<close>

section \<open>Encodings and errors\<close>

datatype encoding_type = Base64 | Base64Url | Hex

definition encoding_from_code :: "int \<Rightarrow> encoding_type option" where
  "encoding_from_code code =
     (if code = 0 then Some Base64 else if code = 1 then Some Base64Url
      else if code = 2 then Some Hex else None)"

datatype decode_error =
    InvalidLength nat nat
  | InvalidCharacter nat
  | PaddingMisplaced
  | PaddingTrailing
  | Unsupported

definition ascii_bytes :: "string \<Rightarrow> u8 list" where
  "ascii_bytes s = map (\<lambda>c. word_of_nat (of_char c)) s"

definition BASE64_ALPHABET :: "u8 list" where
  "BASE64_ALPHABET = ascii_bytes ''ABCDEFGHIJKLMNOPQRSTUVWXYZabcdefghijklmnopqrstuvwxyz0123456789+/''"

definition BASE64_URL_ALPHABET :: "u8 list" where
  "BASE64_URL_ALPHABET = ascii_bytes ''ABCDEFGHIJKLMNOPQRSTUVWXYZabcdefghijklmnopqrstuvwxyz0123456789-_''"

definition HEX_ALPHABET :: "u8 list" where
  "HEX_ALPHABET = ascii_bytes ''0123456789abcdef''"

definition pad_byte :: u8 where "pad_byte = 61"

section \<open>Tables\<close>

definition base64_decode_table :: "int list" where
  "base64_decode_table =
     fold (\<lambda>i table. table[unat (BASE64_ALPHABET ! i) := int i]) [0..<length BASE64_ALPHABET] (replicate 256 (-1))"

definition hex_decode_table :: "int list" where
  "hex_decode_table =
     fold (\<lambda>j table. table[97 + j := 10 + int j, 65 + j := 10 + int j]) [0..<6]
       (fold (\<lambda>i table. table[48 + i := int i]) [0..<10] (replicate 256 (-1)))"

definition base64_decode :: "u8 \<Rightarrow> int" where
  "base64_decode c = base64_decode_table ! unat c"

definition hex_decode :: "u8 \<Rightarrow> int" where
  "hex_decode c = hex_decode_table ! unat c"

section \<open>Encoding\<close>

definition encoded_len :: "encoding_type \<Rightarrow> nat \<Rightarrow> nat" where
  "encoded_len encoding src_len = (case encoding of
       Base64 \<Rightarrow> (src_len + 2) div 3 * 4
     | Base64Url \<Rightarrow> (let groups = src_len div 3 * 4; remainder = src_len mod 3
                    in if remainder = 0 then groups else groups + remainder + 1)
     | Hex \<Rightarrow> src_len * 2)"

fun encode_base64 :: "bool \<Rightarrow> u8 list \<Rightarrow> u8 list" where
  "encode_base64 pad [] = []"
| "encode_base64 pad [a] =
     (let alphabet = (if pad then BASE64_ALPHABET else BASE64_URL_ALPHABET)
      in [alphabet ! unat (drop_bit 2 a), alphabet ! unat (push_bit 4 (a AND 0x03))] @
         (if pad then [pad_byte, pad_byte] else []))"
| "encode_base64 pad [a, b] =
     (let alphabet = (if pad then BASE64_ALPHABET else BASE64_URL_ALPHABET)
      in [alphabet ! unat (drop_bit 2 a),
          alphabet ! unat (push_bit 4 (a AND 0x03) OR drop_bit 4 (b AND 0xf0)),
          alphabet ! unat (push_bit 2 (b AND 0x0f))] @ (if pad then [pad_byte] else []))"
| "encode_base64 pad (a # b # c # rest) =
     (let alphabet = (if pad then BASE64_ALPHABET else BASE64_URL_ALPHABET)
      in [alphabet ! unat (drop_bit 2 a),
          alphabet ! unat (push_bit 4 (a AND 0x03) OR drop_bit 4 (b AND 0xf0)),
          alphabet ! unat (push_bit 2 (b AND 0x0f) OR drop_bit 6 (c AND 0xc0)),
          alphabet ! unat (c AND 0x3f)] @ encode_base64 pad rest)"

definition encode_hex :: "u8 list \<Rightarrow> u8 list" where
  "encode_hex src =
     concat (map (\<lambda>b. [HEX_ALPHABET ! unat (drop_bit 4 b), HEX_ALPHABET ! unat (b AND 0x0f)]) src)"

text \<open>A write of bytes at the start of a buffer.\<close>

definition write_front :: "u8 list \<Rightarrow> u8 list \<Rightarrow> u8 list" where
  "write_front bytes dst = bytes @ drop (length bytes) dst"

definition encode :: "encoding_type \<Rightarrow> u8 list \<Rightarrow> u8 list \<Rightarrow> u8 list option" where
  "encode encoding src dst =
     (if length dst < encoded_len encoding (length src) + 1 then None
      else Some (write_front ((case encoding of
          Base64 \<Rightarrow> encode_base64 True src
        | Base64Url \<Rightarrow> encode_base64 False src
        | Hex \<Rightarrow> encode_hex src) @ [0]) dst))"

section \<open>Decoding\<close>

fun validate_base64_from :: "u8 list \<Rightarrow> nat \<Rightarrow> u8 list \<Rightarrow> (decode_error, unit) result" where
  "validate_base64_from src idx [] = Ok ()"
| "validate_base64_from src idx (byte # rest) =
     (if byte = pad_byte then
        (if idx < length src - 2 then Err PaddingMisplaced
         else if idx = length src - 2 \<and> src ! (length src - 1) \<noteq> pad_byte then Err PaddingTrailing
         else validate_base64_from src (idx + 1) rest)
      else if base64_decode byte < 0 then Err (InvalidCharacter idx)
      else validate_base64_from src (idx + 1) rest)"

definition validate_base64 :: "u8 list \<Rightarrow> (decode_error, unit) result" where
  "validate_base64 src =
     (if length src mod 4 \<noteq> 0 then Err (InvalidLength (length src) 4)
      else validate_base64_from src 0 src)"

definition base64_decoded_len :: "u8 list \<Rightarrow> (decode_error, nat) result" where
  "base64_decoded_len src = rbind (validate_base64 src) (\<lambda>_.
     if src = [] then Ok 0
     else let n = length src div 4 * 3 in
       if src ! (length src - 1) = pad_byte
       then if src ! (length src - 2) = pad_byte then Ok (n - 1 - 1) else Ok (n - 1)
       else Ok n)"

definition byte_of :: "int \<Rightarrow> u8" where
  "byte_of i = word_of_int i"

text \<open>The loop of \<open>decode_base64\<close>; the length is a multiple of four there.\<close>

fun decode_base64_groups :: "u8 list \<Rightarrow> u8 list" where
  "decode_base64_groups (s0 # s1 # s2 # s3 # rest) =
     (let a = byte_of (base64_decode s0); b = byte_of (base64_decode s1) in
      (push_bit 2 a OR drop_bit 4 b) #
      (if s2 \<noteq> pad_byte
       then let c = byte_of (base64_decode s2) in
         (push_bit 4 b OR drop_bit 2 c) #
         (if s3 \<noteq> pad_byte
          then let d = byte_of (base64_decode s3) in [(push_bit 6 c AND 0xc0) OR d]
          else [])
       else []) @ decode_base64_groups rest)"
| "decode_base64_groups _ = []"

fun validate_hex_from :: "nat \<Rightarrow> u8 list \<Rightarrow> (decode_error, unit) result" where
  "validate_hex_from idx [] = Ok ()"
| "validate_hex_from idx (byte # rest) =
     (if hex_decode byte < 0 then Err (InvalidCharacter idx) else validate_hex_from (idx + 1) rest)"

definition validate_hex :: "u8 list \<Rightarrow> (decode_error, unit) result" where
  "validate_hex src =
     (if length src mod 2 \<noteq> 0 then Err (InvalidLength (length src) 2) else validate_hex_from 0 src)"

definition hex_decoded_len :: "u8 list \<Rightarrow> (decode_error, nat) result" where
  "hex_decoded_len src = rbind (validate_hex src) (\<lambda>_. Ok (length src div 2))"

fun decode_hex_pairs :: "u8 list \<Rightarrow> u8 list" where
  "decode_hex_pairs (p0 # p1 # rest) =
     (let hi = byte_of (hex_decode p0); lo = byte_of (hex_decode p1)
      in (push_bit 4 hi OR lo) # decode_hex_pairs rest)"
| "decode_hex_pairs _ = []"

definition decoded_len :: "encoding_type \<Rightarrow> u8 list \<Rightarrow> (decode_error, nat) result" where
  "decoded_len encoding src = (case encoding of
       Base64 \<Rightarrow> base64_decoded_len src
     | Base64Url \<Rightarrow> Err Unsupported
     | Hex \<Rightarrow> hex_decoded_len src)"

text \<open>The result and the destination buffer; the first check happens before any byte is written.\<close>

definition decode_base64 :: "u8 list \<Rightarrow> u8 list \<Rightarrow> ((decode_error, unit) result \<times> u8 list) option" where
  "decode_base64 src dst = (case base64_decoded_len src of
       Inl e \<Rightarrow> Some (Err e, dst)
     | Inr needed \<Rightarrow>
         if length dst < needed then None
         else Some (Ok (), write_front (decode_base64_groups src) dst))"

definition decode_hex :: "u8 list \<Rightarrow> u8 list \<Rightarrow> ((decode_error, unit) result \<times> u8 list) option" where
  "decode_hex src dst = (case validate_hex src of
       Inl e \<Rightarrow> Some (Err e, dst)
     | Inr _ \<Rightarrow>
         if length dst < length src div 2 then None
         else Some (Ok (), write_front (decode_hex_pairs src) dst))"

definition decode :: "encoding_type \<Rightarrow> u8 list \<Rightarrow> u8 list \<Rightarrow> ((decode_error, unit) result \<times> u8 list) option" where
  "decode encoding src dst = (case encoding of
       Base64 \<Rightarrow> decode_base64 src dst
     | Base64Url \<Rightarrow> Some (Err Unsupported, dst)
     | Hex \<Rightarrow> decode_hex src dst)"

section \<open>The tables invert the alphabets\<close>

lemma length_ascii_bytes [simp]: "length (ascii_bytes s) = length s"
  by (simp add: ascii_bytes_def)

lemma unat_ascii [simp]: "unat (word_of_nat (of_char c) :: u8) = of_char c"
proof -
  have "(of_char c :: nat) < 256" by (rule nat_of_char_less_256)
  then show ?thesis by (simp add: unat_of_nat)
qed

lemma distinct_ascii: "distinct s \<Longrightarrow> distinct (map unat (ascii_bytes s))"
  by (simp add: ascii_bytes_def distinct_map inj_on_def)

lemma alphabet_facts:
  "length BASE64_ALPHABET = 64" "distinct (map unat BASE64_ALPHABET)"
  "length BASE64_URL_ALPHABET = 64"
  "length HEX_ALPHABET = 16" "distinct (map unat HEX_ALPHABET)"
  unfolding BASE64_ALPHABET_def BASE64_URL_ALPHABET_def HEX_ALPHABET_def
  by ((rule distinct_ascii)?; simp)+

lemma fold_update_length [simp]: "length (fold (\<lambda>i t. t[k i := v i]) xs t) = length t"
  by (induction xs arbitrary: t) auto

lemma fold_update_other: "x \<notin> k ` set xs \<Longrightarrow> fold (\<lambda>i t. t[k i := v i]) xs t ! x = t ! x"
  by (induction xs arbitrary: t) auto

lemma fold_update_nth:
  "distinct (map k xs) \<Longrightarrow> i \<in> set xs \<Longrightarrow> k i < length t \<Longrightarrow>
   fold (\<lambda>i t. t[k i := v i]) xs t ! k i = v i"
  by (induction xs arbitrary: t) (auto simp: fold_update_other)

lemma base64_decode_alphabet:
  assumes "i < 64"
  shows "base64_decode (BASE64_ALPHABET ! i) = int i"
proof -
  have "map (\<lambda>i. unat (BASE64_ALPHABET ! i)) [0..<64] = map unat BASE64_ALPHABET"
    by (rule nth_equalityI) (simp_all add: alphabet_facts)
  then have "distinct (map (\<lambda>i. unat (BASE64_ALPHABET ! i)) [0..<64])"
    using alphabet_facts(2) by simp
  then show ?thesis
    using assms
    unfolding base64_decode_def base64_decode_table_def alphabet_facts(1)
    by (intro fold_update_nth) simp_all
qed

lemma pad_not_in_alphabet: "i < 64 \<Longrightarrow> BASE64_ALPHABET ! i \<noteq> pad_byte"
proof -
  have "pad_byte \<notin> set BASE64_ALPHABET"
    by (simp add: BASE64_ALPHABET_def ascii_bytes_def pad_byte_def)
  moreover assume "i < 64"
  then have "BASE64_ALPHABET ! i \<in> set BASE64_ALPHABET" using alphabet_facts(1) by simp
  ultimately show "BASE64_ALPHABET ! i \<noteq> pad_byte" by metis
qed

lemma hex_decode_alphabet: "i < 16 \<Longrightarrow> hex_decode (HEX_ALPHABET ! i) = int i"
proof -
  have "map hex_decode HEX_ALPHABET = map int [0..<16]" by code_simp
  then show "i < 16 \<Longrightarrow> hex_decode (HEX_ALPHABET ! i) = int i"
    by (metis alphabet_facts(4) nth_map nth_map_upt add_0 diff_zero)
qed

section \<open>Bits of a group\<close>

lemma word8_eqI: "(\<And>n. n \<in> set [0,1,2,3,4,5,6,7] \<Longrightarrow> bit a n = bit b n) \<Longrightarrow> a = b" for a b :: u8
proof (rule bit_word_eqI)
  fix n assume eq: "\<And>n. n \<in> set [0,1,2,3,4,5,6,7] \<Longrightarrow> bit a n = bit b n" and "n < LENGTH(8)"
  then have "n \<in> set [0,1,2,3,4,5,6,7]" by (simp; linarith)
  then show "bit a n = bit b n" by (rule eq)
qed

lemmas bits = bit_or_iff bit_and_iff bit_push_bit_iff bit_drop_bit_eq comp_apply

lemma four_five: "(4 :: nat) = Suc (Suc (Suc (Suc 0)))" "(5 :: nat) = Suc (Suc (Suc (Suc (Suc 0))))"
  "(6 :: nat) = Suc (Suc (Suc (Suc (Suc (Suc 0)))))" "(7 :: nat) = Suc (Suc (Suc (Suc (Suc (Suc (Suc 0))))))"
  by simp_all

lemmas twos = numeral_2_eq_2 numeral_3_eq_3 four_five

lemma group_bits:
  fixes a b c :: u8
  shows "push_bit 2 (drop_bit 2 a) OR drop_bit 4 (push_bit 4 (a AND 0x03)) = a"
    "push_bit 2 (drop_bit 2 a) OR drop_bit 4 (push_bit 4 (a AND 0x03) OR drop_bit 4 (b AND 0xf0)) = a"
    "push_bit 4 (push_bit 4 (a AND 0x03) OR drop_bit 4 (b AND 0xf0)) OR
       drop_bit 2 (push_bit 2 (b AND 0x0f)) = b"
    "push_bit 4 (push_bit 4 (a AND 0x03) OR drop_bit 4 (b AND 0xf0)) OR
       drop_bit 2 (push_bit 2 (b AND 0x0f) OR drop_bit 6 (c AND 0xc0)) = b"
    "(push_bit 6 (push_bit 2 (b AND 0x0f) OR drop_bit 6 (c AND 0xc0)) AND 0xc0) OR (c AND 0x3f) = c"
    "push_bit 4 (drop_bit 4 a) OR (a AND 0x0f) = a"
  subgoal by (rule word8_eqI, simp only: bits, auto simp: twos)
  subgoal by (rule word8_eqI, simp only: bits, auto simp: twos)
  subgoal by (rule word8_eqI, simp only: bits, auto simp: twos)
  subgoal by (rule word8_eqI, simp only: bits, auto simp: twos)
  subgoal by (rule word8_eqI, simp only: bits, auto simp: twos)
  subgoal by (rule word8_eqI, simp only: bits, auto simp: twos)
  done

lemma masked_lt: "w AND 0x3f = w \<Longrightarrow> unat w < 64" "w AND 0x0f = w \<Longrightarrow> unat w < 16" for w :: u8
proof -
  show "unat w < 64" if "w AND 0x3f = w"
  proof -
    have "w \<le> 0x3f" using that word_and_le1 [of w "0x3f"] by simp
    then show ?thesis by (simp add: word_le_nat_alt)
  qed
  show "unat w < 16" if "w AND 0x0f = w"
  proof -
    have "w \<le> 0x0f" using that word_and_le1 [of w "0x0f"] by simp
    then show ?thesis by (simp add: word_le_nat_alt)
  qed
qed

lemma shifted_lt: "unat (drop_bit 2 a) < 64" "unat (drop_bit 4 a) < 16" for a :: u8
proof -
  have "unat (drop_bit k a) = unat a div 2 ^ k" for k unfolding unat_drop_bit_eq by (rule drop_bit_eq_div)
  moreover have "unat a < 64 * 4" "unat a < 16 * 16" using unat_u8_lt [of a] by simp_all
  ultimately show "unat (drop_bit 2 a) < 64" "unat (drop_bit 4 a) < 16"
    by (simp_all only: less_mult_imp_div_less power2_eq_square) (simp_all add: less_mult_imp_div_less)
qed

lemma six_bits:
  fixes a b c :: u8
  shows "unat (push_bit 4 (a AND 0x03)) < 64"
    "unat (push_bit 4 (a AND 0x03) OR drop_bit 4 (b AND 0xf0)) < 64"
    "unat (push_bit 2 (b AND 0x0f)) < 64"
    "unat (push_bit 2 (b AND 0x0f) OR drop_bit 6 (c AND 0xc0)) < 64"
    "unat (c AND 0x3f) < 64" "unat (a AND 0x0f) < 16"
  subgoal by (rule masked_lt, rule word8_eqI, simp only: bits, auto simp: twos)
  subgoal by (rule masked_lt, rule word8_eqI, simp only: bits, auto simp: twos)
  subgoal by (rule masked_lt, rule word8_eqI, simp only: bits, auto simp: twos)
  subgoal by (rule masked_lt, rule word8_eqI, simp only: bits, auto simp: twos)
  subgoal by (rule masked_lt, rule word8_eqI, simp only: bits, auto simp: twos)
  subgoal by (rule masked_lt(2), rule word8_eqI, simp only: bits, auto simp: twos)
  done

section \<open>Round trips\<close>

lemma decode_digit: "unat w < 64 \<Longrightarrow> byte_of (base64_decode (BASE64_ALPHABET ! unat w)) = w" for w :: u8
  by (simp add: base64_decode_alphabet byte_of_def)

lemmas digit_facts = decode_digit pad_not_in_alphabet shifted_lt six_bits

lemma groups_of_encoding: "decode_base64_groups (encode_base64 True src) = src"
  by (induction True src rule: encode_base64.induct)
     (simp_all add: digit_facts group_bits Let_def
       del: unat_drop_bit_eq push_bit_and drop_bit_and push_bit_or drop_bit_or)

lemma hex_pairs_of_encoding: "decode_hex_pairs (encode_hex src) = src"
proof (induction src)
  case (Cons a src)
  have "byte_of (hex_decode (HEX_ALPHABET ! unat w)) = w" if "unat w < 16" for w :: u8
    using that by (simp add: hex_decode_alphabet byte_of_def)
  with Cons show ?case by (simp add: encode_hex_def shifted_lt six_bits group_bits)
qed (simp add: encode_hex_def)

text \<open>The number of bytes written is the one promised, so that the length check is exact.\<close>

lemma length_encode_base64:
  "length (encode_base64 pad src) = encoded_len (if pad then Base64 else Base64Url) (length src)"
proof (induction pad src rule: encode_base64.induct)
  case (4 pad a b c rest)
  have step: "(n + 3) div 3 = n div 3 + 1" for n :: nat using div_add_self2 [of 3 n] by simp
  have "(length rest + 3 + 2) div 3 * 4 = (length rest + 2) div 3 * 4 + 4"
    using step [of "length rest + 2"] by (simp add: ac_simps)
  moreover have "(length rest + 3) div 3 * 4 = length rest div 3 * 4 + 4"
    "(length rest + 3) mod 3 = length rest mod 3"
    using step [of "length rest"] by simp_all
  moreover note 4
  ultimately show ?case by (simp add: encoded_len_def Let_def add.commute)
qed (simp_all add: encoded_len_def Let_def)

lemma length_encode_hex [simp]: "length (encode_hex src) = encoded_len Hex (length src)"
  by (induction src) (simp_all add: encode_hex_def encoded_len_def)

section \<open>What the validation accepts\<close>

definition pads_ok :: "u8 list \<Rightarrow> bool" where
  "pads_ok src = (\<forall>i < length src. src ! i = pad_byte \<longrightarrow>
     length src \<le> i + 2 \<and> (i + 2 = length src \<longrightarrow> src ! (i + 1) = pad_byte))"

definition digits_ok :: "u8 list \<Rightarrow> bool" where
  "digits_ok src = list_all (\<lambda>c. c = pad_byte \<or> 0 \<le> base64_decode c) src"

lemma validate_from_iff:
  "validate_base64_from src idx rest = Ok () \<longleftrightarrow>
   (\<forall>i < length rest. rest ! i = pad_byte \<longrightarrow> length src - 2 \<le> idx + i \<and>
      (idx + i = length src - 2 \<longrightarrow> src ! (length src - 1) = pad_byte)) \<and> digits_ok rest"
proof (induction rest arbitrary: idx)
  case (Cons c rest)
  show ?case
    unfolding validate_base64_from.simps digits_ok_def
    using Cons [of "idx + 1"] by (auto simp: All_less_Suc2 digits_ok_def not_less not_le)
qed (simp add: digits_ok_def)

lemma validate_base64_iff:
  "validate_base64 src = Ok () \<longleftrightarrow> length src mod 4 = 0 \<and> pads_ok src \<and> digits_ok src"
proof (cases "length src mod 4 = 0")
  case True
  have "length src - 2 \<le> i \<longleftrightarrow> length src \<le> i + 2" "i = length src - 2 \<longleftrightarrow> i + 2 = length src"
    if "i < length src" for i
    using True that by (cases "length src < 2"; auto)+
  moreover have "length src - 1 = i + 1" if "i + 2 = length src" for i using that by simp
  ultimately show ?thesis
    using True by (simp add: validate_base64_def validate_from_iff pads_ok_def cong: conj_cong imp_cong)
qed (simp add: validate_base64_def)

lemma pads_ok_append:
  assumes "pads_ok r" "pad_byte \<notin> set ds"
  shows "pads_ok (ds @ r)"
  unfolding pads_ok_def
proof (intro allI impI)
  fix i assume i: "i < length (ds @ r)" "(ds @ r) ! i = pad_byte"
  have "\<not> i < length ds" using i(2) assms(2) by (auto simp: nth_append in_set_conv_nth)
  then obtain j where j: "i = length ds + j" using le_Suc_ex not_less by blast
  then show "length (ds @ r) \<le> i + 2 \<and> (i + 2 = length (ds @ r) \<longrightarrow> (ds @ r) ! (i + 1) = pad_byte)"
    using assms(1) i by (auto simp: pads_ok_def nth_append)
qed

lemma digit_ok: "i < 64 \<Longrightarrow> 0 \<le> base64_decode (BASE64_ALPHABET ! i)"
  by (simp add: base64_decode_alphabet)

lemma encoding_ok:
  "length (encode_base64 True src) mod 4 = 0 \<and> pads_ok (encode_base64 True src) \<and>
   digits_ok (encode_base64 True src)"
proof (induction True src rule: encode_base64.induct)
  case (2 a)
  let ?ds = "[BASE64_ALPHABET ! unat (drop_bit 2 a), BASE64_ALPHABET ! unat (push_bit 4 (a AND 0x03))]"
  have "pad_byte \<notin> set ?ds"
    using pad_not_in_alphabet [OF shifted_lt(1), of a] pad_not_in_alphabet [OF six_bits(1), of a]
    by (auto simp del: push_bit_and)
  then have "pads_ok (?ds @ [pad_byte, pad_byte])"
    by (intro pads_ok_append) (auto simp: pads_ok_def less_Suc_eq)
  then show ?case
    using digit_ok [OF shifted_lt(1), of a] digit_ok [OF six_bits(1), of a]
    by (simp add: digits_ok_def Let_def del: push_bit_and)
next
  case (3 a b)
  let ?ds = "[BASE64_ALPHABET ! unat (drop_bit 2 a),
      BASE64_ALPHABET ! unat (push_bit 4 (a AND 0x03) OR drop_bit 4 (b AND 0xf0)),
      BASE64_ALPHABET ! unat (push_bit 2 (b AND 0x0f))]"
  have "pad_byte \<notin> set ?ds"
    using pad_not_in_alphabet [OF shifted_lt(1), of a] pad_not_in_alphabet [OF six_bits(2), of a b]
      pad_not_in_alphabet [OF six_bits(3), of b]
    by (auto simp del: push_bit_and drop_bit_and)
  then have "pads_ok (?ds @ [pad_byte])" by (intro pads_ok_append) (auto simp: pads_ok_def)
  then show ?case
    using digit_ok [OF shifted_lt(1), of a] digit_ok [OF six_bits(2), of a b] digit_ok [OF six_bits(3), of b]
    by (simp add: digits_ok_def Let_def del: push_bit_and drop_bit_and)
next
  case (4 a b c rest)
  let ?ds = "[BASE64_ALPHABET ! unat (drop_bit 2 a),
      BASE64_ALPHABET ! unat (push_bit 4 (a AND 0x03) OR drop_bit 4 (b AND 0xf0)),
      BASE64_ALPHABET ! unat (push_bit 2 (b AND 0x0f) OR drop_bit 6 (c AND 0xc0)),
      BASE64_ALPHABET ! unat (c AND 0x3f)]"
  have "pad_byte \<notin> set ?ds"
    using pad_not_in_alphabet [OF shifted_lt(1), of a] pad_not_in_alphabet [OF six_bits(2), of a b]
      pad_not_in_alphabet [OF six_bits(4), of b c] pad_not_in_alphabet [OF six_bits(5), of c]
    by (auto simp del: push_bit_and drop_bit_and)
  moreover have "digits_ok ?ds"
    using digit_ok [OF shifted_lt(1), of a] digit_ok [OF six_bits(2), of a b]
      digit_ok [OF six_bits(4), of b c] digit_ok [OF six_bits(5), of c]
    by (simp add: digits_ok_def del: push_bit_and drop_bit_and)
  moreover have "encode_base64 True (a # b # c # rest) = ?ds @ encode_base64 True rest"
    by (simp add: Let_def del: push_bit_and drop_bit_and)
  ultimately show ?case
    using 4 pads_ok_append [of "encode_base64 True rest" ?ds]
    by (simp only: digits_ok_def list_all_append length_append list.size) simp
qed (simp add: pads_ok_def digits_ok_def)

lemma pads_ok_tail:
  assumes "pads_ok (s0 # s1 # s2 # s3 # rest)" "length rest mod 4 = 0" "rest \<noteq> []"
  shows "s2 \<noteq> pad_byte" "s3 \<noteq> pad_byte" "pads_ok rest"
proof -
  have four: "4 \<le> length rest" using assms(2,3) by (metis length_0_conv linorder_not_le mod_less)
  have at: "(s0 # s1 # s2 # s3 # rest) ! i = pad_byte \<Longrightarrow> i < 4 + length rest \<Longrightarrow> 2 + length rest \<le> i \<and>
      (i = 2 + length rest \<longrightarrow> (s0 # s1 # s2 # s3 # rest) ! (i + 1) = pad_byte)" for i
    using assms(1) [unfolded pads_ok_def, rule_format, of i] by simp
  show "s2 \<noteq> pad_byte" using at [of 2] four by auto
  show "s3 \<noteq> pad_byte" using at [of 3] four by auto
  show "pads_ok rest"
    unfolding pads_ok_def
  proof (intro allI impI)
    fix i assume i: "i < length rest" "rest ! i = pad_byte"
    have shift: "(s0 # s1 # s2 # s3 # rest) ! (4 + j) = rest ! j" for j by (simp add: eval_nat_numeral)
    show "length rest \<le> i + 2 \<and> (i + 2 = length rest \<longrightarrow> rest ! (i + 1) = pad_byte)"
    proof -
      have last: "(s3 # rest) ! length rest = rest ! (i + 1)" if "i + 2 = length rest"
        using that [symmetric] by simp
      show ?thesis using at [of "4 + i"] i shift [of i] shift [of "i + 1"] last by auto
    qed
  qed
qed

lemma length_groups:
  assumes "length src mod 4 = 0" "pads_ok src"
  shows "base64_decoded_len src = rbind (validate_base64 src) (\<lambda>_. Ok (length (decode_base64_groups src)))"
proof -
  have "length (decode_base64_groups src) =
      (if src = [] then 0 else if src ! (length src - 1) = pad_byte
       then if src ! (length src - 2) = pad_byte then length src div 4 * 3 - 2 else length src div 4 * 3 - 1
       else length src div 4 * 3)"
    using assms
  proof (induction src rule: decode_base64_groups.induct)
    case (1 s0 s1 s2 s3 rest)
    show ?case
    proof (cases "rest = []")
      case True
      have "s2 = pad_byte \<Longrightarrow> s3 = pad_byte"
        using 1(3) [unfolded pads_ok_def, rule_format, of 2] True by simp
      then show ?thesis using True by (auto simp: Let_def)
    next
      case False
      have len: "length rest mod 4 = 0" using 1(2) by simp
      note tail = pads_ok_tail [OF 1(3) len False]
      obtain m where m: "length rest = Suc (Suc m)"
        using len False by (cases rest; cases "tl rest") auto
      have "(length rest + 4) div 4 = length rest div 4 + 1" using div_add_self2 [of 4 "length rest"] by simp
      then show ?thesis
        using 1(1) tail len False m by (auto simp: Let_def)
    qed
  qed auto
  then show ?thesis by (auto simp: base64_decoded_len_def Let_def numeral_2_eq_2)
qed

lemma validate_hex_iff:
  "validate_hex src = Ok () \<longleftrightarrow> length src mod 2 = 0 \<and> list_all (\<lambda>c. 0 \<le> hex_decode c) src"
proof -
  have "validate_hex_from idx src = Ok () \<longleftrightarrow> list_all (\<lambda>c. 0 \<le> hex_decode c) src" for idx
    by (induction src arbitrary: idx) (auto simp: not_less)
  then show ?thesis by (simp add: validate_hex_def)
qed

lemma hex_encoding_ok: "validate_hex (encode_hex src) = Ok ()"
  unfolding validate_hex_iff length_encode_hex
  by (simp add: encode_hex_def encoded_len_def list_all_iff hex_decode_alphabet shifted_lt six_bits)

lemma length_hex_pairs: "length (decode_hex_pairs src) = length src div 2"
  by (induction src rule: decode_hex_pairs.induct) (auto simp: Let_def)

lemma decode_base64_ok:
  assumes "validate_base64 src = Ok ()"
  shows "base64_decoded_len src = Ok (length (decode_base64_groups src))"
  using length_groups [of src] assms validate_base64_iff [of src] by simp

lemma decoded_bytes:
  assumes "decoded_len encoding src = Ok n"
  obtains bytes where "length bytes = n"
    "\<And>dst. decode encoding src dst = (if length dst < n then None else Some (Ok (), write_front bytes dst))"
proof (cases encoding)
  case Base64
  then have "base64_decoded_len src = Ok n" using assms by (simp add: decoded_len_def)
  moreover from this have "validate_base64 src = Ok ()"
    by (cases "validate_base64 src") (simp_all add: base64_decoded_len_def)
  ultimately show ?thesis
    using that [of "decode_base64_groups src"] decode_base64_ok Base64 by (simp add: decode_def decode_base64_def)
next
  case Hex
  then have "validate_hex src = Ok ()" "n = length src div 2"
    using assms by (cases "validate_hex src"; simp add: decoded_len_def hex_decoded_len_def)+
  then show ?thesis
    using that [of "decode_hex_pairs src"] Hex by (simp add: decode_def decode_hex_def length_hex_pairs)
qed (use assms in \<open>simp add: decoded_len_def\<close>)

text \<open>C27. Encoding and decoding: with large enough buffers, what base64 or hex encoding writes, up to the
  terminating NUL, is decoded to the source bytes, for every input.\<close>

theorem encode_decode_roundtrip:
  assumes "encoding \<noteq> Base64Url" "encoded_len encoding (length src) < length buf" "length src \<le> length dst"
  shows "\<exists>out. encode encoding src buf = Some out \<and>
    out ! encoded_len encoding (length src) = 0 \<and>
    decode encoding (take (encoded_len encoding (length src)) out) dst =
      Some (Ok (), src @ drop (length src) dst)"
proof (cases encoding)
  case Base64
  let ?text = "encode_base64 True src"
  have len: "length ?text = encoded_len Base64 (length src)" using length_encode_base64 [of True src] by simp
  have "validate_base64 ?text = Ok ()" using encoding_ok validate_base64_iff by blast
  then have "decode Base64 ?text dst = Some (Ok (), src @ drop (length src) dst)"
    using decode_base64_ok assms(3) by (simp add: decode_def decode_base64_def groups_of_encoding write_front_def)
  then show ?thesis
    using assms(2) Base64 len by (simp add: encode_def write_front_def nth_append)
next
  case Hex
  have len: "length (encode_hex src) = encoded_len Hex (length src)" by simp
  have "length src = encoded_len Hex (length src) div 2" by (simp add: encoded_len_def)
  then have "decode Hex (encode_hex src) dst = Some (Ok (), src @ drop (length src) dst)"
    using hex_encoding_ok assms(3)
    by (simp add: decode_def decode_hex_def hex_pairs_of_encoding write_front_def)
  then show ?thesis
    using assms(2) Hex len by (simp add: encode_def write_front_def nth_append)
qed (use assms(1) in simp)

lemma encode_decode_roundtrip_witness:
  "\<exists>out. encode Base64 [1, 2, 3, 4] (replicate 9 7) = Some out \<and>
    out ! encoded_len Base64 (length [1, 2, 3, 4 :: u8]) = 0 \<and>
    decode Base64 (take (encoded_len Base64 (length [1, 2, 3, 4 :: u8])) out) [0, 0, 0, 0, 5] =
      Some (Ok (), [1, 2, 3, 4] @ drop (length [1, 2, 3, 4 :: u8]) [0, 0, 0, 0, 5])"
  by (rule encode_decode_roundtrip) (simp_all add: encoded_len_def)

text \<open>The length functions are exact: encoding panics only when the destination is shorter than the
  promised length and the NUL, decoding only when it is shorter than the decoded length, and neither
  touches a byte beyond; decoding that reports an error leaves the destination as it was.\<close>

theorem encode_decode_bounds:
  "(case encode encoding src buf of
      None \<Rightarrow> length buf < encoded_len encoding (length src) + 1
    | Some out \<Rightarrow> length out = length buf \<and> drop (encoded_len encoding (length src) + 1) out =
        drop (encoded_len encoding (length src) + 1) buf) \<and>
   (case (decode encoding coded dst, decoded_len encoding coded) of
      (None, Inr n) \<Rightarrow> length dst < n
    | (Some (Inr _, out), Inr n) \<Rightarrow> length out = length dst \<and> drop n out = drop n dst
    | (Some (Inl e, out), Inl e') \<Rightarrow> e = e' \<and> out = dst
    | _ \<Rightarrow> False)"
proof
  define coded where "coded = (case encoding of Base64 \<Rightarrow> encode_base64 True src
     | Base64Url \<Rightarrow> encode_base64 False src | Hex \<Rightarrow> encode_hex src)"
  have "length coded = encoded_len encoding (length src)"
    using length_encode_base64 [of True src] length_encode_base64 [of False src]
    by (cases encoding) (simp_all add: coded_def)
  then show "case encode encoding src buf of
      None \<Rightarrow> length buf < encoded_len encoding (length src) + 1
    | Some out \<Rightarrow> length out = length buf \<and> drop (encoded_len encoding (length src) + 1) out =
        drop (encoded_len encoding (length src) + 1) buf"
    by (auto simp: encode_def write_front_def simp flip: coded_def)
next
  show "case (decode encoding coded dst, decoded_len encoding coded) of
      (None, Inr n) \<Rightarrow> length dst < n
    | (Some (Inr _, out), Inr n) \<Rightarrow> length out = length dst \<and> drop n out = drop n dst
    | (Some (Inl e, out), Inl e') \<Rightarrow> e = e' \<and> out = dst
    | _ \<Rightarrow> False"
  proof (cases "decoded_len encoding coded")
    case (Inl e)
    then have "decode encoding coded dst = Some (Err e, dst)"
      by (cases encoding; cases "validate_hex coded"; cases "base64_decoded_len coded";
          simp add: decoded_len_def decode_def decode_base64_def decode_hex_def hex_decoded_len_def)
    then show ?thesis using Inl by simp
  next
    case (Inr n)
    then obtain bytes where "length bytes = n"
      "decode encoding coded dst = (if length dst < n then None else Some (Ok (), write_front bytes dst))"
      by (rule decoded_bytes) blast
    then show ?thesis using Inr by (simp add: write_front_def)
  qed
qed

end
