(* ===== verification/Parallel.thy ===== *)
theory Parallel
  imports "HOL-Library.Multiset" Prelude
begin

text \<open>
  The parallel executor (\<open>crates/pgbr-protocol/src/parallel.rs\<close>): worker threads pull jobs from one queue
  and send one result per job. The threads are a step relation over the queue, the place each worker is
  at, the results sent so far and the state the jobs work on; every interleaving of the steps is a run.
  A job's work is one step on that state.
\<close>

section \<open>The threads\<close>

datatype ('j, 'r) worker_place = Idle | Popped 'j | Finished 'j 'r | Stopped

record ('j, 'r, 's) pool =
  pl_queue :: "'j list"
  pl_workers :: "('j, 'r) worker_place list"
  pl_results :: "('j \<times> 'r) list"
  pl_state :: 's

definition thread_count :: "nat \<Rightarrow> nat \<Rightarrow> nat" where
  "thread_count worker_count job_count = min (max worker_count 1) job_count"

definition pool_start :: "nat \<Rightarrow> 'j list \<Rightarrow> 's \<Rightarrow> ('j, 'r, 's) pool" where
  "pool_start worker_count jobs s = \<lparr>pl_queue = jobs,
     pl_workers = replicate (thread_count worker_count (length jobs)) Idle, pl_results = [], pl_state = s\<rparr>"

inductive pool_step ::
  "('j \<Rightarrow> 's \<Rightarrow> 'r \<times> 's) \<Rightarrow> ('j, 'r, 's) pool \<Rightarrow> ('j, 'r, 's) pool \<Rightarrow> bool" for work where
  pool_pop: "i < length (pl_workers p) \<Longrightarrow> pl_workers p ! i = Idle \<Longrightarrow> pl_queue p = j # q \<Longrightarrow>
    pool_step work p (p\<lparr>pl_queue := q, pl_workers := (pl_workers p)[i := Popped j]\<rparr>)"
| pool_stop: "i < length (pl_workers p) \<Longrightarrow> pl_workers p ! i = Idle \<Longrightarrow> pl_queue p = [] \<Longrightarrow>
    pool_step work p (p\<lparr>pl_workers := (pl_workers p)[i := Stopped]\<rparr>)"
| pool_work: "i < length (pl_workers p) \<Longrightarrow> pl_workers p ! i = Popped j \<Longrightarrow> work j (pl_state p) = (r, t) \<Longrightarrow>
    pool_step work p (p\<lparr>pl_workers := (pl_workers p)[i := Finished j r], pl_state := t\<rparr>)"
| pool_send: "i < length (pl_workers p) \<Longrightarrow> pl_workers p ! i = Finished j r \<Longrightarrow>
    pool_step work p (p\<lparr>pl_workers := (pl_workers p)[i := Idle], pl_results := pl_results p @ [(j, r)]\<rparr>)"

inductive_cases pool_stepE: "pool_step work p q"

inductive pool_reach :: "('j \<Rightarrow> 's \<Rightarrow> 'r \<times> 's) \<Rightarrow> ('j, 'r, 's) pool \<Rightarrow> ('j, 'r, 's) pool \<Rightarrow> bool"
  for work p0 where
  reach_start: "pool_reach work p0 p0"
| reach_step: "pool_reach work p0 p \<Longrightarrow> pool_step work p q \<Longrightarrow> pool_reach work p0 q"

definition all_stopped :: "('j, 'r, 's) pool \<Rightarrow> bool" where
  "all_stopped p = list_all (\<lambda>w. w = Stopped) (pl_workers p)"

text \<open>One after the other, in a given order: what a run amounts to.\<close>

fun run_jobs :: "('j \<Rightarrow> 's \<Rightarrow> 'r \<times> 's) \<Rightarrow> 'j list \<Rightarrow> 's \<Rightarrow> ('j \<times> 'r) list \<times> 's" where
  "run_jobs work [] s = ([], s)"
| "run_jobs work (j # js) s =
     (let (r, t) = work j s; (rs, u) = run_jobs work js t in ((j, r) # rs, u))"

lemma run_jobs_append:
  "run_jobs work (js @ ks) s =
     (let (rs, t) = run_jobs work js s; (qs, u) = run_jobs work ks t in (rs @ qs, u))"
  by (induction js arbitrary: s) (auto split: prod.splits)

lemma run_jobs_fst: "map fst (fst (run_jobs work js s)) = js"
  by (induction js arbitrary: s) (simp_all add: case_prod_beta Let_def)

text \<open>An order of \<open>n\<close> things as a permutation of the indices; any other list stands for the given order.\<close>

definition permute :: "nat list \<Rightarrow> 'a list \<Rightarrow> 'a list" where
  "permute idxs xs = (if mset idxs = mset [0..<length xs] then map ((!) xs) idxs else xs)"

lemma mset_permute [simp]: "mset (permute idxs xs) = mset xs"
proof (cases "mset idxs = mset [0..<length xs]")
  case True
  then have "mset (map ((!) xs) idxs) = image_mset ((!) xs) (mset [0..<length xs])" by simp
  also have "\<dots> = mset (map ((!) xs) [0..<length xs])" by (simp only: mset_map)
  finally show ?thesis using True by (simp add: permute_def map_nth)
qed (simp add: permute_def)

lemma set_permute [simp]: "set (permute idxs xs) = set xs"
  using mset_permute by (rule mset_eq_setD)

section \<open>Every run is a sequential run\<close>

fun popped_of :: "('j, 'r) worker_place \<Rightarrow> 'j list" where
  "popped_of (Popped j) = [j]"
| "popped_of _ = []"

fun finished_of :: "('j, 'r) worker_place \<Rightarrow> ('j \<times> 'r) list" where
  "finished_of (Finished j r) = [(j, r)]"
| "finished_of _ = []"

definition popped_jobs :: "('j, 'r) worker_place list \<Rightarrow> 'j multiset" where
  "popped_jobs ws = mset (concat (map popped_of ws))"

definition finished_jobs :: "('j, 'r) worker_place list \<Rightarrow> ('j \<times> 'r) multiset" where
  "finished_jobs ws = mset (concat (map finished_of ws))"

lemma mset_concat_update:
  "i < length ws \<Longrightarrow> mset (concat (map f (ws[i := w]))) + mset (f (ws ! i)) =
     mset (concat (map f ws)) + mset (f w)"
proof (induction ws arbitrary: i)
  case (Cons v ws)
  then show ?case by (cases i) (auto simp: ac_simps)
qed simp

lemma popped_update:
  "i < length ws \<Longrightarrow> popped_jobs (ws[i := w]) + mset (popped_of (ws ! i)) = popped_jobs ws + mset (popped_of w)"
  unfolding popped_jobs_def by (rule mset_concat_update)

lemma finished_update:
  "i < length ws \<Longrightarrow> finished_jobs (ws[i := w]) + mset (finished_of (ws ! i)) =
     finished_jobs ws + mset (finished_of w)"
  unfolding finished_jobs_def by (rule mset_concat_update)

definition pool_inv :: "('j \<Rightarrow> 's \<Rightarrow> 'r \<times> 's) \<Rightarrow> 'j list \<Rightarrow> 's \<Rightarrow> ('j, 'r, 's) pool \<Rightarrow> bool" where
  "pool_inv work jobs s p =
     ((Stopped \<in> set (pl_workers p) \<longrightarrow> pl_queue p = []) \<and>
      (\<exists>order rs. run_jobs work order s = (rs, pl_state p) \<and>
         mset order + popped_jobs (pl_workers p) + mset (pl_queue p) = mset jobs \<and>
         mset (pl_results p) + finished_jobs (pl_workers p) = mset rs))"

lemma pool_inv_start: "pool_inv work jobs s (pool_start n jobs s)"
proof -
  have "popped_jobs (replicate k Idle) = {#}" "finished_jobs (replicate k Idle) = {#}" for k
    by (simp_all add: popped_jobs_def finished_jobs_def)
  then show ?thesis
    unfolding pool_inv_def pool_start_def
    by (auto simp: set_replicate_conv_if popped_jobs_def finished_jobs_def intro!: exI [of _ "[]"])
qed

lemma pool_inv_step:
  assumes "pool_inv work jobs s p" "pool_step work p q"
  shows "pool_inv work jobs s q"
proof -
  obtain order rs where run: "run_jobs work order s = (rs, pl_state p)"
    and jobs: "mset order + popped_jobs (pl_workers p) + mset (pl_queue p) = mset jobs"
    and res: "mset (pl_results p) + finished_jobs (pl_workers p) = mset rs"
    and stopped: "Stopped \<in> set (pl_workers p) \<longrightarrow> pl_queue p = []"
    using assms(1) by (auto simp: pool_inv_def)
  note upd = popped_update finished_update
  have sub: "Stopped \<in> set (ws[i := w]) \<Longrightarrow> w \<noteq> Stopped \<Longrightarrow> Stopped \<in> set ws"
    for ws :: "('a, 'c) worker_place list" and i w
    using set_update_subset_insert [of ws i w] by auto
  from assms(2) show ?thesis
  proof cases
    case (pool_pop i j qs)
    then show ?thesis
      using run jobs res stopped upd(1) [OF pool_pop(2), of "Popped j"] upd(2) [OF pool_pop(2), of "Popped j"]
        sub [of "pl_workers p" i "Popped j"]
      by (auto simp: pool_inv_def ac_simps)
  next
    case (pool_stop i)
    then show ?thesis
      using run jobs res upd(1) [OF pool_stop(2), of Stopped] upd(2) [OF pool_stop(2), of Stopped]
      by (auto simp: pool_inv_def)
  next
    case (pool_work i j r t)
    then have "run_jobs work (order @ [j]) s = (rs @ [(j, r)], t)"
      using run by (simp add: run_jobs_append)
    moreover have "mset (order @ [j]) + popped_jobs ((pl_workers p)[i := Finished j r]) + mset (pl_queue p) = mset jobs"
    proof -
      have "popped_jobs (pl_workers p) = add_mset j (popped_jobs ((pl_workers p)[i := Finished j r]))"
        using upd(1) [OF pool_work(2), of "Finished j r"] pool_work(3) by simp
      then show ?thesis using jobs by (simp add: ac_simps)
    qed
    moreover have "mset (pl_results p) + finished_jobs ((pl_workers p)[i := Finished j r]) = mset (rs @ [(j, r)])"
      using res upd(2) [OF pool_work(2), of "Finished j r"] pool_work(3) by (simp add: ac_simps)
    moreover have "Stopped \<in> set ((pl_workers p)[i := Finished j r]) \<longrightarrow> pl_queue p = []"
      using stopped sub [of "pl_workers p" i "Finished j r"] by auto
    ultimately show ?thesis
      unfolding pool_inv_def pool_work(1)
      by (intro conjI exI [of _ "order @ [j]"] exI [of _ "rs @ [(j, r)]"]) simp_all
  next
    case (pool_send i j r)
    have "mset (pl_results p @ [(j, r)]) + finished_jobs ((pl_workers p)[i := Idle]) = mset rs"
    proof -
      have "finished_jobs (pl_workers p) = add_mset (j, r) (finished_jobs ((pl_workers p)[i := Idle]))"
        using upd(2) [OF pool_send(2), of Idle] pool_send(3) by simp
      then show ?thesis using res by (simp add: ac_simps)
    qed
    moreover have "popped_jobs ((pl_workers p)[i := Idle]) = popped_jobs (pl_workers p)"
      using upd(1) [OF pool_send(2), of Idle] pool_send(3) by simp
    ultimately show ?thesis
      using pool_send(1) run jobs stopped sub [of "pl_workers p" i Idle] by (auto simp: pool_inv_def)
  qed
qed

lemma pool_inv_reach: "pool_reach work (pool_start n jobs s) p \<Longrightarrow> pool_inv work jobs s p"
  by (induction rule: pool_reach.induct) (auto intro: pool_inv_start pool_inv_step)


definition sample_work :: "nat \<Rightarrow> nat \<Rightarrow> nat \<times> nat" where
  "sample_work j s = (j + 1, 10 * s + j)"

lemma sample_pool_run:
  "pool_reach sample_work (pool_start 4 [7] 1)
     \<lparr>pl_queue = [], pl_workers = [Stopped], pl_results = [(7, 8)], pl_state = 17\<rparr>"
proof -
  let ?p = "\<lambda>q w rs s. \<lparr>pl_queue = q, pl_workers = [w], pl_results = rs, pl_state = s\<rparr>"
  have start: "pool_start 4 [7] 1 = ?p [7] Idle [] 1" by (simp add: pool_start_def thread_count_def)
  have pop: "pool_step sample_work (?p [7] Idle [] 1) (?p [] (Popped 7) [] 1)"
    using pool_pop [of 0 "?p [7] Idle [] 1" 7 "[]" sample_work] by simp
  have work: "pool_step sample_work (?p [] (Popped 7) [] 1) (?p [] (Finished 7 8) [] 17)"
    using pool_work [of 0 "?p [] (Popped 7) [] 1" 7 sample_work 8 17] by (simp add: sample_work_def)
  have send: "pool_step sample_work (?p [] (Finished 7 8) [] 17) (?p [] Idle [(7, 8)] 17)"
    using pool_send [of 0 "?p [] (Finished 7 8) [] 17" 7 8 sample_work] by simp
  have stop: "pool_step sample_work (?p [] Idle [(7, 8)] 17) (?p [] Stopped [(7, 8)] 17)"
    using pool_stop [of 0 "?p [] Idle [(7, 8)] 17" sample_work] by simp
  show ?thesis
    unfolding start
    by (rule reach_step [OF reach_step [OF reach_step [OF reach_step [OF reach_start pop] work] send] stop])
qed


section \<open>Every run ends\<close>

fun place_weight :: "('j, 'r) worker_place \<Rightarrow> nat" where
  "place_weight Idle = 1"
| "place_weight (Popped _) = 3"
| "place_weight (Finished _ _) = 2"
| "place_weight Stopped = 0"

definition pool_weight :: "('j, 'r, 's) pool \<Rightarrow> nat" where
  "pool_weight p = 3 * length (pl_queue p) + sum_list (map place_weight (pl_workers p))"

lemma place_weight_update:
  "i < length ws \<Longrightarrow> sum_list (map place_weight (ws[i := w])) + place_weight (ws ! i) =
     sum_list (map place_weight ws) + place_weight w"
proof (induction ws arbitrary: i)
  case (Cons v ws)
  then show ?case by (cases i) (auto simp: ac_simps)
qed simp

lemma pool_step_weight: "pool_step work p q \<Longrightarrow> pool_weight q < pool_weight p"
proof (induction rule: pool_step.induct)
  case (pool_pop i p j q)
  then show ?case using place_weight_update [of i "pl_workers p" "Popped j"] by (simp add: pool_weight_def)
next
  case (pool_stop i p)
  then show ?case using place_weight_update [of i "pl_workers p" Stopped] by (simp add: pool_weight_def)
next
  case (pool_work i p j r t)
  then show ?case using place_weight_update [of i "pl_workers p" "Finished j r"] by (simp add: pool_weight_def)
next
  case (pool_send i p j r)
  then show ?case using place_weight_update [of i "pl_workers p" Idle] by (simp add: pool_weight_def)
qed


end
