(* ===== verification/Expire_Command.thy ===== *)
theory Expire_Command
  imports Expire_Archive Label_Date Info_Save Command_Base Parallel
begin

text \<open>
  The \<open>expire\<close> command over a storage (\<open>crates/pgbr-command/src/expire.rs\<close>): loading and saving
  \<open>backup.info\<close>, the removal of backups and WAL, the adhoc paths and \<open>expire_inner\<close>. What it calls
  outside the repository (the storage backend, the two \<open>std::fs\<close> removals of the parallel path, the clock
  and the scheduling of the worker threads) is a record \<open>host\<close>. The log lines are not modelled, nor is the
  lock that \<open>expire\<close> takes around \<open>expire_inner\<close>.
\<close>

section \<open>The host\<close>

record ('s, 'j) host =
  ho_storage :: "'s storage_ops"
  ho_remove_dir_all :: "path \<Rightarrow> ('s, fs_errno, unit) action"
  ho_remove_file :: "path \<Rightarrow> ('s, fs_errno, unit) action"
  ho_order :: "nat \<Rightarrow> nat list"
  ho_arrival :: "nat \<Rightarrow> nat list"
  ho_now :: int
  ho_depth :: nat
  ho_env :: "'j info_env"
  ho_json :: "'j json_api"

text \<open>
  \<open>ho_order n\<close> is the order in which the workers reach \<open>n\<close> jobs and \<open>ho_arrival n\<close> the order in which the
  results arrive, as permutations of the indices; any other list stands for the order of the queue.
  \<open>parallel_exactly_once\<close> shows that every run of the executor is such a pair of orders.
\<close>

section \<open>Parallel removal\<close>

definition remove_job ::
  "string \<Rightarrow> (path \<Rightarrow> ('s, fs_errno, unit) action) \<Rightarrow> string \<times> path \<Rightarrow> ('s, string, unit) action" where
  "remove_job cmd remove job s = (case remove (snd job) s of
       (Inr _, t) \<Rightarrow> (Ok (), t)
     | (Inl e, t) \<Rightarrow>
         if e = ENotFound then (Ok (), t)
         else (Err (cmd @ '' '' @ snd job @ '': '' @ errno_text e), t))"

fun first_failure :: "((string \<times> path) \<times> (string, unit) result) list \<Rightarrow> command_error option" where
  "first_failure [] = None"
| "first_failure ((job, r) # rest) = (case r of
       Inl message \<Rightarrow> Some (CmdOther (''remove '' @ fst job @ '' failed: '' @ message))
     | Inr _ \<Rightarrow> first_failure rest)"

definition parallel_remove ::
  "string \<Rightarrow> (path \<Rightarrow> ('s, fs_errno, unit) action) \<Rightarrow> ('s, 'j) host \<Rightarrow> (string \<times> path) list \<Rightarrow>
   ('s, command_error, unit) action" where
  "parallel_remove cmd remove H jobs = (\<lambda>s.
     if jobs = [] then (Ok (), s)
     else
       let (results, t) = run_jobs (remove_job cmd remove) (permute (ho_order H (length jobs)) jobs) s in
       case first_failure (permute (ho_arrival H (length jobs)) results) of
         Some e \<Rightarrow> (Err e, t)
       | None \<Rightarrow> (Ok (), t))"

definition parallel_remove_dirs :: "('s, 'j) host \<Rightarrow> (string \<times> path) list \<Rightarrow> ('s, command_error, unit) action" where
  "parallel_remove_dirs H = parallel_remove ''remove_dir_all'' (ho_remove_dir_all H) H"

definition parallel_remove_files :: "('s, 'j) host \<Rightarrow> (string \<times> path) list \<Rightarrow> ('s, command_error, unit) action" where
  "parallel_remove_files H = parallel_remove ''remove_file'' (ho_remove_file H) H"

definition resolve_under_root :: "path \<Rightarrow> path \<Rightarrow> path" where
  "resolve_under_root local_root rel = (if is_absolute rel then rel else path_join local_root rel)"

section \<open>backup.info\<close>

record expire_summary =
  es_expired_labels :: "string list"
  es_kept_labels :: "string list"
  es_expired_archive_segments :: "string list"

definition require_stanza :: "loaded_config \<Rightarrow> (command_error, string) result" where
  "require_stanza config = ok_or (MissingOption ''stanza'') (lc_stanza config)"

definition stanza_dir :: "string \<Rightarrow> path" where
  "stanza_dir stanza = ''backup/'' @ stanza"

definition archive_dir :: "string \<Rightarrow> path" where
  "archive_dir stanza = ''archive/'' @ stanza"

definition backup_info_path :: "string \<Rightarrow> path" where
  "backup_info_path stanza = stanza_dir stanza @ ''/backup.info''"

record 'j loaded_backup_info =
  lb_info :: "'j info_backup"
  lb_user_pass :: "string option"
  lb_recorded_sub :: "string option"

definition load_backup_info ::
  "('s, 'j) host \<Rightarrow> loaded_config \<Rightarrow> string \<Rightarrow> ('s, command_error, 'j loaded_backup_info option) action" where
  "load_backup_info H config stanza =
     (let p = backup_info_path stanza in
      act_bind (act_map_err CmdStorage (so_exists (ho_storage H) p)) (\<lambda>present.
        if \<not> present then act_ok None
        else act_bind (act_lift (active_user_pass config)) (\<lambda>user_pass. \<lambda>s.
          case load_keyed (ho_storage H) (ho_env H) (backup_from_file (ho_env H)) p user_pass s of
            (Inr (info, recorded_sub), t) \<Rightarrow>
              (Ok (Some \<lparr>lb_info = info, lb_user_pass = user_pass, lb_recorded_sub = recorded_sub\<rparr>), t)
          | (Inl (IeStorage (NotFound _)), t) \<Rightarrow> (Ok None, t)
          | (Inl e, t) \<Rightarrow> (Err (CmdOther (info_error_display e)), t))))"

definition save_backup_info ::
  "('s, 'j) host \<Rightarrow> string \<Rightarrow> 'j info_backup \<Rightarrow> string option \<Rightarrow> string option \<Rightarrow>
   ('s, command_error, unit) action" where
  "save_backup_info H stanza info user_pass recorded_sub =
     (let p = backup_info_path stanza in
      act_map_err (\<lambda>e. CmdOther (info_error_display e))
        (if user_pass = None
         then info_save (ho_storage H) (ho_env H) (backup_to_file (ho_env H)) info p
         else save_keyed (ho_storage H) (ho_env H) (backup_to_file (ho_env H)) info p user_pass recorded_sub))"

section \<open>Removing backups\<close>

definition drop_labels :: "string list \<Rightarrow> 'j info_backup \<Rightarrow> 'j info_backup" where
  "drop_labels labels info = info\<lparr>ib_current := fold bt_remove labels (ib_current info)\<rparr>"

definition backup_dir :: "string \<Rightarrow> string \<Rightarrow> path" where
  "backup_dir stanza label = stanza_dir stanza @ ''/'' @ label"

definition remove_backup_dir :: "'s storage_ops \<Rightarrow> path \<Rightarrow> ('s, command_error, unit) action" where
  "remove_backup_dir ops p = act_map_err CmdStorage (act_ignore_missing (so_remove_path ops p True False))"

definition remove_backups ::
  "('s, 'j) host \<Rightarrow> loaded_config \<Rightarrow> string \<Rightarrow> 'j info_backup \<Rightarrow> string list \<Rightarrow> bool \<Rightarrow> string option \<Rightarrow>
   string option \<Rightarrow> ('s, command_error, 'j info_backup) action" where
  "remove_backups H config stanza info labels dry_run user_pass recorded_sub =
     (let workers = process_max config;
          repo_index = active_repo_index config;
          ops = ho_storage H;
          info' = drop_labels labels info in
      if dry_run then act_ok info'
      else if labels = [] then act_ok info
      else
        act_bind
          (case (if so_is_local ops \<and> 1 < workers then local_repo_root config repo_index else None) of
             Some local_root \<Rightarrow>
               parallel_remove_dirs H
                 (map (\<lambda>label. (label, resolve_under_root local_root (backup_dir stanza label))) labels)
           | None \<Rightarrow> act_for (\<lambda>label. remove_backup_dir ops (backup_dir stanza label)) labels) (\<lambda>_.
        act_bind (save_backup_info H stanza info' user_pass recorded_sub) (\<lambda>_.
        act_ok info')))"

section \<open>Listing and removing WAL files\<close>

text \<open>\<open>entry.path.file_name().and_then(|n| n.to_str())\<close>\<close>

definition entry_name :: "storage_info \<Rightarrow> string option" where
  "entry_name entry = (case file_name (si_path entry) of
       Some n \<Rightarrow> if utf8_valid n then Some n else None
     | None \<Rightarrow> None)"

text \<open>
  \<open>collect_files\<close> recurses into directories; \<open>depth\<close> bounds the nesting. Every directory nested deeper
  than that is reported as an error; \<open>collect_files_terminates\<close> shows that two more than the number of
  entries of a local repository is a sufficient bound.
\<close>

definition too_deep :: command_error where
  "too_deep = CmdOther ''directories nested too deep''"

fun collect_entries ::
  "(path \<Rightarrow> ('s, command_error, path list) action) \<Rightarrow> path \<Rightarrow> storage_info list \<Rightarrow>
   ('s, command_error, path list) action" where
  "collect_entries rec dir [] = act_ok []"
| "collect_entries rec dir (entry # rest) = (case entry_name entry of
       None \<Rightarrow> collect_entries rec dir rest
     | Some name \<Rightarrow>
         let child = path_join dir name in
         (case si_kind entry of
            KFile \<Rightarrow> act_bind (collect_entries rec dir rest) (\<lambda>out. act_ok (child # out))
          | KPath \<Rightarrow> act_bind (rec child) (\<lambda>below.
              act_bind (collect_entries rec dir rest) (\<lambda>out. act_ok (below @ out)))
          | _ \<Rightarrow> collect_entries rec dir rest))"

fun collect_files :: "'s storage_ops \<Rightarrow> nat \<Rightarrow> path \<Rightarrow> ('s, command_error, path list) action" where
  "collect_files ops 0 dir = act_err too_deep"
| "collect_files ops (Suc depth) dir = (\<lambda>s. case so_list ops dir s of
       (Inl (NotFound _), t) \<Rightarrow> (Ok [], t)
     | (Inl e, t) \<Rightarrow> (Err (CmdStorage e), t)
     | (Inr entries, t) \<Rightarrow> collect_entries (collect_files ops depth) dir entries t)"

definition remove_leaf :: "'s storage_ops \<Rightarrow> path \<Rightarrow> bool \<Rightarrow> ('s, command_error, unit) action" where
  "remove_leaf ops p dry_run =
     (if dry_run then act_ok ()
      else act_map_err CmdStorage (act_ignore_missing (so_remove ops p False)))"

definition leaf_victim :: "archive_id_plan \<Rightarrow> path \<Rightarrow> (path \<times> string) option" where
  "leaf_victim plan leaf = (case file_name leaf of
       None \<Rightarrow> None
     | Some name \<Rightarrow>
         if \<not> utf8_valid name then None
         else map_option (\<lambda>base. (leaf, base)) (wal_victim plan name))"

definition remove_wal_under ::
  "('s, 'j) host \<Rightarrow> path \<Rightarrow> archive_id_plan \<Rightarrow> bool \<Rightarrow> nat \<Rightarrow> path option \<Rightarrow>
   ('s, command_error, string list) action" where
  "remove_wal_under H id_dir plan dry_run workers local_root =
     act_bind (collect_files (ho_storage H) (ho_depth H) id_dir) (\<lambda>leaves.
       let victims = List.map_filter (leaf_victim plan) leaves;
           bases = map snd victims in
       if victims = [] then act_ok []
       else if dry_run then act_ok bases
       else act_bind
         (case (if 1 < workers then local_root else None) of
            Some root \<Rightarrow> parallel_remove_files H
              (map (\<lambda>(leaf, base). (base, resolve_under_root root leaf)) victims)
          | None \<Rightarrow> act_for (\<lambda>(leaf, base). remove_leaf (ho_storage H) leaf dry_run) victims) (\<lambda>_.
         act_ok bases))"

definition expire_flat_layout ::
  "('s, 'j) host \<Rightarrow> path \<Rightarrow> string list \<Rightarrow> nat \<Rightarrow> 'j list \<Rightarrow> bool \<Rightarrow> nat \<Rightarrow> path option \<Rightarrow>
   ('s, command_error, string list) action" where
  "expire_flat_layout H archive_root loose_files keep_archive anchors dry_run workers local_root =
     (if loose_files = [] then act_ok []
      else (case flat_cutoff (ho_json H) keep_archive anchors of
          None \<Rightarrow> act_ok []
        | Some cutoff \<Rightarrow>
            let to_remove = flat_victims loose_files cutoff;
                bases = map strip_compress_suffix to_remove in
            if to_remove = [] then act_ok []
            else if dry_run then act_ok bases
            else act_bind
              (case (if 1 < workers then local_root else None) of
                 Some root \<Rightarrow> parallel_remove_files H
                   (map (\<lambda>f. (strip_compress_suffix f, resolve_under_root root (path_join archive_root f)))
                      to_remove)
               | None \<Rightarrow> act_for (\<lambda>f. act_map_err CmdStorage
                   (act_ignore_missing (so_remove (ho_storage H) (path_join archive_root f) False))) to_remove)
              (\<lambda>_. act_ok bases)))"

section \<open>The archive pass\<close>

definition mark_archive_ids ::
  "(nat, db_history_entry) btree \<Rightarrow> nat \<Rightarrow> (string \<times> bool) list \<times> version_by_id" where
  "mark_archive_ids history current_id =
     (sort_by (\<lambda>a b. fst a \<le> fst b)
        (map (\<lambda>(db_id, entry). (dh_db_version entry @ ''-'' @ fmt_dec db_id, db_id = current_id)) history),
      fold (\<lambda>(db_id, entry). bt_insert db_id (dh_db_version entry)) history [])"

definition load_archive_ids ::
  "('s, 'j) host \<Rightarrow> string \<Rightarrow> 'j info_backup \<Rightarrow> string option \<Rightarrow>
   ('s, command_error, (string \<times> bool) list \<times> version_by_id) action" where
  "load_archive_ids H stanza backup_info user_pass =
     (let p = archive_dir stanza @ ''/archive.info'';
          fallback = mark_archive_ids (ib_history backup_info) (ib_db_id backup_info) in
      act_bind (act_map_err CmdStorage (so_exists (ho_storage H) p)) (\<lambda>present.
        if \<not> present then act_ok fallback
        else (\<lambda>s. case load_keyed (ho_storage H) (ho_env H) (archive_from_file (ho_env H)) p user_pass s of
            (Inr (info, _), t) \<Rightarrow> (Ok (mark_archive_ids (iar_history info) (iar_db_id info)), t)
          | (Inl _, t) \<Rightarrow> (Ok fallback, t))))"

definition archive_id_dirs :: "storage_info list \<Rightarrow> string list" where
  "archive_id_dirs entries = List.map_filter (\<lambda>e. case entry_name e of
       None \<Rightarrow> None
     | Some name \<Rightarrow>
         if name = ''archive.info'' \<or> name = ''archive.info.copy'' then None
         else if si_kind e = KPath \<and> is_archive_id name then Some name else None) entries"

definition loose_wal_files :: "storage_info list \<Rightarrow> string list" where
  "loose_wal_files entries = List.map_filter (\<lambda>e. case entry_name e of
       None \<Rightarrow> None
     | Some name \<Rightarrow>
         if name = ''archive.info'' \<or> name = ''archive.info.copy'' then None
         else if si_kind e = KFile then Some name else None) entries"

text \<open>The archive-ids on disk, each with its mark; those the history does not know are not current.\<close>

definition ids_on_disk :: "(string \<times> bool) list \<Rightarrow> string list \<Rightarrow> (string \<times> bool) list" where
  "ids_on_disk history_ids dirs =
     (let known = filter (\<lambda>(aid, _). aid \<in> set dirs) history_ids in
      sort_by (\<lambda>a b. fst a \<le> fst b)
        (known @ map (\<lambda>d. (d, False)) (filter (\<lambda>d. d \<notin> fst ` set known) dirs)))"

fun run_plans ::
  "('s, 'j) host \<Rightarrow> path \<Rightarrow> bool \<Rightarrow> nat \<Rightarrow> path option \<Rightarrow> archive_id_plan list \<Rightarrow>
   ('s, command_error, string list) action" where
  "run_plans H archive_root dry_run workers local_root [] = act_ok []"
| "run_plans H archive_root dry_run workers local_root (plan # rest) =
     (let id_dir = path_join archive_root (ap_archive_id plan) in
      act_bind
        (if ap_drop_all plan
         then if dry_run then act_ok []
              else act_bind (remove_backup_dir (ho_storage H) id_dir) (\<lambda>_. act_ok [])
         else if ap_skip_expiry plan then act_ok []
         else remove_wal_under H id_dir plan dry_run workers local_root) (\<lambda>removed.
      act_bind (run_plans H archive_root dry_run workers local_root rest) (\<lambda>more.
        act_ok (removed @ more))))"

definition expire_archive ::
  "('s, 'j) host \<Rightarrow> loaded_config \<Rightarrow> string \<Rightarrow> nat \<Rightarrow> archive_retention_type \<Rightarrow> 'j list \<Rightarrow> 'j info_backup \<Rightarrow>
   bool \<Rightarrow> string option \<Rightarrow> ('s, command_error, string list) action" where
  "expire_archive H config stanza keep_archive retention_type anchors info dry_run user_pass =
     (let workers = process_max config;
          repo_index = active_repo_index config;
          local_root = (if so_is_local (ho_storage H) \<and> 1 < workers
             then local_repo_root config repo_index else None);
          archive_root = archive_dir stanza in
      (\<lambda>s. case so_list (ho_storage H) archive_root s of
         (Inl (NotFound _), t) \<Rightarrow> (Ok [], t)
       | (Inl e, t) \<Rightarrow> (Err (CmdStorage e), t)
       | (Inr root_entries, t) \<Rightarrow>
           act_bind
             (if archive_id_dirs root_entries = [] then act_ok []
              else act_bind (load_archive_ids H stanza info user_pass) (\<lambda>(history_ids, version_by_id).
                let backups = backups_for_archive (ho_json H) (ib_current info) version_by_id;
                    ids = ids_on_disk history_ids (archive_id_dirs root_entries) in
                run_plans H archive_root dry_run workers local_root
                  (compute_archive_plan backups ids retention_type keep_archive))) (\<lambda>removed.
           act_bind (expire_flat_layout H archive_root (loose_wal_files root_entries) keep_archive anchors
               dry_run workers local_root) (\<lambda>more.
             act_ok (bs_of (removed @ more)))) t))"

section \<open>The command\<close>

text \<open>The optional archive pass at the end of every path.\<close>

definition archive_pass ::
  "('s, 'j) host \<Rightarrow> loaded_config \<Rightarrow> string \<Rightarrow> archive_retention_type \<Rightarrow> string list \<Rightarrow> 'j info_backup \<Rightarrow>
   bool \<Rightarrow> string option \<Rightarrow> ('s, command_error, string list) action" where
  "archive_pass H config stanza archive_type kept_labels info dry_run user_pass =
     (let anchors = anchor_backups_oldest_first (ho_json H) (ib_current info) kept_labels archive_type in
      act_bind (act_lift (retention_archive config (active_repo_index config))) (\<lambda>keep.
        case keep of
          None \<Rightarrow> act_ok []
        | Some keep_archive \<Rightarrow>
            expire_archive H config stanza keep_archive archive_type anchors info dry_run user_pass))"

definition archive_expire_tail ::
  "('s, 'j) host \<Rightarrow> loaded_config \<Rightarrow> string \<Rightarrow> 'j info_backup \<Rightarrow> bool \<Rightarrow> string option \<Rightarrow>
   ('s, command_error, string list) action" where
  "archive_expire_tail H config stanza info dry_run user_pass =
     archive_pass H config stanza (retention_archive_type config (active_repo_index config))
       (bt_keys (ib_current info)) info dry_run user_pass"

text \<open>Both adhoc paths end alike.\<close>

definition expire_adhoc ::
  "('s, 'j) host \<Rightarrow> loaded_config \<Rightarrow> string \<Rightarrow> 'j info_backup \<Rightarrow> string list \<Rightarrow> bool \<Rightarrow> string option \<Rightarrow>
   string option \<Rightarrow> ('s, command_error, expire_summary) action" where
  "expire_adhoc H config stanza info expire dry_run user_pass recorded_sub =
     (let kept_labels = filter (\<lambda>l. l \<notin> set expire) (bt_keys (ib_current info)) in
      act_bind (remove_backups H config stanza info expire dry_run user_pass recorded_sub) (\<lambda>info'.
      act_bind (archive_expire_tail H config stanza info' dry_run user_pass) (\<lambda>segments.
        act_ok \<lparr>es_expired_labels = expire, es_kept_labels = kept_labels,
          es_expired_archive_segments = segments\<rparr>)))"

definition expire_adhoc_set ::
  "('s, 'j) host \<Rightarrow> loaded_config \<Rightarrow> string \<Rightarrow> 'j info_backup \<Rightarrow> string \<Rightarrow> bool \<Rightarrow> string option \<Rightarrow>
   string option \<Rightarrow> ('s, command_error, expire_summary) action" where
  "expire_adhoc_set H config stanza info set_label dry_run user_pass recorded_sub =
     (let J = ho_json H; quote = [CHR 0x27] in
      case bt_get (ib_current info) set_label of
        None \<Rightarrow> act_err (CmdOther (''backup set '' @ quote @ set_label @ quote @
          '' to expire does not exist in stanza '' @ quote @ stanza @ quote))
      | Some target \<Rightarrow>
          let ttype = backup_type J target in
          if ttype \<noteq> ''full'' \<and> ttype \<noteq> ''diff''
          then act_err (CmdOther (''backup set '' @ quote @ set_label @ quote @ '' is type '' @ quote @ ttype @
            quote @ ''; --set expiry requires a full or diff backup''))
          else
            let expire = dependent_closure J (ib_current info) [set_label] in
            if remaining_full_count J (ib_current info) expire = 0
            then act_err (CmdOther (''backup set '' @ quote @ set_label @ quote @
              '' cannot be expired: at least one full backup must remain''))
            else expire_adhoc H config stanza info expire dry_run user_pass recorded_sub)"

text \<open>\<open>min_by\<close> keeps the first of equal elements.\<close>

definition oldest_full :: "'j json_api \<Rightarrow> (string, 'j) btree \<Rightarrow> string option" where
  "oldest_full J current = (case filter (is_type J ''full'') current of
       [] \<Rightarrow> None
     | e # es \<Rightarrow> Some (fst (fold (\<lambda>x m. if entry_le J m x then m else x) es e)))"

definition expire_adhoc_oldest ::
  "('s, 'j) host \<Rightarrow> loaded_config \<Rightarrow> string \<Rightarrow> 'j info_backup \<Rightarrow> bool \<Rightarrow> string option \<Rightarrow>
   string option \<Rightarrow> ('s, command_error, expire_summary) action" where
  "expire_adhoc_oldest H config stanza info dry_run user_pass recorded_sub =
     (let J = ho_json H in
      case oldest_full J (ib_current info) of
        None \<Rightarrow> act_ok \<lparr>es_expired_labels = [], es_kept_labels = bt_keys (ib_current info),
          es_expired_archive_segments = []\<rparr>
      | Some label \<Rightarrow>
          if length (filter (is_type J ''full'') (ib_current info)) \<le> 1
          then act_err (CmdOther
            ''--oldest: refusing to expire the only full backup (at least one must remain)'')
          else
            expire_adhoc H config stanza info (dependent_closure J (ib_current info) [label])
              dry_run user_pass recorded_sub)"

definition expire_keep_all_backups ::
  "('s, 'j) host \<Rightarrow> loaded_config \<Rightarrow> string \<Rightarrow> 'j info_backup \<Rightarrow> archive_retention_type \<Rightarrow> bool \<Rightarrow>
   string option \<Rightarrow> ('s, command_error, expire_summary) action" where
  "expire_keep_all_backups H config stanza info archive_type dry_run user_pass =
     (let kept_labels = bt_keys (ib_current info) in
      act_bind (archive_pass H config stanza archive_type kept_labels info dry_run user_pass) (\<lambda>segments.
        act_ok \<lparr>es_expired_labels = [], es_kept_labels = kept_labels,
          es_expired_archive_segments = segments\<rparr>))"

definition history_victim :: "int \<Rightarrow> path \<Rightarrow> bool" where
  "history_victim cutoff p =
     (let leaf = (case file_name p of Some n \<Rightarrow> if utf8_valid n then n else [] | None \<Rightarrow> []) in
      case label_date_epoch leaf of None \<Rightarrow> False | Some label_ts \<Rightarrow> label_ts < cutoff)"

definition expire_history :: "('s, 'j) host \<Rightarrow> string \<Rightarrow> nat \<Rightarrow> ('s, command_error, unit) action" where
  "expire_history H stanza keep_days =
     (let history_root = stanza_dir stanza @ ''/backup.history'';
          cutoff = ho_now H - int keep_days * 86400 in
      act_bind (collect_files (ho_storage H) (ho_depth H) history_root) (\<lambda>files.
        act_for (\<lambda>p. act_map_err CmdStorage (act_ignore_missing (so_remove (ho_storage H) p False)))
          (filter (history_victim cutoff) files)))"

text \<open>The retention path of \<open>expire_inner\<close>.\<close>

definition expire_retention ::
  "('s, 'j) host \<Rightarrow> loaded_config \<Rightarrow> string \<Rightarrow> 'j info_backup \<Rightarrow> nat \<Rightarrow> archive_retention_type \<Rightarrow> bool \<Rightarrow>
   string option \<Rightarrow> string option \<Rightarrow> ('s, command_error, expire_summary) action" where
  "expire_retention H config stanza info keep_full archive_type dry_run user_pass recorded_sub =
     (let J = ho_json H;
          repo_index = active_repo_index config;
          entries = sort_entries J (ib_current info) in
      act_bind (act_lift (retention_diff config repo_index)) (\<lambda>keep_diff.
      let keep_label = retention_keep J entries keep_full (retention_full_type config repo_index) keep_diff (ho_now H);
          expired_labels = map fst (selected (map Not keep_label) entries);
          kept_labels = map fst (selected keep_label entries) in
      act_bind (remove_backups H config stanza info expired_labels dry_run user_pass recorded_sub) (\<lambda>info'.
      act_bind (archive_pass H config stanza archive_type kept_labels info' dry_run user_pass) (\<lambda>segments.
      act_bind (act_lift (retention_history config repo_index)) (\<lambda>keep_history.
      act_bind (case keep_history of
          Some keep_days \<Rightarrow> if dry_run then act_ok () else expire_history H stanza keep_days
        | None \<Rightarrow> act_ok ()) (\<lambda>_.
        act_ok \<lparr>es_expired_labels = expired_labels, es_kept_labels = kept_labels,
          es_expired_archive_segments = segments\<rparr>))))))"

definition expire_inner :: "('s, 'j) host \<Rightarrow> loaded_config \<Rightarrow> ('s, command_error, expire_summary) action" where
  "expire_inner H config =
     act_bind (act_lift (require_stanza config)) (\<lambda>stanza.
     act_bind (load_backup_info H config stanza) (\<lambda>loaded.
       case loaded of
         None \<Rightarrow> act_ok \<lparr>es_expired_labels = [], es_kept_labels = [], es_expired_archive_segments = []\<rparr>
       | Some l \<Rightarrow>
           let info = lb_info l; user_pass = lb_user_pass l; recorded_sub = lb_recorded_sub l;
               dry_run = dry_run_option config in
           (case set_option config of
              Some label \<Rightarrow> expire_adhoc_set H config stanza info label dry_run user_pass recorded_sub
            | None \<Rightarrow>
                if oldest_option config
                then expire_adhoc_oldest H config stanza info dry_run user_pass recorded_sub
                else
                  let repo_index = active_repo_index config;
                      archive_type = retention_archive_type config repo_index in
                  act_bind (act_lift (retention_full config repo_index)) (\<lambda>keep.
                    case keep of
                      None \<Rightarrow> expire_keep_all_backups H config stanza info archive_type dry_run user_pass
                    | Some keep_full \<Rightarrow>
                        expire_retention H config stanza info keep_full archive_type dry_run user_pass
                          recorded_sub))))"

end
