(* ===== verification/Expire_Safety.thy ===== *)
theory Expire_Safety
  imports Expire_Command
begin

text \<open>
  What the \<open>expire\<close> command may touch. The host is any storage that meets the contract of \<open>Storage\<close>
  and whose direct removals act on the same tree; the facts are proved once over it and instantiated on
  the local backend at the end.
\<close>

section \<open>Binding with what the first computation returned\<close>

lemma act_keeps_bind_if:
  assumes "transp R" "act_keeps R m" "\<And>s x t. m s = (Inr x, t) \<Longrightarrow> act_keeps R (f x)"
  shows "act_keeps R (act_bind m f)"
proof
  fix s
  obtain r t where m: "m s = (r, t)" by (cases "m s")
  with assms(2) have st: "R s t" by (metis act_keepsD snd_conv)
  show "R s (snd (act_bind m f s))"
  proof (cases r)
    case (Inl e)
    with m st show ?thesis by (simp add: act_bind_def)
  next
    case (Inr x)
    with m have "act_bind m f s = f x t" by (simp add: act_bind_def)
    moreover have "R t (snd (f x t))" using assms(3) m Inr by (metis act_keepsD)
    ultimately show ?thesis using assms(1) st by (metis transpD)
  qed
qed

lemma act_keeps_run_jobs:
  assumes "reflp R" "transp R" "\<And>j s. j \<in> set js \<Longrightarrow> R s (snd (work j s))"
  shows "R s (snd (run_jobs work js s))"
  using assms(3)
proof (induction js arbitrary: s)
  case Nil
  then show ?case using assms(1) by (simp add: reflpD)
next
  case (Cons j js)
  obtain r t where w: "work j s = (r, t)" by (cases "work j s")
  have "R s t" using Cons.prems [of j s] w by simp
  moreover have "R t (snd (run_jobs work js t))" using Cons by simp
  ultimately show ?case using assms(2) w by (auto split: prod.splits dest: transpD)
qed

lemma file_name_plain:
  assumes "file_name p = Some n"
  shows "CHR ''/'' \<notin> set n" "n \<noteq> []" "n \<noteq> ''.''" "n \<noteq> ''..''" "components n = [n]" "\<not> is_absolute n"
proof -
  have n: "n \<in> set (components p)" "n \<noteq> ''..''"
    using assms by (auto simp: file_name_def split: list.splits if_splits)
  then show "n \<noteq> []" "n \<noteq> ''.''" "n \<noteq> ''..''" by (auto simp: components_def)
  have "CHR ''/'' \<notin> set x" if "x \<in> set (split_on (CHR ''/'') q)" for x q
    using that by (induction q arbitrary: x) (auto split: list.splits if_splits)
  then show slash: "CHR ''/'' \<notin> set n" using n(1) by (auto simp: components_def)
  then show "components n = [n]" using components_single [of n] \<open>n \<noteq> []\<close> \<open>n \<noteq> ''.''\<close> by simp
  show "\<not> is_absolute n"
    using slash \<open>n \<noteq> []\<close> by (cases n) (auto simp: is_absolute_def starts_with_def)
qed

lemma entry_name_plain: "entry_name e = Some n \<Longrightarrow> components n = [n] \<and> \<not> is_absolute n"
  using file_name_plain(5,6) by (auto simp: entry_name_def split: option.splits if_splits)

section \<open>Places below a stanza\<close>

text \<open>The four files of the info and its mirror, and their temporary siblings.\<close>

definition info_names :: "string list" where
  "info_names = [''backup.info'', ''backup.info.copy'', ''backup.info.tmp'', ''backup.info.copy.tmp'']"

text \<open>A label that names a directory of its own below the stanza.\<close>

definition plain_label :: "string \<Rightarrow> bool" where
  "plain_label label = (components label = [label] \<and> label \<notin> set info_names)"

section \<open>The contract of the host\<close>

locale expire_host = storage "ho_storage H" key view healthy
  for H :: "('s, 'j) host" and key view healthy +
  fixes root :: path
  assumes key_root: "key p = components (resolve_under_root root p)"
    and dirs_frame: "\<not> prefix (components p) k \<Longrightarrow> view (snd (ho_remove_dir_all H p s)) k = view s k"
    and dirs_only: "view (snd (ho_remove_dir_all H p s)) k \<in> {None, view s k}"
    and dirs_gone: "fst (ho_remove_dir_all H p s) \<in> {Ok (), Err ENotFound} \<Longrightarrow> prefix (components p) k \<Longrightarrow>
          view (snd (ho_remove_dir_all H p s)) k = None"
    and files_frame: "k \<noteq> components p \<Longrightarrow> view (snd (ho_remove_file H p s)) k = view s k"
    and missing_gone: "so_remove_path (ho_storage H) p True False s = (Err (NotFound q), t) \<Longrightarrow>
          prefix (key p) k \<Longrightarrow> view t k = None"
begin

lemma key_join: "\<not> is_absolute b \<Longrightarrow> key (path_join a b) = key a @ components b"
proof -
  assume b: "\<not> is_absolute b"
  show ?thesis
  proof (cases "is_absolute (path_join a b)")
    case True
    then have "is_absolute a"
      using b by (cases a) (auto simp: path_join_def is_absolute_def starts_with_def split: if_splits)
    then show ?thesis using True b components_join by (simp add: key_root resolve_under_root_def)
  next
    case False
    then have "\<not> is_absolute a"
      using b by (cases a) (auto simp: path_join_def is_absolute_def starts_with_def split: if_splits)
    then show ?thesis using False b components_join by (simp add: key_root resolve_under_root_def)
  qed
qed

lemma key_slash: "a \<noteq> [] \<Longrightarrow> \<not> is_absolute a \<Longrightarrow> key (a @ ''/'' @ b) = key a @ components b"
proof -
  assume "a \<noteq> []" "\<not> is_absolute a"
  then have "\<not> is_absolute (a @ ''/'' @ b)" by (cases a) (auto simp: is_absolute_def starts_with_def)
  then show ?thesis
    using \<open>\<not> is_absolute a\<close> components_join [of _ root] components_slash [of a b]
    by (simp add: key_root resolve_under_root_def)
qed

lemma key_child: "entry_name e = Some n \<Longrightarrow> key (path_join dir n) = key dir @ [n]"
  using entry_name_plain key_join by metis

lemma untouched_kept [simp]:
  "act_keeps (untouched K) (act_ok x)" "act_keeps (untouched K) (act_err e)" "act_keeps (untouched K) (act_lift r)"
  by (simp_all)

lemmas keeps_bind = act_keeps_bind [OF untouched_trans]
lemmas keeps_bind_if = act_keeps_bind_if [OF untouched_trans]
lemmas keeps_for = act_keeps_for [OF untouched_refl untouched_trans]

lemma keeps_read_and_decode: "act_keeps (untouched K) (read_and_decode (ho_storage H) p f)"
  unfolding read_and_decode_def by (intro keeps_bind) simp_all

lemma keeps_load_keyed: "act_keeps (untouched K) (load_keyed (ho_storage H) E ff p pass)"
proof
  fix s
  let ?d = "\<lambda>b. from_bytes_keyed E ff b pass"
  obtain r t where r: "read_and_decode (ho_storage H) p ?d s = (r, t)"
    by (cases "read_and_decode (ho_storage H) p ?d s")
  obtain q u where q: "read_and_decode (ho_storage H) (copy_path p) ?d t = (q, u)"
    by (cases "read_and_decode (ho_storage H) (copy_path p) ?d t")
  have "untouched K s t" "untouched K t u"
    using keeps_read_and_decode [THEN act_keepsD] r q by (metis snd_conv)+
  then show "untouched K s (snd (load_keyed (ho_storage H) E ff p pass s))"
    using r q by (cases r; cases q) (auto simp: load_keyed_def untouched_def)
qed

lemma keeps_collect_entries:
  "(\<And>d. act_keeps (untouched K) (rec d)) \<Longrightarrow> act_keeps (untouched K) (collect_entries rec dir es)"
  by (induction es) (auto simp: Let_def split: option.splits storage_kind.splits intro!: keeps_bind)

lemma keeps_collect: "act_keeps (untouched K) (collect_files (ho_storage H) depth dir)"
proof (induction depth arbitrary: dir)
  case (Suc depth)
  show ?case
  proof
    fix s
    obtain r t where l: "so_list (ho_storage H) dir s = (r, t)" by (cases "so_list (ho_storage H) dir s")
    then have st: "untouched K s t" using untouched_reads(2) [THEN act_keepsD] by (metis snd_conv)
    have "untouched K t (snd (collect_entries (collect_files (ho_storage H) depth) dir es t))" for es
      using keeps_collect_entries [OF Suc] by (rule act_keepsD)
    then show "untouched K s (snd (collect_files (ho_storage H) (Suc depth) dir s))"
      using st l by (cases r) (auto simp: untouched_def split: storage_error.splits)
  qed
qed simp

text \<open>Collected files lie below the directory.\<close>

lemma collect_entries_under:
  assumes "\<And>d s files t f. rec d s = (Ok files, t) \<Longrightarrow> f \<in> set files \<Longrightarrow> strict_prefix (key d) (key f)"
    and "collect_entries rec dir es s = (Ok files, t)" "f \<in> set files"
  shows "strict_prefix (key dir) (key f)"
  using assms(2,3)
proof (induction es arbitrary: s files t)
  case (Cons e es)
  show ?case
  proof (cases "entry_name e")
    case None
    then show ?thesis using Cons by simp
  next
    case (Some n)
    have child: "key (path_join dir n) = key dir @ [n]" using Some by (rule key_child)
    show ?thesis
    proof (cases "si_kind e")
      case KFile
      then obtain out u where "collect_entries rec dir es s = (Ok out, u)" "files = path_join dir n # out"
        using Cons.prems(1) Some by (auto simp: Let_def act_bind_Inr_iff act_ok_def)
      then have "f = path_join dir n \<or> f \<in> set out" using Cons.prems(2) by simp
      then show ?thesis
      proof
        assume "f = path_join dir n"
        then show ?thesis using child by (simp add: strict_prefix_def)
      next
        assume "f \<in> set out"
        with \<open>collect_entries rec dir es s = (Ok out, u)\<close> show ?thesis by (rule Cons.IH)
      qed
    next
      case KPath
      then obtain below v out u where "rec (path_join dir n) s = (Ok below, v)"
          "collect_entries rec dir es v = (Ok out, u)" "files = below @ out"
        using Cons.prems(1) Some by (auto simp: Let_def act_bind_Inr_iff act_ok_def)
      moreover have "strict_prefix (key dir) (key dir @ [n])" by (simp add: strict_prefix_def)
      ultimately show ?thesis
        using Cons.IH [of v out u] Cons.prems(2) assms(1) [of "path_join dir n" s below v f] child
        by (metis prefix_order.less_trans Un_iff set_append)
    qed (use Cons Some in \<open>auto simp: Let_def\<close>)
  qed
qed (simp add: act_ok_def)

lemma collect_under:
  "collect_files (ho_storage H) depth dir s = (Ok files, t) \<Longrightarrow> f \<in> set files \<Longrightarrow> strict_prefix (key dir) (key f)"
proof (induction depth arbitrary: dir s files t f)
  case (Suc depth)
  obtain r u where l: "so_list (ho_storage H) dir s = (r, u)" by (cases "so_list (ho_storage H) dir s")
  show ?case
  proof (cases r)
    case (Inl e)
    then show ?thesis using Suc.prems l by (auto split: storage_error.splits)
  next
    case (Inr es)
    then have run: "collect_entries (collect_files (ho_storage H) depth) dir es u = (Ok files, t)"
      using Suc.prems l by simp
    show ?thesis
      by (rule collect_entries_under [of "collect_files (ho_storage H) depth", OF _ run Suc.prems(2)])
        (rule Suc.IH)
  qed
qed (simp add: act_err_def)

section \<open>Removals\<close>

lemma snd_remove_job: "snd (remove_job cmd remove j s) = snd (remove (snd j) s)"
  by (cases "remove (snd j) s") (auto simp: remove_job_def split: sum.splits)

lemma keeps_parallel:
  assumes "\<And>j. j \<in> set jobs \<Longrightarrow> act_keeps (untouched K) (remove (snd j))"
  shows "act_keeps (untouched K) (parallel_remove cmd remove H jobs)"
proof
  fix s
  let ?order = "permute (ho_order H (length jobs)) jobs"
  have order: "set ?order = set jobs" by (rule set_permute)
  have "untouched K u (snd (remove_job cmd remove j u))" if "j \<in> set ?order" for j u
    using assms [THEN act_keepsD, of j u] that unfolding order snd_remove_job .
  then have "untouched K s (snd (run_jobs (remove_job cmd remove) ?order s))"
    by (rule act_keeps_run_jobs [OF untouched_refl untouched_trans])
  moreover obtain rs t where run: "run_jobs (remove_job cmd remove) ?order s = (rs, t)"
    by (cases "run_jobs (remove_job cmd remove) ?order s")
  ultimately have "untouched K s t" by simp
  moreover have "snd (parallel_remove cmd remove H jobs s) = t" if "jobs \<noteq> []"
    unfolding parallel_remove_def using that
    by (simp only: if_False Let_def run prod.case) (simp split: option.splits)
  moreover have "snd (parallel_remove cmd remove H [] s) = s" by (simp add: parallel_remove_def)
  moreover have "untouched K s s" by (simp add: untouched_def)
  ultimately show "untouched K s (snd (parallel_remove cmd remove H jobs s))"
    by (cases "jobs = []") (simp_all only: not_False_eq_True)
qed

lemma keeps_remove_dir_all: "{k. prefix (components p) k} \<subseteq> K \<Longrightarrow> act_keeps (untouched K) (ho_remove_dir_all H p)"
  unfolding act_keeps_def untouched_def by (metis dirs_frame mem_Collect_eq subsetD)

lemma keeps_remove_file: "components p \<in> K \<Longrightarrow> act_keeps (untouched K) (ho_remove_file H p)"
  unfolding act_keeps_def untouched_def by (metis files_frame)

lemma keeps_remove_backup_dir:
  "{k. prefix (key p) k} \<subseteq> K \<Longrightarrow> act_keeps (untouched K) (remove_backup_dir (ho_storage H) p)"
  unfolding remove_backup_dir_def by (simp add: untouched_remove_path)

lemma keeps_remove_leaf:
  "dry_run \<or> key p \<in> K \<Longrightarrow> act_keeps (untouched K) (remove_leaf (ho_storage H) p dry_run)"
  unfolding remove_leaf_def by (auto simp: untouched_remove)

text \<open>The direct removals act on the same places when the root is the repository's.\<close>

definition root_ok :: "path option \<Rightarrow> bool" where
  "root_ok local_root = pred_option (\<lambda>r. \<forall>p. components (resolve_under_root r p) = key p) local_root"

lemma keeps_remove_wal_under:
  assumes "dry_run \<or> {k. prefix (key id_dir) k} \<subseteq> K" "root_ok local_root"
  shows "act_keeps (untouched K) (remove_wal_under H id_dir plan dry_run workers local_root)"
  unfolding remove_wal_under_def Let_def
proof (rule keeps_bind_if [OF keeps_collect])
  fix s leaves t
  assume "collect_files (ho_storage H) (ho_depth H) id_dir s = (Ok leaves, t)"
  then have under: "prefix (key id_dir) (key leaf)" if "leaf \<in> set leaves" for leaf
    using collect_under that by (metis strict_prefix_def)
  let ?victims = "List.map_filter (leaf_victim plan) leaves"
  have victim: "fst v \<in> set leaves" if "v \<in> set ?victims" for v
    using that by (auto simp: set_map_filter leaf_victim_def split: option.splits if_splits)
  have inK: "dry_run \<or> key (fst v) \<in> K" if "v \<in> set ?victims" for v
    using victim [OF that] under assms(1) by auto
  have "act_keeps (untouched K) (case (if 1 < workers then local_root else None) of
      Some root \<Rightarrow> parallel_remove_files H (map (\<lambda>(leaf, base). (base, resolve_under_root root leaf)) ?victims)
    | None \<Rightarrow> act_for (\<lambda>(leaf, base). remove_leaf (ho_storage H) leaf dry_run) ?victims)" if "\<not> dry_run"
  proof (cases "if 1 < workers then local_root else None")
    case None
    have "key (fst v) \<in> K" if "v \<in> set ?victims" for v using inK that \<open>\<not> dry_run\<close> by blast
    then show ?thesis
      unfolding None option.case by (intro keeps_for) (auto intro!: keeps_remove_leaf simp: case_prod_beta)
  next
    case (Some r)
    then have "components (resolve_under_root r p) = key p" for p
      using assms(2) by (auto simp: root_ok_def split: if_splits)
    then show ?thesis
      using inK that unfolding Some option.case parallel_remove_files_def
      by (intro keeps_parallel) (force intro!: keeps_remove_file)
  qed
  then show "act_keeps (untouched K) (if ?victims = [] then act_ok [] else if dry_run then act_ok (map snd ?victims)
    else act_bind (case (if 1 < workers then local_root else None) of
      Some root \<Rightarrow> parallel_remove_files H (map (\<lambda>(leaf, base). (base, resolve_under_root root leaf)) ?victims)
    | None \<Rightarrow> act_for (\<lambda>(leaf, base). remove_leaf (ho_storage H) leaf dry_run) ?victims) (\<lambda>_. act_ok (map snd ?victims)))"
    by (auto intro!: keeps_bind)
qed

lemma keeps_expire_flat_layout:
  assumes "dry_run \<or> {k. prefix (key archive_root) k} \<subseteq> K" "root_ok local_root"
    and "\<And>f. f \<in> set loose_files \<Longrightarrow> components f = [f] \<and> \<not> is_absolute f"
  shows "act_keeps (untouched K)
    (expire_flat_layout H archive_root loose_files keep anchors dry_run workers local_root)"
proof (cases "flat_cutoff (ho_json H) keep anchors")
  case None
  then show ?thesis by (simp add: expire_flat_layout_def)
next
  case (Some cutoff)
  let ?gone = "flat_victims loose_files cutoff"
  have key: "key (path_join archive_root f) = key archive_root @ [f]" if "f \<in> set ?gone" for f
    using that assms(3) key_join by (auto simp: flat_victims_def)
  have "act_keeps (untouched K) (case (if 1 < workers then local_root else None) of
      Some root \<Rightarrow> parallel_remove_files H
        (map (\<lambda>f. (strip_compress_suffix f, resolve_under_root root (path_join archive_root f))) ?gone)
    | None \<Rightarrow> act_for (\<lambda>f. act_map_err CmdStorage
        (act_ignore_missing (so_remove (ho_storage H) (path_join archive_root f) False))) ?gone)" if "\<not> dry_run"
  proof (cases "if 1 < workers then local_root else None")
    case None
    have "key (path_join archive_root f) \<in> K" if "f \<in> set ?gone" for f
      using key [OF that] assms(1) \<open>\<not> dry_run\<close> by auto
    then show ?thesis unfolding None option.case by (intro keeps_for) (simp_all add: untouched_remove)
  next
    case (Some r)
    then have "components (resolve_under_root r p) = key p" for p
      using assms(2) by (auto simp: root_ok_def split: if_splits)
    then show ?thesis
      using key assms(1) that unfolding Some option.case parallel_remove_files_def
      by (intro keeps_parallel) (auto intro!: keeps_remove_file)
  qed
  then show ?thesis using Some by (auto simp: expire_flat_layout_def Let_def intro!: keeps_bind)
qed

lemma keeps_load_archive_ids: "act_keeps (untouched K) (load_archive_ids H stanza info pass)"
proof -
  have keeps: "act_keeps (untouched K) (\<lambda>s. case load_keyed (ho_storage H) E ff p pass s of
      (Inr (info, _), t) \<Rightarrow> (Ok (f info), t) | (Inl _, t) \<Rightarrow> (Ok fb, t))" for E ff p and f :: "'c \<Rightarrow> 'd" and fb
  proof
    fix s
    obtain r t where "load_keyed (ho_storage H) E ff p pass s = (r, t)"
      by (cases "load_keyed (ho_storage H) E ff p pass s")
    moreover have "untouched K s (snd (load_keyed (ho_storage H) E ff p pass s))"
      using keeps_load_keyed by (rule act_keepsD)
    ultimately show "untouched K s (snd (case load_keyed (ho_storage H) E ff p pass s of
        (Inr (info, _), t) \<Rightarrow> (Ok (f info), t) | (Inl _, t) \<Rightarrow> (Ok fb, t)))"
      by (cases r) auto
  qed
  show ?thesis unfolding load_archive_ids_def Let_def by (intro keeps_bind) (auto intro!: keeps)
qed

lemma keeps_run_plans:
  assumes "dry_run \<or> {k. prefix (key archive_root) k} \<subseteq> K" "root_ok local_root"
    and "\<And>plan. plan \<in> set plans \<Longrightarrow> \<not> is_absolute (ap_archive_id plan)"
  shows "act_keeps (untouched K) (run_plans H archive_root dry_run workers local_root plans)"
  using assms(3)
proof (induction plans)
  case (Cons plan rest)
  have "key (path_join archive_root (ap_archive_id plan)) = key archive_root @ components (ap_archive_id plan)"
    using Cons.prems [of plan] key_join by simp
  then have inK: "dry_run \<or> {k. prefix (key (path_join archive_root (ap_archive_id plan))) k} \<subseteq> K"
    using assms(1) by (auto simp: prefix_def)
  let ?dir = "path_join archive_root (ap_archive_id plan)"
  note wal = keeps_remove_wal_under [OF inK assms(2), of plan workers]
  have "act_keeps (untouched K) (if ap_drop_all plan
      then if dry_run then act_ok [] else act_bind (remove_backup_dir (ho_storage H) ?dir) (\<lambda>_. act_ok [])
      else if ap_skip_expiry plan then act_ok [] else remove_wal_under H ?dir plan dry_run workers local_root)"
    using inK wal by (auto intro!: keeps_bind keeps_remove_backup_dir)
  moreover have "act_keeps (untouched K) (run_plans H archive_root dry_run workers local_root rest)"
    using Cons by simp
  ultimately show ?case
    unfolding run_plans.simps Let_def by (intro keeps_bind) simp_all
qed simp

lemma plan_archive_ids:
  assumes "plan \<in> set (compute_archive_plan backups (ids_on_disk hist (archive_id_dirs es)) ty keep)"
  shows "\<not> is_absolute (ap_archive_id plan)"
proof -
  obtain aid cur where ids: "(aid, cur) \<in> set (ids_on_disk hist (archive_id_dirs es))"
    and plan: "plan_for backups (retained_window backups ty keep) (aid, cur) = Some plan"
    using plan_origin [OF assms] by blast
  have "ap_archive_id plan = aid"
    using plan by (auto simp: plan_for_def Let_def plan_drop_def plan_skip_def split: if_splits option.splits)
  moreover have "aid \<in> set (archive_id_dirs es)"
    using ids by (auto simp: ids_on_disk_def Let_def)
  then have "\<not> is_absolute aid"
    using entry_name_plain by (auto simp: archive_id_dirs_def set_map_filter split: option.splits if_splits)
  ultimately show ?thesis by simp
qed

lemma loose_names: "f \<in> set (loose_wal_files es) \<Longrightarrow> components f = [f] \<and> \<not> is_absolute f"
  using entry_name_plain by (auto simp: loose_wal_files_def set_map_filter split: option.splits if_splits)

lemma keeps_expire_archive:
  assumes "dry_run \<or> {k. prefix (key (archive_dir stanza)) k} \<subseteq> K"
    and "root_ok (local_repo_root config (active_repo_index config))"
  shows "act_keeps (untouched K) (expire_archive H config stanza keep ty anchors info dry_run pass)"
proof
  fix s
  define lr where "lr = (if so_is_local (ho_storage H) \<and> 1 < process_max config
     then local_repo_root config (active_repo_index config) else None)"
  have lr: "root_ok lr" using assms(2) by (simp add: lr_def root_ok_def)
  obtain r t where l: "so_list (ho_storage H) (archive_dir stanza) s = (r, t)" by (cases "so_list (ho_storage H) (archive_dir stanza) s")
  then have st: "untouched K s t" using untouched_reads(2) [THEN act_keepsD] by (metis snd_conv)
  show "untouched K s (snd (expire_archive H config stanza keep ty anchors info dry_run pass s))"
  proof (cases r)
    case (Inl e)
    then show ?thesis
      using st l by (cases e) (simp_all add: expire_archive_def Let_def)
  next
    case (Inr es)
    define m where "m = (if archive_id_dirs es = [] then act_ok []
       else act_bind (load_archive_ids H stanza info pass) (\<lambda>(history_ids, version_by_id).
          run_plans H (archive_dir stanza) dry_run (process_max config) lr
            (compute_archive_plan (backups_for_archive (ho_json H) (ib_current info) version_by_id)
              (ids_on_disk history_ids (archive_id_dirs es)) ty keep)))"
    have "act_keeps (untouched K) m"
      unfolding m_def
      by (auto intro!: keeps_bind keeps_load_archive_ids keeps_run_plans [OF assms(1) lr] dest: plan_archive_ids)
    then have keeps: "act_keeps (untouched K) (act_bind m (\<lambda>removed.
        act_bind (expire_flat_layout H (archive_dir stanza) (loose_wal_files es) keep anchors dry_run (process_max config) lr)
          (\<lambda>more. act_ok (bs_of (removed @ more)))))"
      by (intro keeps_bind keeps_expire_flat_layout [OF assms(1) lr loose_names]) simp_all
    have "expire_archive H config stanza keep ty anchors info dry_run pass s = act_bind m (\<lambda>removed.
        act_bind (expire_flat_layout H (archive_dir stanza) (loose_wal_files es) keep anchors dry_run
          (process_max config) lr) (\<lambda>more. act_ok (bs_of (removed @ more)))) t"
      by (simp only: expire_archive_def Let_def l Inr prod.case sum.case m_def lr_def)
    then have "untouched K t (snd (expire_archive H config stanza keep ty anchors info dry_run pass s))"
      using keeps [THEN act_keepsD, of t] by simp
    with st show ?thesis by (auto simp: untouched_def)
  qed
qed

lemma keeps_archive_pass:
  assumes "dry_run \<or> {k. prefix (key (archive_dir stanza)) k} \<subseteq> K"
    and "root_ok (local_repo_root config (active_repo_index config))"
  shows "act_keeps (untouched K) (archive_pass H config stanza ty kept info dry_run pass)"
  unfolding archive_pass_def Let_def
  by (intro keeps_bind) (auto split: option.splits intro!: keeps_expire_archive [OF assms])

section \<open>The command\<close>

lemma stanza_paths [simp]: "stanza_dir stanza \<noteq> []" "\<not> is_absolute (stanza_dir stanza)"
  by (simp_all add: stanza_dir_def is_absolute_def starts_with_def)

lemma backup_keys:
  "key (backup_info_path stanza) = key (stanza_dir stanza) @ [''backup.info'']"
  "key (copy_path (backup_info_path stanza)) = key (stanza_dir stanza) @ [''backup.info.copy'']"
  "key (backup_info_path stanza @ ''.tmp'') = key (stanza_dir stanza) @ [''backup.info.tmp'']"
  "key (copy_path (backup_info_path stanza) @ ''.tmp'') = key (stanza_dir stanza) @ [''backup.info.copy.tmp'']"
  "key (backup_dir stanza label) = key (stanza_dir stanza) @ components label"
proof -
  have slash: "key (stanza_dir stanza @ CHR ''/'' # b) = key (stanza_dir stanza) @ components b" for b
    using key_slash [of "stanza_dir stanza" b] by simp
  show "key (backup_info_path stanza) = key (stanza_dir stanza) @ [''backup.info'']"
    "key (copy_path (backup_info_path stanza)) = key (stanza_dir stanza) @ [''backup.info.copy'']"
    "key (backup_info_path stanza @ ''.tmp'') = key (stanza_dir stanza) @ [''backup.info.tmp'']"
    "key (copy_path (backup_info_path stanza) @ ''.tmp'') = key (stanza_dir stanza) @ [''backup.info.copy.tmp'']"
    "key (backup_dir stanza label) = key (stanza_dir stanza) @ components label"
    by (simp_all add: backup_info_path_def copy_path_def backup_dir_def slash components_single)
qed

lemma keeps_save_backup_info:
  assumes "\<And>n. n \<in> set info_names \<Longrightarrow> key (stanza_dir stanza) @ [n] \<in> K"
  shows "act_keeps (untouched K) (save_backup_info H stanza info pass sub)"
proof -
  have inK: "key (stanza_dir stanza) @ [''backup.info''] \<in> K" "key (stanza_dir stanza) @ [''backup.info.copy''] \<in> K"
    "key (stanza_dir stanza) @ [''backup.info.tmp''] \<in> K" "key (stanza_dir stanza) @ [''backup.info.copy.tmp''] \<in> K"
    using assms unfolding info_names_def by (meson list.set_intros)+
  show ?thesis
    unfolding save_backup_info_def Let_def info_save_def save_keyed_def write_with_copy_def
    by (auto intro!: keeps_bind untouched_write untouched_atomic simp: backup_keys inK)
qed

text \<open>The local root, when the removals go through the worker threads.\<close>

definition direct_root :: "loaded_config \<Rightarrow> path option" where
  "direct_root config = (if so_is_local (ho_storage H) \<and> 1 < process_max config
     then local_repo_root config (active_repo_index config) else None)"

definition remove_dirs :: "loaded_config \<Rightarrow> string \<Rightarrow> string list \<Rightarrow> ('s, command_error, unit) action" where
  "remove_dirs config stanza labels = (case direct_root config of
      Some local_root \<Rightarrow> parallel_remove_dirs H
        (map (\<lambda>label. (label, resolve_under_root local_root (backup_dir stanza label))) labels)
    | None \<Rightarrow> act_for (\<lambda>label. remove_backup_dir (ho_storage H) (backup_dir stanza label)) labels)"

lemma remove_backups_steps:
  assumes "labels \<noteq> []"
  shows "remove_backups H config stanza info labels False pass sub =
    act_bind (remove_dirs config stanza labels) (\<lambda>_.
    act_bind (save_backup_info H stanza (drop_labels labels info) pass sub) (\<lambda>_.
    act_ok (drop_labels labels info)))"
  using assms by (simp add: remove_backups_def Let_def remove_dirs_def direct_root_def)

lemma remove_backups_dry: "remove_backups H config stanza info labels True pass sub = act_ok (drop_labels labels info)"
  by (simp add: remove_backups_def)

lemma remove_backups_none: "remove_backups H config stanza info [] dry_run pass sub = act_ok info"
  by (simp add: remove_backups_def drop_labels_def Let_def)

lemma direct_root_key:
  assumes "root_ok (local_repo_root config (active_repo_index config))" "direct_root config = Some r"
  shows "components (resolve_under_root r p) = key p"
  using assms by (auto simp: root_ok_def direct_root_def split: if_splits)

lemma keeps_remove_dirs:
  assumes "\<And>l. l \<in> set labels \<Longrightarrow> {k. prefix (key (backup_dir stanza l)) k} \<subseteq> K"
    and "root_ok (local_repo_root config (active_repo_index config))"
  shows "act_keeps (untouched K) (remove_dirs config stanza labels)"
proof (cases "direct_root config")
  case None
  then show ?thesis
    using assms(1) by (auto simp: remove_dirs_def intro!: keeps_for keeps_remove_backup_dir)
next
  case (Some r)
  note key = direct_root_key [OF assms(2) Some]
  have inK: "prefix (key (backup_dir stanza l)) k \<Longrightarrow> l \<in> set labels \<Longrightarrow> k \<in> K" for l k
    using assms(1) [of l] by auto
  show ?thesis
    unfolding remove_dirs_def Some option.case parallel_remove_dirs_def
    by (intro keeps_parallel) (auto intro!: keeps_remove_dir_all inK simp: key)
qed

lemma keeps_remove_backups:
  assumes "dry_run \<or> (\<forall>l \<in> set labels. {k. prefix (key (backup_dir stanza l)) k} \<subseteq> K)"
    and "dry_run \<or> labels = [] \<or> (\<forall>n \<in> set info_names. key (stanza_dir stanza) @ [n] \<in> K)"
    and "root_ok (local_repo_root config (active_repo_index config))"
  shows "act_keeps (untouched K) (remove_backups H config stanza info labels dry_run pass sub)"
proof (cases "dry_run \<or> labels = []")
  case True
  then show ?thesis by (auto simp: remove_backups_dry remove_backups_none)
next
  case False
  then show ?thesis
    using assms by (auto simp: remove_backups_steps intro!: keeps_bind keeps_remove_dirs keeps_save_backup_info)
qed

lemma keeps_remove_backups_stanza:
  assumes "dry_run \<or> {k. prefix (key (stanza_dir stanza)) k} \<subseteq> K"
    and "root_ok (local_repo_root config (active_repo_index config))"
  shows "act_keeps (untouched K) (remove_backups H config stanza info labels dry_run pass sub)"
proof (rule keeps_remove_backups [OF _ _ assms(2)])
  show "dry_run \<or> (\<forall>l \<in> set labels. {k. prefix (key (backup_dir stanza l)) k} \<subseteq> K)"
    using assms(1) unfolding backup_keys by (auto simp: prefix_def)
  show "dry_run \<or> labels = [] \<or> (\<forall>n \<in> set info_names. key (stanza_dir stanza) @ [n] \<in> K)"
    using assms(1) by auto
qed

lemma keeps_expire_history:
  assumes "{k. prefix (key (stanza_dir stanza) @ [''backup.history'']) k} \<subseteq> K"
  shows "act_keeps (untouched K) (expire_history H stanza days)"
  unfolding expire_history_def Let_def
proof (rule keeps_bind_if [OF keeps_collect], rule keeps_for)
  fix s files t p
  assume run: "collect_files (ho_storage H) (ho_depth H) (stanza_dir stanza @ ''/backup.history'') s = (Ok files, t)"
    and "p \<in> set (filter (history_victim (ho_now H - int days * 86400)) files)"
  then have "strict_prefix (key (stanza_dir stanza @ ''/backup.history'')) (key p)"
    using collect_under by simp
  moreover have "key (stanza_dir stanza @ ''/backup.history'') = key (stanza_dir stanza) @ [''backup.history'']"
    using key_slash [of "stanza_dir stanza" "''backup.history''"] by (simp add: components_single)
  ultimately have "key p \<in> K" using assms by (auto simp: strict_prefix_def prefix_def)
  then show "act_keeps (untouched K) (act_map_err CmdStorage (act_ignore_missing (so_remove (ho_storage H) p False)))"
    by (simp add: untouched_remove)
qed

lemma keeps_load_backup_info: "act_keeps (untouched K) (load_backup_info H config stanza)"
proof -
  have "act_keeps (untouched K) (\<lambda>s. case load_keyed (ho_storage H) E ff p pass s of
       (Inr (info, sub), t) \<Rightarrow> (Ok (f info sub), t)
     | (Inl (IeStorage (NotFound _)), t) \<Rightarrow> (Ok none, t)
     | (Inl e, t) \<Rightarrow> (Err (g e), t))" for E ff p pass f none g
  proof
    fix s
    obtain r t where r: "load_keyed (ho_storage H) E ff p pass s = (r, t)"
      by (cases "load_keyed (ho_storage H) E ff p pass s")
    have "untouched K s (snd (load_keyed (ho_storage H) E ff p pass s))"
      using keeps_load_keyed by (rule act_keepsD)
    then have "untouched K s t" by (simp add: r)
    then show "untouched K s (snd (case load_keyed (ho_storage H) E ff p pass s of
       (Inr (info, sub), t) \<Rightarrow> (Ok (f info sub), t)
     | (Inl (IeStorage (NotFound _)), t) \<Rightarrow> (Ok none, t)
     | (Inl e, t) \<Rightarrow> (Err (g e), t)))"
      unfolding r by (auto split: sum.split info_error.split storage_error.split)
  qed
  note keeps = this
  show ?thesis
    unfolding load_backup_info_def Let_def
    by (intro keeps_bind) (auto intro!: keeps_bind keeps)
qed

lemma keeps_expire_adhoc:
  assumes "dry_run \<or> {k. prefix (key (stanza_dir stanza)) k} \<subseteq> K"
    and "dry_run \<or> {k. prefix (key (archive_dir stanza)) k} \<subseteq> K"
    and "root_ok (local_repo_root config (active_repo_index config))"
  shows "act_keeps (untouched K) (expire_adhoc H config stanza info expire dry_run pass sub)"
  unfolding expire_adhoc_def archive_expire_tail_def Let_def
  by (intro keeps_bind keeps_remove_backups_stanza [OF assms(1,3)] keeps_archive_pass [OF assms(2,3)]) simp

lemma keeps_expire_retention:
  assumes "dry_run \<or> {k. prefix (key (stanza_dir stanza)) k} \<subseteq> K"
    and "dry_run \<or> {k. prefix (key (archive_dir stanza)) k} \<subseteq> K"
    and "root_ok (local_repo_root config (active_repo_index config))"
  shows "act_keeps (untouched K) (expire_retention H config stanza info keep ty dry_run pass sub)"
proof -
  have "act_keeps (untouched K) (case history of
      Some days \<Rightarrow> if dry_run then act_ok () else expire_history H stanza days | None \<Rightarrow> act_ok ())" for history
    using assms(1) by (cases history) (auto intro!: keeps_expire_history dest: append_prefixD)
  then show ?thesis
    unfolding expire_retention_def Let_def
    by (intro keeps_bind keeps_remove_backups_stanza [OF assms(1,3)] keeps_archive_pass [OF assms(2,3)]) simp_all
qed

lemma keeps_expire_inner:
  assumes "dry_run_option config \<or> {k. prefix (key (stanza_dir stanza)) k} \<subseteq> K"
    and "dry_run_option config \<or> {k. prefix (key (archive_dir stanza)) k} \<subseteq> K"
    and "root_ok (local_repo_root config (active_repo_index config))"
    and "lc_stanza config = Some stanza"
  shows "act_keeps (untouched K) (expire_inner H config)"
proof -
  note keeps = keeps_expire_adhoc [OF assms(1-3)] keeps_expire_retention [OF assms(1-3)]
    keeps_archive_pass [OF assms(2,3)]
  have adhoc: "act_keeps (untouched K) (expire_adhoc_set H config stanza info l (dry_run_option config) pass sub)"
    "act_keeps (untouched K) (expire_adhoc_oldest H config stanza info (dry_run_option config) pass sub)"
    "act_keeps (untouched K) (expire_keep_all_backups H config stanza info ty (dry_run_option config) pass)"
    for info l pass sub ty
    unfolding expire_adhoc_set_def expire_adhoc_oldest_def expire_keep_all_backups_def Let_def
    by (auto split: option.split intro!: keeps keeps_bind)
  define body where "body = (\<lambda>loaded :: 'j loaded_backup_info option. case loaded of
       None \<Rightarrow> act_ok \<lparr>es_expired_labels = [], es_kept_labels = [], es_expired_archive_segments = []\<rparr>
     | Some l \<Rightarrow> (case set_option config of
          Some label \<Rightarrow> expire_adhoc_set H config stanza (lb_info l) label (dry_run_option config)
            (lb_user_pass l) (lb_recorded_sub l)
        | None \<Rightarrow> if oldest_option config
            then expire_adhoc_oldest H config stanza (lb_info l) (dry_run_option config) (lb_user_pass l)
              (lb_recorded_sub l)
            else act_bind (act_lift (retention_full config (active_repo_index config))) (\<lambda>keep. case keep of
              None \<Rightarrow> expire_keep_all_backups H config stanza (lb_info l)
                (retention_archive_type config (active_repo_index config)) (dry_run_option config) (lb_user_pass l)
            | Some keep_full \<Rightarrow> expire_retention H config stanza (lb_info l) keep_full
                (retention_archive_type config (active_repo_index config)) (dry_run_option config)
                (lb_user_pass l) (lb_recorded_sub l))))"
  have "act_keeps (untouched K) (body loaded)" for loaded
    unfolding body_def by (auto split: option.split intro!: keeps_bind adhoc keeps(2))
  then have "act_keeps (untouched K) (act_bind (load_backup_info H config stanza) body)"
    by (intro keeps_bind keeps_load_backup_info)
  moreover have "expire_inner H config = act_bind (load_backup_info H config stanza) body"
    unfolding expire_inner_def body_def Let_def require_stanza_def assms(4)
    by (rule ext) (simp add: act_bind_def act_lift_def)
  ultimately show ?thesis by simp
qed

lemma dry_run_view:
  assumes "dry_run_option config" "root_ok (local_repo_root config (active_repo_index config))"
  shows "view (snd (expire_inner H config s)) = view s"
proof (cases "lc_stanza config")
  case None
  then show ?thesis by (simp add: expire_inner_def require_stanza_def act_bind_def act_lift_def)
next
  case (Some stanza)
  have "act_keeps (untouched {}) (expire_inner H config)"
    using assms Some by (intro keeps_expire_inner) auto
  then have "untouched {} s (snd (expire_inner H config s))" by (rule act_keepsD)
  then show ?thesis by (auto simp: untouched_def)
qed

section \<open>What a removal leaves behind\<close>

text \<open>A place without a file stays without one.\<close>

definition stays_gone :: "string list \<Rightarrow> 's \<Rightarrow> 's \<Rightarrow> bool" where
  "stays_gone k s t = (view s k = None \<longrightarrow> view t k = None)"

lemma stays_gone_order [simp]: "reflp (stays_gone k)" "transp (stays_gone k)"
  by (auto simp: reflp_def transp_def stays_gone_def)

lemma first_failure_None: "first_failure rs = None \<longleftrightarrow> list_all (\<lambda>(job, r). r = Ok ()) rs"
proof (induction rs)
  case (Cons x rs)
  then show ?case by (cases x; cases "snd x") auto
qed simp

lemma run_jobs_gone:
  assumes "\<And>j s. j \<in> set js \<Longrightarrow> stays_gone k s (snd (work j s))"
    and "\<And>s u t. work job s = (Ok u, t) \<Longrightarrow> view t k = None"
    and "run_jobs work js s = (rs, t)" "list_all (\<lambda>(j, r). r = Ok ()) rs" "job \<in> set js"
  shows "view t k = None"
  using assms(1,3,4,5)
proof (induction js arbitrary: s rs)
  case (Cons j js)
  obtain r u where w: "work j s = (r, u)" by (cases "work j s")
  obtain rs' where rest: "run_jobs work js u = (rs', t)" "rs = (j, r) # rs'"
    using Cons.prems(2) w by (auto split: prod.splits)
  have ok: "r = Ok ()" "list_all (\<lambda>(j, r). r = Ok ()) rs'" using Cons.prems(3) rest(2) by simp_all
  have keep: "stays_gone k u (snd (run_jobs work js u))"
    by (rule act_keeps_run_jobs) (use Cons.prems(1) in simp_all)
  show ?case
  proof (cases "job \<in> set js")
    case True
    then show ?thesis using Cons.IH [OF Cons.prems(1) rest(1) ok(2)] by simp
  next
    case False
    then have "view u k = None" using Cons.prems(4) assms(2) w ok(1) by simp
    then show ?thesis using keep rest(1) by (simp add: stays_gone_def)
  qed
qed simp

lemma parallel_dirs_gone:
  assumes "parallel_remove_dirs H jobs s = (Ok u, t)" "job \<in> set jobs" "prefix (components (snd job)) k"
  shows "view t k = None"
proof -
  let ?work = "remove_job ''remove_dir_all'' (ho_remove_dir_all H)"
  obtain rs v where run: "run_jobs ?work (permute (ho_order H (length jobs)) jobs) s = (rs, v)"
    by (cases "run_jobs ?work (permute (ho_order H (length jobs)) jobs) s")
  have jobs: "jobs \<noteq> []" using assms(2) by auto
  have step: "parallel_remove_dirs H jobs s =
      (case first_failure (permute (ho_arrival H (length jobs)) rs) of Some e \<Rightarrow> (Err e, v) | None \<Rightarrow> (Ok (), v))"
    unfolding parallel_remove_dirs_def parallel_remove_def Let_def run prod.case using jobs by simp
  then have ok: "first_failure (permute (ho_arrival H (length jobs)) rs) = None" "v = t"
    using assms(1) by (auto split: option.splits)
  then have "list_all (\<lambda>(j, r). r = Ok ()) rs"
    by (simp add: first_failure_None list_all_iff)
  moreover have "stays_gone k w (snd (?work j w))" for j w
    using dirs_only [of "snd j" w k] unfolding snd_remove_job stays_gone_def by auto
  moreover have "view x k = None" if "?work job w = (Ok y, x)" for w x y
  proof -
    have "fst (ho_remove_dir_all H (snd job) w) \<in> {Ok (), Err ENotFound}" "snd (ho_remove_dir_all H (snd job) w) = x"
      using that by (auto simp: remove_job_def split: prod.splits sum.splits if_splits)
    then show ?thesis using dirs_gone [OF _ assms(3), of w] by simp
  qed
  moreover have "job \<in> set (permute (ho_order H (length jobs)) jobs)" using assms(2) by simp
  ultimately show ?thesis
    using run_jobs_gone [of "permute (ho_order H (length jobs)) jobs" k ?work job s rs v] run ok(2) by blast
qed

lemma remove_backup_dir_gone:
  assumes "remove_backup_dir (ho_storage H) p s = (Ok u, t)" "prefix (key p) k"
  shows "view t k = None"
proof -
  obtain r v where run: "so_remove_path (ho_storage H) p True False s = (r, v)"
    by (cases "so_remove_path (ho_storage H) p True False s")
  then have "v = t" "r = Ok () \<or> (\<exists>q. r = Err (NotFound q))"
    using assms(1) by (auto simp: remove_backup_dir_def act_map_err_def act_ignore_missing_def
        split: sum.splits storage_error.splits)
  then show ?thesis using run remove_path_Ok missing_gone assms(2) by blast
qed

lemma snd_remove_backup_dir: "snd (remove_backup_dir (ho_storage H) p s) = snd (so_remove_path (ho_storage H) p True False s)"
  by (simp add: remove_backup_dir_def act_map_err_def act_ignore_missing_def split: prod.split sum.split storage_error.split)

lemma remove_dir_stays_gone: "act_keeps (stays_gone k) (remove_backup_dir (ho_storage H) p)"
proof (rule act_keepsI)
  fix s
  show "stays_gone k s (snd (remove_backup_dir (ho_storage H) p s))"
    using remove_path_only [of p False s k] unfolding snd_remove_backup_dir stays_gone_def by auto
qed

lemma serial_dirs_gone:
  assumes "act_for (\<lambda>label. remove_backup_dir (ho_storage H) (f label)) labels s = (Ok u, t)"
    and "label \<in> set labels" "prefix (key (f label)) k"
  shows "view t k = None"
  using assms(1,2)
proof (induction labels arbitrary: s)
  case (Cons l ls)
  obtain v where v: "remove_backup_dir (ho_storage H) (f l) s = (Ok (), v)"
    "act_for (\<lambda>label. remove_backup_dir (ho_storage H) (f label)) ls v = (Ok u, t)"
    using Cons.prems(1) by (auto simp: act_bind_Inr_iff)
  have keep: "act_keeps (stays_gone k) (act_for (\<lambda>label. remove_backup_dir (ho_storage H) (f label)) ls)"
    by (rule act_keeps_for) (simp_all add: remove_dir_stays_gone)
  show ?case
  proof (cases "label \<in> set ls")
    case False
    then have "view v k = None" using Cons.prems(2) remove_backup_dir_gone v(1) assms(3) by auto
    then show ?thesis using keep [THEN act_keepsD, of v] v(2) by (simp add: stays_gone_def)
  qed (use Cons v in blast)
qed simp

lemma remove_dirs_gone:
  assumes "remove_dirs config stanza labels s = (Ok u, t)" "label \<in> set labels"
    and "root_ok (local_repo_root config (active_repo_index config))"
    and "prefix (key (backup_dir stanza label)) k"
  shows "view t k = None"
proof (cases "direct_root config")
  case None
  then show ?thesis
    using assms(1,2,4) serial_dirs_gone by (simp add: remove_dirs_def)
next
  case (Some r)
  let ?job = "(label, resolve_under_root r (backup_dir stanza label))"
  have "prefix (components (snd ?job)) k"
    using assms(4) direct_root_key [OF assms(3) Some] by simp
  then show ?thesis
    using assms(1,2) Some by (intro parallel_dirs_gone [of _ s u t ?job]) (auto simp: remove_dirs_def)
qed

lemma plain_label_key: "plain_label label \<Longrightarrow> key (backup_dir stanza label) = key (stanza_dir stanza) @ [label]"
  by (simp add: plain_label_def backup_keys)

lemma remove_backups_gone:
  assumes run: "remove_backups H config stanza info labels False pass sub s = (Ok info', t)"
    and "label \<in> set labels" "plain_label label"
    and "root_ok (local_repo_root config (active_repo_index config))"
    and "prefix (key (backup_dir stanza label)) k"
  shows "view t k = None"
proof -
  have "labels \<noteq> []" using assms(2) by auto
  then obtain u where u: "remove_dirs config stanza labels s = (Ok (), u)"
      "save_backup_info H stanza (drop_labels labels info) pass sub u = (Ok (), t)"
    using run by (auto simp: remove_backups_steps act_bind_Inr_iff act_ok_def)
  have "view u k = None" using remove_dirs_gone [OF u(1) assms(2,4,5)] .
  moreover have "k \<notin> {key (stanza_dir stanza) @ [n] | n. n \<in> set info_names}"
    using assms(3,5) by (auto simp: plain_label_key plain_label_def)
  moreover have "act_keeps (untouched {key (stanza_dir stanza) @ [n] | n. n \<in> set info_names})
      (save_backup_info H stanza (drop_labels labels info) pass sub)"
    by (rule keeps_save_backup_info) auto
  ultimately show ?thesis
    using u(2) by (auto simp: untouched_def dest!: act_keepsD [of _ _ u])
qed

section \<open>The shape of a successful run\<close>

text \<open>What follows the removal of the backups: the archive pass and the expiry of the history.\<close>

definition after_region :: "string \<Rightarrow> string list set" where
  "after_region stanza = {k. prefix (key (archive_dir stanza)) k} \<union>
     {k. prefix (key (stanza_dir stanza) @ [''backup.history'']) k}"

lemma expire_adhoc_run:
  assumes "expire_adhoc H config stanza info expire dry_run pass sub s = (Ok summary, t)"
    and "root_ok (local_repo_root config (active_repo_index config))"
  shows "\<exists>info' u. remove_backups H config stanza info (es_expired_labels summary) dry_run pass sub s = (Ok info', u) \<and>
    untouched (after_region stanza) u t \<and> es_expired_labels summary = expire \<and>
    es_kept_labels summary = filter (\<lambda>l. l \<notin> set expire) (bt_keys (ib_current info))"
proof -
  obtain info' u segs where run: "remove_backups H config stanza info expire dry_run pass sub s = (Ok info', u)"
      "archive_expire_tail H config stanza info' dry_run pass u = (Ok segs, t)"
      "summary = \<lparr>es_expired_labels = expire,
         es_kept_labels = filter (\<lambda>l. l \<notin> set expire) (bt_keys (ib_current info)),
         es_expired_archive_segments = segs\<rparr>"
    using assms(1) by (auto simp: expire_adhoc_def Let_def act_bind_Inr_iff act_ok_def)
  moreover have "act_keeps (untouched (after_region stanza)) (archive_expire_tail H config stanza info' dry_run pass)"
    unfolding archive_expire_tail_def by (rule keeps_archive_pass [OF _ assms(2)]) (auto simp: after_region_def)
  ultimately show ?thesis by (metis act_keepsD expire_summary.select_convs(1,2) snd_conv)
qed

lemma keep_all_run:
  assumes "expire_keep_all_backups H config stanza info ty dry_run pass s = (Ok summary, t)"
    and "root_ok (local_repo_root config (active_repo_index config))"
  shows "untouched (after_region stanza) s t" "es_expired_labels summary = []"
    "es_kept_labels summary = bt_keys (ib_current info)"
proof -
  let ?kept = "bt_keys (ib_current info)"
  obtain segs where run: "archive_pass H config stanza ty ?kept info dry_run pass s = (Ok segs, t)"
      "summary = \<lparr>es_expired_labels = [], es_kept_labels = ?kept, es_expired_archive_segments = segs\<rparr>"
    using assms(1) by (auto simp: expire_keep_all_backups_def Let_def act_bind_Inr_iff act_ok_def)
  have "act_keeps (untouched (after_region stanza)) (archive_pass H config stanza ty ?kept info dry_run pass)"
    by (rule keeps_archive_pass [OF _ assms(2)]) (auto simp: after_region_def)
  from act_keepsD [OF this, of s] run(1) show "untouched (after_region stanza) s t" by simp
  show "es_expired_labels summary = []" "es_kept_labels summary = ?kept" using run(2) by simp_all
qed

lemma expire_retention_run:
  assumes "expire_retention H config stanza info keep ty dry_run pass sub s = (Ok summary, t)"
    and "root_ok (local_repo_root config (active_repo_index config))"
  shows "\<exists>info' u flags. remove_backups H config stanza info (es_expired_labels summary) dry_run pass sub s = (Ok info', u) \<and>
    untouched (after_region stanza) u t \<and>
    es_expired_labels summary = map fst (selected (map Not flags) (sort_entries (ho_json H) (ib_current info))) \<and>
    es_kept_labels summary = map fst (selected flags (sort_entries (ho_json H) (ib_current info)))"
proof -
  let ?entries = "sort_entries (ho_json H) (ib_current info)"
  obtain diff where diff: "retention_diff config (active_repo_index config) = Ok diff"
  proof (cases "retention_diff config (active_repo_index config)")
    case (Inl e)
    then have "expire_retention H config stanza info keep ty dry_run pass sub s = (Err e, s)"
      unfolding expire_retention_def Let_def by (simp add: act_bind_def act_lift_def)
    then show ?thesis using assms(1) by simp
  qed (rule that)
  define flags where "flags = retention_keep (ho_json H) ?entries keep
    (retention_full_type config (active_repo_index config)) diff (ho_now H)"
  define tail where "tail = (\<lambda>segs. act_bind (act_lift (retention_history config (active_repo_index config))) (\<lambda>history.
      act_bind (case history of Some days \<Rightarrow> if dry_run then act_ok () else expire_history H stanza days
        | None \<Rightarrow> act_ok ()) (\<lambda>_. act_ok \<lparr>es_expired_labels = map fst (selected (map Not flags) ?entries),
          es_kept_labels = map fst (selected flags ?entries), es_expired_archive_segments = segs\<rparr>)))"
  have "expire_retention H config stanza info keep ty dry_run pass sub =
      act_bind (remove_backups H config stanza info (map fst (selected (map Not flags) ?entries)) dry_run pass sub) (\<lambda>info'.
      act_bind (archive_pass H config stanza ty (map fst (selected flags ?entries)) info' dry_run pass) tail)"
    unfolding expire_retention_def Let_def tail_def flags_def diff by (rule ext) (simp add: act_bind_def act_lift_def)
  from assms(1) [unfolded this] obtain info' u segs v where run:
      "remove_backups H config stanza info (map fst (selected (map Not flags) ?entries)) dry_run pass sub s = (Ok info', u)"
      "archive_pass H config stanza ty (map fst (selected flags ?entries)) info' dry_run pass u = (Ok segs, v)"
      "tail segs v = (Ok summary, t)"
    by (auto simp: act_bind_Inr_iff)
  have history: "act_keeps (untouched (after_region stanza)) (case history of
      Some days \<Rightarrow> if dry_run then act_ok () else expire_history H stanza days | None \<Rightarrow> act_ok ())" for history
    by (cases history) (auto simp: after_region_def intro!: keeps_expire_history)
  have "act_keeps (untouched (after_region stanza)) (tail segs)"
    unfolding tail_def by (intro keeps_bind history) simp_all
  moreover have summary: "summary = \<lparr>es_expired_labels = map fst (selected (map Not flags) ?entries),
         es_kept_labels = map fst (selected flags ?entries), es_expired_archive_segments = segs\<rparr>"
    using run(3) by (auto simp: tail_def act_bind_Inr_iff act_ok_def)
  moreover have "act_keeps (untouched (after_region stanza))
      (archive_pass H config stanza ty (map fst (selected flags ?entries)) info' dry_run pass)"
    by (rule keeps_archive_pass [OF _ assms(2)]) (auto simp: after_region_def)
  ultimately have "untouched (after_region stanza) u v" "untouched (after_region stanza) v t"
    using run(2,3) by (metis act_keepsD snd_conv)+
  then have "untouched (after_region stanza) u t" by (simp add: untouched_def)
  then show ?thesis using run(1) summary by (metis expire_summary.select_convs(1,2))
qed

lemma adhoc_oldest_run:
  assumes "expire_adhoc_oldest H config stanza info dry_run pass sub s = (Ok summary, t)"
    and "root_ok (local_repo_root config (active_repo_index config))"
  shows "\<exists>info' u. remove_backups H config stanza info (es_expired_labels summary) dry_run pass sub s = (Ok info', u) \<and>
    untouched (after_region stanza) u t"
proof (cases "oldest_full (ho_json H) (ib_current info)")
  case None
  then have "es_expired_labels summary = []" "t = s"
    using assms(1) by (auto simp: expire_adhoc_oldest_def Let_def act_ok_def)
  then show ?thesis by (auto simp: remove_backups_none act_ok_def untouched_def)
next
  case (Some label)
  then have "expire_adhoc H config stanza info (dependent_closure (ho_json H) (ib_current info) [label])
      dry_run pass sub s = (Ok summary, t)"
    using assms(1) by (auto simp: expire_adhoc_oldest_def Let_def act_err_def split: if_splits)
  from expire_adhoc_run [OF this assms(2)] show ?thesis by blast
qed

lemma adhoc_set_expires:
  assumes "expire_adhoc_set H config stanza info label dry_run pass sub s = (Ok summary, t)"
  shows "expire_adhoc H config stanza info (dependent_closure (ho_json H) (ib_current info) [label])
      dry_run pass sub s = (Ok summary, t)"
    and "remaining_full_count (ho_json H) (ib_current info)
      (dependent_closure (ho_json H) (ib_current info) [label]) \<noteq> 0"
    and "label \<in> fst ` set (ib_current info)"
  using assms bt_get_None_iff [of "ib_current info" label]
  by (auto simp: expire_adhoc_set_def Let_def act_err_def split: if_splits option.splits)

text \<open>Every successful run removes the backups it reports, and after that only touches the archive and the history.\<close>

lemma expire_inner_run:
  assumes "expire_inner H config s = (Ok summary, t)" "lc_stanza config = Some stanza"
    and "root_ok (local_repo_root config (active_repo_index config))"
  shows "(load_backup_info H config stanza s = (Ok None, t) \<and> es_expired_labels summary = []) \<or>
    (\<exists>l u info' v. load_backup_info H config stanza s = (Ok (Some l), u) \<and>
      remove_backups H config stanza (lb_info l) (es_expired_labels summary) (dry_run_option config)
        (lb_user_pass l) (lb_recorded_sub l) u = (Ok info', v) \<and>
      untouched (after_region stanza) v t)"
proof -
  obtain r u where load: "load_backup_info H config stanza s = (r, u)"
    by (cases "load_backup_info H config stanza s")
  have stanza: "require_stanza config = Ok stanza" by (simp add: require_stanza_def assms(2))
  note run = assms(1) [unfolded expire_inner_def stanza]
  show ?thesis
  proof (cases r)
    case (Inl e)
    then show ?thesis using run load by (simp add: act_bind_def act_lift_def)
  next
    case (Inr loaded)
    show ?thesis
    proof (cases loaded)
      case None
      then show ?thesis using run load Inr by (auto simp: act_bind_def act_lift_def act_ok_def)
    next
      case (Some l)
      note load' = load [unfolded Inr Some]
      let ?dry = "dry_run_option config" and ?i = "active_repo_index config"
      have "\<exists>info' v. remove_backups H config stanza (lb_info l) (es_expired_labels summary) ?dry
          (lb_user_pass l) (lb_recorded_sub l) u = (Ok info', v) \<and> untouched (after_region stanza) v t"
      proof (cases "set_option config")
        case (Some label)
        then have "expire_adhoc_set H config stanza (lb_info l) label ?dry (lb_user_pass l) (lb_recorded_sub l) u =
            (Ok summary, t)"
          using run load' by (simp add: act_bind_def act_lift_def Let_def)
        from expire_adhoc_run [OF adhoc_set_expires(1) [OF this] assms(3)] show ?thesis by blast
      next
        case None
        show ?thesis
        proof (cases "oldest_option config")
          case True
          then have "expire_adhoc_oldest H config stanza (lb_info l) ?dry (lb_user_pass l) (lb_recorded_sub l) u =
              (Ok summary, t)"
            using run load' None by (simp add: act_bind_def act_lift_def Let_def)
          from adhoc_oldest_run [OF this assms(3)] show ?thesis .
        next
          case False
          note rest = run load' None False
          show ?thesis
          proof (cases "retention_full config ?i")
            case (Inl e)
            then show ?thesis using rest by (simp add: act_bind_def act_lift_def Let_def)
          next
            case (Inr keep)
            show ?thesis
            proof (cases keep)
              case None
              then have "expire_keep_all_backups H config stanza (lb_info l) (retention_archive_type config ?i) ?dry
                  (lb_user_pass l) u = (Ok summary, t)"
                using rest Inr by (simp add: act_bind_def act_lift_def Let_def)
              from keep_all_run [OF this assms(3)] show ?thesis
                by (simp add: remove_backups_none act_ok_def)
            next
              case (Some keep_full)
              then have "expire_retention H config stanza (lb_info l) keep_full (retention_archive_type config ?i) ?dry
                  (lb_user_pass l) (lb_recorded_sub l) u = (Ok summary, t)"
                using rest Inr by (simp add: act_bind_def act_lift_def Let_def)
              from expire_retention_run [OF this assms(3)] show ?thesis by blast
            qed
          qed
        qed
      qed
      with load' show ?thesis by blast
    qed
  qed
qed

text \<open>The archive and the history lie apart from the directories of the backups.\<close>

lemma archive_apart:
  assumes "components stanza = [stanza]"
  shows "\<not> prefix (key (archive_dir stanza)) (key (stanza_dir stanza) @ ks)"
proof -
  have comps: "components ''archive'' = [''archive'']" "components ''backup'' = [''backup'']"
    by (simp_all add: components_single)
  have "key (archive_dir stanza) = key ''archive'' @ [stanza]" "key (stanza_dir stanza) = key ''backup'' @ [stanza]"
    using key_slash [of "''archive''" stanza] key_slash [of "''backup''" stanza] assms
    by (simp_all add: archive_dir_def stanza_dir_def is_absolute_def starts_with_def)
  moreover have "key ''archive'' = components root @ [''archive'']" "key ''backup'' = components root @ [''backup'']"
    using comps by (simp_all add: key_root resolve_under_root_def components_join is_absolute_def starts_with_def)
  ultimately show ?thesis by simp
qed

lemma backup_apart:
  assumes "components stanza = [stanza]" "plain_label label" "label \<noteq> ''backup.history''"
    and "prefix (key (backup_dir stanza label)) k"
  shows "k \<notin> after_region stanza"
  using assms(3,4) archive_apart [OF assms(1)]
  by (auto simp: after_region_def plain_label_key [OF assms(2)] prefix_def)

lemma expire_spares:
  assumes "expire_inner H config s = (Ok summary, t)" "lc_stanza config = Some stanza"
    and "root_ok (local_repo_root config (active_repo_index config))"
    and "components stanza = [stanza]" "plain_label label" "label \<noteq> ''backup.history''"
    and "label \<notin> set (es_expired_labels summary)" "list_all plain_label (es_expired_labels summary)"
    and "prefix (key (backup_dir stanza label)) k"
  shows "view t k = view s k"
proof -
  have load: "view (snd (load_backup_info H config stanza s)) k = view s k"
    using act_keepsD [OF keeps_load_backup_info [of "{}"], of s] by (auto simp: untouched_def)
  from expire_inner_run [OF assms(1-3)] show ?thesis
  proof
    assume "load_backup_info H config stanza s = (Ok None, t) \<and> es_expired_labels summary = []"
    then show ?thesis using load by simp
  next
    assume "\<exists>l u info' v. load_backup_info H config stanza s = (Ok (Some l), u) \<and>
      remove_backups H config stanza (lb_info l) (es_expired_labels summary) (dry_run_option config)
        (lb_user_pass l) (lb_recorded_sub l) u = (Ok info', v) \<and> untouched (after_region stanza) v t"
    then obtain l u info' v where run: "load_backup_info H config stanza s = (Ok (Some l), u)"
      "remove_backups H config stanza (lb_info l) (es_expired_labels summary) (dry_run_option config)
        (lb_user_pass l) (lb_recorded_sub l) u = (Ok info', v)"
      "untouched (after_region stanza) v t" by blast
    let ?K = "{k. \<exists>l \<in> set (es_expired_labels summary). prefix (key (backup_dir stanza l)) k} \<union>
      {key (stanza_dir stanza) @ [n] | n. n \<in> set info_names}"
    have "act_keeps (untouched ?K) (remove_backups H config stanza (lb_info l) (es_expired_labels summary)
        (dry_run_option config) (lb_user_pass l) (lb_recorded_sub l))"
      by (rule keeps_remove_backups [OF _ _ assms(3)]) auto
    moreover have "k \<notin> ?K"
      using assms(5,7-9) by (auto simp: plain_label_key plain_label_def list_all_iff prefix_def)
    ultimately have "view v k = view u k"
      using run(2) by (auto simp: untouched_def dest!: act_keepsD [of _ _ u])
    then show ?thesis
      using load run backup_apart [OF assms(4-6,9)] by (simp add: untouched_def)
  qed
qed

lemma expire_removes:
  assumes "expire_inner H config s = (Ok summary, t)" "lc_stanza config = Some stanza"
    and "root_ok (local_repo_root config (active_repo_index config))"
    and "components stanza = [stanza]" "plain_label label" "label \<noteq> ''backup.history''"
    and "label \<in> set (es_expired_labels summary)" "\<not> dry_run_option config"
    and "prefix (key (backup_dir stanza label)) k"
  shows "view t k = None"
proof -
  have "es_expired_labels summary \<noteq> []" using assms(7) by auto
  then obtain l u info' v where run: "load_backup_info H config stanza s = (Ok (Some l), u)"
      "remove_backups H config stanza (lb_info l) (es_expired_labels summary) (dry_run_option config)
        (lb_user_pass l) (lb_recorded_sub l) u = (Ok info', v)" "untouched (after_region stanza) v t"
    using expire_inner_run [OF assms(1-3)] by blast
  then have "view v k = None"
    using remove_backups_gone [OF _ assms(7,5,3,9)] assms(8) by simp
  then show ?thesis
    using run(3) backup_apart [OF assms(4-6,9)] by (simp add: untouched_def)
qed

section \<open>The rewritten info\<close>

lemma save_backup_info_stored:
  assumes "save_backup_info H stanza info pass sub s = (Ok u, t)"
  shows "\<exists>b. to_bytes_keyed (ho_env H) (backup_to_file (ho_env H)) info pass (if pass = None then None else sub) = Ok b \<and>
    view t (key (backup_info_path stanza)) = Some b"
proof (cases pass)
  case None
  then have "so_write (ho_storage H) (backup_info_path stanza)
      (checksumed_render (ie_sha1 (ho_env H)) (backup_to_file (ho_env H) info None)) s = (Ok (), t)"
    using assms by (auto simp: save_backup_info_def Let_def info_save_def act_map_err_def split: prod.splits sum.splits)
  from write_Ok [OF this] None show ?thesis
    by (simp add: to_bytes_keyed_def encode_maybe_encrypted_def)
next
  case (Some q)
  then have "save_keyed (ho_storage H) (ho_env H) (backup_to_file (ho_env H)) info (backup_info_path stanza)
      (Some q) sub s = (Ok (), t)"
    using assms by (simp add: save_backup_info_def Let_def)
  then obtain b where b: "to_bytes_keyed (ho_env H) (backup_to_file (ho_env H)) info (Some q) sub = Ok b"
    "write_with_copy (ho_storage H) (backup_info_path stanza) b s = (Ok (), t)"
    by (auto simp: save_keyed_def act_bind_Inr_iff act_lift_def)
  then obtain v where "so_write_atomic (ho_storage H) (backup_info_path stanza) b v = (Ok (), t)"
    by (auto simp: write_with_copy_def act_bind_Inr_iff)
  then show ?thesis using b(1) Some atomic_Ok by auto
qed

lemma expire_stores_info:
  assumes "expire_inner H config s = (Ok summary, t)" "lc_stanza config = Some stanza"
    and "root_ok (local_repo_root config (active_repo_index config))"
    and "components stanza = [stanza]" "\<not> dry_run_option config" "es_expired_labels summary \<noteq> []"
    and "load_backup_info H config stanza s = (Ok (Some l), u)"
  shows "\<exists>b. to_bytes_keyed (ho_env H) (backup_to_file (ho_env H)) (drop_labels (es_expired_labels summary) (lb_info l))
      (lb_user_pass l) (if lb_user_pass l = None then None else lb_recorded_sub l) = Ok b \<and>
    view t (key (backup_info_path stanza)) = Some b"
proof -
  obtain info' v where run: "remove_backups H config stanza (lb_info l) (es_expired_labels summary) False
      (lb_user_pass l) (lb_recorded_sub l) u = (Ok info', v)" "untouched (after_region stanza) v t"
    using expire_inner_run [OF assms(1-3)] assms(5-7) by auto
  then obtain w where "save_backup_info H stanza (drop_labels (es_expired_labels summary) (lb_info l))
      (lb_user_pass l) (lb_recorded_sub l) w = (Ok (), v)"
    using assms(6) by (auto simp: remove_backups_steps act_bind_Inr_iff act_ok_def)
  moreover have "key (backup_info_path stanza) \<notin> after_region stanza"
    using archive_apart [OF assms(4), of "[''backup.info'']"] unfolding backup_keys by (simp add: after_region_def)
  ultimately show ?thesis
    using save_backup_info_stored run(2) by (metis (no_types, lifting) untouched_def)
qed

end

end
