(* ===== verification/Expire_Posix.thy ===== *)
theory Expire_Posix
  imports Expire_Safety
begin

text \<open>
  The \<open>expire\<close> command on the local backend: the removals of the worker threads are the two \<open>std::fs\<close>
  calls on the resolved path, the storage is \<open>Posix\<close>, and the contract of \<open>Expire_Safety\<close> is discharged
  for them. The properties say what a run leaves alone and what it removes.
\<close>

section \<open>The local host\<close>

definition on_posix :: "path \<Rightarrow> (posix_fs, 'j) host \<Rightarrow> (posix_fs, 'j) host" where
  "on_posix root H = H\<lparr>ho_storage := posix_ops root,
     ho_remove_dir_all := (\<lambda>p. fs_remove_dir_all (components p)),
     ho_remove_file := (\<lambda>p. fs_remove_file (components p))\<rparr>"

lemma on_posix_simps [simp]:
  "ho_storage (on_posix root H) = posix_ops root"
  "ho_remove_dir_all (on_posix root H) p = fs_remove_dir_all (components p)"
  "ho_remove_file (on_posix root H) p = fs_remove_file (components p)"
  "ho_json (on_posix root H) = ho_json H" "ho_env (on_posix root H) = ho_env H"
  by (simp_all add: on_posix_def)

lemma posix_key_resolve: "posix_key root p = components (resolve_under_root root p)"
  by (simp add: posix_key_def posix_resolve_def resolve_under_root_def)

lemma posix_remove_path_found: "posix_remove_path root p rec False s \<noteq> (Err (NotFound q), t)"
proof -
  have "map_io e x = NotFound q \<Longrightarrow> e = ENotFound" for e x by (cases e) (simp_all add: map_io_def)
  then show ?thesis
    by (auto simp: posix_remove_path_def Let_def split: prod.splits sum.splits if_splits)
qed

interpretation px_expire: expire_host "on_posix root H" "posix_key root" fs_view fs_healthy root for root H
proof (intro expire_host.intro expire_host_axioms.intro)
  fix p q :: path and k :: fs_path and s t :: posix_fs
  show "posix_key root p = components (resolve_under_root root p)" by (rule posix_key_resolve)
  show "fs_view (snd (ho_remove_dir_all (on_posix root H) p s)) k = fs_view s k" if "\<not> prefix (components p) k"
    using remove_dir_all_view(2) [OF that] by simp
  show "fs_view (snd (ho_remove_dir_all (on_posix root H) p s)) k \<in> {None, fs_view s k}"
    using remove_dir_all_view(1) by simp
  show "fs_view (snd (ho_remove_dir_all (on_posix root H) p s)) k = None"
    if "fst (ho_remove_dir_all (on_posix root H) p s) \<in> {Ok (), Err ENotFound}" "prefix (components p) k"
    using remove_dir_all_view(3) [of "components p" s k] that by simp
  show "fs_view (snd (ho_remove_file (on_posix root H) p s)) k = fs_view s k" if "k \<noteq> components p"
    using remove_file_frame [OF that] by simp
  show "fs_view t k = None"
    if "so_remove_path (ho_storage (on_posix root H)) p True False s = (Err (NotFound q), t)" "prefix (posix_key root p) k"
    using that posix_remove_path_found by (simp add: posix_ops_def)
qed (simp_all add: px.storage_axioms)

text \<open>The repository path of the configuration is the one the storage was opened on.\<close>

definition opened_at :: "path \<Rightarrow> loaded_config \<Rightarrow> bool" where
  "opened_at root config = (local_repo_root config (active_repo_index config) \<in> {None, Some root})"

lemma opened_root_ok:
  "opened_at root config \<Longrightarrow> px_expire.root_ok root (local_repo_root config (active_repo_index config))"
  unfolding opened_at_def px_expire.root_ok_def by (auto simp: posix_key_resolve)

section \<open>A sample repository\<close>

text \<open>Two full backups, and a configuration that keeps one.\<close>

definition text_json :: "string json_api" where
  "text_json = \<lparr>j_get = (\<lambda>v k. if k = ''backup-type'' then Some v else None), j_as_str = Some,
     j_as_i64 = (\<lambda>_. None), j_as_u64 = (\<lambda>_. None), j_as_array = (\<lambda>_. None)\<rparr>"

definition sample_host :: "(posix_fs, string) host" where
  "sample_host = \<lparr>ho_storage = posix_ops ''/'', ho_remove_dir_all = (\<lambda>p. fs_remove_dir_all (components p)),
     ho_remove_file = (\<lambda>p. fs_remove_file (components p)), ho_order = (\<lambda>n. [0..<n]), ho_arrival = (\<lambda>n. rev [0..<n]),
     ho_now = 0, ho_depth = 9, ho_env = sample_env, ho_json = text_json\<rparr>"

definition sample_config :: "bool \<Rightarrow> loaded_config" where
  "sample_config dry = \<lparr>lc_command = ''expire'', lc_role = RoleMain, lc_stanza = Some ''m'',
     lc_options = [((''dry-run'', None), OvBoolean dry), ((''process-max'', None), OvInteger 2),
       ((''repo-path'', Some 1), OvPath ''/''), ((''repo-retention-full'', Some 1), OvInteger 1)],
     lc_params = []\<rparr>"

definition two_fulls :: "string info_backup" where
  "two_fulls = sample_info_backup\<lparr>ib_current := [(''A'', ''full''), (''B'', ''full'')]\<rparr>"

definition two_fulls_text :: string where
  "two_fulls_text = checksumed_render sample_sha1 (backup_to_file sample_env two_fulls None)"

definition two_fulls_repo :: posix_fs where
  "two_fulls_repo = \<lparr>fs_nodes = [([''backup''], NDir), ([''backup'', ''m''], NDir),
      ([''backup'', ''m'', ''backup.info''], NFile two_fulls_text),
      ([''backup'', ''m'', ''A''], NDir), ([''backup'', ''m'', ''A'', ''f''], NFile ''1''),
      ([''backup'', ''m'', ''B''], NDir), ([''backup'', ''m'', ''B'', ''f''], NFile ''2'')],
     fs_faults = []\<rparr>"

lemma two_fulls_ok: "backup_supported sample_env two_fulls None" 
proof -
  have "list_all plain_char (quoted ''full'')" by (simp add: quoted_def plain_char_def char_code_def)
  then have "one_line (quoted ''full'')" by (rule plain_line_text)
  moreover have "ie_print sample_env = quoted" "ie_parse sample_env (quoted ''full'') = Ok ''full''"
    by (simp_all add: sample_env_def quoted_def)
  moreover have "label_ok ''A''" "label_ok ''B''"
    by (rule plain_label, rule_tac [2] refl, simp_all add: plain_char_def char_code_def)+
  ultimately show ?thesis
    using sample_history_ok quoted_ok
    by (simp add: backup_supported_def sample_info_backup_def two_fulls_def plain_char_def
        char_code_def bt_ok_def)
qed

lemma sample_places [simp]:
  "components (posix_resolve ''/'' (backup_info_path ''m'')) = [''backup'', ''m'', ''backup.info'']"
  "components (resolve_under_root ''/'' (backup_dir ''m'' ''A'')) = [''backup'', ''m'', ''A'']"
  "components (resolve_under_root ''/'' (backup_dir ''m'' ''B'')) = [''backup'', ''m'', ''B'']"
  by (simp_all add: posix_resolve_def is_absolute_def starts_with_def path_join_def ends_with_def components_def
      backup_info_path_def stanza_dir_def backup_dir_def resolve_under_root_def)

lemma sample_options [simp]:
  "lc_stanza (sample_config dry) = Some ''m''" "dry_run_option (sample_config dry) = dry"
  "local_repo_root (sample_config dry) (Suc 0) = Some ''/''"
  "active_repo_index (sample_config dry) = Suc 0"
  "process_max (sample_config dry) = 2"
  "active_user_pass (sample_config dry) = Ok None"
  "set_option (sample_config dry) = None" "\<not> oldest_option (sample_config dry)"
  "retention_full (sample_config dry) (Suc 0) = Ok (Some 1)" "retention_diff (sample_config dry) (Suc 0) = Ok None"
  "retention_full_type (sample_config dry) (Suc 0) = RtCount"
  "retention_archive (sample_config dry) (Suc 0) = Ok None" "retention_history (sample_config dry) (Suc 0) = Ok None"
  by (simp_all add: sample_config_def dry_run_option_def local_repo_root_def active_repo_index_def process_max_def
   active_user_pass_def repo_user_pass_def is_encrypted_def repo_cipher_type_def repo_string_id_def set_option_def oldest_option_def
   retention_full_def retention_diff_def retention_full_type_def retention_archive_def retention_history_def
   retention_option_def config_get_def bt_get_def retention_count_def)

lemma sample_load: "load_backup_info (on_posix ''/'' sample_host) (sample_config dry) ''m'' two_fulls_repo =
  (Ok (Some \<lparr>lb_info = two_fulls, lb_user_pass = None, lb_recorded_sub = None\<rparr>), two_fulls_repo)"
proof -
  have "to_bytes_keyed sample_env (backup_to_file sample_env) two_fulls None None = Ok two_fulls_text"
    by (simp add: to_bytes_keyed_def encode_maybe_encrypted_def sample_env_def two_fulls_text_def)
  then have "from_bytes_keyed sample_env (backup_from_file sample_env) two_fulls_text None = Ok (two_fulls, None)"
    using back_codec.bytes_roundtrip [OF two_fulls_ok] by auto
  moreover have "ho_env sample_host = sample_env" by (simp add: sample_host_def)
  ultimately show ?thesis
    by (simp add: load_backup_info_def posix_ops_def posix_exists_def fs_lstat_def fs_tick_def two_fulls_repo_def
      fs_node_at_def posix_read_def fs_read_file_def act_bind_def act_map_err_def act_lift_def act_ok_def 
      load_keyed_def read_and_decode_def Let_def)
qed


lemma sample_flags: "sort_entries text_json (ib_current two_fulls) = [(''A'', ''full''), (''B'', ''full'')]"
  "retention_keep text_json [(''A'', ''full''), (''B'', ''full'')] (Suc 0) RtCount None now = [False, True]"
  by (simp_all add: sort_entries_def two_fulls_def sort_by_def entry_le_def timestamp_stop_def text_json_def
    retention_keep_def full_retention_keep_def is_type_def backup_type_def mark_full_def keep_chain_def Let_def upt_rec)

definition one_full_repo :: posix_fs where
  "one_full_repo = \<lparr>fs_nodes = [([''backup''], NDir), ([''backup'', ''m''], NDir),
      ([''backup'', ''m'', ''backup.info''], NFile two_fulls_text),
      ([''backup'', ''m'', ''B''], NDir), ([''backup'', ''m'', ''B'', ''f''], NFile ''2'')],
     fs_faults = []\<rparr>"

lemma permute_single [simp]: "permute xs [x] = [x]"
proof -
  have "mset (permute xs [x]) = {#x#}" by simp
  then show ?thesis by (simp only: mset_single_iff)
qed

lemma sample_dirs: "parallel_remove_dirs (on_posix ''/'' sample_host)
    [(''A'', resolve_under_root ''/'' (backup_dir ''m'' ''A''))] two_fulls_repo = (Ok (), one_full_repo)"
proof -
  have "fs_remove_dir_all [''backup'', ''m'', ''A''] two_fulls_repo = (Ok (), one_full_repo)"
    by (simp add: fs_remove_dir_all_def fs_tick_def two_fulls_repo_def fs_node_at_def fs_drop_def one_full_repo_def)
  then show ?thesis by (simp add: parallel_remove_dirs_def parallel_remove_def remove_job_def)
qed

lemma sample_saved: "fst (save_backup_info (on_posix ''/'' sample_host) ''m'' info None None one_full_repo) = Ok ()"
  by (simp add: save_backup_info_def info_save_def posix_ops_def posix_write_def fs_create_def fs_write_all_def fs_tick_def fs_sync_def
      one_full_repo_def fs_node_at_def act_map_err_def act_bind_def fs_put_def Let_def)

lemma sample_removed: "fst (remove_backups (on_posix ''/'' sample_host) (sample_config False) ''m'' two_fulls [''A''] False None None
     two_fulls_repo) =
   Ok (drop_labels [''A''] two_fulls)"
proof -
  obtain t where "save_backup_info (on_posix ''/'' sample_host) ''m'' (drop_labels [''A''] two_fulls) None None one_full_repo = (Ok (), t)"
    using sample_saved by (metis prod.collapse)
  moreover have "so_is_local (posix_ops ''/'')" by (simp add: posix_ops_def)
  ultimately show ?thesis
    unfolding remove_backups_def Let_def by (simp add: act_bind_def sample_dirs act_ok_def)
qed

lemma sample_run: "fst (expire_inner (on_posix ''/'' sample_host) (sample_config dry) two_fulls_repo) =
   Ok \<lparr>es_expired_labels = [''A''], es_kept_labels = [''B''], es_expired_archive_segments = []\<rparr>"
proof -
  have "fst (remove_backups (on_posix ''/'' sample_host) (sample_config dry) ''m'' two_fulls [''A''] dry None None two_fulls_repo) =
   Ok (drop_labels [''A''] two_fulls)"
   using sample_removed by (cases dry) (simp_all add: remove_backups_def act_ok_def Let_def)
  then obtain t where t: "remove_backups (on_posix ''/'' sample_host) (sample_config dry) ''m'' two_fulls [''A''] dry None None two_fulls_repo = (Ok (drop_labels [''A''] two_fulls), t)"
    by (metis prod.collapse)
  have "ho_json sample_host = text_json" by (simp add: sample_host_def)
  then show ?thesis
    by (simp add: expire_inner_def require_stanza_def act_bind_def act_lift_def sample_load Let_def expire_retention_def
     sample_flags t archive_pass_def act_ok_def)
qed

lemma sample_whole: "expire_inner (on_posix ''/'' sample_host) (sample_config dry) two_fulls_repo =
   (Ok \<lparr>es_expired_labels = [''A''], es_kept_labels = [''B''], es_expired_archive_segments = []\<rparr>,
    snd (expire_inner (on_posix ''/'' sample_host) (sample_config dry) two_fulls_repo))"
  by (rule prod_eqI) (simp_all add: sample_run)

section \<open>What a run leaves alone\<close>

text \<open>C14. A dry run changes no file, whatever the options select and however it ends.\<close>

theorem expire_dry_run_changes_nothing:
  assumes "opened_at root config" "dry_run_option config"
  shows "fs_view (snd (expire_inner (on_posix root H) config s)) = fs_view s"
  using assms by (intro px_expire.dry_run_view opened_root_ok)

lemma sample_opened: "opened_at ''/'' (sample_config dry)"
  by (simp add: opened_at_def)

lemma expire_dry_run_changes_nothing_witness:
  "fs_view (snd (expire_inner (on_posix ''/'' sample_host) (sample_config True) two_fulls_repo)) =
   fs_view two_fulls_repo"
  by (rule expire_dry_run_changes_nothing [OF sample_opened]) simp



text \<open>C2. A successful run leaves every file of every backup it does not report as expired as it was.\<close>

theorem expire_spares_other_backups:
  assumes "opened_at root config" "lc_stanza config = Some stanza" "components stanza = [stanza]"
    and "expire_inner (on_posix root H) config s = (Ok summary, t)"
    and "list_all plain_label (es_expired_labels summary)"
    and "plain_label label" "label \<noteq> ''backup.history''" "label \<notin> set (es_expired_labels summary)"
    and "prefix (posix_key root (backup_dir stanza label)) k"
  shows "fs_view t k = fs_view s k"
  using px_expire.expire_spares [OF assms(4,2) opened_root_ok [OF assms(1)] assms(3,6-8,5,9)] .

lemma sample_labels: "plain_label ''A''" "plain_label ''B''" "components ''m'' = [''m'']"
  "posix_key ''/'' (backup_dir ''m'' ''A'') = [''backup'', ''m'', ''A'']"
  "posix_key ''/'' (backup_dir ''m'' ''B'') = [''backup'', ''m'', ''B'']"
  by (simp_all add: plain_label_def info_names_def components_single posix_key_resolve)

lemma expire_spares_other_backups_witness:
  "fs_view (snd (expire_inner (on_posix ''/'' sample_host) (sample_config False) two_fulls_repo))
     [''backup'', ''m'', ''B'', ''f''] = Some ''2''"
proof -
  have "fs_view (snd (expire_inner (on_posix ''/'' sample_host) (sample_config False) two_fulls_repo))
      [''backup'', ''m'', ''B'', ''f''] = fs_view two_fulls_repo [''backup'', ''m'', ''B'', ''f'']"
    by (rule expire_spares_other_backups [OF sample_opened _ _ sample_whole,
          where stanza = "''m''" and label = "''B''"]) (simp_all add: sample_labels)
  then show ?thesis by (simp add: two_fulls_repo_def fs_view_def fs_node_at_def)
qed

section \<open>What a run removes\<close>

text \<open>C6. After a successful run that is not a dry run no file is left below the directory of a backup it
  reports as expired, whether the directories were removed one by one or by the worker threads, in
  any order.\<close>

theorem expire_removes_expired_backups:
  assumes "opened_at root config" "lc_stanza config = Some stanza" "components stanza = [stanza]"
    and "expire_inner (on_posix root H) config s = (Ok summary, t)" "\<not> dry_run_option config"
    and "plain_label label" "label \<noteq> ''backup.history''" "label \<in> set (es_expired_labels summary)"
    and "prefix (posix_key root (backup_dir stanza label)) k"
  shows "fs_view t k = None"
  using px_expire.expire_removes [OF assms(4,2) opened_root_ok [OF assms(1)] assms(3,6-8,5,9)] .

lemma expire_removes_expired_backups_witness:
  "fs_view (snd (expire_inner (on_posix ''/'' sample_host) (sample_config False) two_fulls_repo))
     [''backup'', ''m'', ''A'', ''f''] = None"
  by (rule expire_removes_expired_backups [OF sample_opened _ _ sample_whole,
        where stanza = "''m''" and label = "''A''"]) (simp_all add: sample_labels)

text \<open>C7. After such a run \<open>backup.info\<close> reads back as the catalogue it had before, less the expired labels
  (the sub-key of an encrypted repository is kept).\<close>

theorem expire_rewrites_info:
  assumes "opened_at root config" "lc_stanza config = Some stanza" "components stanza = [stanza]"
    and "expire_inner (on_posix root H) config s = (Ok summary, t)" "\<not> dry_run_option config"
    and "es_expired_labels summary \<noteq> []"
    and "load_backup_info (on_posix root H) config stanza s = (Ok (Some l), u)"
    and "sub = (if lb_user_pass l = None then None else lb_recorded_sub l)"
    and "backup_supported (ho_env H) (drop_labels (es_expired_labels summary) (lb_info l)) sub"
    and "\<And>q x b. lb_user_pass l = Some q \<Longrightarrow> ie_encrypt (ho_env H) q x = Ok b \<Longrightarrow> ie_decrypt (ho_env H) q b = Ok x"
    and "fs_healthy v" "fs_view v = fs_view t"
  shows "\<exists>w. load_keyed (posix_ops root) (ho_env H) (backup_from_file (ho_env H)) (backup_info_path stanza)
      (lb_user_pass l) v = (Ok (drop_labels (es_expired_labels summary) (lb_info l), sub), w)"
proof -
  let ?E = "ho_env H" and ?info = "drop_labels (es_expired_labels summary) (lb_info l)"
  obtain b where b: "to_bytes_keyed ?E (backup_to_file ?E) ?info (lb_user_pass l) sub = Ok b"
    "fs_view t (posix_key root (backup_info_path stanza)) = Some b"
    using px_expire.expire_stores_info [OF assms(4,2) opened_root_ok [OF assms(1)] assms(3,5-7)] assms(8) by auto
  have "from_bytes_keyed ?E (backup_from_file ?E) b (lb_user_pass l) = Ok (?info, sub)"
    by (rule back_codec.bytes_roundtrip [OF assms(9) b(1) assms(10)])
  then have "back_store.loads root ?E v (backup_info_path stanza) (lb_user_pass l) (?info, sub)"
    using b(2) assms(12) by (simp add: back_store.loads_def)
  from back_store.load_primary [OF assms(11) this] show ?thesis by blast
qed

lemma one_full_ok: "backup_supported sample_env (drop_labels [''A''] two_fulls) None"
proof -
  have "list_all plain_char (quoted ''full'')" by (simp add: quoted_def plain_char_def char_code_def)
  then have "one_line (quoted ''full'')" by (rule plain_line_text)
  moreover have "ie_print sample_env = quoted" "ie_parse sample_env (quoted ''full'') = Ok ''full''"
    by (simp_all add: sample_env_def quoted_def)
  moreover have "label_ok ''B''"
    by (rule plain_label, rule_tac [2] refl) (simp_all add: plain_char_def char_code_def)
  ultimately show ?thesis
    using sample_history_ok quoted_ok
    by (simp add: backup_supported_def sample_info_backup_def two_fulls_def drop_labels_def bt_remove_def
        plain_char_def char_code_def bt_ok_def)
qed

lemma expire_rewrites_info_witness:
  "\<exists>w. load_keyed (posix_ops ''/'') sample_env (backup_from_file sample_env) (backup_info_path ''m'') None
     ((snd (expire_inner (on_posix ''/'' sample_host) (sample_config False) two_fulls_repo))\<lparr>fs_faults := []\<rparr>) =
     (Ok (drop_labels [''A''] two_fulls, None), w)"
proof -
  have env: "ho_env sample_host = sample_env" by (simp add: sample_host_def)
  note rule = expire_rewrites_info [OF sample_opened _ _ sample_whole _ _
      sample_load refl _ _ calm_view(2,1), unfolded env]
  show ?thesis
    by (rule rule [simplified]) (simp_all add: sample_labels one_full_ok)
qed

section \<open>The walk over the directories ends\<close>

lemma im_get_Some_in: "im_get m k = Some v \<Longrightarrow> k \<in> fst ` set m"
  by (induction m) (auto split: if_splits)

lemma walk_length: "fs_walk ns [] p = Ok n \<Longrightarrow> length p \<le> length ns"
proof -
  assume "fs_walk ns [] p = Ok n"
  then have at: "\<exists>m. fs_node_at ns (take i p) = Some m" if "i \<le> length p" for i
    using that by (cases "i = length p") (auto simp: walk_Ok)
  have "take i p \<in> fst ` set ns" if "i \<in> {1..length p}" for i
    using at [of i] that by (auto simp: fs_node_at_def dest: im_get_Some_in split: if_splits)
  then have "(\<lambda>i. take i p) ` {1..length p} \<subseteq> fst ` set ns" by blast
  then have "card ((\<lambda>i. take i p) ` {1..length p}) \<le> card (fst ` set ns)" by (rule card_mono [rotated]) simp
  moreover have "inj_on (\<lambda>i. take i p) {1..length p}"
    by (rule inj_onI) (metis atLeastAtMost_iff length_take min.absorb2)
  ultimately have "length p \<le> card (fst ` set ns)" by (simp add: card_image)
  also have "\<dots> \<le> length ns" by (metis card_length length_map set_map)
  finally show ?thesis .
qed

lemma lstat_nodes: "fs_lstat p s = (r, t) \<Longrightarrow> fs_nodes t = fs_nodes s"
  by (auto simp: fs_lstat_def dest: tick_nodes split: prod.splits option.splits)

lemma stat_entries_nodes: "posix_stat_entries x ns s = (r, t) \<Longrightarrow> fs_nodes t = fs_nodes s"
  by (induction x ns s arbitrary: r t rule: posix_stat_entries.induct)
     (auto simp: Let_def dest!: lstat_nodes split: prod.splits sum.splits)

lemma list_nodes:
  assumes "posix_list root p s = (r, t)"
  shows "fs_nodes t = fs_nodes s" "r = Ok es \<Longrightarrow> length (posix_key root p) \<le> length (fs_nodes s)"
proof -
  obtain q u where dir: "fs_read_dir (posix_key root p) s = (q, u)" by (cases "fs_read_dir (posix_key root p) s")
  have u: "fs_nodes u = fs_nodes s" "q = Ok ns \<Longrightarrow> \<exists>n. fs_walk (fs_nodes s) [] (posix_key root p) = Ok n" for ns
    using dir by (auto simp: fs_read_dir_def dest: tick_nodes split: prod.splits option.splits sum.splits fs_node.splits)
  show "fs_nodes t = fs_nodes s"
    using assms dir u(1) by (auto simp: posix_list_def Let_def posix_key_def dest: stat_entries_nodes split: sum.splits)
  show "length (posix_key root p) \<le> length (fs_nodes s)" if "r = Ok es"
    using assms dir that u(2) walk_length by (cases q) (auto simp: posix_list_def Let_def posix_key_def)
qed

lemma collect_entries_depth:
  assumes "\<And>e n u. e \<in> set es \<Longrightarrow> entry_name e = Some n \<Longrightarrow> fs_nodes u = N \<Longrightarrow>
      fst (rec (path_join dir n) u) \<noteq> Err too_deep \<and> fs_nodes (snd (rec (path_join dir n) u)) = N"
    and "fs_nodes s = N"
  shows "fst (collect_entries rec dir es s) \<noteq> Err too_deep \<and> fs_nodes (snd (collect_entries rec dir es s)) = N"
  using assms
proof (induction es arbitrary: s)
  case (Cons e es)
  have rest: "fst (collect_entries rec dir es u) \<noteq> Err too_deep \<and> fs_nodes (snd (collect_entries rec dir es u)) = N"
    if "fs_nodes u = N" for u
    using Cons.prems(1) that by (intro Cons.IH) auto
  show ?case
  proof (cases "entry_name e")
    case None
    then show ?thesis using rest Cons.prems(2) by simp
  next
    case (Some n)
    obtain a u where sub: "rec (path_join dir n) s = (a, u)" by (cases "rec (path_join dir n) s")
    then have "a \<noteq> Err too_deep" "fs_nodes u = N" using Cons.prems Some by (metis fst_conv snd_conv list.set_intros(1))+
    moreover obtain b v where "collect_entries rec dir es s = (b, v)" by (cases "collect_entries rec dir es s")
    moreover obtain c w where "collect_entries rec dir es u = (c, w)" by (cases "collect_entries rec dir es u")
    ultimately show ?thesis
      using Some sub rest [OF Cons.prems(2)] rest [of u]
      by (cases "si_kind e"; cases a; cases b; cases c) (simp_all add: Let_def act_bind_def act_ok_def)
  qed
qed (simp add: act_ok_def)

lemma collect_depth:
  assumes "length (posix_key root dir) \<le> length (fs_nodes s) + 1"
    and "length (fs_nodes s) + 2 \<le> depth + length (posix_key root dir)"
  shows "fst (collect_files (posix_ops root) depth dir s) \<noteq> Err too_deep \<and>
    fs_nodes (snd (collect_files (posix_ops root) depth dir s)) = fs_nodes s"
  using assms
proof (induction depth arbitrary: dir s)
  case (Suc depth)
  obtain r t where l: "posix_list root dir s = (r, t)" by (cases "posix_list root dir s")
  note nodes = list_nodes(1) [OF l]
  have ops: "so_list (posix_ops root) = posix_list root" by (simp add: posix_ops_def)
  show ?case
  proof (cases r)
    case (Inl e)
    then show ?thesis
      using l nodes by (cases e) (simp_all add: ops too_deep_def)
  next
    case (Inr es)
    have len: "length (posix_key root dir) \<le> length (fs_nodes s)" using list_nodes(2) [OF l Inr] .
    have "fst (collect_entries (collect_files (posix_ops root) depth) dir es t) \<noteq> Err too_deep \<and>
        fs_nodes (snd (collect_entries (collect_files (posix_ops root) depth) dir es t)) = fs_nodes s"
    proof (rule collect_entries_depth [OF _ nodes])
      fix e n and u :: posix_fs
      assume "entry_name e = Some n" and u: "fs_nodes u = fs_nodes s"
      then have "length (posix_key root (path_join dir n)) = length (posix_key root dir) + 1"
        using px_expire.key_child by simp
      then show "fst (collect_files (posix_ops root) depth (path_join dir n) u) \<noteq> Err too_deep \<and>
          fs_nodes (snd (collect_files (posix_ops root) depth (path_join dir n) u)) = fs_nodes s"
        using Suc.IH [of "path_join dir n" u] Suc.prems len u by simp
    qed
    then show ?thesis using l Inr by (simp add: ops)
  qed
qed simp

text \<open>The recursive listing ends: with a depth of two more than the number of entries of the repository
  it is never cut short.\<close>

theorem collect_files_terminates:
  assumes "length (fs_nodes s) + 2 \<le> depth"
  shows "fst (collect_files (posix_ops root) depth dir s) \<noteq> Err too_deep"
proof (cases "length (posix_key root dir) \<le> length (fs_nodes s) + 1")
  case True
  then show ?thesis using collect_depth [of root dir s depth] assms by simp
next
  case False
  obtain d where depth: "depth = Suc d" using assms by (cases depth) auto
  obtain r t where l: "posix_list root dir s = (r, t)" by (cases "posix_list root dir s")
  then obtain e where "r = Err e" using list_nodes(2) [OF l] False by (cases r) auto
  then show ?thesis using l depth by (cases e) (simp_all add: posix_ops_def too_deep_def)
qed

lemma collect_files_terminates_witness:
  "fst (collect_files (posix_ops ''/'') 9 ''backup/m'' two_fulls_repo) \<noteq> Err too_deep"
  by (rule collect_files_terminates) (simp add: two_fulls_repo_def)

section \<open>Adhoc expiry of one backup\<close>

text \<open>C24. \<open>--set\<close> expires exactly the named backup and those that depend on it, keeps all others, and leaves at
  least one full backup in the catalogue.\<close>

theorem expire_adhoc_set_exact:
  assumes "expire_adhoc_set H config stanza info label dry_run pass sub s = (Ok summary, t)"
  shows "set (es_expired_labels summary) = dependents (ho_json H) (ib_current info) [label] \<and>
    es_kept_labels summary = filter (\<lambda>l. l \<notin> set (es_expired_labels summary)) (bt_keys (ib_current info)) \<and>
    label \<in> set (bt_keys (ib_current info)) \<and>
    (\<exists>e \<in> set (ib_current info). is_type (ho_json H) ''full'' e \<and> fst e \<notin> set (es_expired_labels summary))"
proof -
  let ?expire = "dependent_closure (ho_json H) (ib_current info) [label]"
  have "bt_get (ib_current info) label \<noteq> None" "remaining_full_count (ho_json H) (ib_current info) ?expire \<noteq> 0"
    and run: "expire_adhoc H config stanza info ?expire dry_run pass sub s = (Ok summary, t)"
    using assms by (auto simp: expire_adhoc_set_def Let_def act_err_def split: option.splits if_splits)
  then have "\<exists>e \<in> set (ib_current info). is_type (ho_json H) ''full'' e \<and> fst e \<notin> set ?expire"
    by (force simp: remaining_full_count_def filter_empty_conv is_type_def)
  moreover have "es_expired_labels summary = ?expire"
    "es_kept_labels summary = filter (\<lambda>l. l \<notin> set ?expire) (bt_keys (ib_current info))"
    using run by (auto simp: expire_adhoc_def Let_def act_bind_Inr_iff act_ok_def)
  moreover have "label \<in> set (bt_keys (ib_current info))"
    using \<open>bt_get (ib_current info) label \<noteq> None\<close> by (simp add: bt_get_None_iff bt_keys_def)
  ultimately show ?thesis by (simp add: set_dependent_closure)
qed

lemma sample_adhoc: "fst (expire_adhoc_set (on_posix ''/'' sample_host) (sample_config dry) ''m'' two_fulls ''A'' True None None
     two_fulls_repo) = Ok \<lparr>es_expired_labels = [''A''], es_kept_labels = [''B''], es_expired_archive_segments = []\<rparr>"
proof -
  have "dependent_closure text_json (ib_current two_fulls) [''A''] = [''A'']"
    by (simp add: dependent_closure_def bs_of_def dependent_loop.simps closure_pass_def closure_visit_def
        two_fulls_def backup_references_def text_json_def)
  moreover have "ho_json sample_host = text_json" by (simp add: sample_host_def)
  ultimately show ?thesis
    by (simp add: expire_adhoc_set_def Let_def two_fulls_def bt_get_def backup_type_def text_json_def
        remaining_full_count_def expire_adhoc_def px_expire.remove_backups_dry act_bind_def act_ok_def archive_expire_tail_def
        archive_pass_def act_lift_def bt_keys_def)
qed

lemma expire_adhoc_set_exact_witness:
  "set [''A''] = dependents text_json (ib_current two_fulls) [''A'']"
proof -
  let ?r = "expire_adhoc_set (on_posix ''/'' sample_host) (sample_config True) ''m'' two_fulls ''A'' True None None
     two_fulls_repo"
  have "?r = (Ok \<lparr>es_expired_labels = [''A''], es_kept_labels = [''B''], es_expired_archive_segments = []\<rparr>, snd ?r)"
    by (rule prod_eqI) (simp_all add: sample_adhoc)
  from expire_adhoc_set_exact [OF this] show ?thesis by (simp add: sample_host_def)
qed

end
