(* ===== verification/Rust_Float.thy ===== *)
theory Rust_Float
  imports Complex_Main Rust_Num "HOL-Library.Log_Nat"
begin

text \<open>
  \<open>f64\<close> as the configuration uses it: the decimal parser, one multiplication, \<open>round\<close> and the comparison
  with the bounds of \<open>u64\<close>. A finite value is the rational it stands for; a result that is not a double is
  rounded to the nearest one, ties to the even mantissa. NaN cannot arise here, and the two zeros are not
  told apart.
\<close>

section \<open>Rounding\<close>

datatype f64 = Finite rat | Infinite bool

definition pow2 :: "int \<Rightarrow> rat" where
  "pow2 e = (if 0 \<le> e then 2 ^ nat e else 1 / 2 ^ nat (- e))"

text \<open>The greatest exponent \<open>k\<close> with \<open>2^k \<le> a\<close>, for a positive \<open>a\<close>.\<close>

definition binade :: "rat \<Rightarrow> int" where
  "binade a =
     (let (p, q) = quotient_of a;
          k = int (floorlog 2 (nat p)) - int (floorlog 2 (nat q)) in
      if pow2 k \<le> a then k else k - 1)"

definition round_half_even :: "rat \<Rightarrow> int" where
  "round_half_even r =
     (let f = \<lfloor>r\<rfloor>; d = r - of_int f in
      if d < 1 / 2 then f else if 1 / 2 < d then f + 1 else if even f then f else f + 1)"

text \<open>53 bits of mantissa, exponents down to -1074, and overflow to infinity at \<open>2^1024\<close>.\<close>

definition f64_nearest :: "rat \<Rightarrow> f64" where
  "f64_nearest r =
     (if r = 0 then Finite 0
      else
        let a = \<bar>r\<bar>;
            e = max (binade a - 52) (- 1074);
            v = of_int (round_half_even (a / pow2 e)) * pow2 e in
        if pow2 1024 \<le> v then Infinite (r < 0)
        else Finite (if r < 0 then - v else v))"

text \<open>Multiplication by a positive constant, and \<open>round\<close>, which rounds halves away from zero.\<close>

fun f64_scale :: "f64 \<Rightarrow> rat \<Rightarrow> f64" where
  "f64_scale (Finite r) c = f64_nearest (r * c)"
| "f64_scale (Infinite neg) c = Infinite neg"

fun f64_round :: "f64 \<Rightarrow> f64" where
  "f64_round (Finite r) =
     Finite (if r < 0 then - of_int \<lfloor>- r + 1 / 2\<rfloor> else of_int \<lfloor>r + 1 / 2\<rfloor>)"
| "f64_round (Infinite neg) = Infinite neg"

section \<open>The decimal parser\<close>

text \<open>
  \<open>str::parse::<f64>\<close> on a text of digits, signs, dots and exponent letters. The exponent stops growing
  once it has passed 65535.
\<close>

definition take_digits :: "string \<Rightarrow> string \<times> string" where
  "take_digits s = (takeWhile is_ascii_digit s, dropWhile is_ascii_digit s)"

definition digits_nat :: "string \<Rightarrow> nat" where
  "digits_nat ds = (case digits_val 10 0 ds of Some n \<Rightarrow> n | None \<Rightarrow> 0)"

definition exponent_nat :: "string \<Rightarrow> nat" where
  "exponent_nat ds = fold (\<lambda>c n. if n < 65536 then n * 10 + (char_code c - 48) else n) ds 0"

definition split_sign :: "string \<Rightarrow> bool \<times> string" where
  "split_sign s = (if starts_with ''-'' s then (True, drop 1 s)
     else if starts_with ''+'' s then (False, drop 1 s) else (False, s))"

definition parse_exponent :: "string \<Rightarrow> int option" where
  "parse_exponent s =
     (if s = [] then Some 0
      else if hd s = CHR ''e'' \<or> hd s = CHR ''E''
      then
        let (neg, ds) = split_sign (tl s) in
        if ds \<noteq> [] \<and> list_all is_ascii_digit ds
        then Some (if neg then - int (exponent_nat ds) else int (exponent_nat ds))
        else None
      else None)"

definition f64_decimal :: "string \<Rightarrow> rat option" where
  "f64_decimal s =
     (let (neg, body) = split_sign s;
          (whole, rest) = take_digits body;
          (frac, rest') = (if starts_with ''.'' rest then take_digits (drop 1 rest) else ([], rest)) in
      if whole @ frac = [] then None
      else (case parse_exponent rest' of
          None \<Rightarrow> None
        | Some e \<Rightarrow>
            let e10 = e - int (length frac); m = rat_of_nat (digits_nat (whole @ frac));
                v = (if 0 \<le> e10 then m * 10 ^ nat e10 else m / 10 ^ nat (- e10)) in
            Some (if neg then - v else v)))"

definition parse_f64 :: "string \<Rightarrow> (string, f64) result" where
  "parse_f64 s =
     (if s = [] then Err ''cannot parse float from empty string''
      else case f64_decimal s of
          None \<Rightarrow> Err ''invalid float literal''
        | Some r \<Rightarrow> Ok (f64_nearest r))"

section \<open>Integers are exact\<close>

lemma pow2_pos [simp]: "0 < pow2 e"
  by (simp add: pow2_def)

lemma pow2_mono: "a \<le> b \<Longrightarrow> pow2 a \<le> pow2 b"
proof -
  have "pow2 a \<le> pow2 (a + int n)" for n a
  proof (induction n)
    case (Suc n)
    have "pow2 k \<le> pow2 (k + 1)" for k
    proof (cases "0 \<le> k")
      case True
      then show ?thesis by (simp add: pow2_def nat_add_distrib)
    next
      case False
      then have "nat (- k) = Suc (nat (- (k + 1)))" by simp
      then show ?thesis using False by (cases "k = - 1") (auto simp: pow2_def divide_le_cancel field_simps)
    qed
    from this [of "a + int n"] Suc show ?case by (simp add: ac_simps)
  qed simp
  from this [of a "nat (b - a)"] show "a \<le> b \<Longrightarrow> pow2 a \<le> pow2 b" by simp
qed

lemma round_half_even_int [simp]: "round_half_even (of_int n) = n"
  by (simp add: round_half_even_def)

lemma pow2_diff: "pow2 (int m - int n) = 2 ^ m / 2 ^ n"
proof (cases "n \<le> m")
  case True
  then have "nat (int m - int n) = m - n" by simp
  then show ?thesis using True by (simp add: pow2_def power_diff)
next
  case False
  then have "nat (- (int m - int n)) = n - m" by simp
  then show ?thesis using False by (simp add: pow2_def power_diff field_simps)
qed

lemma binade_le:
  assumes "0 < a"
  shows "pow2 (binade a) \<le> a"
proof -
  obtain p q where pq: "quotient_of a = (p, q)" by (cases "quotient_of a")
  then have a: "a = of_int p / of_int q" and q: "0 < q" by (simp_all add: quotient_of_div quotient_of_denom_pos)
  then have p: "0 < p" using assms by (simp add: zero_less_divide_iff)
  define m n where "m = floorlog 2 (nat p)" and "n = floorlog 2 (nat q)"
  have "2 ^ (m - 1) \<le> nat p" "nat q < 2 ^ n"
    using p q floorlog_bounds [of "nat p" 2] floorlog_bounds [of "nat q" 2] by (simp_all add: m_def n_def)
  then have "(2::rat) ^ (m - 1) \<le> of_nat (nat p)" "of_nat (nat q) \<le> (2::rat) ^ n"
    by (metis of_nat_le_iff of_nat_numeral of_nat_power, metis less_imp_le of_nat_le_iff of_nat_numeral of_nat_power)
  then have bounds: "(2::rat) ^ (m - 1) \<le> of_int p" "of_int q \<le> (2::rat) ^ n"
    using p q by (simp_all add: of_nat_nat)
  have "(2::rat) ^ (m - 1) / 2 ^ n \<le> of_int p / of_int q"
    using bounds p q by (intro frac_le) simp_all
  moreover have "pow2 (int m - int n - 1) = 2 ^ (m - 1) / 2 ^ n"
  proof -
    have "0 < m" using p by (simp add: m_def floorlog_def)
    then have "int m - int n - 1 = int (m - 1) - int n" by simp
    then show ?thesis by (simp only: pow2_diff)
  qed
  ultimately have "pow2 (int m - int n - 1) \<le> a" using a by simp
  then show ?thesis using pq by (simp add: binade_def m_def n_def Let_def)
qed

lemma f64_nearest_int:
  assumes "n < 2 ^ 53"
  shows "f64_nearest (rat_of_nat n) = Finite (rat_of_nat n)"
proof (cases "n = 0")
  case False
  define a e where "a = rat_of_nat n" and "e = max (binade a - 52) (- 1074)"
  have "rat_of_nat n < 2 ^ 53" using assms by (metis of_nat_less_iff of_nat_numeral of_nat_power)
  then have a: "0 < a" "a < pow2 53" using False by (simp_all add: a_def pow2_def)
  have "binade a < 53"
  proof (rule ccontr)
    assume "\<not> binade a < 53"
    then have "pow2 53 \<le> pow2 (binade a)" by (intro pow2_mono) simp
    then show False using binade_le [OF a(1)] a(2) by simp
  qed
  then have e: "e \<le> 0" by (simp add: e_def)
  have scaled: "a / pow2 e = of_int (int n * 2 ^ nat (- e))"
    using e by (cases "e = 0") (simp_all add: pow2_def a_def)
  then have "of_int (round_half_even (a / pow2 e)) * pow2 e = a"
    by (metis round_half_even_int nonzero_eq_divide_eq pow2_pos less_irrefl)
  moreover have "\<not> pow2 1024 \<le> a" using a(2) pow2_mono [of 53 1024] by simp
  ultimately show ?thesis
    using a(1) by (simp add: f64_nearest_def Let_def flip: a_def e_def)
qed (simp add: f64_nearest_def)

lemma f64_scale_nat:
  assumes "n * k < 2 ^ 53"
  shows "f64_scale (Finite (rat_of_nat n)) (rat_of_nat k) = Finite (rat_of_nat (n * k))"
  using f64_nearest_int [OF assms] by simp

lemma f64_round_nat [simp]: "f64_round (Finite (rat_of_nat n)) = Finite (rat_of_nat n)"
proof -
  have "\<lfloor>rat_of_nat n + 1 / 2\<rfloor> = int n" by (rule floor_unique) simp_all
  then show ?thesis by simp
qed

lemma take_digits_all: "list_all is_ascii_digit ds \<Longrightarrow> take_digits ds = (ds, [])"
  by (simp add: take_digits_def list_all_iff takeWhile_eq_all_conv dropWhile_eq_Nil_conv)

lemma parse_f64_digits:
  assumes "list_all is_ascii_digit ds" "ds \<noteq> []" "digits_val 10 0 ds = Some n" "n < 2 ^ 53"
  shows "parse_f64 ds = Ok (Finite (rat_of_nat n))"
proof -
  have "\<not> starts_with ''-'' ds" "\<not> starts_with ''+'' ds"
    using no_sign [of ds] assms(1) hexdigit_if_digit by (auto simp: list_all_iff)
  then have "split_sign ds = (False, ds)" by (simp add: split_sign_def)
  then have "f64_decimal ds = Some (rat_of_nat n)"
    using assms(2,3) by (simp add: f64_decimal_def take_digits_all [OF assms(1)] parse_exponent_def digits_nat_def
        starts_with_def)
  then show ?thesis using assms(2) f64_nearest_int [OF assms(4)] by (simp add: parse_f64_def)
qed

end
