(* ===== verification/Config_Value.thy ===== *)
theory Config_Value
  imports Config_Types Rust_Float
begin

text \<open>
  The typed values of options (\<open>crates/pgbr-config/src/value.rs\<close>): the parser of each option type with
  its errors.
\<close>

section \<open>Errors\<close>

datatype value_error =
    VeInvalid option_type string string
  | VeInvalidPath string string
  | VeInvalidHashEntry string
  | VeSizeOverflow string

fun value_error_display :: "value_error \<Rightarrow> string" where
  "value_error_display (VeInvalid ty raw reason) =
     reason @ '': '' @ debug_str raw @ '' is not a valid '' @ option_type_as_str ty @ '' value''"
| "value_error_display (VeInvalidPath raw reason) =
     reason @ '': '' @ debug_str raw @ '' is not a valid path''"
| "value_error_display (VeInvalidHashEntry raw) =
     ''hash entry '' @ debug_str raw @ '' is not in `key=value` form''"
| "value_error_display (VeSizeOverflow raw) = ''size '' @ debug_str raw @ '' overflows u64''"

section \<open>Integers with their error kinds\<close>

datatype int_error = IntEmpty | InvalidDigit | PosOverflow | NegOverflow

fun int_error_text :: "int_error \<Rightarrow> string" where
  "int_error_text IntEmpty = ''cannot parse integer from empty string''"
| "int_error_text InvalidDigit = ''invalid digit found in string''"
| "int_error_text PosOverflow = ''number too large to fit in target type''"
| "int_error_text NegOverflow = ''number too small to fit in target type''"

text \<open>\<open>from_str\<close> of an integer type with the values from \<open>lo\<close> to \<open>hi\<close>, digit by digit from the left.\<close>

definition in_range :: "int \<Rightarrow> int \<Rightarrow> int \<Rightarrow> bool" where
  "in_range lo hi n = (lo \<le> n \<and> n \<le> hi)"

fun digits_checked :: "int \<Rightarrow> int \<Rightarrow> bool \<Rightarrow> int \<Rightarrow> string \<Rightarrow> (int_error, int) result" where
  "digits_checked lo hi neg acc [] = Ok acc"
| "digits_checked lo hi neg acc (c # cs) =
     (let overflow = Err (if neg then NegOverflow else PosOverflow) in
      case digit_val 10 c of
        None \<Rightarrow> Err InvalidDigit
      | Some d \<Rightarrow>
          if \<not> in_range lo hi (acc * 10) then overflow
          else
            let n = (if neg then acc * 10 - int d else acc * 10 + int d) in
            if \<not> in_range lo hi n then overflow else digits_checked lo hi neg n cs)"

definition int_from_str :: "int \<Rightarrow> int \<Rightarrow> string \<Rightarrow> (int_error, int) result" where
  "int_from_str lo hi s =
     (if s = [] then Err IntEmpty
      else if s = ''+'' \<or> s = ''-'' then Err InvalidDigit
      else if starts_with ''+'' s then digits_checked lo hi False 0 (drop 1 s)
      else if starts_with ''-'' s \<and> lo < 0 then digits_checked lo hi True 0 (drop 1 s)
      else digits_checked lo hi False 0 s)"

section \<open>The parsers\<close>

definition parse_boolean :: "string \<Rightarrow> (value_error, bool) result" where
  "parse_boolean raw =
     (let lc = map ascii_lower (trim raw) in
      if lc \<in> {''y'', ''yes'', ''true'', ''on'', ''1''} then Ok True
      else if lc \<in> {''n'', ''no'', ''false'', ''off'', ''0''} then Ok False
      else Err (VeInvalid TyBoolean raw ''expected y/n, yes/no, true/false''))"

definition parse_integer :: "string \<Rightarrow> (value_error, int) result" where
  "parse_integer raw =
     map_err (\<lambda>e. VeInvalid TyInteger raw (int_error_text e)) (int_from_str i64_min i64_max (trim raw))"

definition size_multiplier :: "string \<Rightarrow> nat option" where
  "size_multiplier s =
     (if s = [] \<or> s = ''b'' then Some 1
      else if s \<in> {''k'', ''kb'', ''kib''} then Some 1024
      else if s \<in> {''m'', ''mb'', ''mib''} then Some (1024 * 1024)
      else if s \<in> {''g'', ''gb'', ''gib''} then Some (1024 * 1024 * 1024)
      else if s \<in> {''t'', ''tb'', ''tib''} then Some (1024 ^ 4)
      else if s \<in> {''p'', ''pb'', ''pib''} then Some (1024 ^ 5)
      else None)"

definition parse_size :: "string \<Rightarrow> (value_error, nat) result" where
  "parse_size raw =
     (let trimmed = trim raw in
      if trimmed = [] then Err (VeInvalid TySize raw ''empty'')
      else
        let number = (\<lambda>c. is_ascii_digit c \<or> c = CHR ''-'');
            num_part = takeWhile number trimmed;
            suffix = map ascii_lower (trim (dropWhile number trimmed)) in
        case int_from_str 0 (int u64_bound - 1) num_part of
          Inl e \<Rightarrow> Err (VeInvalid TySize raw (''invalid number: '' @ int_error_text e))
        | Inr n \<Rightarrow> (case size_multiplier suffix of
            None \<Rightarrow> Err (VeInvalid TySize raw (''unknown size suffix `'' @ suffix @ ''`''))
          | Some k \<Rightarrow> if nat n * k < u64_bound then Ok (nat n * k) else Err (VeSizeOverflow raw)))"

definition time_multiplier :: "string \<Rightarrow> nat option" where
  "time_multiplier s =
     (if s = ''ms'' then Some 1
      else if s = [] \<or> s = ''s'' then Some 1000
      else if s = ''m'' then Some 60000
      else if s = ''h'' then Some 3600000
      else if s = ''d'' then Some 86400000
      else None)"

text \<open>\<open>u64::MAX as f64\<close> is \<open>2^64\<close>; the final cast saturates.\<close>

definition parse_time :: "string \<Rightarrow> (value_error, nat) result" where
  "parse_time raw =
     (let trimmed = trim raw in
      if trimmed = [] then Err (VeInvalid TyTime raw ''empty'')
      else
        let number = (\<lambda>c. is_ascii_digit c \<or> c \<in> {CHR ''-'', CHR ''+'', CHR ''.'', CHR ''e'', CHR ''E''});
            num_part = takeWhile number trimmed;
            suffix = map ascii_lower (trim (dropWhile number trimmed)) in
        case parse_f64 num_part of
          Inl e \<Rightarrow> Err (VeInvalid TyTime raw (''invalid number: '' @ e))
        | Inr v \<Rightarrow> (case time_multiplier suffix of
            None \<Rightarrow> Err (VeInvalid TyTime raw (''unknown time suffix `'' @ suffix @ ''`''))
          | Some k \<Rightarrow> (case f64_round (f64_scale v (rat_of_nat k)) of
              Infinite neg \<Rightarrow> Err (VeInvalid TyTime raw ''out of range'')
            | Finite millis \<Rightarrow>
                if millis < 0 \<or> rat_of_nat u64_bound < millis
                then Err (VeInvalid TyTime raw ''out of range'')
                else Ok (min (nat \<lfloor>millis\<rfloor>) (u64_bound - 1)))))"

definition contains_str :: "string \<Rightarrow> string \<Rightarrow> bool" where
  "contains_str p s = list_ex (starts_with p) (suffixes s)"

definition parse_path :: "string \<Rightarrow> (value_error, string) result" where
  "parse_path raw =
     (let trimmed = trim raw in
      if trimmed = [] then Err (VeInvalidPath raw ''empty'')
      else if \<not> starts_with ''/'' trimmed then Err (VeInvalidPath raw ''must begin with `/`'')
      else if contains_str ''//'' trimmed then Err (VeInvalidPath raw ''double-slash `//` not allowed'')
      else if 1 < length trimmed \<and> ends_with ''/'' trimmed
      then Err (VeInvalidPath raw ''trailing `/` not allowed'')
      else Ok trimmed)"

definition parse_list :: "string \<Rightarrow> string list" where
  "parse_list raw = filter (\<lambda>s. s \<noteq> []) (map trim (split_on (CHR '','') raw))"

definition parse_hash :: "string \<Rightarrow> (value_error, (string, string) btree) result" where
  "parse_hash raw = try_fold (\<lambda>entry out.
     case split_once (CHR ''='') entry of
       None \<Rightarrow> Err (VeInvalidHashEntry entry)
     | Some (key, value) \<Rightarrow> Ok (bt_insert (trim key) (trim value) out)) (parse_list raw) []"

definition parse_value :: "option_type \<Rightarrow> string \<Rightarrow> (value_error, option_value) result" where
  "parse_value ty raw = (case ty of
       TyBoolean \<Rightarrow> rbind (parse_boolean raw) (\<lambda>b. Ok (OvBoolean b))
     | TyInteger \<Rightarrow> rbind (parse_integer raw) (\<lambda>n. Ok (OvInteger n))
     | TySize \<Rightarrow> rbind (parse_size raw) (\<lambda>n. Ok (OvSize n))
     | TyTime \<Rightarrow> rbind (parse_time raw) (\<lambda>n. Ok (OvTime n))
     | TyPath \<Rightarrow> rbind (parse_path raw) (\<lambda>s. Ok (OvPath s))
     | TyString \<Rightarrow> Ok (OvString raw)
     | TyStringId \<Rightarrow> Ok (OvStringId raw)
     | TyList \<Rightarrow> Ok (OvList (parse_list raw))
     | TyHash \<Rightarrow> rbind (parse_hash raw) (\<lambda>h. Ok (OvHash h)))"

section \<open>A parsed value has its type and its bounds\<close>

text \<open>What the representation of each Rust type guarantees, and what a path is.\<close>

definition value_ok :: "option_value \<Rightarrow> bool" where
  "value_ok v = (case v of
       OvInteger n \<Rightarrow> in_range i64_min i64_max n
     | OvSize n \<Rightarrow> n < u64_bound
     | OvTime n \<Rightarrow> n < u64_bound
     | OvPath s \<Rightarrow> starts_with ''/'' s \<and> \<not> contains_str ''//'' s \<and> (1 < length s \<longrightarrow> \<not> ends_with ''/'' s)
     | OvList xs \<Rightarrow> [] \<notin> set xs
     | OvHash m \<Rightarrow> bt_ok m
     | _ \<Rightarrow> True)"

lemma digits_checked_range:
  "digits_checked lo hi neg acc cs = Ok n \<Longrightarrow> in_range lo hi acc \<Longrightarrow> in_range lo hi n"
  by (induction lo hi neg acc cs rule: digits_checked.induct)
     (auto simp: Let_def split: option.splits if_splits)

lemma int_from_str_range:
  "int_from_str lo hi s = Ok n \<Longrightarrow> lo \<le> 0 \<Longrightarrow> 0 \<le> hi \<Longrightarrow> in_range lo hi n"
  using digits_checked_range [of lo hi _ 0 _ n]
  by (auto simp: int_from_str_def in_range_def split: if_splits)

text \<open>A value that parses has the type it was parsed as, and lies in the range of that type; a path is
  absolute, without empty components and without a trailing slash; the keys of a hash are sorted and
  distinct.\<close>

theorem parse_value_typed:
  assumes "parse_value ty raw = Ok v"
  shows "option_type_of v = ty \<and> value_ok v"
proof (cases ty)
  case TyInteger
  then show ?thesis
    using assms int_from_str_range [of i64_min i64_max "trim raw"]
    by (auto simp: parse_value_def rbind_Inr_iff value_ok_def parse_integer_def)
next
  case TySize
  then show ?thesis
    using assms by (auto simp: parse_value_def rbind_Inr_iff value_ok_def parse_size_def Let_def
        split: if_splits sum.splits option.splits)
next
  case TyTime
  then show ?thesis
    using assms by (auto simp: parse_value_def rbind_Inr_iff value_ok_def parse_time_def Let_def min_def
        split: if_splits sum.splits option.splits f64.splits)
next
  case TyHash
  have "bt_ok m" if "parse_hash raw = Ok m" for m
    using that unfolding parse_hash_def
    by (rule try_fold_invariant [where P = bt_ok]) (auto split: option.splits prod.splits)
  then show ?thesis using assms TyHash by (auto simp: parse_value_def rbind_Inr_iff value_ok_def)
qed (use assms in \<open>auto simp: parse_value_def rbind_Inr_iff value_ok_def parse_path_def parse_list_def Let_def
      split: if_splits\<close>)

lemma parse_value_typed_witness:
  "option_type_of (OvList [''a'', ''b c'']) = TyList \<and> value_ok (OvList [''a'', ''b c''])"
proof (rule parse_value_typed)
  have "trim ''a'' = ''a''" "trim '' b c '' = ''b c''" "trim [] = []" by code_simp+
  then show "parse_value TyList ''a,, b c '' = Ok (OvList [''a'', ''b c''])"
    by (simp add: parse_value_def parse_list_def)
qed

section \<open>Sizes and times\<close>

lemma digits_val_ge: "digits_val radix acc cs = Some n \<Longrightarrow> 1 \<le> radix \<Longrightarrow> acc \<le> n"
proof (induction cs arbitrary: acc)
  case (Cons c cs)
  then obtain d where "digits_val radix (acc * radix + d) cs = Some n" by (auto split: option.splits)
  then have "acc * radix + d \<le> n" using Cons by simp
  moreover have "acc \<le> acc * radix" using Cons.prems(2) by simp
  ultimately show ?case by linarith
qed simp

lemma digits_checked_val:
  "digits_val 10 acc cs = Some n \<Longrightarrow> lo \<le> 0 \<Longrightarrow> int n \<le> hi \<Longrightarrow> digits_checked lo hi False (int acc) cs = Ok (int n)"
proof (induction cs arbitrary: acc)
  case (Cons c cs)
  then obtain d where d: "digit_val 10 c = Some d" "digits_val 10 (acc * 10 + d) cs = Some n"
    by (auto split: option.splits)
  then have "acc * 10 + d \<le> n" using digits_val_ge by fastforce
  then have "in_range lo hi (int acc * 10)" "in_range lo hi (int acc * 10 + int d)"
    using Cons.prems(2,3) by (simp_all add: in_range_def)
  then show ?case using d Cons.IH [of "acc * 10 + d"] Cons.prems(2,3) by (simp add: Let_def)
qed simp

definition ascii_letter :: "char \<Rightarrow> bool" where
  "ascii_letter c = ((65 \<le> char_code c \<and> char_code c \<le> 90) \<or> (97 \<le> char_code c \<and> char_code c \<le> 122))"

lemma letter_not_ws: "ascii_letter c \<Longrightarrow> c \<notin> ws_first \<and> c \<notin> ws_last"
  by (auto simp: ascii_letter_def ws_first_def ws_last_def char_code_def)

lemma ascii_lower_letter: "ascii_letter (ascii_lower c) \<Longrightarrow> ascii_letter c"
  by (auto simp: ascii_lower_def ascii_letter_def split: if_splits)

text \<open>A count followed by a unit is taken apart where the unit begins.\<close>

lemma count_text:
  assumes "list_all ascii_letter u" "\<And>c. c \<in> set u \<Longrightarrow> \<not> P c" "\<And>c. is_ascii_digit c \<Longrightarrow> P c"
  shows "trim (fmt_dec n @ u) = fmt_dec n @ u" "trim u = u"
    "takeWhile P (fmt_dec n @ u) = fmt_dec n" "dropWhile P (fmt_dec n @ u) = u"
proof -
  have end_ok: "tight_end (ds @ u)" if "tight_end ds" for ds
  proof (cases u rule: rev_cases)
    case (snoc xs x)
    then have "x \<notin> ws_last" using assms(1) letter_not_ws by simp
    then show ?thesis using snoc tight_end_snoc [of x "ds @ xs"] by simp
  qed (use that in simp)
  have dec: "\<forall>c \<in> set (fmt_dec n). is_ascii_hexdigit c" using fmt_dec_digits hexdigit_if_digit by blast
  have "tight_start (fmt_dec n @ u)" "tight_end (fmt_dec n)"
    using hex_text_tight(1) [OF dec] hex_text_tight(2) [OF dec, of "[]"] by simp_all
  then show "trim (fmt_dec n @ u) = fmt_dec n @ u" using end_ok by (intro trim_tight)
  have "tight_start u"
    using assms(1) letter_not_ws by (cases u) auto
  then show "trim u = u" using end_ok [of "[]"] by (simp add: trim_tight)
  have all: "\<forall>c \<in> set (fmt_dec n). P c" using fmt_dec_digits assms(3) by blast
  have none: "takeWhile P u = []" "dropWhile P u = u"
    using assms(2) by (cases u; simp)+
  show "takeWhile P (fmt_dec n @ u) = fmt_dec n" "dropWhile P (fmt_dec n @ u) = u"
    using all none by simp_all
qed

lemma int_from_str_dec: "int n \<le> hi \<Longrightarrow> lo \<le> 0 \<Longrightarrow> int_from_str lo hi (fmt_dec n) = Ok (int n)"
proof -
  have "\<forall>c \<in> set (fmt_dec n). is_ascii_hexdigit c" using fmt_dec_digits hexdigit_if_digit by blast
  note signs = no_sign [OF this]
  then have "fmt_dec n \<noteq> ''+''" "fmt_dec n \<noteq> ''-''" by (auto simp: starts_with_def)
  moreover have "digits_val 10 0 (fmt_dec n) = Some n"
    by (simp add: fmt_dec_def digits_val_fmt_radix)
  moreover assume "int n \<le> hi" "lo \<le> 0"
  ultimately show ?thesis
    using signs digits_checked_val [of 0 "fmt_dec n" n lo hi] by (simp add: int_from_str_def)
qed

lemma size_letters:
  assumes "size_multiplier (map ascii_lower u) = Some k"
  shows "list_all ascii_letter u"
proof -
  have "list_all ascii_letter (map ascii_lower u)"
    using assms by (auto simp: size_multiplier_def ascii_letter_def char_code_def split: if_splits)
  then show ?thesis using ascii_lower_letter by (auto simp: list_all_iff)
qed

lemma time_letters:
  assumes "time_multiplier (map ascii_lower u) = Some k"
  shows "list_all ascii_letter u" "CHR ''e'' \<notin> set u" "CHR ''E'' \<notin> set u"
proof -
  have "list_all ascii_letter (map ascii_lower u)" and e: "CHR ''e'' \<notin> set (map ascii_lower u)"
    using assms by (auto simp: time_multiplier_def ascii_letter_def char_code_def split: if_splits)
  then show "list_all ascii_letter u" using ascii_lower_letter by (auto simp: list_all_iff)
  have "ascii_lower (CHR ''e'') = CHR ''e''" "ascii_lower (CHR ''E'') = CHR ''e''" by code_simp+
  with e show "CHR ''e'' \<notin> set u" "CHR ''E'' \<notin> set u" by (metis image_eqI list.set_map)+
qed

text \<open>A size is the count times the power of 1024 its suffix names, in any letter case; what does not fit
  64 bits is reported as an overflow and never wraps.\<close>

theorem parse_size_exact:
  assumes "n < u64_bound" "size_multiplier (map ascii_lower u) = Some k"
  shows "parse_size (fmt_dec n @ u) =
    (if n * k < u64_bound then Ok (n * k) else Err (VeSizeOverflow (fmt_dec n @ u)))"
proof -
  let ?P = "\<lambda>c. is_ascii_digit c \<or> c = CHR ''-''"
  note letters = size_letters [OF assms(2)]
  have "\<not> ?P c" if "c \<in> set u" for c
    using that letters by (auto simp: list_all_iff ascii_letter_def is_ascii_digit_def)
  note parts = count_text [OF letters this]
  show ?thesis
    using assms int_from_str_dec [of n "int u64_bound - 1" 0] by (simp add: parse_size_def Let_def parts)
qed

lemma parse_size_exact_witness: "parse_size (fmt_dec 3 @ ''KiB'') = Ok 3072"
proof -
  have "map ascii_lower ''KiB'' = ''kib''" by code_simp
  then show ?thesis using parse_size_exact [of 3 "''KiB''" 1024] by (simp add: size_multiplier_def)
qed

text \<open>A whole number of milliseconds, seconds, minutes, hours or days is converted exactly, although it goes
  through floating point, as long as the count and the result are below \<open>2^53\<close>.\<close>

theorem parse_time_exact:
  assumes "time_multiplier (map ascii_lower u) = Some k" "n * k < 2 ^ 53"
  shows "parse_time (fmt_dec n @ u) = Ok (n * k)"
proof -
  let ?P = "\<lambda>c. is_ascii_digit c \<or> c \<in> {CHR ''-'', CHR ''+'', CHR ''.'', CHR ''e'', CHR ''E''}"
  note letters = time_letters [OF assms(1)]
  have "\<not> ?P c" if "c \<in> set u" for c
    using that letters by (auto simp: list_all_iff ascii_letter_def is_ascii_digit_def char_code_def)
  note parts = count_text [OF letters(1) this, simplified]
  have k: "1 \<le> k" using assms(1) by (auto simp: time_multiplier_def split: if_splits)
  then have "n \<le> n * k" by simp
  then have n: "n < 2 ^ 53" using assms(2) by (rule le_less_trans)
  have "parse_f64 (fmt_dec n) = Ok (Finite (rat_of_nat n))"
    using n by (intro parse_f64_digits) (auto simp: list_all_iff fmt_dec_digits fmt_dec_def digits_val_fmt_radix
        dest: fmt_dec_digits [unfolded fmt_dec_def])
  moreover have "f64_round (f64_scale (Finite (rat_of_nat n)) (rat_of_nat k)) = Finite (rat_of_nat (n * k))"
    using f64_scale_nat [OF assms(2)] f64_round_nat [of "n * k"] by (simp only:)
  moreover have "\<not> rat_of_nat u64_bound < rat_of_nat (n * k)" "n * k \<le> u64_bound - 1"
    using assms(2) by (simp_all only: of_nat_less_iff) simp_all
  moreover have "nat \<lfloor>rat_of_nat (n * k)\<rfloor> = n * k" by (simp only: floor_of_nat nat_int)
  moreover have "\<not> rat_of_nat (n * k) < 0" by (simp only: of_nat_less_0_iff not_False_eq_True)
  ultimately show ?thesis
    using assms(1) by (simp add: parse_time_def parts del: of_nat_mult of_nat_numeral f64_scale.simps f64_round.simps)
qed

lemma parse_time_exact_witness: "parse_time (fmt_dec 5 @ ''m'') = Ok 300000"
proof -
  have "map ascii_lower ''m'' = ''m''" by code_simp
  then show ?thesis using parse_time_exact [of "''m''" 60000 5] by (simp add: time_multiplier_def)
qed

end
