(* ===== verification/Config_Model.thy ===== *)
theory Config_Model
  imports Config_Value
begin

text \<open>
  The compiled configuration model (\<open>crates/pgbr-config/src/command.rs\<close>, \<open>option.rs\<close>, \<open>compile.rs\<close>).
  Defaults and allow lists are YAML values of \<open>serde_yml\<close>, which is not part of the repository: its
  constructors are those of its \<open>Value\<close>, a number is opaque, and what the code calls on both (printing a
  number, reading it as an integer, reading a value as a text) is the parameter \<open>yaml_api\<close>.
\<close>

datatype 'n yaml =
    YNull
  | YBool bool
  | YNumber 'n
  | YString string
  | YSequence "'n yaml list"
  | YMapping "('n yaml \<times> 'n yaml) list"
  | YTagged string "'n yaml"

record 'n yaml_api =
  yn_to_string :: "'n \<Rightarrow> string"
  yn_as_i64 :: "'n \<Rightarrow> int option"
  yv_as_str :: "'n yaml \<Rightarrow> string option"

record cfg_command =
  cc_name :: string
  cc_roles :: "config_command_role list"
  cc_lock_type :: lock_type
  cc_lock_required :: bool
  cc_lock_remote_required :: bool
  cc_log_file :: bool
  cc_log_level_default :: "string option"
  cc_parameter_allowed :: bool
  cc_internal :: bool

definition has_role :: "cfg_command \<Rightarrow> config_command_role \<Rightarrow> bool" where
  "has_role cmd role = (role \<in> set (cc_roles cmd))"

record 'n resolved_depend =
  rd_option :: string
  rd_list :: "'n yaml list option"
  rd_default :: "'n yaml option"

record 'n command_usage =
  cu_default :: "'n yaml option"
  cu_required :: "bool option"
  cu_internal :: "bool option"
  cu_depend :: "'n resolved_depend option"
  cu_allow_list :: "'n yaml list option"
  cu_sequence :: "bool option"
  cu_roles :: "config_command_role list"

definition default_usage :: "'n command_usage" where
  "default_usage = \<lparr>cu_default = None, cu_required = None, cu_internal = None, cu_depend = None,
     cu_allow_list = None, cu_sequence = None, cu_roles = []\<rparr>"

record 'n cfg_option =
  co_name :: string
  co_type :: option_type
  co_section :: "option_section option"
  co_group :: "option_group option"
  co_default :: "'n yaml option"
  co_default_type :: "default_type option"
  co_negate :: bool
  co_reset :: bool
  co_sequence :: bool
  co_internal :: bool
  co_secure :: bool
  co_required :: bool
  co_bool_like :: bool
  co_beta :: bool
  co_allow_list :: "'n yaml list option"
  co_allow_range :: "'n yaml option"
  co_depend :: "'n resolved_depend option"
  co_deprecate :: "string list"
  co_roles :: "config_command_role list"
  co_commands :: "(string, 'n command_usage) btree"
  co_inherits_from :: "string option"

text \<open>The option the resolution of an option without a parent starts from.\<close>

definition base_option :: "string \<Rightarrow> 'n cfg_option" where
  "base_option name = \<lparr>co_name = name, co_type = TyString, co_section = None, co_group = None, co_default = None,
     co_default_type = None, co_negate = False, co_reset = False, co_sequence = False, co_internal = False,
     co_secure = False, co_required = False, co_bool_like = False, co_beta = False, co_allow_list = None,
     co_allow_range = None, co_depend = None, co_deprecate = [], co_roles = [], co_commands = [],
     co_inherits_from = None\<rparr>"

record 'n cfg =
  cfg_commands :: "(string, cfg_command) btree"
  cfg_options :: "(string, 'n cfg_option) btree"
  cfg_option_groups :: "option_group list"

section \<open>Keys of grouped options\<close>

text \<open>
  \<open>repo1-path\<close> is option \<open>repo-path\<close> at index 1. \<open>split_group_key\<close> takes such a key apart for one grp
  prefix; \<open>raw_key_for\<close> is the inverse, shared by the environment and the configuration file.
\<close>

definition split_group_key :: "string \<Rightarrow> string \<Rightarrow> (string \<times> string) option" where
  "split_group_key p raw_key = (case strip_prefix p raw_key of
       None \<Rightarrow> None
     | Some after_prefix \<Rightarrow>
         let digits = takeWhile is_ascii_digit after_prefix; rest = dropWhile is_ascii_digit after_prefix in
         if digits = [] \<or> \<not> starts_with ''-'' rest then None
         else Some (digits, p @ ''-'' @ drop 1 rest))"

definition group_prefixes :: "(string \<times> option_group) list" where
  "group_prefixes = [(''pg'', GrpPg), (''repo'', GrpRepo)]"

definition strip_prefix_or :: "string \<Rightarrow> string \<Rightarrow> string" where
  "strip_prefix_or p s = (case strip_prefix p s of Some r \<Rightarrow> r | None \<Rightarrow> s)"

definition raw_key_for :: "string \<Rightarrow> option_group option \<Rightarrow> nat option \<Rightarrow> string" where
  "raw_key_for option_name grp index = (case (grp, index) of
       (Some GrpPg, Some idx) \<Rightarrow> ''pg'' @ fmt_dec idx @ ''-'' @ strip_prefix_or ''pg-'' option_name
     | (Some GrpRepo, Some idx) \<Rightarrow> ''repo'' @ fmt_dec idx @ ''-'' @ strip_prefix_or ''repo-'' option_name
     | _ \<Rightarrow> option_name)"

text \<open>\<open>decode_grouped_key\<close> of the merge: a key of the configuration file that names a grouped option.\<close>

fun decode_grouped_in :: "(string \<times> option_group) list \<Rightarrow> string \<Rightarrow> 'n cfg \<Rightarrow> (string \<times> nat) option" where
  "decode_grouped_in [] raw_key cfg = None"
| "decode_grouped_in ((p, grp) # ps) raw_key cfg =
     (case split_group_key p raw_key of
        None \<Rightarrow> decode_grouped_in ps raw_key cfg
      | Some (digits, canonical) \<Rightarrow> (case bt_get (cfg_options cfg) canonical of
            None \<Rightarrow> decode_grouped_in ps raw_key cfg
          | Some opt \<Rightarrow>
              if co_group opt = Some grp
              then (case parse_u32 digits of
                  Some idx \<Rightarrow> Some (canonical, idx)
                | None \<Rightarrow> decode_grouped_in ps raw_key cfg)
              else decode_grouped_in ps raw_key cfg))"

definition decode_grouped_key :: "string \<Rightarrow> 'n cfg \<Rightarrow> (string \<times> nat) option" where
  "decode_grouped_key raw_key cfg = decode_grouped_in group_prefixes raw_key cfg"

lemma split_group_key_made:
  "split_group_key p (p @ fmt_dec idx @ ''-'' @ rest) = Some (fmt_dec idx, p @ ''-'' @ rest)"
proof -
  have "\<forall>c \<in> set (fmt_dec idx). is_ascii_digit c" using fmt_dec_digits by blast
  then have "takeWhile is_ascii_digit (fmt_dec idx @ ''-'' @ rest) = fmt_dec idx"
    "dropWhile is_ascii_digit (fmt_dec idx @ ''-'' @ rest) = ''-'' @ rest"
    by (simp_all add: is_ascii_digit_def)
  then show ?thesis by (simp add: split_group_key_def starts_with_def)
qed

lemma split_group_key_other: "hd p \<noteq> hd q \<Longrightarrow> p \<noteq> [] \<Longrightarrow> q \<noteq> [] \<Longrightarrow> split_group_key p (q @ r) = None"
  by (cases p; cases q) (auto simp: split_group_key_def strip_prefix_def starts_with_def)

text \<open>Decoding a key undoes its printing: the key written for an option of a group at an index names
  that option at that index.\<close>

theorem group_key_roundtrip:
  assumes "bt_get (cfg_options cfg) name = Some opt" "co_group opt = Some grp" "idx < u32_bound"
    and "name = option_group_as_str grp @ ''-'' @ rest"
  shows "decode_grouped_key (raw_key_for name (Some grp) (Some idx)) cfg = Some (name, idx)"
proof (cases grp)
  case GrpPg
  then have key: "raw_key_for name (Some grp) (Some idx) = ''pg'' @ fmt_dec idx @ ''-'' @ rest"
    using assms(4) by (simp add: raw_key_for_def strip_prefix_or_def strip_prefix_def starts_with_def)
  show ?thesis
    using assms GrpPg unfolding key decode_grouped_key_def group_prefixes_def
    by (simp add: split_group_key_made [of "''pg''" idx rest, simplified])
next
  case GrpRepo
  then have key: "raw_key_for name (Some grp) (Some idx) = ''repo'' @ fmt_dec idx @ ''-'' @ rest"
    using assms(4) by (simp add: raw_key_for_def strip_prefix_or_def strip_prefix_def starts_with_def)
  show ?thesis
    using assms GrpRepo split_group_key_other [of "''pg''" "''repo''" "fmt_dec idx @ ''-'' @ rest"]
    unfolding key decode_grouped_key_def group_prefixes_def
    by (simp add: split_group_key_made [of "''repo''" idx rest, simplified])
qed

definition group_cfg :: "int cfg" where
  "group_cfg = \<lparr>cfg_commands = [],
     cfg_options = [(''repo-path'', (base_option ''repo-path'')\<lparr>co_group := Some GrpRepo\<rparr>)], cfg_option_groups = []\<rparr>"

lemma group_key_roundtrip_witness:
  "decode_grouped_key (raw_key_for ''repo-path'' (Some GrpRepo) (Some 12)) group_cfg = Some (''repo-path'', 12)"
proof (rule group_key_roundtrip)
  show "bt_get (cfg_options group_cfg) ''repo-path'' = Some ((base_option ''repo-path'')\<lparr>co_group := Some GrpRepo\<rparr>)"
    by (simp add: group_cfg_def bt_get_def)
  show "''repo-path'' = option_group_as_str GrpRepo @ ''-'' @ ''path''" by simp
qed (simp_all add: base_option_def)

end
