(* ===== verification/Config_Cli.thy ===== *)
theory Config_Cli
  imports Config_Model
begin

text \<open>
  The command line (\<open>crates/pgbr-config/src/cli.rs\<close>) and the environment (\<open>env.rs\<close>): the tokenizer, the
  resolution of its entries against the compiled model, and the collection of the option variables.
\<close>

section \<open>Tokenizing\<close>

datatype cli_modifier = ModNone | ModNegate | ModReset

record cli_option_entry =
  oe_raw_key :: string
  oe_modifier :: cli_modifier
  oe_value :: "string option"

record cli_input =
  ci_command :: "string option"
  ci_command_role :: "string option"
  ci_options :: "cli_option_entry list"
  ci_params :: "string list"

datatype cli_error = CliMissingValue string | CliEmptyKey | SingleDashOption string

fun cli_error_display :: "cli_error \<Rightarrow> string" where
  "cli_error_display (CliMissingValue key) = ''option `--'' @ key @ ''` is missing its value''"
| "cli_error_display CliEmptyKey = ''option key is empty''"
| "cli_error_display (SingleDashOption opt) =
     ''option `-'' @ opt @ ''` must be written with two dashes '' @ [CHR 0xE2, CHR 0x80, CHR 0x94] @
     '' did you mean `--'' @ opt @ ''`?''"

definition empty_input :: cli_input where
  "empty_input = \<lparr>ci_command = None, ci_command_role = None, ci_options = [], ci_params = []\<rparr>"

definition push_positional :: "string \<Rightarrow> cli_input \<Rightarrow> cli_input" where
  "push_positional arg out =
     (if ci_command out = None
      then (case split_once (CHR '':'') arg of
          Some (cmd, role) \<Rightarrow> out\<lparr>ci_command := Some cmd, ci_command_role := Some role\<rparr>
        | None \<Rightarrow> out\<lparr>ci_command := Some arg\<rparr>)
      else out\<lparr>ci_params := ci_params out @ [arg]\<rparr>)"

definition strip_modifier :: "string \<Rightarrow> cli_modifier \<times> string" where
  "strip_modifier raw_key = (case strip_prefix ''no-'' raw_key of
       Some rest \<Rightarrow> (ModNegate, rest)
     | None \<Rightarrow> (case strip_prefix ''reset-'' raw_key of
           Some rest \<Rightarrow> (ModReset, rest)
         | None \<Rightarrow> (ModNone, raw_key)))"

definition cli_entry :: "string \<Rightarrow> (cli_error, cli_option_entry) result" where
  "cli_entry after_dashes =
     (let (raw_key, inline_value) = (case split_once (CHR ''='') after_dashes of
            Some (k, v) \<Rightarrow> (k, Some v)
          | None \<Rightarrow> (after_dashes, None)) in
      if raw_key = [] then Err CliEmptyKey
      else
        let (modifier, key) = strip_modifier raw_key in
        Ok \<lparr>oe_raw_key = key, oe_modifier = modifier,
            oe_value = (if modifier = ModNone then inline_value else None)\<rparr>)"

fun parse_args :: "string list \<Rightarrow> cli_input \<Rightarrow> (cli_error, cli_input) result" where
  "parse_args [] out = Ok out"
| "parse_args (arg # args) out = (case strip_prefix ''--'' arg of
       Some after_dashes \<Rightarrow>
         if after_dashes = [] then Ok (fold push_positional args out)
         else rbind (cli_entry after_dashes) (\<lambda>e. parse_args args (out\<lparr>ci_options := ci_options out @ [e]\<rparr>))
     | None \<Rightarrow> (case strip_prefix ''-'' arg of
           Some rest \<Rightarrow>
             if rest = [] then parse_args args (push_positional arg out)
             else Err (SingleDashOption (case split_once (CHR ''='') rest of None \<Rightarrow> rest | Some (name, _) \<Rightarrow> name))
         | None \<Rightarrow> parse_args args (push_positional arg out)))"

definition parse_cli :: "string list \<Rightarrow> (cli_error, cli_input) result" where
  "parse_cli args = parse_args args empty_input"

section \<open>Resolution\<close>

record resolved_cli =
  rc_command :: string
  rc_command_role :: config_command_role
  rc_options :: option_map
  rc_resets :: "option_key list"
  rc_params :: "string list"

datatype cli_resolve_error =
    RMissingCommand
  | RUnknownCommand string
  | RUnknownRole string string
  | RRoleNotValidForCommand string config_command_role
  | RUnknownOption string string
  | ROptionNotValidForCommand string string
  | RNegateNotAllowed string
  | RMissingValue string
  | RResetNotAllowed string
  | RParametersNotAllowed string nat
  | RValueParse string value_error
  | RInvalidGroupIndex string string

fun cli_resolve_error_display :: "cli_resolve_error \<Rightarrow> string" where
  "cli_resolve_error_display RMissingCommand = ''no command supplied''"
| "cli_resolve_error_display (RUnknownCommand command) = ''unknown command `'' @ command @ ''`''"
| "cli_resolve_error_display (RUnknownRole command role) =
     ''command `'' @ command @ ''`: unknown role `'' @ role @ ''`''"
| "cli_resolve_error_display (RRoleNotValidForCommand command role) =
     ''command `'' @ command @ ''` does not declare role `'' @ role_as_str role @ ''`''"
| "cli_resolve_error_display (RUnknownOption command opt) =
     ''command `'' @ command @ ''`: unknown option `'' @ opt @ ''`''"
| "cli_resolve_error_display (ROptionNotValidForCommand command opt) =
     ''option `'' @ opt @ ''` is not valid for command `'' @ command @ ''`''"
| "cli_resolve_error_display (RNegateNotAllowed opt) = ''option `'' @ opt @ ''` does not allow `--no-` negation''"
| "cli_resolve_error_display (RMissingValue opt) = ''option `'' @ opt @ ''` requires a value''"
| "cli_resolve_error_display (RResetNotAllowed opt) = ''option `'' @ opt @ ''` does not allow `--reset-`''"
| "cli_resolve_error_display (RParametersNotAllowed command count) =
     ''command `'' @ command @ ''` does not accept positional parameters (got '' @ fmt_dec count @ '')''"
| "cli_resolve_error_display (RValueParse opt error) = ''option `'' @ opt @ ''`: '' @ value_error_display error"
| "cli_resolve_error_display (RInvalidGroupIndex opt raw) =
     ''option `'' @ opt @ ''`: invalid group index in `'' @ raw @ ''`''"

fun decode_option_in ::
  "(string \<times> option_group) list \<Rightarrow> string \<Rightarrow> 'n cfg \<Rightarrow> string \<Rightarrow> (cli_resolve_error, option_key) result" where
  "decode_option_in [] raw_key cfg command = Err (RUnknownOption command raw_key)"
| "decode_option_in ((p, grp) # ps) raw_key cfg command =
     (case split_group_key p raw_key of
        None \<Rightarrow> decode_option_in ps raw_key cfg command
      | Some (digits, canonical) \<Rightarrow> (case bt_get (cfg_options cfg) canonical of
            None \<Rightarrow> decode_option_in ps raw_key cfg command
          | Some opt \<Rightarrow>
              if co_group opt \<noteq> Some grp then Err (RInvalidGroupIndex canonical raw_key)
              else (case parse_u32 digits of
                  None \<Rightarrow> Err (RInvalidGroupIndex canonical raw_key)
                | Some idx \<Rightarrow> Ok (canonical, Some idx))))"

definition decode_option_key :: "string \<Rightarrow> 'n cfg \<Rightarrow> string \<Rightarrow> (cli_resolve_error, option_key) result" where
  "decode_option_key raw_key cfg command =
     (if bt_contains (cfg_options cfg) raw_key then Ok (raw_key, None)
      else decode_option_in group_prefixes raw_key cfg command)"

text \<open>A repeated hash or list accumulates, everything else is overwritten.\<close>

definition bt_extend :: "('k::linorder, 'v) btree \<Rightarrow> ('k, 'v) btree \<Rightarrow> ('k, 'v) btree" where
  "bt_extend m add = fold (\<lambda>(k, v). bt_insert k v) add m"

fun accumulate :: "option_value option \<Rightarrow> option_value \<Rightarrow> option_value" where
  "accumulate (Some (OvHash m)) (OvHash add) = OvHash (bt_extend m add)"
| "accumulate (Some (OvList xs)) (OvList add) = OvList (xs @ add)"
| "accumulate _ v = v"

type_synonym cli_state = "option_map \<times> option_key list"

definition resolve_entry ::
  "'n cfg \<Rightarrow> string \<Rightarrow> cli_option_entry \<Rightarrow> cli_state \<Rightarrow> (cli_resolve_error, cli_state) result" where
  "resolve_entry cfg command entry st =
     (let (options, resets) = st in
      rbind (decode_option_key (oe_raw_key entry) cfg command) (\<lambda>(name, idx).
      case bt_get (cfg_options cfg) name of
        None \<Rightarrow> Err (RUnknownOption command name)
      | Some opt \<Rightarrow>
          if \<not> bt_contains (co_commands opt) command then Err (ROptionNotValidForCommand command name)
          else (case oe_modifier entry of
              ModNegate \<Rightarrow>
                if \<not> co_negate opt then Err (RNegateNotAllowed name)
                else Ok (bt_insert (name, idx) (OvBoolean False) options, resets)
            | ModReset \<Rightarrow>
                if \<not> co_reset opt then Err (RResetNotAllowed name)
                else Ok (bt_remove (name, idx) options, bs_insert (name, idx) resets)
            | ModNone \<Rightarrow> (case oe_value entry of
                  None \<Rightarrow>
                    if co_type opt = TyBoolean then Ok (bt_insert (name, idx) (OvBoolean True) options, resets)
                    else Err (RMissingValue name)
                | Some raw \<Rightarrow>
                    rbind (map_err (RValueParse name) (parse_value (co_type opt) raw)) (\<lambda>v.
                      Ok (bt_insert (name, idx) (accumulate (bt_get options (name, idx)) v) options, resets))))))"

definition resolve_role ::
  "cfg_command \<Rightarrow> string \<Rightarrow> string option \<Rightarrow> (cli_resolve_error, config_command_role) result" where
  "resolve_role cmd_def command raw_role = (case raw_role of
       None \<Rightarrow> Ok RoleMain
     | Some raw \<Rightarrow> (case role_parse raw of
           None \<Rightarrow> Err (RUnknownRole command raw)
         | Some role \<Rightarrow>
             if has_role cmd_def role then Ok role else Err (RRoleNotValidForCommand command role)))"

definition resolve_cli :: "cli_input \<Rightarrow> 'n cfg \<Rightarrow> (cli_resolve_error, resolved_cli) result" where
  "resolve_cli input cfg =
     rbind (ok_or RMissingCommand (ci_command input)) (\<lambda>command.
     rbind (ok_or (RUnknownCommand command) (bt_get (cfg_commands cfg) command)) (\<lambda>cmd_def.
     rbind (resolve_role cmd_def command (ci_command_role input)) (\<lambda>role.
     rbind (try_fold (resolve_entry cfg command) (ci_options input) ([], [])) (\<lambda>(options, resets).
       if ci_params input \<noteq> [] \<and> \<not> cc_parameter_allowed cmd_def
       then Err (RParametersNotAllowed command (length (ci_params input)))
       else Ok \<lparr>rc_command = command, rc_command_role = role, rc_options = options, rc_resets = resets,
           rc_params = ci_params input\<rparr>))))"

section \<open>The environment\<close>

text \<open>
  \<open>to_uppercase\<close> is written out for ASCII, which is what option names are made of; other characters are
  copied.
\<close>

definition ascii_upper :: "char \<Rightarrow> char" where
  "ascii_upper c = (if 97 \<le> char_code c \<and> char_code c \<le> 122 then char_of (char_code c - 32) else c)"

definition option_env_name :: "string \<Rightarrow> string" where
  "option_env_name option_with_index =
     ''PGBACKRUST_'' @ map (\<lambda>c. if c = CHR ''-'' then CHR ''_'' else ascii_upper c) option_with_index"

abbreviation GROUP_INDEX_MAX :: nat where "GROUP_INDEX_MAX \<equiv> 256"

definition read_non_empty :: "(string \<Rightarrow> string option) \<Rightarrow> string \<Rightarrow> string option" where
  "read_non_empty lookup name = (case lookup name of
       Some v \<Rightarrow> if v \<noteq> [] then Some v else None
     | None \<Rightarrow> None)"

type_synonym env_values = "(option_key, string) btree"

definition env_keys :: "string \<Rightarrow> option_group option \<Rightarrow> nat option list" where
  "env_keys name grp = (case grp of None \<Rightarrow> [None] | Some _ \<Rightarrow> map Some [1..<Suc GROUP_INDEX_MAX])"

definition collect_option_env ::
  "(string \<Rightarrow> string option) \<Rightarrow> string \<times> 'n cfg_option \<Rightarrow> env_values \<Rightarrow> env_values" where
  "collect_option_env lookup named out =
     (let (name, opt) = named in
      fold (\<lambda>idx out. case read_non_empty lookup (option_env_name (raw_key_for name (co_group opt) idx)) of
              Some v \<Rightarrow> bt_insert (name, idx) v out
            | None \<Rightarrow> out) (env_keys name (co_group opt)) out)"

definition collect_env :: "'n cfg \<Rightarrow> (string \<Rightarrow> string option) \<Rightarrow> env_values" where
  "collect_env cfg lookup = fold (collect_option_env lookup) (cfg_options cfg) []"

end
