(* ===== verification/Config_Ini.thy ===== *)
theory Config_Ini
  imports Rust_Str Rust_Num
begin

text \<open>
  The configuration file (\<open>crates/pgbr-config/src/ini.rs\<close>): its sections, the line parser, and what it
  makes of a document.
\<close>

section \<open>Sections\<close>

datatype ini_section =
    IniGlobal
  | IniGlobalCommand string
  | IniStanza string
  | IniStanzaCommand string string

text \<open>The derived order: by constructor, then by the fields.\<close>

fun section_rank :: "ini_section \<Rightarrow> nat \<times> string \<times> string" where
  "section_rank IniGlobal = (0, [], [])"
| "section_rank (IniGlobalCommand c) = (1, c, [])"
| "section_rank (IniStanza s) = (2, s, [])"
| "section_rank (IniStanzaCommand s c) = (3, s, c)"

lemma section_rank_inject [simp]: "section_rank a = section_rank b \<longleftrightarrow> a = b"
  by (cases a; cases b) simp_all

instantiation ini_section :: linorder
begin

definition less_eq_ini_section :: "ini_section \<Rightarrow> ini_section \<Rightarrow> bool" where
  "less_eq_ini_section a b = (section_rank a \<le> section_rank b)"

definition less_ini_section :: "ini_section \<Rightarrow> ini_section \<Rightarrow> bool" where
  "less_ini_section a b = (section_rank a < section_rank b)"

instance
proof
  fix x y z :: ini_section
  show "x < y \<longleftrightarrow> x \<le> y \<and> \<not> y \<le> x" by (auto simp: less_eq_ini_section_def less_ini_section_def less_le_not_le)
  show "x \<le> x" by (simp add: less_eq_ini_section_def)
  show "x \<le> y \<Longrightarrow> y \<le> z \<Longrightarrow> x \<le> z" by (auto simp: less_eq_ini_section_def)
  show "x \<le> y \<Longrightarrow> y \<le> x \<Longrightarrow> x = y" by (auto simp: less_eq_ini_section_def)
  show "x \<le> y \<or> y \<le> x" by (auto simp: less_eq_ini_section_def)
qed

end

definition ini_section_parse :: "string \<Rightarrow> ini_section" where
  "ini_section_parse raw =
     (let trimmed = trim raw in
      case split_once (CHR '':'') trimmed of
        Some (stanza, command) \<Rightarrow>
          if stanza = ''global'' then IniGlobalCommand command else IniStanzaCommand stanza command
      | None \<Rightarrow> if trimmed = ''global'' then IniGlobal else IniStanza trimmed)"

type_synonym ini_file = "(ini_section, (string, string list) btree) btree"

section \<open>Errors\<close>

datatype ini_error =
    KeyOutsideSection nat string
  | UnterminatedSection nat string
  | MissingEquals nat string
  | IniEmptyKey nat

fun ini_error_display :: "ini_error \<Rightarrow> string" where
  "ini_error_display (KeyOutsideSection line content) =
     ''line '' @ fmt_dec line @ '': key/value `'' @ content @ ''` is outside any section''"
| "ini_error_display (UnterminatedSection line content) =
     ''line '' @ fmt_dec line @ '': unterminated section header `'' @ content @ ''`''"
| "ini_error_display (MissingEquals line content) =
     ''line '' @ fmt_dec line @ '': line `'' @ content @ ''` has no `=` separator''"
| "ini_error_display (IniEmptyKey line) = ''line '' @ fmt_dec line @ '': key is empty''"

section \<open>The parser\<close>

definition strip_comment :: "string \<Rightarrow> string" where
  "strip_comment line = (case split_once (CHR ''#'') line of None \<Rightarrow> line | Some (before, _) \<Rightarrow> before)"

definition ini_rows :: "ini_file \<Rightarrow> ini_section \<Rightarrow> (string, string list) btree" where
  "ini_rows file sec = (case bt_get file sec of None \<Rightarrow> [] | Some rows \<Rightarrow> rows)"

definition ini_values :: "ini_file \<Rightarrow> ini_section \<Rightarrow> string \<Rightarrow> string list" where
  "ini_values file sec key = (case bt_get (ini_rows file sec) key of None \<Rightarrow> [] | Some vs \<Rightarrow> vs)"

definition ini_push :: "ini_section \<Rightarrow> string \<Rightarrow> string \<Rightarrow> ini_file \<Rightarrow> ini_file" where
  "ini_push sec key v file =
     bt_insert sec (bt_insert key (ini_values file sec key @ [v]) (ini_rows file sec)) file"

definition ini_line ::
  "nat \<times> string \<Rightarrow> ini_file \<times> ini_section option \<Rightarrow> (ini_error, ini_file \<times> ini_section option) result" where
  "ini_line numbered st =
     (let (line_no, raw_line) = numbered; (out, current) = st; trimmed = trim (strip_comment raw_line) in
      if trimmed = [] then Ok st
      else case strip_prefix ''['' trimmed of
        Some rest \<Rightarrow> (case strip_suffix '']'' rest of
            None \<Rightarrow> Err (UnterminatedSection line_no raw_line)
          | Some inner \<Rightarrow>
              let sec = ini_section_parse inner in
              Ok (bt_insert sec (ini_rows out sec) out, Some sec))
      | None \<Rightarrow> (case current of
            None \<Rightarrow> Err (KeyOutsideSection line_no raw_line)
          | Some sec \<Rightarrow> (case split_once (CHR ''='') trimmed of
                None \<Rightarrow> Err (MissingEquals line_no raw_line)
              | Some (k, v) \<Rightarrow>
                  let key = trim k in
                  if key = [] then Err (IniEmptyKey line_no)
                  else Ok (ini_push sec key (trim v) out, current))))"

definition parse_ini :: "string \<Rightarrow> (ini_error, ini_file) result" where
  "parse_ini content =
     (let ls = str_lines content in
      rbind (try_fold ini_line (zip [1..<Suc (length ls)] ls) ([], None)) (\<lambda>(out, current). Ok out))"

section \<open>What a document means\<close>

text \<open>
  A document is a list of sections, each with its lines of keys and values; a section and a key may occur
  again. Its text has one line for each header and each value.
\<close>

type_synonym ini_doc = "(ini_section \<times> (string \<times> string) list) list"

fun section_name :: "ini_section \<Rightarrow> string" where
  "section_name IniGlobal = ''global''"
| "section_name (IniGlobalCommand c) = ''global:'' @ c"
| "section_name (IniStanza s) = s"
| "section_name (IniStanzaCommand s c) = s @ '':'' @ c"

definition ini_entry_line :: "string \<times> string \<Rightarrow> string" where
  "ini_entry_line e = fst e @ ''='' @ snd e"

definition ini_header_line :: "ini_section \<Rightarrow> string" where
  "ini_header_line sec = ''['' @ section_name sec @ '']''"

definition ini_doc_lines :: "ini_doc \<Rightarrow> string list" where
  "ini_doc_lines doc = concat (map (\<lambda>(sec, rows). ini_header_line sec # map ini_entry_line rows) doc)"

definition doc_values :: "ini_doc \<Rightarrow> ini_section \<Rightarrow> string \<Rightarrow> string list" where
  "doc_values doc sec key =
     map snd (filter (\<lambda>(k, v). k = key) (concat (map snd (filter (\<lambda>(s, rows). s = sec) doc))))"

text \<open>Names that a header or a key line can carry.\<close>

fun section_ok :: "ini_section \<Rightarrow> bool" where
  "section_ok IniGlobal = True"
| "section_ok (IniGlobalCommand c) = True"
| "section_ok (IniStanza s) = (s \<noteq> ''global'' \<and> CHR '':'' \<notin> set s)"
| "section_ok (IniStanzaCommand s c) = (s \<noteq> ''global'' \<and> CHR '':'' \<notin> set s)"

definition line_text_ok :: "string \<Rightarrow> bool" where
  "line_text_ok s = (newline \<notin> set s \<and> CHR ''#'' \<notin> set s \<and> tight_start s \<and> tight_end s)"

definition ini_row_ok :: "string \<times> string \<Rightarrow> bool" where
  "ini_row_ok e = (line_text_ok (fst e) \<and> fst e \<noteq> [] \<and> CHR ''='' \<notin> set (fst e) \<and> \<not> starts_with ''['' (fst e) \<and>
     line_text_ok (snd e))"

definition ini_doc_ok :: "ini_doc \<Rightarrow> bool" where
  "ini_doc_ok doc = list_all (\<lambda>(sec, rows). section_ok sec \<and> line_text_ok (section_name sec) \<and>
     list_all ini_row_ok rows) doc"

lemma ini_values_push:
  "ini_values (ini_push sec key v file) s k = ini_values file s k @ (if s = sec \<and> k = key then [v] else [])"
  by (auto simp: ini_values_def ini_push_def ini_rows_def)

lemma ini_values_header: "ini_values (bt_insert sec (ini_rows file sec) file) s k = ini_values file s k"
  by (auto simp: ini_values_def ini_rows_def)

lemma strip_comment_none: "CHR ''#'' \<notin> set s \<Longrightarrow> strip_comment s = s"
  using split_once_None_iff [of "CHR ''#''" s] by (simp add: strip_comment_def)

lemma bracket_not_ws: "CHR ''['' \<notin> ws_first" "CHR '']'' \<notin> ws_last"
  by (simp_all add: ws_first_def ws_last_def)

lemma ini_header_ok:
  assumes "section_ok sec" "line_text_ok (section_name sec)"
  shows "plain_line (ini_header_line sec)" "ini_line (n, ini_header_line sec) (out, cur) =
    Ok (bt_insert sec (ini_rows out sec) out, Some sec)"
proof -
  let ?l = "ini_header_line sec"
  have tight: "tight_start ?l" "tight_end ?l"
    using bracket_not_ws tight_end_snoc [of "CHR '']''" "CHR ''['' # section_name sec"]
    by (auto simp: ini_header_line_def)
  then show "plain_line ?l" using assms(2) by (simp add: plain_line_def ini_header_line_def line_text_ok_def newline_def)
  have "trim (strip_comment ?l) = ?l"
    using tight assms(2) by (simp add: strip_comment_none line_text_ok_def ini_header_line_def trim_tight)
  moreover have "ini_section_parse (section_name sec) = sec"
  proof -
    have "trim (section_name sec) = section_name sec" using assms(2) by (simp add: line_text_ok_def trim_tight)
    then show ?thesis
      using assms(1) split_once_append [of "CHR '':''"] split_once_None_iff [THEN iffD2, of "CHR '':''"]
      by (cases sec) (auto simp: ini_section_parse_def)
  qed
  moreover have "strip_prefix ''['' ?l = Some (section_name sec @ '']'')"
    using strip_prefix_append [of "''[''"] by (simp add: ini_header_line_def)
  moreover have "strip_suffix '']'' (section_name sec @ '']'') = Some (section_name sec)" by simp
  moreover have "?l \<noteq> []" by (simp add: ini_header_line_def)
  ultimately show "ini_line (n, ?l) (out, cur) = Ok (bt_insert sec (ini_rows out sec) out, Some sec)"
    by (simp add: ini_line_def Let_def)
qed

lemma ini_entry_ok:
  assumes "ini_row_ok e"
  shows "plain_line (ini_entry_line e)"
    "ini_line (n, ini_entry_line e) (out, Some sec) = Ok (ini_push sec (fst e) (snd e) out, Some sec)"
proof -
  obtain k v where e: "e = (k, v)" by (cases e)
  have k: "k \<noteq> []" "tight_start k" "tight_end k" and v: "tight_start v" "tight_end v"
    using assms by (auto simp: e ini_row_ok_def line_text_ok_def)
  have start: "tight_start (k @ CHR ''='' # v)" using k equals_not_ws by (intro tight_start_append)
  have "tight_end (k @ CHR ''='' # v)"
  proof (cases "v = []")
    case True
    then show ?thesis using equals_not_ws(3) by auto
  qed (use v equals_not_ws in \<open>auto intro: tight_end_append\<close>)
  with start have tight: "tight_start (ini_entry_line e)" "tight_end (ini_entry_line e)"
    by (simp_all add: ini_entry_line_def e)
  then show "plain_line (ini_entry_line e)"
    using assms by (auto simp: plain_line_def e ini_entry_line_def ini_row_ok_def line_text_ok_def newline_def)
  have "trim (strip_comment (ini_entry_line e)) = ini_entry_line e"
    using tight assms by (subst strip_comment_none)
      (auto simp: trim_tight e ini_entry_line_def ini_row_ok_def line_text_ok_def)
  moreover have "ini_entry_line e \<noteq> []" by (simp add: ini_entry_line_def)
  moreover have "strip_prefix ''['' (ini_entry_line e) = None"
    using assms k(1) by (cases k) (auto simp: e ini_entry_line_def ini_row_ok_def strip_prefix_def starts_with_def)
  moreover have "split_once (CHR ''='') (ini_entry_line e) = Some (k, v)"
    using assms split_once_append [of "CHR ''=''" k v] by (simp add: e ini_entry_line_def ini_row_ok_def)
  moreover have "trim k = k" "trim v = v" using k v by (simp_all add: trim_tight)
  ultimately show "ini_line (n, ini_entry_line e) (out, Some sec) = Ok (ini_push sec (fst e) (snd e) out, Some sec)"
    using k(1) by (simp add: ini_line_def Let_def e)
qed

text \<open>Running over the lines of a document, with whatever numbers.\<close>

lemma ini_rows_run:
  assumes "list_all ini_row_ok rows"
  shows "\<exists>out'. try_fold ini_line (zip ns (map ini_entry_line rows)) (out, Some sec) = Ok (out', Some sec) \<and>
    (length ns = length rows \<longrightarrow> (\<forall>s k. ini_values out' s k = ini_values out s k @
       (if s = sec then map snd (filter (\<lambda>(k', v). k' = k) rows) else [])))"
  using assms
proof (induction rows arbitrary: ns out)
  case (Cons e rows)
  show ?case
  proof (cases ns)
    case (Cons n ns')
    obtain k v where e: "e = (k, v)" by (cases e)
    have line: "ini_line (n, ini_entry_line e) (out, Some sec) = Ok (ini_push sec k v out, Some sec)"
      using ini_entry_ok(2) [of e] Cons.prems e by simp
    obtain out' where "try_fold ini_line (zip ns' (map ini_entry_line rows)) (ini_push sec k v out, Some sec) =
        Ok (out', Some sec)"
      "length ns' = length rows \<longrightarrow> (\<forall>s q. ini_values out' s q = ini_values (ini_push sec k v out) s q @
         (if s = sec then map snd (filter (\<lambda>(k', v). k' = q) rows) else []))"
      using Cons.IH [of ns' "ini_push sec k v out"] Cons.prems by auto
    then show ?thesis using line Cons by (auto simp: e ini_values_push)
  qed simp
qed simp

lemma ini_doc_run:
  assumes "ini_doc_ok doc" "length ns = length (ini_doc_lines doc)"
  shows "\<exists>out' cur'. try_fold ini_line (zip ns (ini_doc_lines doc)) (out, cur) = Ok (out', cur') \<and>
    (\<forall>s k. ini_values out' s k = ini_values out s k @ doc_values doc s k)"
  using assms
proof (induction doc arbitrary: ns out cur)
  case (Cons d doc)
  obtain sec rows where d: "d = (sec, rows)" by (cases d)
  let ?rs = "map ini_entry_line rows"
  have ok: "section_ok sec" "line_text_ok (section_name sec)" "list_all ini_row_ok rows" "ini_doc_ok doc"
    using Cons.prems(1) by (simp_all add: ini_doc_ok_def d)
  have lines: "ini_doc_lines (d # doc) = ini_header_line sec # ?rs @ ini_doc_lines doc"
    by (simp add: ini_doc_lines_def d)
  then obtain n ns1 ns2 where ns: "ns = n # ns1 @ ns2" "length ns1 = length rows" "length ns2 = length (ini_doc_lines doc)"
  proof -
    from Cons.prems(2) lines obtain n ms where "ns = n # ms" "length ms = length rows + length (ini_doc_lines doc)"
      by (cases ns) auto
    then show ?thesis
      using that [of n "take (length rows) ms" "drop (length rows) ms"] by simp
  qed
  obtain out1 where out1: "try_fold ini_line (zip ns1 ?rs) (bt_insert sec (ini_rows out sec) out, Some sec) =
      Ok (out1, Some sec)"
    "\<forall>s k. ini_values out1 s k = ini_values out s k @
       (if s = sec then map snd (filter (\<lambda>(k', v). k' = k) rows) else [])"
    using ini_rows_run [OF ok(3), of ns1 "bt_insert sec (ini_rows out sec) out" sec] ns(2)
    by (auto simp: ini_values_header)
  obtain out' cur' where "try_fold ini_line (zip ns2 (ini_doc_lines doc)) (out1, Some sec) = Ok (out', cur')"
    "\<forall>s k. ini_values out' s k = ini_values out1 s k @ doc_values doc s k"
    using Cons.IH [OF ok(4) ns(3)] by blast
  moreover have "zip ns (ini_doc_lines (d # doc)) =
      (n, ini_header_line sec) # zip ns1 ?rs @ zip ns2 (ini_doc_lines doc)"
    using ns lines by (simp add: zip_append)
  moreover have "doc_values (d # doc) s k =
      (if s = sec then map snd (filter (\<lambda>(k', v). k' = k) rows) else []) @ doc_values doc s k" for s k
    by (simp add: doc_values_def d)
  ultimately show ?case
    using out1 ini_header_ok(2) [OF ok(1,2), of n out cur] by (simp add: try_fold_append)
qed (simp add: ini_doc_lines_def doc_values_def)

lemma ini_doc_plain: "ini_doc_ok doc \<Longrightarrow> \<forall>l \<in> set (ini_doc_lines doc). plain_line l"
  using ini_header_ok(1) ini_entry_ok(1)
  by (fastforce simp: ini_doc_ok_def ini_doc_lines_def list_all_iff)

text \<open>C39. The text of a document parses, and every section then holds, for every key, the values written
  for it in the order of the document, also when the section or the key is repeated.\<close>

theorem parse_ini_document:
  assumes "ini_doc_ok doc"
  shows "\<exists>out. parse_ini (unlines (ini_doc_lines doc)) = Ok out \<and>
    (\<forall>sec key. ini_values out sec key = doc_values doc sec key)"
proof -
  have lines: "str_lines (unlines (ini_doc_lines doc)) = ini_doc_lines doc"
    by (rule lines_unlines [OF ini_doc_plain [OF assms]])
  define ns where "ns = [1..<Suc (length (ini_doc_lines doc))]"
  have "length ns = length (ini_doc_lines doc)" by (simp add: ns_def del: upt_Suc)
  from ini_doc_run [OF assms this, of "[]" None] obtain out cur where
    "try_fold ini_line (zip ns (ini_doc_lines doc)) ([], None) = Ok (out, cur)"
    "\<forall>sec key. ini_values out sec key = ini_values [] sec key @ doc_values doc sec key" by blast
  then show ?thesis by (auto simp: parse_ini_def Let_def lines ns_def ini_values_def ini_rows_def simp del: upt_Suc)
qed

definition sample_doc :: ini_doc where
  "sample_doc = [(IniGlobal, [(''repo1-path'', ''/r'')]),
     (IniStanzaCommand ''m'' ''restore'', [(''recovery-option'', ''a=b''), (''delta'', ''y'')]),
     (IniGlobal, [(''repo1-path'', ''/s'')])]"

lemma sample_doc_ok: "ini_doc_ok sample_doc"
  by (simp add: sample_doc_def ini_doc_ok_def ini_row_ok_def line_text_ok_def newline_def starts_with_def
      tight_start_iff tight_end_iff ws_seqs_def ends_with_def)

lemma parse_ini_document_witness:
  "\<exists>out. parse_ini (unlines (ini_doc_lines sample_doc)) = Ok out \<and>
     ini_values out IniGlobal ''repo1-path'' = [''/r'', ''/s'']"
  using parse_ini_document [OF sample_doc_ok] by (fastforce simp: sample_doc_def doc_values_def)

end
