(* ===== verification/Config_Merge.thy ===== *)
theory Config_Merge
  imports Config_Cli Config_Ini
begin

text \<open>
  The merge of the configuration sources (\<open>crates/pgbr-config/src/merge.rs\<close>): command line, environment,
  configuration files, defaults, then the validation of every value and the gating of options on the
  options they depend on.
\<close>

record runtime_context =
  rt_exe_path :: "string option"

definition default_context :: runtime_context where
  "default_context = \<lparr>rt_exe_path = None\<rparr>"

section \<open>Errors\<close>

datatype load_error =
    LValueParse string "nat option" value_error
  | LRequired string "nat option"
  | LUnknownIniKey ini_section string
  | LNotInAllowList string "nat option" string "string list"
  | LOutOfAllowRange string "nat option" string string
  | LDependNotSatisfied string "nat option" string string "string list"

fun debug_section :: "ini_section \<Rightarrow> string" where
  "debug_section IniGlobal = ''Global''"
| "debug_section (IniGlobalCommand c) = ''GlobalCommand('' @ debug_str c @ '')''"
| "debug_section (IniStanza s) = ''Stanza('' @ debug_str s @ '')''"
| "debug_section (IniStanzaCommand s c) =
     ''StanzaCommand { stanza: '' @ debug_str s @ '', command: '' @ debug_str c @ '' }''"

definition long_group :: "nat option \<Rightarrow> string" where
  "long_group g = (case g of Some idx \<Rightarrow> '' (group index '' @ fmt_dec idx @ '')'' | None \<Rightarrow> [])"

definition short_group :: "nat option \<Rightarrow> string" where
  "short_group g = (case g of Some idx \<Rightarrow> '' (group '' @ fmt_dec idx @ '')'' | None \<Rightarrow> [])"

fun load_error_display :: "load_error \<Rightarrow> string" where
  "load_error_display (LValueParse opt g error) =
     ''option `'' @ opt @ ''`'' @ long_group g @ '': '' @ value_error_display error"
| "load_error_display (LRequired opt g) = ''option `'' @ opt @ ''`'' @ long_group g @ '' is required''"
| "load_error_display (LUnknownIniKey sec key) =
     ''INI section '' @ debug_section sec @ '' references unknown option `'' @ key @ ''`''"
| "load_error_display (LNotInAllowList opt g v allowed) =
     ''option `'' @ opt @ ''`'' @ short_group g @ '': value `'' @ v @ ''` is not in allow-list ['' @
     join_with '', '' allowed @ '']''"
| "load_error_display (LOutOfAllowRange opt g v rng) =
     ''option `'' @ opt @ ''`'' @ short_group g @ '': value `'' @ v @ ''` is outside allow-range '' @ rng"
| "load_error_display (LDependNotSatisfied opt g dep_opt dep_value dep_list) =
     ''option `'' @ opt @ ''`'' @ short_group g @ '': depends on option `'' @ dep_opt @ ''` '' @
     (if dep_list = [] then ''being set (currently '' @ dep_value @ '')''
      else ''value being one of ['' @ join_with '', '' dep_list @ ''] (currently '' @ dep_value @ '')'')"

section \<open>Layers of configuration files\<close>

definition merge_rows :: "ini_section \<times> (string, string list) btree \<Rightarrow> ini_file \<Rightarrow> ini_file" where
  "merge_rows block combined =
     (let (sec, rows) = block in bt_insert sec (bt_extend (ini_rows combined sec) rows) combined)"

definition merge_ini_files :: "ini_file list \<Rightarrow> ini_file" where
  "merge_ini_files inis = (case inis of
       [only] \<Rightarrow> only
     | _ \<Rightarrow> fold (fold merge_rows) inis [])"

section \<open>Group indices\<close>

type_synonym index_map = "(string, nat list) btree"

definition indices_of :: "index_map \<Rightarrow> string \<Rightarrow> nat list" where
  "indices_of out name = (case bt_get out name of None \<Rightarrow> [] | Some is \<Rightarrow> is)"

definition add_indices :: "string \<Rightarrow> nat list \<Rightarrow> index_map \<Rightarrow> index_map" where
  "add_indices name idxs out = bt_insert name (fold bs_insert idxs (indices_of out name)) out"

definition add_key_index :: "option_key \<Rightarrow> index_map \<Rightarrow> index_map" where
  "add_key_index key out = (case snd key of None \<Rightarrow> out | Some i \<Rightarrow> add_indices (fst key) [i] out)"

definition add_raw_key :: "'n cfg \<Rightarrow> string \<Rightarrow> index_map \<Rightarrow> index_map" where
  "add_raw_key cfg raw_key out = (case decode_grouped_key raw_key cfg of
       None \<Rightarrow> out
     | Some (canonical, idx) \<Rightarrow> add_indices canonical [idx] out)"

text \<open>The sets of the indices seen in each group, and their spreading over every option of the group.\<close>

definition option_group_of :: "'n cfg \<Rightarrow> string \<Rightarrow> option_group option" where
  "option_group_of cfg name = (case bt_get (cfg_options cfg) name of None \<Rightarrow> None | Some opt \<Rightarrow> co_group opt)"

definition collect_groups ::
  "'n cfg \<Rightarrow> index_map \<Rightarrow> (option_group, nat list) btree" where
  "collect_groups cfg out = fold (\<lambda>(name, idxs) by_group. case option_group_of cfg name of
       None \<Rightarrow> by_group
     | Some grp \<Rightarrow>
         bt_insert grp (fold bs_insert idxs (case bt_get by_group grp of None \<Rightarrow> [] | Some is \<Rightarrow> is)) by_group)
     out []"

definition spread_groups ::
  "(option_group, nat list) btree \<Rightarrow> string \<times> 'n cfg_option \<Rightarrow> index_map \<Rightarrow> index_map" where
  "spread_groups by_group named out = (case co_group (snd named) of
       None \<Rightarrow> out
     | Some grp \<Rightarrow> (case bt_get by_group grp of
           None \<Rightarrow> out
         | Some idxs \<Rightarrow> if idxs = [] then out else add_indices (fst named) idxs out))"

definition seen_indices :: "resolved_cli \<Rightarrow> env_values \<Rightarrow> ini_file \<Rightarrow> 'n cfg \<Rightarrow> index_map" where
  "seen_indices cli env ini cfg =
     fold (\<lambda>(sec, rows). fold (add_raw_key cfg) (bt_keys rows)) ini
       (fold add_key_index (bt_keys env)
         (fold add_key_index (bt_keys (rc_options cli) @ rc_resets cli) []))"

definition discover_group_indices :: "resolved_cli \<Rightarrow> env_values \<Rightarrow> ini_file \<Rightarrow> 'n cfg \<Rightarrow> index_map" where
  "discover_group_indices cli env ini cfg =
     (let out = seen_indices cli env ini cfg in
      fold (spread_groups (collect_groups cfg out)) (cfg_options cfg) out)"

section \<open>Looking a value up in its source\<close>

definition extract_stanza :: "resolved_cli \<Rightarrow> string option" where
  "extract_stanza cli = (case bt_get (rc_options cli) (''stanza'', None) of
       Some (OvString s) \<Rightarrow> Some s
     | _ \<Rightarrow> None)"

definition lookup_env ::
  "string \<Rightarrow> nat option \<Rightarrow> env_values \<Rightarrow> option_type \<Rightarrow> (load_error, option_value option) result" where
  "lookup_env name idx env ty = (case bt_get env (name, idx) of
       None \<Rightarrow> Ok None
     | Some raw \<Rightarrow> rbind (map_err (LValueParse name idx) (parse_value ty raw)) (\<lambda>v. Ok (Some v)))"

text \<open>A hash or a list accumulates over the lines of its key; of a scalar the last line counts.\<close>

definition parse_ini_values :: "option_type \<Rightarrow> string list \<Rightarrow> (value_error, option_value) result" where
  "parse_ini_values ty raws = (case ty of
       TyHash \<Rightarrow> rbind (try_fold (\<lambda>raw m. rbind (parse_value TyHash raw) (\<lambda>v. case v of
             OvHash entries \<Rightarrow> Ok (bt_extend m entries)
           | _ \<Rightarrow> Ok m)) raws []) (\<lambda>m. Ok (OvHash m))
     | TyList \<Rightarrow> rbind (try_fold (\<lambda>raw items. rbind (parse_value TyList raw) (\<lambda>v. case v of
             OvList entries \<Rightarrow> Ok (items @ entries)
           | _ \<Rightarrow> Ok items)) raws []) (\<lambda>items. Ok (OvList items))
     | _ \<Rightarrow> parse_value ty (if raws = [] then [] else last raws))"

definition ini_sections_tried :: "string option \<Rightarrow> string \<Rightarrow> ini_section list" where
  "ini_sections_tried stanza command =
     (case stanza of None \<Rightarrow> [] | Some s \<Rightarrow> [IniStanzaCommand s command, IniStanza s]) @
     [IniGlobalCommand command, IniGlobal]"

definition lookup_ini ::
  "string \<Rightarrow> nat option \<Rightarrow> 'n cfg_option \<Rightarrow> ini_file \<Rightarrow> resolved_cli \<Rightarrow> option_type \<Rightarrow> string option \<Rightarrow>
     (load_error, option_value option) result" where
  "lookup_ini name idx opt ini cli ty stanza =
     (let raw_key = raw_key_for name (co_group opt) idx in
      case find (\<lambda>sec. ini_values ini sec raw_key \<noteq> []) (ini_sections_tried stanza (rc_command cli)) of
        None \<Rightarrow> Ok None
      | Some sec \<Rightarrow>
          rbind (map_err (LValueParse name idx) (parse_ini_values ty (ini_values ini sec raw_key)))
            (\<lambda>v. Ok (Some v)))"

section \<open>Validation\<close>

fun bool_str :: "bool \<Rightarrow> string" where
  "bool_str True = ''true''"
| "bool_str False = ''false''"

text \<open>A value, an entry of a list of permitted values, or a default, as the text it is compared by.\<close>

fun yaml_scalar :: "'n yaml_api \<Rightarrow> 'n yaml \<Rightarrow> string option" where
  "yaml_scalar Y (YString s) = Some s"
| "yaml_scalar Y (YBool b) = Some (bool_str b)"
| "yaml_scalar Y (YNumber n) = Some (yn_to_string Y n)"
| "yaml_scalar Y _ = None"

fun value_to_match_str :: "'n yaml_api \<Rightarrow> 'n yaml \<Rightarrow> string option" where
  "value_to_match_str Y (YString s) = Some s"
| "value_to_match_str Y (YBool b) = Some (bool_str b)"
| "value_to_match_str Y (YNumber n) = Some (yn_to_string Y n)"
| "value_to_match_str Y (YMapping [(k, _)]) = yv_as_str Y k"
| "value_to_match_str Y _ = None"

fun option_value_to_match_str :: "option_value \<Rightarrow> string option" where
  "option_value_to_match_str (OvString s) = Some s"
| "option_value_to_match_str (OvStringId s) = Some s"
| "option_value_to_match_str (OvPath s) = Some s"
| "option_value_to_match_str (OvBoolean b) = Some (bool_str b)"
| "option_value_to_match_str (OvInteger n) = Some (fmt_int n)"
| "option_value_to_match_str (OvSize n) = Some (fmt_dec n)"
| "option_value_to_match_str (OvTime n) = Some (fmt_dec n)"
| "option_value_to_match_str (OvList _) = None"
| "option_value_to_match_str (OvHash _) = None"

fun yaml_to_i64 :: "'n yaml_api \<Rightarrow> 'n yaml \<Rightarrow> int option" where
  "yaml_to_i64 Y (YNumber n) = yn_as_i64 Y n"
| "yaml_to_i64 Y (YString s) = ok (int_from_str i64_min i64_max s)"
| "yaml_to_i64 Y _ = None"

fun option_value_match_candidates :: "option_value \<Rightarrow> string list" where
  "option_value_match_candidates (OvBoolean True) = [''true'', ''y'']"
| "option_value_match_candidates (OvBoolean False) = [''false'', ''n'']"
| "option_value_match_candidates v = (case option_value_to_match_str v of None \<Rightarrow> [] | Some s \<Rightarrow> [s])"

fun count_of :: "option_value \<Rightarrow> nat option" where
  "count_of (OvSize n) = Some n"
| "count_of (OvTime n) = Some n"
| "count_of _ = None"

definition or_else :: "'a option \<Rightarrow> 'a option \<Rightarrow> 'a option" where
  "or_else a b = (case a of None \<Rightarrow> b | Some _ \<Rightarrow> a)"

definition allow_list_contains :: "option_type \<Rightarrow> string list \<Rightarrow> option_value \<Rightarrow> string \<Rightarrow> bool" where
  "allow_list_contains ty allowed_strs v value_str =
     (if (ty = TySize \<or> ty = TyTime) \<and> count_of v \<noteq> None
      then list_ex (\<lambda>a. Some a = count_of v)
        (List.map_filter (\<lambda>s. case parse_value ty s of Err _ \<Rightarrow> None | Ok a \<Rightarrow> count_of a) allowed_strs)
      else list_ex (\<lambda>a. a = value_str) allowed_strs)"

definition allowed_by_list ::
  "'n yaml_api \<Rightarrow> option_value \<Rightarrow> 'n cfg_option \<Rightarrow> 'n command_usage \<Rightarrow> string \<Rightarrow> nat option \<Rightarrow>
     (load_error, unit) result" where
  "allowed_by_list Y v opt usage name idx = (case or_else (cu_allow_list usage) (co_allow_list opt) of
       None \<Rightarrow> Ok ()
     | Some allowed \<Rightarrow>
         let allowed_strs = List.map_filter (value_to_match_str Y) allowed in
         case option_value_to_match_str v of
           None \<Rightarrow> Ok ()
         | Some value_str \<Rightarrow>
             if allow_list_contains (co_type opt) allowed_strs v value_str then Ok ()
             else Err (LNotInAllowList name idx value_str allowed_strs))"

text \<open>The integer a range speaks about; a count above the signed range has none.\<close>

fun ranged_value :: "option_value \<Rightarrow> int option" where
  "ranged_value (OvInteger n) = Some n"
| "ranged_value (OvTime n) = (if int n \<le> i64_max then Some (int n) else None)"
| "ranged_value (OvSize n) = (if int n \<le> i64_max then Some (int n) else None)"
| "ranged_value _ = None"

definition allowed_by_range ::
  "'n yaml_api \<Rightarrow> option_value \<Rightarrow> 'n cfg_option \<Rightarrow> string \<Rightarrow> nat option \<Rightarrow> (load_error, unit) result" where
  "allowed_by_range Y v opt name idx = (case co_allow_range opt of
       Some (YSequence [lo, hi]) \<Rightarrow> (case (yaml_to_i64 Y lo, yaml_to_i64 Y hi) of
           (Some mn, Some mx) \<Rightarrow> (case ranged_value v of
               None \<Rightarrow> Ok ()
             | Some n \<Rightarrow>
                 if n < mn \<or> mx < n
                 then Err (LOutOfAllowRange name idx (fmt_int n) (''['' @ fmt_int mn @ '', '' @ fmt_int mx @ '']''))
                 else Ok ())
         | _ \<Rightarrow> Ok ())
     | _ \<Rightarrow> Ok ())"

definition validate_value ::
  "'n yaml_api \<Rightarrow> option_value \<Rightarrow> 'n cfg_option \<Rightarrow> 'n command_usage \<Rightarrow> string \<Rightarrow> nat option \<Rightarrow>
     (load_error, unit) result" where
  "validate_value Y v opt usage name idx =
     rbind (allowed_by_list Y v opt usage name idx) (\<lambda>_. allowed_by_range Y v opt name idx)"

section \<open>Defaults\<close>

definition literal_macro_value :: "string \<Rightarrow> string option" where
  "literal_macro_value ident =
     (if ident = ''CFGOPTDEF_CONFIG_PATH'' then Some ''/etc/pgbackrust''
      else if ident = ''PROJECT_CONFIG_FILE'' then Some ''pgbackrust.conf''
      else if ident = ''PROJECT_CONFIG_INCLUDE_PATH'' then Some ''conf.d''
      else None)"

text \<open>\<open>split_whitespace\<close>: the maximal pieces without white space.\<close>

function split_ws :: "string \<Rightarrow> string \<Rightarrow> string list" where
  "split_ws cur [] = (if cur = [] then [] else [cur])"
| "split_ws cur (c # s) = (case find (\<lambda>w. w \<noteq> [] \<and> starts_with w (c # s)) ws_seqs of
       None \<Rightarrow> split_ws (cur @ [c]) s
     | Some w \<Rightarrow> (if cur = [] then [] else [cur]) @ split_ws [] (drop (length w - 1) s))"
  by pat_completeness auto
termination by (relation "measure (\<lambda>(cur, s). length s)") auto

definition expand_token :: "string \<Rightarrow> string" where
  "expand_token token = (case strip_prefix [CHR 0x22] token of
       Some t \<Rightarrow> (case strip_suffix [CHR 0x22] t of
           Some inner \<Rightarrow> inner
         | None \<Rightarrow> (case literal_macro_value token of Some v \<Rightarrow> v | None \<Rightarrow> token))
     | None \<Rightarrow> (case literal_macro_value token of Some v \<Rightarrow> v | None \<Rightarrow> token))"

definition expand_literal_default :: "string \<Rightarrow> string" where
  "expand_literal_default raw = concat (map expand_token (split_ws [] raw))"

abbreviation DYNAMIC_TAG_BIN :: string where "DYNAMIC_TAG_BIN \<equiv> ''bin''"
abbreviation DYNAMIC_BIN_FALLBACK :: string where "DYNAMIC_BIN_FALLBACK \<equiv> ''pgbackrust''"
abbreviation FLAVOR_SOURCE_OPTION :: string where "FLAVOR_SOURCE_OPTION \<equiv> ''compress-type''"
abbreviation FLAVOR_DEFAULT :: string where "FLAVOR_DEFAULT \<equiv> ''gz''"

fun resolve_dynamic_default :: "'n yaml \<Rightarrow> runtime_context \<Rightarrow> option_value option" where
  "resolve_dynamic_default (YString tag) ctx =
     (if tag = DYNAMIC_TAG_BIN
      then Some (OvString (case rt_exe_path ctx of Some p \<Rightarrow> p | None \<Rightarrow> DYNAMIC_BIN_FALLBACK))
      else None)"
| "resolve_dynamic_default _ ctx = None"

definition parse_scalar ::
  "option_type \<Rightarrow> string \<Rightarrow> string \<Rightarrow> nat option \<Rightarrow> (load_error, option_value option) result" where
  "parse_scalar ty scalar name idx =
     rbind (map_err (LValueParse name idx) (parse_value ty scalar)) (\<lambda>v. Ok (Some v))"

definition resolve_default ::
  "'n yaml_api \<Rightarrow> 'n cfg_option \<Rightarrow> 'n command_usage \<Rightarrow> string \<Rightarrow> nat option \<Rightarrow> runtime_context \<Rightarrow>
     (load_error, option_value option) result" where
  "resolve_default Y opt usage name idx ctx = (case or_else (cu_default usage) (co_default opt) of
       None \<Rightarrow> Ok None
     | Some raw \<Rightarrow>
         if co_default_type opt = Some DefDynamic then Ok (resolve_dynamic_default raw ctx)
         else (case yaml_scalar Y raw of
             None \<Rightarrow> Ok None
           | Some scalar \<Rightarrow>
               parse_scalar (co_type opt)
                 (if co_default_type opt = Some DefLiteral then expand_literal_default scalar else scalar)
                 name idx))"

fun single_key_map :: "'n yaml \<Rightarrow> bool" where
  "single_key_map (YMapping [_]) = True"
| "single_key_map _ = False"

definition flavor_sequence_default :: "'n cfg_option \<Rightarrow> 'n command_usage \<Rightarrow> 'n yaml list option" where
  "flavor_sequence_default opt usage =
     (if co_default_type opt = Some DefDynamic then None
      else (case or_else (cu_default usage) (co_default opt) of
          Some (YSequence items) \<Rightarrow> if items = [] \<or> \<not> list_all single_key_map items then None else Some items
        | _ \<Rightarrow> None))"

definition resolved_flavor :: "option_map \<Rightarrow> string" where
  "resolved_flavor options = (case bt_get options (FLAVOR_SOURCE_OPTION, None) of
       None \<Rightarrow> FLAVOR_DEFAULT
     | Some v \<Rightarrow> (case option_value_to_match_str v of None \<Rightarrow> FLAVOR_DEFAULT | Some s \<Rightarrow> s))"

fun pick_flavor_default ::
  "'n yaml_api \<Rightarrow> 'n yaml list \<Rightarrow> string \<Rightarrow> option_type \<Rightarrow> string \<Rightarrow> nat option \<Rightarrow>
     (load_error, option_value option) result" where
  "pick_flavor_default Y [] flavor ty name idx = Ok None"
| "pick_flavor_default Y (item # items) flavor ty name idx = (case item of
       YMapping ((YString s, v) # _) \<Rightarrow>
         if s = flavor
         then (case yaml_scalar Y v of None \<Rightarrow> Ok None | Some scalar \<Rightarrow> parse_scalar ty scalar name idx)
         else pick_flavor_default Y items flavor ty name idx
     | _ \<Rightarrow> pick_flavor_default Y items flavor ty name idx)"

section \<open>Options that depend on others\<close>

definition depend_of :: "'n cfg_option \<Rightarrow> string \<Rightarrow> 'n resolved_depend option" where
  "depend_of opt command =
     or_else (case bt_get (co_commands opt) command of None \<Rightarrow> None | Some usage \<Rightarrow> cu_depend usage) (co_depend opt)"

definition depend_index :: "nat option \<Rightarrow> option_group option \<Rightarrow> nat option" where
  "depend_index idx dep_group = (case (idx, dep_group) of
       (Some i, Some _) \<Rightarrow> Some i
     | (None, Some _) \<Rightarrow> Some 1
     | _ \<Rightarrow> None)"

definition depend_value :: "'n cfg \<Rightarrow> option_map \<Rightarrow> 'n resolved_depend \<Rightarrow> nat option \<Rightarrow> option_value option" where
  "depend_value cfg options depend idx =
     bt_get options (rd_option depend, depend_index idx (option_group_of cfg (rd_option depend)))"

definition depend_strs :: "'n yaml_api \<Rightarrow> 'n resolved_depend \<Rightarrow> string list" where
  "depend_strs Y depend = (case rd_list depend of None \<Rightarrow> [] | Some l \<Rightarrow> List.map_filter (value_to_match_str Y) l)"

definition depend_satisfied :: "'n yaml_api \<Rightarrow> 'n resolved_depend \<Rightarrow> option_value option \<Rightarrow> bool" where
  "depend_satisfied Y depend dep_value = (case dep_value of
       None \<Rightarrow> False
     | Some v \<Rightarrow> rd_list depend = None \<or>
         list_ex (\<lambda>c. list_ex (\<lambda>d. d = c) (depend_strs Y depend)) (option_value_match_candidates v))"

definition depend_text :: "option_value option \<Rightarrow> string" where
  "depend_text dep_value = (case dep_value of
       None \<Rightarrow> ''unset''
     | Some v \<Rightarrow> (case option_value_match_candidates v of [] \<Rightarrow> ''<opaque>'' | c # _ \<Rightarrow> c))"

text \<open>What one key of the merged options comes to: kept (\<open>False\<close>), dropped (\<open>True\<close>) or an error.\<close>

definition depend_key ::
  "'n yaml_api \<Rightarrow> option_map \<Rightarrow> option_key list \<Rightarrow> 'n cfg \<Rightarrow> string \<Rightarrow> option_key \<Rightarrow> (load_error, bool) result" where
  "depend_key Y options explicit cfg command key =
     (case bt_get (cfg_options cfg) (fst key) of
        None \<Rightarrow> Ok False
      | Some opt \<Rightarrow> (case depend_of opt command of
            None \<Rightarrow> Ok False
          | Some depend \<Rightarrow>
              let dep_value = depend_value cfg options depend (snd key) in
              if depend_satisfied Y depend dep_value \<or> rd_default depend \<noteq> None then Ok False
              else if key \<in> set explicit
              then Err (LDependNotSatisfied (fst key) (snd key) (rd_option depend) (depend_text dep_value)
                     (depend_strs Y depend))
              else Ok True))"

definition apply_depends ::
  "'n yaml_api \<Rightarrow> option_map \<Rightarrow> option_key list \<Rightarrow> 'n cfg \<Rightarrow> string \<Rightarrow> (load_error, option_map) result" where
  "apply_depends Y options explicit cfg command =
     rbind (try_fold (\<lambda>key drops. rbind (depend_key Y options explicit cfg command key) (\<lambda>d.
         Ok (if d then drops @ [key] else drops))) (bt_keys options) []) (\<lambda>drops.
       Ok (fold bt_remove drops options))"

section \<open>The merge\<close>

record 'n load_state =
  ls_options :: option_map
  ls_deferred :: "(option_key \<times> 'n yaml list) list"
  ls_explicit :: "option_key list"

definition option_indices :: "index_map \<Rightarrow> string \<Rightarrow> 'n cfg_option \<Rightarrow> nat option list" where
  "option_indices group_indices name opt = (case co_group opt of
       None \<Rightarrow> [None]
     | Some _ \<Rightarrow>
         let idxs = indices_of group_indices name in
         if idxs = [] then [Some 1] else map Some idxs)"

text \<open>The values the sources have for one key; a reset hides the environment and the files.\<close>

definition explicit_value ::
  "resolved_cli \<Rightarrow> env_values \<Rightarrow> ini_file \<Rightarrow> string \<Rightarrow> 'n cfg_option \<Rightarrow> nat option \<Rightarrow>
     (load_error, option_value option) result" where
  "explicit_value cli env ini name opt idx =
     (let resetted = (name, idx) \<in> set (rc_resets cli); cli_value = bt_get (rc_options cli) (name, idx) in
      rbind (if resetted then Ok None else lookup_env name idx env (co_type opt)) (\<lambda>env_value.
      rbind (if resetted then Ok None
             else lookup_ini name idx opt ini cli (co_type opt) (extract_stanza cli)) (\<lambda>ini_value.
      Ok (or_else cli_value (or_else env_value ini_value)))))"

definition is_required :: "'n cfg_option \<Rightarrow> 'n command_usage \<Rightarrow> bool" where
  "is_required opt usage = (co_required opt \<and> cu_required usage \<noteq> Some False)"

text \<open>One key in the first pass; a default that depends on the flavor is put off to the second.\<close>

definition load_key ::
  "'n yaml_api \<Rightarrow> resolved_cli \<Rightarrow> env_values \<Rightarrow> ini_file \<Rightarrow> runtime_context \<Rightarrow> string \<Rightarrow> 'n cfg_option \<Rightarrow>
     'n command_usage \<Rightarrow> nat option \<Rightarrow> 'n load_state \<Rightarrow> (load_error, 'n load_state) result" where
  "load_key Y cli env ini ctx name opt usage idx st =
     (let key = (name, idx) in
      rbind (explicit_value cli env ini name opt idx) (\<lambda>given. case given of
        Some v \<Rightarrow>
          rbind (validate_value Y v opt usage name idx) (\<lambda>_.
          Ok (st\<lparr>ls_explicit := bs_insert key (ls_explicit st),
                 ls_options := bt_insert key v (ls_options st)\<rparr>))
      | None \<Rightarrow> (case flavor_sequence_default opt usage of
            Some seq \<Rightarrow> Ok (st\<lparr>ls_deferred := ls_deferred st @ [(key, seq)]\<rparr>)
          | None \<Rightarrow> rbind (resolve_default Y opt usage name idx ctx) (\<lambda>d. case d of
                Some v \<Rightarrow>
                  rbind (validate_value Y v opt usage name idx) (\<lambda>_.
                  Ok (st\<lparr>ls_options := bt_insert key v (ls_options st)\<rparr>))
              | None \<Rightarrow> if is_required opt usage then Err (LRequired name idx) else Ok st))))"

definition load_option ::
  "'n yaml_api \<Rightarrow> resolved_cli \<Rightarrow> env_values \<Rightarrow> ini_file \<Rightarrow> runtime_context \<Rightarrow> index_map \<Rightarrow>
     string \<times> 'n cfg_option \<Rightarrow> 'n load_state \<Rightarrow> (load_error, 'n load_state) result" where
  "load_option Y cli env ini ctx group_indices named st =
     (let (name, opt) = named in
      case bt_get (co_commands opt) (rc_command cli) of
        None \<Rightarrow> Ok st
      | Some usage \<Rightarrow>
          try_fold (load_key Y cli env ini ctx name opt usage) (option_indices group_indices name opt) st)"

text \<open>
  The second pass. The code indexes the option's commands by the command, which panics when it has none;
  a deferred key comes from an option that has it.
\<close>

definition load_deferred ::
  "'n yaml_api \<Rightarrow> 'n cfg \<Rightarrow> string \<Rightarrow> option_key \<times> 'n yaml list \<Rightarrow> option_map \<Rightarrow> (load_error, option_map) result" where
  "load_deferred Y cfg command deferred options =
     (let ((name, idx), sequence) = deferred in
      case bt_get (cfg_options cfg) name of
        None \<Rightarrow> Ok options
      | Some opt \<Rightarrow>
          let usage = the (bt_get (co_commands opt) command) in
          rbind (pick_flavor_default Y sequence (resolved_flavor options) (co_type opt) name idx) (\<lambda>d. case d of
            Some v \<Rightarrow> rbind (validate_value Y v opt usage name idx) (\<lambda>_. Ok (bt_insert (name, idx) v options))
          | None \<Rightarrow> if is_required opt usage then Err (LRequired name idx) else Ok options))"

definition load_config_with_env_single ::
  "'n yaml_api \<Rightarrow> resolved_cli \<Rightarrow> env_values \<Rightarrow> ini_file \<Rightarrow> 'n cfg \<Rightarrow> runtime_context \<Rightarrow>
     (load_error, loaded_config) result" where
  "load_config_with_env_single Y cli env ini cfg ctx =
     (let group_indices = discover_group_indices cli env ini cfg in
      rbind (try_fold (load_option Y cli env ini ctx group_indices) (cfg_options cfg)
               \<lparr>ls_options = [], ls_deferred = [], ls_explicit = []\<rparr>) (\<lambda>st.
      rbind (try_fold (load_deferred Y cfg (rc_command cli)) (ls_deferred st) (ls_options st)) (\<lambda>options.
      rbind (apply_depends Y options (ls_explicit st) cfg (rc_command cli)) (\<lambda>options.
      Ok \<lparr>lc_command = rc_command cli, lc_role = rc_command_role cli, lc_stanza = extract_stanza cli,
          lc_options = options, lc_params = rc_params cli\<rparr>))))"

definition load_config_with_env_multi ::
  "'n yaml_api \<Rightarrow> resolved_cli \<Rightarrow> env_values \<Rightarrow> ini_file list \<Rightarrow> 'n cfg \<Rightarrow> runtime_context \<Rightarrow>
     (load_error, loaded_config) result" where
  "load_config_with_env_multi Y cli env inis cfg ctx =
     load_config_with_env_single Y cli env (merge_ini_files inis) cfg ctx"

definition load_config_with_env ::
  "'n yaml_api \<Rightarrow> resolved_cli \<Rightarrow> env_values \<Rightarrow> ini_file \<Rightarrow> 'n cfg \<Rightarrow> runtime_context \<Rightarrow>
     (load_error, loaded_config) result" where
  "load_config_with_env Y cli env ini cfg ctx = load_config_with_env_multi Y cli env [ini] cfg ctx"

definition load_config_with_context ::
  "'n yaml_api \<Rightarrow> resolved_cli \<Rightarrow> ini_file \<Rightarrow> 'n cfg \<Rightarrow> runtime_context \<Rightarrow> (load_error, loaded_config) result" where
  "load_config_with_context Y cli ini cfg ctx = load_config_with_env Y cli [] ini cfg ctx"

definition load_config ::
  "'n yaml_api \<Rightarrow> resolved_cli \<Rightarrow> ini_file \<Rightarrow> 'n cfg \<Rightarrow> (load_error, loaded_config) result" where
  "load_config Y cli ini cfg = load_config_with_context Y cli ini cfg default_context"

end
