(* ===== verification/Config_Load.thy ===== *)
theory Config_Load
  imports Config_Merge
begin

text \<open>
  What a loaded configuration is: which source each value comes from, which options are present, and which
  constraints hold of them. The passes of the merge are followed key by key.
\<close>

section \<open>The keys one load works through\<close>

type_synonym 'n task = "string \<times> 'n cfg_option \<times> 'n command_usage \<times> nat option"

fun task_key :: "'n task \<Rightarrow> option_key" where
  "task_key (name, opt, usage, idx) = (name, idx)"

definition option_tasks :: "string \<Rightarrow> index_map \<Rightarrow> string \<times> 'n cfg_option \<Rightarrow> 'n task list" where
  "option_tasks command gi named = (case bt_get (co_commands (snd named)) command of
       None \<Rightarrow> []
     | Some usage \<Rightarrow> map (\<lambda>idx. (fst named, snd named, usage, idx)) (option_indices gi (fst named) (snd named)))"

definition load_tasks :: "'n cfg \<Rightarrow> string \<Rightarrow> index_map \<Rightarrow> 'n task list" where
  "load_tasks cfg command gi = concat (map (option_tasks command gi) (cfg_options cfg))"

fun load_task ::
  "'n yaml_api \<Rightarrow> resolved_cli \<Rightarrow> env_values \<Rightarrow> ini_file \<Rightarrow> runtime_context \<Rightarrow> 'n task \<Rightarrow> 'n load_state \<Rightarrow>
     (load_error, 'n load_state) result" where
  "load_task Y cli env ini ctx (name, opt, usage, idx) = load_key Y cli env ini ctx name opt usage idx"

lemma try_fold_map: "try_fold f (map g xs) s = try_fold (\<lambda>x. f (g x)) xs s"
proof (induction xs arbitrary: s)
  case (Cons x xs)
  then show ?case by (cases "f (g x) s") simp_all
qed simp

lemma load_option_tasks:
  "load_option Y cli env ini ctx gi named st =
     try_fold (load_task Y cli env ini ctx) (option_tasks (rc_command cli) gi named) st"
  by (cases named) (simp add: load_option_def option_tasks_def try_fold_map split: option.splits)

lemma load_options_tasks:
  "try_fold (load_option Y cli env ini ctx gi) opts st =
     try_fold (load_task Y cli env ini ctx) (concat (map (option_tasks (rc_command cli) gi) opts)) st"
proof (induction opts arbitrary: st)
  case (Cons a opts)
  then show ?case
    by (cases "load_option Y cli env ini ctx gi a st") (simp_all add: try_fold_append load_option_tasks)
qed simp

text \<open>The keys are distinct when the options are a map and the index sets are sets.\<close>

definition indices_ok :: "index_map \<Rightarrow> bool" where
  "indices_ok gi = (\<forall>name. sorted_wrt (<) (indices_of gi name))"

lemma indices_of_add [simp]:
  "indices_of (add_indices name idxs out) x =
     (if x = name then fold bs_insert idxs (indices_of out name) else indices_of out x)"
  by (simp add: indices_of_def add_indices_def)

lemma sorted_fold_bs_insert [simp]: "sorted_wrt (<) xs \<Longrightarrow> sorted_wrt (<) (fold bs_insert ys xs)"
  by (induction ys arbitrary: xs) simp_all

lemma indices_ok_add [simp]: "indices_ok out \<Longrightarrow> indices_ok (add_indices name idxs out)"
  by (simp add: indices_ok_def)

lemma fold_preserves: "(\<And>x s. x \<in> set xs \<Longrightarrow> P s \<Longrightarrow> P (f x s)) \<Longrightarrow> P s \<Longrightarrow> P (fold f xs s)"
  by (induction xs arbitrary: s) auto

lemma seen_indices_ok: "indices_ok (seen_indices cli env ini cfg)"
  unfolding seen_indices_def
  by (intro fold_preserves [where P = indices_ok])
     (auto simp: add_raw_key_def add_key_index_def indices_ok_def [of "[]"] indices_of_def [of "[]"]
       intro!: fold_preserves [where P = indices_ok] split: option.splits prod.splits)

lemma discover_indices_ok: "indices_ok (discover_group_indices cli env ini cfg)"
  unfolding discover_group_indices_def Let_def
  by (rule fold_preserves [where P = indices_ok])
     (auto simp: spread_groups_def seen_indices_ok split: option.splits)

lemma distinct_option_indices: "indices_ok gi \<Longrightarrow> distinct (option_indices gi name opt)"
  by (auto simp: option_indices_def Let_def indices_ok_def distinct_map strict_sorted_iff split: option.splits)

lemma option_tasks_name: "t \<in> set (option_tasks command gi a) \<Longrightarrow> fst (task_key t) = fst a"
  by (auto simp: option_tasks_def split: option.splits)

lemma distinct_load_tasks:
  assumes "bt_ok (cfg_options cfg)" "indices_ok gi"
  shows "distinct (map task_key (load_tasks cfg command gi))"
proof -
  have "distinct (map task_key (concat (map (option_tasks command gi) opts)))" if "distinct (map fst opts)" for opts
    using that
  proof (induction opts)
    case (Cons a opts)
    have own: "distinct (map task_key (option_tasks command gi a))"
      using distinct_option_indices [OF assms(2)]
      by (auto simp: option_tasks_def distinct_map inj_on_def comp_def split: option.splits)
    have "task_key t \<noteq> task_key u"
      if tu: "t \<in> set (option_tasks command gi a)" "u \<in> set (concat (map (option_tasks command gi) opts))" for t u
    proof -
      obtain b where "b \<in> set opts" "u \<in> set (option_tasks command gi b)" using tu by auto
      with tu have "fst (task_key t) = fst a" "fst (task_key u) = fst b" by (auto dest: option_tasks_name)
      moreover have "fst a \<noteq> fst b" using Cons.prems \<open>b \<in> set opts\<close> by auto
      ultimately show ?thesis by metis
    qed
    then have "task_key ` set (option_tasks command gi a) \<inter>
        task_key ` set (concat (map (option_tasks command gi) opts)) = {}" by blast
    then show ?case using Cons own by (simp del: set_concat)
  qed simp
  with bt_ok_distinct [OF assms(1)] show ?thesis by (simp add: load_tasks_def)
qed

lemma in_load_tasks:
  assumes "bt_ok (cfg_options cfg)"
  shows "(name, opt, usage, idx) \<in> set (load_tasks cfg command gi) \<longleftrightarrow>
    bt_get (cfg_options cfg) name = Some opt \<and> bt_get (co_commands opt) command = Some usage \<and>
    idx \<in> set (option_indices gi name opt)"
  using assms by (auto simp: load_tasks_def option_tasks_def bt_get_Some_iff split: option.splits)
   (force simp: bt_get_Some_iff)

section \<open>One key, one pass\<close>

text \<open>What the first pass leaves of a key: a given value, a default to be picked later, or a default.\<close>

fun task_done ::
  "'n yaml_api \<Rightarrow> resolved_cli \<Rightarrow> env_values \<Rightarrow> ini_file \<Rightarrow> runtime_context \<Rightarrow> 'n load_state \<Rightarrow> 'n task \<Rightarrow> bool" where
  "task_done Y cli env ini ctx st (name, opt, usage, idx) =
     (\<exists>given. explicit_value cli env ini name opt idx = Ok given \<and>
        ((name, idx) \<in> set (ls_explicit st) \<longleftrightarrow> given \<noteq> None) \<and>
        (case given of
           Some v \<Rightarrow> bt_get (ls_options st) (name, idx) = Some v \<and> (name, idx) \<notin> fst ` set (ls_deferred st)
         | None \<Rightarrow> (case flavor_sequence_default opt usage of
               Some seq \<Rightarrow> bt_get (ls_options st) (name, idx) = None \<and> ((name, idx), seq) \<in> set (ls_deferred st)
             | None \<Rightarrow> \<exists>d. resolve_default Y opt usage name idx ctx = Ok d \<and>
                 bt_get (ls_options st) (name, idx) = d \<and> (name, idx) \<notin> fst ` set (ls_deferred st) \<and>
                 (d = None \<longrightarrow> \<not> is_required opt usage))))"

definition state_keys :: "'n load_state \<Rightarrow> option_key set" where
  "state_keys st = fst ` set (ls_options st) \<union> set (ls_explicit st) \<union> fst ` set (ls_deferred st)"

lemma load_key_cases:
  assumes "load_key Y cli env ini ctx name opt usage idx st = Ok st'"
  obtains (given) v where "explicit_value cli env ini name opt idx = Ok (Some v)"
      "validate_value Y v opt usage name idx = Ok ()"
      "st' = st\<lparr>ls_explicit := bs_insert (name, idx) (ls_explicit st),
                ls_options := bt_insert (name, idx) v (ls_options st)\<rparr>"
    | (later) seq where "explicit_value cli env ini name opt idx = Ok None"
      "flavor_sequence_default opt usage = Some seq"
      "st' = st\<lparr>ls_deferred := ls_deferred st @ [((name, idx), seq)]\<rparr>"
    | (default) v where "explicit_value cli env ini name opt idx = Ok None"
      "flavor_sequence_default opt usage = None" "resolve_default Y opt usage name idx ctx = Ok (Some v)"
      "validate_value Y v opt usage name idx = Ok ()"
      "st' = st\<lparr>ls_options := bt_insert (name, idx) v (ls_options st)\<rparr>"
    | (none) "explicit_value cli env ini name opt idx = Ok None"
      "flavor_sequence_default opt usage = None" "resolve_default Y opt usage name idx ctx = Ok None"
      "\<not> is_required opt usage" "st' = st"
proof -
  obtain g where g: "explicit_value cli env ini name opt idx = Ok g"
    using assms by (cases "explicit_value cli env ini name opt idx") (simp_all add: load_key_def Let_def)
  show ?thesis
  proof (cases g)
    case (Some v)
    then show ?thesis
      using assms g given by (simp add: load_key_def Let_def rbind_Inr_iff)
  next
    case None
    note g = g [unfolded None]
    show ?thesis
    proof (cases "flavor_sequence_default opt usage")
      case (Some seq)
      then show ?thesis using assms g later by (simp add: load_key_def Let_def)
    next
      case flavor: None
      obtain d where d: "resolve_default Y opt usage name idx ctx = Ok d"
        using assms g flavor
        by (cases "resolve_default Y opt usage name idx ctx") (simp_all add: load_key_def Let_def)
      show ?thesis
      proof (cases d)
        case None
        then show ?thesis using assms g flavor d none by (simp add: load_key_def Let_def split: if_splits)
      next
        case (Some v)
        then show ?thesis
          using assms g flavor d default by (simp add: load_key_def Let_def rbind_Inr_iff)
      qed
    qed
  qed
qed

lemma load_key_touches:
  assumes "load_key Y cli env ini ctx name opt usage idx st = Ok st'"
  shows "state_keys st' \<subseteq> insert (name, idx) (state_keys st)" and
    "k \<noteq> (name, idx) \<Longrightarrow> bt_get (ls_options st') k = bt_get (ls_options st) k" and
    "k \<noteq> (name, idx) \<Longrightarrow> k \<in> set (ls_explicit st') \<longleftrightarrow> k \<in> set (ls_explicit st)" and
    "k \<noteq> (name, idx) \<Longrightarrow> (k, seq) \<in> set (ls_deferred st') \<longleftrightarrow> (k, seq) \<in> set (ls_deferred st)"
  using assms by (cases rule: load_key_cases; auto simp: state_keys_def)+

lemma load_key_done:
  assumes "load_key Y cli env ini ctx name opt usage idx st = Ok st'" "(name, idx) \<notin> state_keys st"
  shows "task_done Y cli env ini ctx st' (name, opt, usage, idx)"
  using assms by (cases rule: load_key_cases) (auto simp: state_keys_def bt_get_None_iff)

lemma task_done_other:
  assumes "load_key Y cli env ini ctx name opt usage idx st = Ok st'" "task_key t \<noteq> (name, idx)"
    and "task_done Y cli env ini ctx st t"
  shows "task_done Y cli env ini ctx st' t"
proof -
  obtain n opt' usage' i where t: "t = (n, opt', usage', i)" by (cases t)
  have "(n, i) \<noteq> (name, idx)" using assms(2) t by simp
  note eq = load_key_touches(2-4) [OF assms(1) this]
  have eq': "(n, i) \<in> fst ` set (ls_deferred st') \<longleftrightarrow> (n, i) \<in> fst ` set (ls_deferred st)"
    using eq(3) by (force simp: image_iff)
  show ?thesis using assms(3) unfolding t task_done.simps eq eq' .
qed

abbreviation empty_state :: "'n load_state" where
  "empty_state \<equiv> \<lparr>ls_options = [], ls_deferred = [], ls_explicit = []\<rparr>"

lemma load_tasks_done:
  assumes "try_fold (load_task Y cli env ini ctx) ts empty_state = Ok st" "distinct (map task_key ts)"
  shows "(\<forall>t \<in> set ts. task_done Y cli env ini ctx st t) \<and> state_keys st \<subseteq> task_key ` set ts"
  using assms
proof (induction ts arbitrary: st rule: rev_induct)
  case Nil
  then show ?case by (auto simp: state_keys_def)
next
  case (snoc t ts)
  obtain name opt usage idx where t: "t = (name, opt, usage, idx)" by (cases t)
  from snoc.prems(1) obtain s where s: "try_fold (load_task Y cli env ini ctx) ts empty_state = Ok s"
    "load_key Y cli env ini ctx name opt usage idx s = Ok st"
    by (auto simp: try_fold_append rbind_Inr_iff t)
  have "distinct (map task_key ts)" using snoc.prems(2) by simp
  note IH = snoc.IH [OF s(1) this]
  have fresh: "(name, idx) \<notin> task_key ` set ts" using snoc.prems(2) t by auto
  with IH have "task_done Y cli env ini ctx st t" using load_key_done [OF s(2)] t by auto
  moreover have "task_done Y cli env ini ctx st u" if "u \<in> set ts" for u
    using task_done_other [OF s(2)] IH fresh that by (metis image_eqI)
  ultimately show ?case using load_key_touches(1) [OF s(2)] IH t by auto
qed

lemma bt_ok_load_tasks:
  assumes "try_fold (load_task Y cli env ini ctx) ts empty_state = Ok st"
  shows "bt_ok (ls_options st)"
proof (rule try_fold_invariant [OF assms])
  fix t a b
  assume "bt_ok (ls_options a)" "load_task Y cli env ini ctx t a = Ok b"
  then show "bt_ok (ls_options b)"
    by (cases t) (auto elim!: load_key_cases)
qed simp

section \<open>The second pass and the dependencies\<close>

lemma load_deferred_cases:
  assumes "load_deferred Y cfg command ((name, idx), seq) options = Ok options'"
  obtains (gone) "bt_get (cfg_options cfg) name = None" "options' = options"
    | (picked) opt v where "bt_get (cfg_options cfg) name = Some opt"
      "validate_value Y v opt (the (bt_get (co_commands opt) command)) name idx = Ok ()"
      "options' = bt_insert (name, idx) v options"
    | (unset) opt where "bt_get (cfg_options cfg) name = Some opt"
      "\<not> is_required opt (the (bt_get (co_commands opt) command))" "options' = options"
  using assms
  by (auto simp: load_deferred_def Let_def rbind_Inr_iff split: option.splits if_splits)

lemma load_deferred_other:
  "try_fold (load_deferred Y cfg command) ds options = Ok options' \<Longrightarrow> k \<notin> fst ` set ds \<Longrightarrow>
     bt_get options' k = bt_get options k"
proof (induction ds arbitrary: options)
  case (Cons d ds)
  obtain name idx seq where d: "d = ((name, idx), seq)" by (cases d) auto
  from Cons.prems(1) obtain o' where "load_deferred Y cfg command d options = Ok o'"
    "try_fold (load_deferred Y cfg command) ds o' = Ok options'" by (auto simp: rbind_Inr_iff)
  then show ?case using Cons d by (auto elim!: load_deferred_cases)
qed simp

lemma load_deferred_keeps:
  "try_fold (load_deferred Y cfg command) ds options = Ok options' \<Longrightarrow> bt_get options k \<noteq> None \<Longrightarrow>
     bt_get options' k \<noteq> None"
  by (erule try_fold_invariant [where P = "\<lambda>m. bt_get m k \<noteq> None"]) (auto elim!: load_deferred_cases)

lemma load_deferred_fills:
  assumes "try_fold (load_deferred Y cfg command) ds options = Ok options'" "((name, idx), seq) \<in> set ds"
    and "bt_get (cfg_options cfg) name = Some opt" "bt_get (co_commands opt) command = Some usage"
  shows "bt_get options' (name, idx) \<noteq> None \<or> \<not> is_required opt usage"
  using assms(1,2)
proof (induction ds arbitrary: options)
  case (Cons d ds)
  from Cons.prems(1) obtain o' where o': "load_deferred Y cfg command d options = Ok o'"
    "try_fold (load_deferred Y cfg command) ds o' = Ok options'" by (auto simp: rbind_Inr_iff)
  show ?case
  proof (cases "d = ((name, idx), seq)")
    case True
    with o'(1) have "bt_get o' (name, idx) \<noteq> None \<or> \<not> is_required opt usage"
      using assms(3,4) by (auto elim!: load_deferred_cases)
    then show ?thesis using load_deferred_keeps [OF o'(2)] by blast
  qed (use Cons o' in auto)
qed simp

lemma try_fold_filter:
  "try_fold (\<lambda>k ds. rbind (f k) (\<lambda>d. Ok (if d then ds @ [k] else ds))) ks ds0 = Ok ds \<Longrightarrow>
     (\<forall>k \<in> set ks. \<exists>d. f k = Ok d) \<and> ds = ds0 @ filter (\<lambda>k. f k = Ok True) ks"
proof (induction ks arbitrary: ds0)
  case (Cons k ks)
  then obtain d where "f k = Ok d" by (auto simp: rbind_Inr_iff)
  then show ?case using Cons.prems Cons.IH [of "if d then ds0 @ [k] else ds0"] by (cases d) auto
qed simp

lemma bt_get_remove_all [simp]:
  "bt_get (fold bt_remove ks m) k = (if k \<in> set ks then None else bt_get m k)"
  by (induction ks arbitrary: m) auto

lemma apply_depends_Ok:
  assumes "apply_depends Y options explicit cfg command = Ok options'"
  shows "bt_get options' key = (if depend_key Y options explicit cfg command key = Ok True then None else bt_get options key)"
    and "bt_get options key \<noteq> None \<Longrightarrow> \<exists>d. depend_key Y options explicit cfg command key = Ok d"
proof -
  let ?f = "depend_key Y options explicit cfg command"
  from assms obtain drops where drops:
    "try_fold (\<lambda>key drops. rbind (?f key) (\<lambda>d. Ok (if d then drops @ [key] else drops))) (bt_keys options) [] = Ok drops"
    "options' = fold bt_remove drops options"
    by (auto simp: apply_depends_def rbind_Inr_iff)
  note filt = try_fold_filter [OF drops(1)]
  have keys: "bt_get options key \<noteq> None \<longleftrightarrow> key \<in> set (bt_keys options)"
    by (simp add: bt_get_None_iff bt_keys_def)
  show "bt_get options' key = (if ?f key = Ok True then None else bt_get options key)"
    using filt keys by (auto simp: drops(2))
  show "bt_get options key \<noteq> None \<Longrightarrow> \<exists>d. ?f key = Ok d" using filt keys by simp
qed

lemma depend_key_explicit: "key \<in> set explicit \<Longrightarrow> depend_key Y options explicit cfg command key \<noteq> Ok True"
  by (auto simp: depend_key_def Let_def split: option.splits)

section \<open>A finished load\<close>

lemma load_run:
  assumes "load_config_with_env_single Y cli env ini cfg ctx = Ok lc"
  obtains st options where
    "try_fold (load_task Y cli env ini ctx)
       (load_tasks cfg (rc_command cli) (discover_group_indices cli env ini cfg)) empty_state = Ok st"
    "try_fold (load_deferred Y cfg (rc_command cli)) (ls_deferred st) (ls_options st) = Ok options"
    "apply_depends Y options (ls_explicit st) cfg (rc_command cli) = Ok (lc_options lc)"
  using assms
  by (auto simp: load_config_with_env_single_def Let_def rbind_Inr_iff load_options_tasks load_tasks_def)

text \<open>The values of an option at an index, once everything has run.\<close>

lemma load_key_final:
  assumes run: "load_config_with_env_single Y cli env ini cfg ctx = Ok lc" and "bt_ok (cfg_options cfg)"
    and opt: "bt_get (cfg_options cfg) name = Some opt" "bt_get (co_commands opt) (rc_command cli) = Some usage"
    and "idx \<in> set (option_indices (discover_group_indices cli env ini cfg) name opt)"
  obtains (given) v where "explicit_value cli env ini name opt idx = Ok (Some v)"
      "bt_get (lc_options lc) (name, idx) = Some v"
    | (defaulted) v where "explicit_value cli env ini name opt idx = Ok None"
      "bt_get (lc_options lc) (name, idx) = Some v"
      "flavor_sequence_default opt usage = None \<Longrightarrow> resolve_default Y opt usage name idx ctx = Ok (Some v)"
    | (missing) "explicit_value cli env ini name opt idx = Ok None"
      "bt_get (lc_options lc) (name, idx) = None" "\<not> is_required opt usage"
    | (inactive) depend where "explicit_value cli env ini name opt idx = Ok None"
      "bt_get (lc_options lc) (name, idx) = None" "depend_of opt (rc_command cli) = Some depend"
      "rd_default depend = None"
proof -
  from load_run [OF run] obtain st options where st:
    "try_fold (load_task Y cli env ini ctx)
       (load_tasks cfg (rc_command cli) (discover_group_indices cli env ini cfg)) empty_state = Ok st"
    "try_fold (load_deferred Y cfg (rc_command cli)) (ls_deferred st) (ls_options st) = Ok options"
    "apply_depends Y options (ls_explicit st) cfg (rc_command cli) = Ok (lc_options lc)" .
  let ?key = "(name, idx)"
  have "(name, opt, usage, idx) \<in> set (load_tasks cfg (rc_command cli) (discover_group_indices cli env ini cfg))"
    using assms by (simp add: in_load_tasks)
  then have "task_done Y cli env ini ctx st (name, opt, usage, idx)"
    using load_tasks_done [OF st(1) distinct_load_tasks [OF assms(2) discover_indices_ok]] by blast
  then obtain g where g: "explicit_value cli env ini name opt idx = Ok g"
    and ex: "?key \<in> set (ls_explicit st) \<longleftrightarrow> g \<noteq> None"
    and some: "\<And>v. g = Some v \<Longrightarrow> bt_get (ls_options st) ?key = Some v \<and> ?key \<notin> fst ` set (ls_deferred st)"
    and none: "g = None \<Longrightarrow> (\<exists>seq. (?key, seq) \<in> set (ls_deferred st)) \<or>
      (?key \<notin> fst ` set (ls_deferred st) \<and> (bt_get (ls_options st) ?key = None \<longrightarrow> \<not> is_required opt usage))"
    and default: "g = None \<Longrightarrow> flavor_sequence_default opt usage = None \<Longrightarrow>
      ?key \<notin> fst ` set (ls_deferred st) \<and> resolve_default Y opt usage name idx ctx = Ok (bt_get (ls_options st) ?key)"
    by (fastforce split: option.splits)
  note final = apply_depends_Ok [OF st(3), of ?key]
  show ?thesis
  proof (cases g)
    case (Some v)
    then have "bt_get options ?key = Some v" using some load_deferred_other [OF st(2)] by metis
    moreover have "depend_key Y options (ls_explicit st) cfg (rc_command cli) ?key \<noteq> Ok True"
      using depend_key_explicit ex Some by blast
    ultimately show ?thesis using given g Some final(1) by simp
  next
    case None
    have req: "bt_get options ?key = None \<Longrightarrow> \<not> is_required opt usage"
      using none [OF None] load_deferred_fills [OF st(2) _ opt] load_deferred_other [OF st(2), of ?key] by metis
    show ?thesis
    proof (cases "depend_key Y options (ls_explicit st) cfg (rc_command cli) ?key = Ok True")
      case True
      then obtain depend where "depend_of opt (rc_command cli) = Some depend" "rd_default depend = None"
        using opt(1) by (auto simp: depend_key_def Let_def split: option.splits if_splits)
      with True show ?thesis using inactive g None final(1) by simp
    next
      case False
      have "flavor_sequence_default opt usage = None \<Longrightarrow>
          resolve_default Y opt usage name idx ctx = Ok (bt_get options ?key)"
        using default [OF None] load_deferred_other [OF st(2), of ?key] by simp
      with False show ?thesis
        using req g None final(1) missing defaulted by (cases "bt_get options ?key") simp_all
    qed
  qed
qed

text \<open>
  The sources in their order of precedence, each with what it says of a key: the command line, the
  environment, then the sections of the configuration file from the most to the least specific.
\<close>

definition section_order :: "string option \<Rightarrow> string \<Rightarrow> ini_section list" where
  "section_order stanza command = (case stanza of
       None \<Rightarrow> [IniGlobalCommand command, IniGlobal]
     | Some s \<Rightarrow> [IniStanzaCommand s command, IniStanza s, IniGlobalCommand command, IniGlobal])"

definition section_value :: "option_type \<Rightarrow> ini_file \<Rightarrow> string \<Rightarrow> ini_section \<Rightarrow> (value_error, option_value) result option" where
  "section_value ty ini key sec =
     (if ini_values ini sec key = [] then None else Some (parse_ini_values ty (ini_values ini sec key)))"

definition source_values ::
  "resolved_cli \<Rightarrow> env_values \<Rightarrow> ini_file \<Rightarrow> string \<Rightarrow> 'n cfg_option \<Rightarrow> nat option \<Rightarrow>
     (value_error, option_value) result option list" where
  "source_values cli env ini name opt idx =
     map_option Ok (bt_get (rc_options cli) (name, idx)) #
     (if (name, idx) \<in> set (rc_resets cli) then []
      else map_option (parse_value (co_type opt)) (bt_get env (name, idx)) #
        map (section_value (co_type opt) ini (raw_key_for name (co_group opt) idx))
          (section_order (extract_stanza cli) (rc_command cli)))"

fun first_present :: "'a option list \<Rightarrow> 'a option" where
  "first_present [] = None"
| "first_present (Some x # xs) = Some x"
| "first_present (None # xs) = first_present xs"

lemma lookup_ini_first:
  assumes "lookup_ini name idx opt ini cli ty stanza = Ok v"
  shows "map_option Ok v = first_present (map (section_value ty ini (raw_key_for name (co_group opt) idx))
    (section_order stanza (rc_command cli)))"
proof -
  let ?key = "raw_key_for name (co_group opt) idx"
  have order: "ini_sections_tried stanza (rc_command cli) = section_order stanza (rc_command cli)"
    by (simp add: ini_sections_tried_def section_order_def split: option.splits)
  have "first_present (map (section_value ty ini ?key) secs) =
    (case find (\<lambda>sec. ini_values ini sec ?key \<noteq> []) secs of
       None \<Rightarrow> None | Some sec \<Rightarrow> Some (parse_ini_values ty (ini_values ini sec ?key)))" for secs
    by (induction secs) (simp_all add: section_value_def)
  with assms show ?thesis
    by (auto simp: lookup_ini_def Let_def rbind_Inr_iff order split: option.splits)
qed

lemma first_present_Cons: "first_present (x # xs) = or_else x (first_present xs)"
  by (cases x) (simp_all add: or_else_def)

lemma explicit_value_first:
  assumes "explicit_value cli env ini name opt idx = Ok given"
  shows "map_option Ok given = first_present (source_values cli env ini name opt idx)"
proof (cases "(name, idx) \<in> set (rc_resets cli)")
  case True
  with assms show ?thesis
    by (auto simp: explicit_value_def source_values_def first_present_Cons or_else_def split: option.splits)
next
  case False
  with assms obtain ev iv where "lookup_env name idx env (co_type opt) = Ok ev"
    and iv: "lookup_ini name idx opt ini cli (co_type opt) (extract_stanza cli) = Ok iv"
    and g: "given = or_else (bt_get (rc_options cli) (name, idx)) (or_else ev iv)"
    by (auto simp: explicit_value_def Let_def rbind_Inr_iff)
  then have "map_option Ok ev = map_option (parse_value (co_type opt)) (bt_get env (name, idx))"
    by (auto simp: lookup_env_def rbind_Inr_iff split: option.splits)
  then show ?thesis
    using False lookup_ini_first [OF iv] unfolding g source_values_def
    by (auto simp: first_present_Cons or_else_def split: option.splits)
qed

section \<open>Every value is declared and permitted\<close>

definition declared :: "'n cfg \<Rightarrow> string \<Rightarrow> index_map \<Rightarrow> option_key \<Rightarrow> 'n cfg_option \<Rightarrow> 'n command_usage \<Rightarrow> bool" where
  "declared cfg command gi key opt usage =
     (bt_get (cfg_options cfg) (fst key) = Some opt \<and> bt_get (co_commands opt) command = Some usage \<and>
      snd key \<in> set (option_indices gi (fst key) opt))"

definition all_valid :: "'n yaml_api \<Rightarrow> 'n cfg \<Rightarrow> string \<Rightarrow> index_map \<Rightarrow> option_map \<Rightarrow> bool" where
  "all_valid Y cfg command gi m =
     (\<forall>key v. bt_get m key = Some v \<longrightarrow>
        (\<exists>opt usage. declared cfg command gi key opt usage \<and> validate_value Y v opt usage (fst key) (snd key) = Ok ()))"

lemma all_valid_insert:
  "all_valid Y cfg command gi m \<Longrightarrow> declared cfg command gi key opt usage \<Longrightarrow>
     validate_value Y v opt usage (fst key) (snd key) = Ok () \<Longrightarrow> all_valid Y cfg command gi (bt_insert key v m)"
  unfolding all_valid_def bt_get_insert by (metis option.inject)

lemma all_validD:
  assumes "all_valid Y cfg command gi m" "bt_get m key = Some v"
  obtains opt usage where "declared cfg command gi key opt usage"
    "validate_value Y v opt usage (fst key) (snd key) = Ok ()"
  using assms unfolding all_valid_def by blast

lemma load_valid_values:
  assumes run: "load_config_with_env_single Y cli env ini cfg ctx = Ok lc" and ok: "bt_ok (cfg_options cfg)"
  shows "all_valid Y cfg (rc_command cli) (discover_group_indices cli env ini cfg) (lc_options lc)"
proof -
  let ?gi = "discover_group_indices cli env ini cfg" and ?cmd = "rc_command cli"
  from load_run [OF run] obtain st options where st:
    "try_fold (load_task Y cli env ini ctx) (load_tasks cfg ?cmd ?gi) empty_state = Ok st"
    "try_fold (load_deferred Y cfg ?cmd) (ls_deferred st) (ls_options st) = Ok options"
    "apply_depends Y options (ls_explicit st) cfg ?cmd = Ok (lc_options lc)" .
  have first: "all_valid Y cfg ?cmd ?gi (ls_options st)"
  proof (rule try_fold_invariant [OF st(1)])
    show "all_valid Y cfg ?cmd ?gi (ls_options empty_state)" by (simp add: all_valid_def)
    fix t a b
    assume t: "t \<in> set (load_tasks cfg ?cmd ?gi)" and a: "all_valid Y cfg ?cmd ?gi (ls_options a)"
      and b: "load_task Y cli env ini ctx t a = Ok b"
    obtain name opt usage idx where e: "t = (name, opt, usage, idx)" by (cases t)
    then have "declared cfg ?cmd ?gi (name, idx) opt usage"
      using t ok by (simp add: in_load_tasks declared_def)
    note ins = all_valid_insert [OF a this]
    from b show "all_valid Y cfg ?cmd ?gi (ls_options b)"
      unfolding e load_task.simps by (rule load_key_cases) (use ins a in auto)
  qed
  have keys: "fst ` set (ls_deferred st) \<subseteq> task_key ` set (load_tasks cfg ?cmd ?gi)"
    using load_tasks_done [OF st(1) distinct_load_tasks [OF ok discover_indices_ok]] by (auto simp: state_keys_def)
  have "all_valid Y cfg ?cmd ?gi options"
  proof (rule try_fold_invariant [OF st(2)])
    fix d a b
    assume d: "d \<in> set (ls_deferred st)" and a: "all_valid Y cfg ?cmd ?gi a"
      and b: "load_deferred Y cfg ?cmd d a = Ok b"
    obtain name idx seq where e: "d = ((name, idx), seq)" by (cases d) auto
    with d keys obtain t where "t \<in> set (load_tasks cfg ?cmd ?gi)" "task_key t = (name, idx)" by force
    moreover obtain n opt usage i where "t = (n, opt, usage, i)" by (cases t)
    ultimately have "declared cfg ?cmd ?gi (name, idx) opt usage"
      by (simp add: in_load_tasks [OF ok] declared_def)
    note dec = this all_valid_insert [OF a this]
    from b show "all_valid Y cfg ?cmd ?gi b"
      unfolding e by (rule load_deferred_cases) (use dec a in \<open>auto simp: declared_def\<close>)
  qed (rule first)
  then show ?thesis using apply_depends_Ok(1) [OF st(3)] by (auto simp: all_valid_def split: if_splits)
qed

lemma validate_list:
  assumes "validate_value Y v opt usage name idx = Ok ()"
    and "or_else (cu_allow_list usage) (co_allow_list opt) = Some allowed"
  shows "v \<in> {OvString s, OvStringId s, OvPath s} \<Longrightarrow> Some s \<in> value_to_match_str Y ` set allowed"
    and "(co_type opt, v) \<in> {(TySize, OvSize n), (TyTime, OvTime n)} \<Longrightarrow>
      \<exists>e \<in> set allowed. \<exists>t. value_to_match_str Y e = Some t \<and> parse_value (co_type opt) t = Ok v"
proof -
  show "v \<in> {OvString s, OvStringId s, OvPath s} \<Longrightarrow> Some s \<in> value_to_match_str Y ` set allowed"
    using assms
    by (force simp: validate_value_def allowed_by_list_def allow_list_contains_def list_ex_iff set_map_filter
        rbind_Inr_iff Let_def split: if_splits)
  assume v: "(co_type opt, v) \<in> {(TySize, OvSize n), (TyTime, OvTime n)}"
  then have "allow_list_contains (co_type opt) (List.map_filter (value_to_match_str Y) allowed) v (fmt_dec n)"
    using assms by (auto simp: validate_value_def allowed_by_list_def rbind_Inr_iff Let_def split: if_splits)
  moreover have "count_of v = Some n" "co_type opt = TySize \<or> co_type opt = TyTime" using v by auto
  ultimately have "n \<in> set (List.map_filter (\<lambda>s. case parse_value (co_type opt) s of Err _ \<Rightarrow> None | Ok a \<Rightarrow> count_of a)
      (List.map_filter (value_to_match_str Y) allowed))"
    by (simp add: allow_list_contains_def list_ex_iff)
  then obtain e t where et: "e \<in> set allowed" "value_to_match_str Y e = Some t"
    "(case parse_value (co_type opt) t of Err _ \<Rightarrow> None | Ok a \<Rightarrow> count_of a) = Some n"
    by (auto simp: set_map_filter)
  then obtain a where "parse_value (co_type opt) t = Ok a" "count_of a = Some n"
    by (cases "parse_value (co_type opt) t") simp_all
  moreover from this have "a = v"
    using v parse_value_typed [of "co_type opt" t a] by (cases a) auto
  ultimately show "\<exists>e \<in> set allowed. \<exists>t. value_to_match_str Y e = Some t \<and> parse_value (co_type opt) t = Ok v"
    using et by blast
qed

lemma validate_range:
  assumes "validate_value Y v opt usage name idx = Ok ()" "co_allow_range opt = Some (YSequence [lo, hi])"
    and "yaml_to_i64 Y lo = Some mn" "yaml_to_i64 Y hi = Some mx" "ranged_value v = Some n"
  shows "mn \<le> n \<and> n \<le> mx"
  using assms by (auto simp: validate_value_def rbind_Inr_iff allowed_by_range_def split: if_splits)

end
