(* ===== verification/Config_Props.thy ===== *)
theory Config_Props
  imports Config_Load
begin

text \<open>
  The properties of the merge, with a sample: a repository host given at index 3 and, at index 2, only the
  user to connect with.
\<close>

section \<open>A sample configuration\<close>

definition int_yaml :: "int yaml_api" where
  "int_yaml = \<lparr>yn_to_string = fmt_int, yn_as_i64 = Some,
     yv_as_str = (\<lambda>v. case v of YString s \<Rightarrow> Some s | _ \<Rightarrow> None)\<rparr>"

definition repo_option :: "string \<Rightarrow> int cfg_option" where
  "repo_option name = (base_option name)\<lparr>co_group := Some GrpRepo, co_commands := [(''info'', default_usage)]\<rparr>"

definition host_depend :: "string \<Rightarrow> string list option \<Rightarrow> int resolved_depend" where
  "host_depend opt l = \<lparr>rd_option = opt, rd_list = map_option (map YString) l, rd_default = None\<rparr>"

definition host_type_option :: "int cfg_option" where
  "host_type_option = (repo_option ''repo-host-type'')\<lparr>co_type := TyStringId, co_required := True,
          co_default := Some (YString ''ssh''), co_allow_list := Some [YString ''ssh'', YString ''tls''],
          co_depend := Some (host_depend ''repo-host'' None)\<rparr>"

definition host_user_option :: "int cfg_option" where
  "host_user_option = (repo_option ''repo-host-user'')\<lparr>co_depend := Some (host_depend ''repo-host-type'' (Some [''ssh'']))\<rparr>"

definition host_cfg :: "int cfg" where
  "host_cfg = \<lparr>cfg_commands = [],
     cfg_options = [(''repo-host'', repo_option ''repo-host''),
       (''repo-host-type'', host_type_option), (''repo-host-user'', host_user_option)],
     cfg_option_groups = [GrpRepo]\<rparr>"

definition host_cli :: resolved_cli where
  "host_cli = \<lparr>rc_command = ''info'', rc_command_role = RoleMain, rc_options = [], rc_resets = [], rc_params = []\<rparr>"


definition host_ini :: ini_file where
  "host_ini = [(IniGlobal, [(''repo2-host-user'', [''backup'']), (''repo3-host'', [''h''])])]"


lemma fmt_small: "fmt_dec 2 = ''2''" "fmt_dec 3 = ''3''"
  by code_simp+

lemma raw_keys [simp]:
  "raw_key_for ''repo-host'' (Some GrpRepo) (Some 2) = ''repo2-host''"
  "raw_key_for ''repo-host'' (Some GrpRepo) (Some 3) = ''repo3-host''"
  "raw_key_for ''repo-host-user'' (Some GrpRepo) (Some 2) = ''repo2-host-user''"
  "raw_key_for ''repo-host-user'' (Some GrpRepo) (Some 3) = ''repo3-host-user''"
  "raw_key_for ''repo-host-type'' (Some GrpRepo) (Some 2) = ''repo2-host-type''"
  "raw_key_for ''repo-host-type'' (Some GrpRepo) (Some 3) = ''repo3-host-type''"
  unfolding raw_key_for_def by (simp_all add: fmt_small strip_prefix_or_def strip_prefix_def starts_with_def)

lemma host_options [simp]:
  "bt_get (cfg_options host_cfg) ''repo-host'' = Some (repo_option ''repo-host'')"
  "bt_get (cfg_options host_cfg) ''repo-host-type'' = Some (host_type_option)"
  "bt_get (cfg_options host_cfg) ''repo-host-user'' = Some (host_user_option)"
  by (simp_all add: host_cfg_def bt_get_def)

lemma option_groups [simp]: "co_group (repo_option n) = Some GrpRepo" "co_group host_type_option = Some GrpRepo"
  "co_group host_user_option = Some GrpRepo"
  by (simp_all add: host_type_option_def host_user_option_def repo_option_def)

lemma group_keys:
  "decode_grouped_key ''repo2-host-user'' host_cfg = Some (''repo-host-user'', 2)"
  "decode_grouped_key ''repo3-host'' host_cfg = Some (''repo-host'', 3)"
proof -
  have "decode_grouped_key (raw_key_for ''repo-host-user'' (Some GrpRepo) (Some 2)) host_cfg = Some (''repo-host-user'', 2)"
    by (rule group_key_roundtrip [OF host_options(3) option_groups(3), where rest = "''host-user''"]) simp_all
  then show "decode_grouped_key ''repo2-host-user'' host_cfg = Some (''repo-host-user'', 2)" by simp
  have "decode_grouped_key (raw_key_for ''repo-host'' (Some GrpRepo) (Some 3)) host_cfg = Some (''repo-host'', 3)"
    by (rule group_key_roundtrip [OF host_options(1) option_groups(1), where rest = "''host''"]) simp_all
  then show "decode_grouped_key ''repo3-host'' host_cfg = Some (''repo-host'', 3)" by simp
qed

lemma host_indices:
  "discover_group_indices host_cli [] host_ini host_cfg =
     [(''repo-host'', [2, 3]), (''repo-host-type'', [2, 3]), (''repo-host-user'', [2, 3])]"
proof -
  have "seen_indices host_cli [] host_ini host_cfg = [(''repo-host'', [3]), (''repo-host-user'', [2])]"
    using group_keys
    by (simp add: seen_indices_def host_ini_def host_cli_def bt_keys_def add_raw_key_def add_indices_def indices_of_def bt_get_def)
  moreover have "option_group_of host_cfg ''repo-host'' = Some GrpRepo" "option_group_of host_cfg ''repo-host-user'' = Some GrpRepo"
    by (simp_all add: option_group_of_def)
  moreover have "cfg_options host_cfg = [(''repo-host'', repo_option ''repo-host''), (''repo-host-type'', host_type_option), (''repo-host-user'', host_user_option)]"
    by (simp add: host_cfg_def)
  ultimately show ?thesis
    by (simp add: discover_group_indices_def Let_def collect_groups_def spread_groups_def add_indices_def indices_of_def bt_get_def)
qed

lemma option_fields [simp]:
  "co_commands (repo_option n) = [(''info'', default_usage)]" "co_commands host_type_option = [(''info'', default_usage)]"
  "co_commands host_user_option = [(''info'', default_usage)]"
  by (simp_all add: host_type_option_def host_user_option_def repo_option_def)

lemma host_lookups [simp]:
  "ini_values host_ini (IniGlobalCommand c) k = []"
  "ini_values host_ini IniGlobal k =
     (if k = ''repo2-host-user'' then [''backup''] else if k = ''repo3-host'' then [''h''] else [])"
  "rc_options host_cli = []" "rc_resets host_cli = []" "rc_command host_cli = ''info''" "extract_stanza host_cli = None"
  by (simp_all add: ini_values_def ini_rows_def host_ini_def bt_get_def host_cli_def extract_stanza_def)

lemma host_values:
  "explicit_value host_cli [] host_ini ''repo-host'' (repo_option ''repo-host'') (Some 2) = Ok None"
  "explicit_value host_cli [] host_ini ''repo-host'' (repo_option ''repo-host'') (Some 3) = Ok (Some (OvString ''h''))"
  "explicit_value host_cli [] host_ini ''repo-host-type'' host_type_option (Some 2) = Ok None"
  "explicit_value host_cli [] host_ini ''repo-host-type'' host_type_option (Some 3) = Ok None"
  "explicit_value host_cli [] host_ini ''repo-host-user'' host_user_option (Some 2) = Ok (Some (OvString ''backup''))"
  "explicit_value host_cli [] host_ini ''repo-host-user'' host_user_option (Some 3) = Ok None"
  by (simp_all add: explicit_value_def Let_def lookup_env_def lookup_ini_def ini_sections_tried_def or_else_def
     parse_ini_values_def parse_value_def repo_option_def host_user_option_def base_option_def)

lemma host_defaults:
  "flavor_sequence_default (repo_option n) default_usage = None" "flavor_sequence_default host_user_option default_usage = None"
  "flavor_sequence_default host_type_option default_usage = None"
  "resolve_default int_yaml (repo_option n) default_usage m idx ctx = Ok None"
  "resolve_default int_yaml host_user_option default_usage m idx ctx = Ok None"
  "resolve_default int_yaml host_type_option default_usage m idx ctx = Ok (Some (OvStringId ''ssh''))"
  "\<not> is_required (repo_option n) default_usage" "\<not> is_required host_user_option default_usage"
  by (simp_all add: flavor_sequence_default_def resolve_default_def repo_option_def host_user_option_def host_type_option_def base_option_def
      default_usage_def or_else_def parse_scalar_def parse_value_def is_required_def)

lemma host_valid:
  "validate_value int_yaml v (repo_option n) default_usage m idx = Ok ()" "validate_value int_yaml v host_user_option default_usage m idx = Ok ()"
  "validate_value int_yaml (OvStringId ''ssh'') host_type_option default_usage m idx = Ok ()"
  by (simp_all add: validate_value_def allowed_by_list_def allowed_by_range_def repo_option_def host_user_option_def host_type_option_def base_option_def
      default_usage_def or_else_def allow_list_contains_def List.map_filter_def)

lemma host_depends:
  "depend_of (repo_option n) ''info'' = None" "depend_of host_user_option ''info'' = Some (host_depend ''repo-host-type'' (Some [''ssh'']))"
  "depend_of host_type_option ''info'' = Some (host_depend ''repo-host'' None)"
  by (simp_all add: depend_of_def repo_option_def host_user_option_def host_type_option_def base_option_def bt_get_def or_else_def default_usage_def)

lemma host_load: "load_config_with_env_single int_yaml host_cli [] host_ini host_cfg default_context =
  Ok \<lparr>lc_command = ''info'', lc_role = RoleMain, lc_stanza = None, lc_options =
     [((''repo-host'', Some 3), OvString ''h''), ((''repo-host-type'', Some 3), OvStringId ''ssh''),
      ((''repo-host-user'', Some 2), OvString ''backup'')], lc_params = []\<rparr>"
proof -
  have groups: "option_group_of host_cfg ''repo-host'' = Some GrpRepo" "option_group_of host_cfg ''repo-host-type'' = Some GrpRepo"
    by (simp_all add: option_group_of_def)
  have opts: "cfg_options host_cfg = [(''repo-host'', repo_option ''repo-host''), (''repo-host-type'', host_type_option), (''repo-host-user'', host_user_option)]"
    by (simp add: host_cfg_def)
  have run: "try_fold (load_option int_yaml host_cli [] host_ini default_context
      [(''repo-host'', [2, 3]), (''repo-host-type'', [2, 3]), (''repo-host-user'', [2, 3])]) (cfg_options host_cfg)
      \<lparr>ls_options = [], ls_deferred = [], ls_explicit = []\<rparr> =
    Ok \<lparr>ls_options = [((''repo-host'', Some 3), OvString ''h''), ((''repo-host-type'', Some 2), OvStringId ''ssh''),
        ((''repo-host-type'', Some 3), OvStringId ''ssh''), ((''repo-host-user'', Some 2), OvString ''backup'')],
      ls_deferred = [], ls_explicit = [(''repo-host'', Some 3), (''repo-host-user'', Some 2)]\<rparr>"
    by (simp add: opts load_option_def option_indices_def indices_of_def load_key_def Let_def bt_get_def host_values host_defaults host_valid)
  have dep: "apply_depends int_yaml  [((''repo-host'', Some 3), OvString ''h''), ((''repo-host-type'', Some 2), OvStringId ''ssh''),
        ((''repo-host-type'', Some 3), OvStringId ''ssh''), ((''repo-host-user'', Some 2), OvString ''backup'')] 
       [(''repo-host'', Some 3), (''repo-host-user'', Some 2)] host_cfg ''info'' =
     Ok [((''repo-host'', Some 3), OvString ''h''), ((''repo-host-type'', Some 3), OvStringId ''ssh''),
      ((''repo-host-user'', Some 2), OvString ''backup'')]"
    by (simp add: apply_depends_def bt_keys_def depend_key_def host_depends host_depend_def depend_value_def groups depend_index_def
         bt_get_def [of "(_, _) # _"] depend_satisfied_def depend_strs_def List.map_filter_def bt_remove_def)
  show ?thesis
    unfolding load_config_with_env_single_def Let_def host_indices run
    by (simp add: dep) (simp add: host_cli_def)
qed


lemma host_ok: "bt_ok (cfg_options host_cfg)"
  by (simp add: host_cfg_def bt_ok_def)

section \<open>Precedence, required options, permitted values\<close>







section \<open>Dependencies\<close>

text \<open>A loaded option whose dependency has no tolerated default finds it satisfied in the configuration it
  is part of: the option it depends on has a value, one of the listed values when there is a list. This
  holds when the option it depends on has no dependency of its own.\<close>

theorem load_depends:
  assumes "load_config_with_env_single Y cli env ini cfg ctx = Ok lc"
    and "bt_get (lc_options lc) (name, idx) = Some v"
    and "bt_get (cfg_options cfg) name = Some opt" "depend_of opt (rc_command cli) = Some depend"
    and "rd_default depend = None"
    and "\<forall>other. bt_get (cfg_options cfg) (rd_option depend) = Some other \<longrightarrow> depend_of other (rc_command cli) = None"
  shows "\<exists>w. depend_value cfg (lc_options lc) depend idx = Some w \<and>
    (rd_list depend = None \<or> set (option_value_match_candidates w) \<inter> set (depend_strs Y depend) \<noteq> {})"
proof -
  obtain explicit options where
    st: "apply_depends Y options explicit cfg (rc_command cli) = Ok (lc_options lc)"
    by (rule load_run [OF assms(1)])
  let ?f = "depend_key Y options explicit cfg (rc_command cli)"
  note final = apply_depends_Ok [OF st]
  have "?f (rd_option depend, i) \<noteq> Ok True" for i
    using assms(6) by (auto simp: depend_key_def split: option.splits)
  then have same: "depend_value cfg (lc_options lc) depend idx = depend_value cfg options depend idx"
    by (simp add: depend_value_def final(1))
  have key: "?f (name, idx) \<noteq> Ok True" "bt_get options (name, idx) \<noteq> None"
    using assms(2) final(1) [of "(name, idx)"] by (auto split: if_splits)
  with final(2) [of "(name, idx)"] obtain d where "?f (name, idx) = Ok d" by blast
  with key(1) have "?f (name, idx) = Ok False" by (cases d) auto
  then have "depend_satisfied Y depend (depend_value cfg options depend idx)"
    using assms(3-5) by (auto simp: depend_key_def Let_def split: if_splits)
  then show ?thesis
    unfolding same by (auto simp: depend_satisfied_def list_ex_iff split: option.splits)
qed

lemma load_depends_witness:
  "\<exists>w. depend_value host_cfg [((''repo-host'', Some 3), OvString ''h''), ((''repo-host-type'', Some 3), OvStringId ''ssh''),
      ((''repo-host-user'', Some 2), OvString ''backup'')] (host_depend ''repo-host'' None) (Some 3) = Some w"
proof -
  have "bt_get (lc_options \<lparr>lc_command = ''info'', lc_role = RoleMain, lc_stanza = None, lc_options =
     [((''repo-host'', Some 3), OvString ''h''), ((''repo-host-type'', Some 3), OvStringId ''ssh''),
      ((''repo-host-user'', Some 2), OvString ''backup'')], lc_params = []\<rparr>) (''repo-host-type'', Some 3) =
     Some (OvStringId ''ssh'')" by (simp add: bt_get_def)
  from load_depends [OF host_load this host_options(2), of "host_depend ''repo-host'' None"]
  show ?thesis by (auto simp: host_depends host_depend_def)
qed


section \<open>Groups are complete\<close>

definition group_indices :: "(option_group, nat list) btree \<Rightarrow> option_group \<Rightarrow> nat set" where
  "group_indices by_group grp = (case bt_get by_group grp of None \<Rightarrow> {} | Some is \<Rightarrow> set is)"

lemma collect_groups_step:
  "group_indices (fold (\<lambda>(name, idxs) by_group. case option_group_of cfg name of
       None \<Rightarrow> by_group
     | Some grp \<Rightarrow>
         bt_insert grp (fold bs_insert idxs (case bt_get by_group grp of None \<Rightarrow> [] | Some is \<Rightarrow> is)) by_group)
     out by_group) grp =
   group_indices by_group grp \<union> (\<Union>(name, idxs) \<in> set out. if option_group_of cfg name = Some grp then set idxs else {})"
proof (induction out arbitrary: by_group)
  case (Cons a out)
  then show ?case
    by (cases a) (auto simp: group_indices_def split: option.splits if_splits)
qed simp

lemma spread_groups_run:
  "distinct (map fst opts) \<Longrightarrow> set (indices_of (fold (spread_groups by_group) opts out) name) =
     set (indices_of out name) \<union> (case map_of opts name of None \<Rightarrow> {} | Some opt \<Rightarrow>
       (case co_group opt of None \<Rightarrow> {} | Some grp \<Rightarrow> group_indices by_group grp))"
proof (induction opts arbitrary: out)
  case (Cons a opts)
  have step: "set (indices_of (spread_groups by_group a out) x) =
      set (indices_of out x) \<union> (if x = fst a then
        (case co_group (snd a) of None \<Rightarrow> {} | Some grp \<Rightarrow> group_indices by_group grp) else {})" for x
    by (cases "co_group (snd a)"; cases "bt_get by_group (the (co_group (snd a)))")
       (simp_all add: spread_groups_def group_indices_def Un_commute)
  have "map_of opts (fst a) = None" "distinct (map fst opts)"
    using Cons.prems by (simp_all add: map_of_eq_None_iff)
  then show ?case
    using Cons.IH [of "spread_groups by_group a out"] step [of name]
    by (cases a; cases "name = fst a") simp_all
qed simp

text \<open>The options of a group are loaded at the same indices: an index seen for one of them, on the command
  line, in the environment or in a file, exists for all of them.\<close>

theorem load_group_indices:
  assumes "bt_ok (cfg_options cfg)"
    and "bt_get (cfg_options cfg) a = Some opt" "bt_get (cfg_options cfg) b = Some opt'"
    and "co_group opt = Some grp" "co_group opt' = Some grp"
  shows "set (option_indices (discover_group_indices cli env ini cfg) a opt) =
      set (option_indices (discover_group_indices cli env ini cfg) b opt') \<and>
    Some ` set (indices_of (seen_indices cli env ini cfg) a) \<subseteq>
      set (option_indices (discover_group_indices cli env ini cfg) b opt')"
proof -
  let ?out = "seen_indices cli env ini cfg" and ?gi = "discover_group_indices cli env ini cfg"
  let ?by = "collect_groups cfg ?out"
  have seen: "set (indices_of ?out x) \<subseteq> group_indices ?by grp"
    if "bt_get (cfg_options cfg) x = Some o'" "co_group o' = Some grp" for x o'
  proof -
    have "option_group_of cfg x = Some grp" using that by (simp add: option_group_of_def)
    moreover have "(x, indices_of ?out x) \<in> set ?out \<or> indices_of ?out x = []"
      by (auto simp: indices_of_def bt_get_def split: option.splits dest: map_of_SomeD)
    ultimately show ?thesis
      unfolding collect_groups_def collect_groups_step by fastforce
  qed
  have all: "set (indices_of ?gi x) = group_indices ?by grp"
    if "bt_get (cfg_options cfg) x = Some o'" "co_group o' = Some grp" for x o'
    using spread_groups_run [OF bt_ok_distinct [OF assms(1)], of ?by ?out x] that seen [OF that]
    by (simp add: discover_group_indices_def Let_def bt_get_def) blast
  have "set (indices_of ?gi a) = set (indices_of ?gi b)" using all assms by metis
  then show ?thesis
    using assms(4,5) seen [OF assms(2,4)] all [OF assms(3,5)]
    by (auto simp: option_indices_def Let_def)
qed

lemma load_group_indices_witness:
  "Some ` set (indices_of (seen_indices host_cli [] host_ini host_cfg) ''repo-host'') \<subseteq>
     set (option_indices (discover_group_indices host_cli [] host_ini host_cfg) ''repo-host-user'' host_user_option)"
  using load_group_indices [OF host_ok host_options(1,3) option_groups(1,3)] by blast

section \<open>Layered configuration files\<close>

definition ini_ok :: "ini_file \<Rightarrow> bool" where
  "ini_ok ini = (bt_ok ini \<and> (\<forall>(sec, rows) \<in> set ini. bt_ok rows))"

lemma bt_get_extend:
  "bt_ok add \<Longrightarrow> bt_get (bt_extend m add) k = or_else (bt_get add k) (bt_get m k)"
proof (induction add arbitrary: m)
  case (Cons a add)
  obtain x y where a: "a = (x, y)" by (cases a)
  have "bt_get add x = None" "bt_ok add" using Cons.prems a by (auto simp: bt_ok_Cons bt_get_None_iff)
  then show ?case using Cons.IH [of "bt_insert x y m"] a
    by (auto simp: bt_extend_def or_else_def bt_get_Cons split: option.splits)
qed (simp add: bt_extend_def or_else_def)

lemma merge_rows_get:
  assumes "ini_ok ini"
  shows "bt_get (ini_rows (fold merge_rows ini combined) sec) key =
    or_else (bt_get (ini_rows ini sec) key) (bt_get (ini_rows combined sec) key)"
  using assms
proof (induction ini arbitrary: combined)
  case Nil
  then show ?case by (simp add: ini_rows_def or_else_def)
next
  case (Cons a ini)
  obtain s rows where a: "a = (s, rows)" by (cases a)
  have ok: "ini_ok ini" "bt_ok rows" using Cons.prems a by (auto simp: ini_ok_def bt_ok_Cons)
  have "bt_get ini s = None" using Cons.prems a by (auto simp: ini_ok_def bt_ok_Cons bt_get_None_iff)
  then show ?case
    using Cons.IH [OF ok(1), of "merge_rows a combined"] a
    by (auto simp: merge_rows_def ini_rows_def bt_get_Cons bt_get_extend [OF ok(2)] or_else_def split: option.split)
qed

text \<open>Of several configuration files the last one that has a key in a section decides its values there,
  whatever the earlier ones say; a single file is taken as it is.\<close>

theorem merge_ini_last_wins:
  assumes "\<forall>ini \<in> set inis. ini_ok ini"
  shows "bt_get (ini_rows (merge_ini_files inis) sec) key =
    first_present (map (\<lambda>ini. bt_get (ini_rows ini sec) key) (rev inis))"
proof -
  have "bt_get (ini_rows (fold (fold merge_rows) inis []) sec) key =
      first_present (map (\<lambda>ini. bt_get (ini_rows ini sec) key) (rev inis))"
    using assms
  proof (induction inis rule: rev_induct)
    case (snoc ini inis)
    then show ?case by (simp add: merge_rows_get first_present_Cons)
  qed (simp add: ini_rows_def)
  then show ?thesis
    by (auto simp: merge_ini_files_def first_present_Cons or_else_def split: list.split option.split)
qed

lemma merge_ini_last_wins_witness:
  "bt_get (ini_rows (merge_ini_files [host_ini, [(IniGlobal, [(''repo3-host'', [''other''])])]]) IniGlobal) ''repo3-host'' =
     Some [''other'']"
  using merge_ini_last_wins [of "[host_ini, [(IniGlobal, [(''repo3-host'', [''other''])])]]" IniGlobal "''repo3-host''"]
  by (simp add: host_ini_def ini_ok_def bt_ok_def ini_rows_def bt_get_def)

end
