(* ===== verification/Config_Cli_Props.thy ===== *)
theory Config_Cli_Props
  imports Config_Cli
begin

text \<open>
  The properties of the command line and of the environment: tokenizing undoes writing a command line, a
  resolved option is declared and typed, and the environment is collected exactly.
\<close>

section \<open>Tokenizing undoes writing\<close>

fun modifier_text :: "cli_modifier \<Rightarrow> string" where
  "modifier_text ModNone = []"
| "modifier_text ModNegate = ''no-''"
| "modifier_text ModReset = ''reset-''"

definition entry_text :: "cli_option_entry \<Rightarrow> string" where
  "entry_text e = ''--'' @ modifier_text (oe_modifier e) @ oe_raw_key e @
     (case oe_value e of None \<Rightarrow> [] | Some v \<Rightarrow> ''='' @ v)"

definition command_text :: "cli_input \<Rightarrow> string list" where
  "command_text input = (case ci_command input of
       None \<Rightarrow> []
     | Some c \<Rightarrow> [c @ (case ci_command_role input of None \<Rightarrow> [] | Some r \<Rightarrow> '':'' @ r)])"

definition input_args :: "cli_input \<Rightarrow> string list" where
  "input_args input = map entry_text (ci_options input) @ command_text input @ [''--''] @ ci_params input"

definition entry_ok :: "cli_option_entry \<Rightarrow> bool" where
  "entry_ok e = (oe_raw_key e \<noteq> [] \<and> CHR ''='' \<notin> set (oe_raw_key e) \<and>
     (oe_modifier e = ModNone \<longrightarrow> \<not> starts_with ''no-'' (oe_raw_key e) \<and> \<not> starts_with ''reset-'' (oe_raw_key e)) \<and>
     (oe_modifier e \<noteq> ModNone \<longrightarrow> oe_value e = None))"

definition input_ok :: "cli_input \<Rightarrow> bool" where
  "input_ok input = (list_all entry_ok (ci_options input) \<and>
     (case ci_command input of
        None \<Rightarrow> ci_command_role input = None \<and> ci_params input = []
      | Some c \<Rightarrow> c \<noteq> [] \<and> CHR '':'' \<notin> set c \<and> \<not> starts_with ''-'' c))"

lemma strip_prefix_None: "\<not> starts_with p s \<Longrightarrow> strip_prefix p s = None"
  by (simp add: strip_prefix_def)

lemma strip_modifier_text:
  "entry_ok e \<Longrightarrow> strip_modifier (modifier_text (oe_modifier e) @ oe_raw_key e) = (oe_modifier e, oe_raw_key e)"
  by (cases "oe_modifier e")
     (auto simp: strip_modifier_def entry_ok_def strip_prefix_None strip_prefix_def starts_with_def)

lemma cli_entry_text:
  assumes "entry_ok e"
  shows "cli_entry (modifier_text (oe_modifier e) @ oe_raw_key e @
     (case oe_value e of None \<Rightarrow> [] | Some v \<Rightarrow> ''='' @ v)) = Ok e"
proof -
  let ?raw = "modifier_text (oe_modifier e) @ oe_raw_key e"
  have eq: "CHR ''='' \<notin> set ?raw" using assms by (cases "oe_modifier e") (auto simp: entry_ok_def)
  then have "split_once (CHR ''='') (?raw @ (case oe_value e of None \<Rightarrow> [] | Some v \<Rightarrow> ''='' @ v)) =
      map_option (\<lambda>v. (?raw, v)) (oe_value e)"
    using split_once_append [OF eq] split_once_None_iff [of "CHR ''=''" ?raw] by (cases "oe_value e") simp_all
  moreover have "?raw \<noteq> []" using assms by (simp add: entry_ok_def)
  moreover have "oe_modifier e \<noteq> ModNone \<longrightarrow> oe_value e = None" using assms by (simp add: entry_ok_def)
  ultimately show ?thesis
    using strip_modifier_text [OF assms]
    by (cases "oe_value e") (auto simp: cli_entry_def Let_def)
qed

lemma parse_args_options:
  "list_all entry_ok es \<Longrightarrow> parse_args (map entry_text es @ args) out =
     parse_args args (out\<lparr>ci_options := ci_options out @ es\<rparr>)"
proof (induction es arbitrary: out)
  case (Cons e es)
  let ?rest = "modifier_text (oe_modifier e) @ oe_raw_key e @
     (case oe_value e of None \<Rightarrow> [] | Some v \<Rightarrow> ''='' @ v)"
  have "?rest \<noteq> []" "strip_prefix ''--'' (entry_text e) = Some ?rest"
    using Cons.prems by (simp_all add: entry_ok_def entry_text_def strip_prefix_def starts_with_def)
  then show ?case using Cons cli_entry_text [of e] by (simp del: append_is_Nil_conv)
qed simp

lemma push_params: "ci_command out \<noteq> None \<Longrightarrow> fold push_positional ps out = out\<lparr>ci_params := ci_params out @ ps\<rparr>"
proof (induction ps arbitrary: out)
  case (Cons p ps)
  then have "push_positional p out = out\<lparr>ci_params := ci_params out @ [p]\<rparr>" by (auto simp: push_positional_def)
  with Cons show ?case by simp
qed simp

text \<open>C38. Tokenizing a command line gives back the options in order with their modifiers and values, the command
  with its role, and the parameters after the double dash, whatever these look like.\<close>

theorem parse_cli_roundtrip:
  assumes "input_ok input"
  shows "parse_cli (input_args input) = Ok input"
proof -
  have es: "list_all entry_ok (ci_options input)" using assms by (simp add: input_ok_def)
  have dash: "strip_prefix ''--'' ''--'' = Some []" by (simp add: strip_prefix_def starts_with_def)
  show ?thesis
  proof (cases "ci_command input")
    case None
    with assms show ?thesis
      by (simp add: parse_cli_def input_args_def command_text_def parse_args_options [OF es] dash input_ok_def
          empty_input_def)
  next
    case (Some c)
    define w where "w = c @ (case ci_command_role input of None \<Rightarrow> [] | Some r \<Rightarrow> '':'' @ r)"
    have c: "c \<noteq> []" "CHR '':'' \<notin> set c" "\<not> starts_with ''-'' c" using assms Some by (simp_all add: input_ok_def)
    then have no_dash: "strip_prefix ''--'' w = None" "strip_prefix ''-'' w = None"
      by (cases c; simp add: w_def strip_prefix_def starts_with_def)+
    have push: "push_positional w out = out\<lparr>ci_command := Some c, ci_command_role := ci_command_role input\<rparr>"
      if "ci_command out = None" "ci_command_role out = None" for out
      using that split_once_append [OF c(2)] split_once_None_iff [of "CHR '':''" c] c(2)
      by (cases "ci_command_role input") (simp_all add: push_positional_def w_def)
    show ?thesis
      by (simp add: parse_cli_def input_args_def command_text_def parse_args_options [OF es] dash Some
          no_dash push push_params empty_input_def flip: w_def)
  qed
qed

definition sample_input :: cli_input where
  "sample_input = \<lparr>ci_command = Some ''archive-push'', ci_command_role = Some ''async'',
     ci_options = [\<lparr>oe_raw_key = ''stanza'', oe_modifier = ModNone, oe_value = Some ''a=b''\<rparr>,
       \<lparr>oe_raw_key = ''online'', oe_modifier = ModNegate, oe_value = None\<rparr>],
     ci_params = [''--x'']\<rparr>"

lemma parse_cli_roundtrip_witness: "parse_cli (input_args sample_input) = Ok sample_input"
  by (rule parse_cli_roundtrip)
     (simp add: input_ok_def sample_input_def entry_ok_def starts_with_def)

section \<open>Resolved options are declared and typed\<close>

definition resolved_ok :: "'n cfg \<Rightarrow> string \<Rightarrow> option_map \<Rightarrow> bool" where
  "resolved_ok cfg command m = (\<forall>name idx v. bt_get m (name, idx) = Some v \<longrightarrow>
     (\<exists>opt. bt_get (cfg_options cfg) name = Some opt \<and> bt_contains (co_commands opt) command \<and>
       (option_type_of v = co_type opt \<or> v = OvBoolean False \<and> co_negate opt) \<and> value_ok v))"

lemma bt_ok_extend [simp]: "bt_ok m \<Longrightarrow> bt_ok (bt_extend m add)"
  unfolding bt_extend_def by (induction add arbitrary: m) auto

lemma accumulate_ok:
  "(\<And>w. old = Some w \<Longrightarrow> value_ok w) \<Longrightarrow> value_ok v \<Longrightarrow>
     option_type_of (accumulate old v) = option_type_of v \<and> value_ok (accumulate old v)"
  by (cases "(old, v)" rule: accumulate.cases) (auto simp: value_ok_def)

lemma resolved_ok_insert:
  "resolved_ok cfg command m \<Longrightarrow> bt_get (cfg_options cfg) name = Some opt \<Longrightarrow> bt_contains (co_commands opt) command \<Longrightarrow>
     option_type_of v = co_type opt \<or> v = OvBoolean False \<and> co_negate opt \<Longrightarrow> value_ok v \<Longrightarrow>
     resolved_ok cfg command (bt_insert (name, idx) v m)"
  by (simp add: resolved_ok_def)

lemma resolved_ok_remove: "resolved_ok cfg command m \<Longrightarrow> resolved_ok cfg command (bt_remove k m)"
  by (simp add: resolved_ok_def)

lemma resolve_entry_ok:
  assumes "resolve_entry cfg command e (m, rs) = Ok (m', rs')" "resolved_ok cfg command m"
  shows "resolved_ok cfg command m'"
proof -
  obtain name idx where key: "decode_option_key (oe_raw_key e) cfg command = Ok (name, idx)"
    using assms(1) by (auto simp: resolve_entry_def rbind_Inr_iff)
  then obtain opt where opt: "bt_get (cfg_options cfg) name = Some opt" "bt_contains (co_commands opt) command"
    using assms(1) by (auto simp: resolve_entry_def split: option.splits if_splits)
  note assms(1) [unfolded resolve_entry_def, simplified key opt, simplified]
  note step = this and ins = resolved_ok_insert [OF assms(2) opt]
  show ?thesis
  proof (cases "oe_modifier e")
    case ModNegate
    with step opt ins [of "OvBoolean False" idx] show ?thesis
      by (simp add: value_ok_def split: if_splits)
  next
    case ModReset
    with step opt resolved_ok_remove [OF assms(2)] show ?thesis by (auto split: if_splits)
  next
    case ModNone
    show ?thesis
    proof (cases "oe_value e")
      case None
      with step opt ModNone ins [of "OvBoolean True" idx] show ?thesis
        by (simp add: value_ok_def split: if_splits)
    next
      case (Some raw)
      with step opt ModNone obtain v where v: "parse_value (co_type opt) raw = Ok v"
        "m' = bt_insert (name, idx) (accumulate (bt_get m (name, idx)) v) m"
        by (auto simp: rbind_Inr_iff)
      have "value_ok w" if "bt_get m (name, idx) = Some w" for w
        using assms(2) that by (auto simp: resolved_ok_def)
      with accumulate_ok [of "bt_get m (name, idx)" v] parse_value_typed [OF v(1)]
      show ?thesis unfolding v(2) by (intro ins) auto
    qed
  qed
qed

text \<open>C37. A command line that resolves names a declared command in a role it has, and every option in it is
  declared for that command and carries a well-formed value of the option's type, or the false of a
  negation the option allows; repeated lists and hashes included. Parameters occur only where allowed.\<close>

theorem resolve_cli_sound:
  assumes "resolve_cli input cfg = Ok r"
  shows "ci_command input = Some (rc_command r) \<and>
    (\<exists>cmd. bt_get (cfg_commands cfg) (rc_command r) = Some cmd \<and>
      (ci_command_role input \<noteq> None \<longrightarrow> has_role cmd (rc_command_role r)) \<and>
      (rc_params r \<noteq> [] \<longrightarrow> cc_parameter_allowed cmd)) \<and>
    (\<forall>name idx v. bt_get (rc_options r) (name, idx) = Some v \<longrightarrow>
      (\<exists>opt. bt_get (cfg_options cfg) name = Some opt \<and> bt_contains (co_commands opt) (rc_command r) \<and>
        (option_type_of v = co_type opt \<or> v = OvBoolean False \<and> co_negate opt) \<and> value_ok v))"
proof -
  obtain command cmd_def role options resets where run:
    "ci_command input = Some command" "bt_get (cfg_commands cfg) command = Some cmd_def"
    "resolve_role cmd_def command (ci_command_role input) = Ok role"
    "try_fold (resolve_entry cfg command) (ci_options input) ([], []) = Ok (options, resets)"
    "\<not> (ci_params input \<noteq> [] \<and> \<not> cc_parameter_allowed cmd_def)"
    "r = \<lparr>rc_command = command, rc_command_role = role, rc_options = options, rc_resets = resets,
      rc_params = ci_params input\<rparr>"
    using assms by (auto simp: resolve_cli_def rbind_Inr_iff split: if_splits)
  have "resolved_ok cfg command (fst (options, resets))"
  proof (rule try_fold_invariant [OF run(4)])
    fix e a b
    assume "resolved_ok cfg command (fst a)" "resolve_entry cfg command e a = Ok b"
    then show "resolved_ok cfg command (fst b)" by (cases a; cases b) (auto intro: resolve_entry_ok)
  qed (simp add: resolved_ok_def)
  moreover have "ci_command_role input \<noteq> None \<longrightarrow> has_role cmd_def role"
    using run(3) by (auto simp: resolve_role_def split: option.splits if_splits)
  ultimately show ?thesis using run by (auto simp: resolved_ok_def)
qed

text \<open>A sample: \<open>stop --force\<close>.\<close>

definition force_option :: "int cfg_option" where
  "force_option = (base_option ''force'')\<lparr>co_type := TyBoolean, co_commands := [(''stop'', default_usage)]\<rparr>"

definition stop_cfg :: "int cfg" where
  "stop_cfg = \<lparr>cfg_commands = [(''stop'', \<lparr>cc_name = ''stop'', cc_roles = [RoleMain], cc_lock_type = LockNone,
       cc_lock_required = False, cc_lock_remote_required = False, cc_log_file = True,
       cc_log_level_default = None, cc_parameter_allowed = False, cc_internal = False\<rparr>)],
     cfg_options = [(''force'', force_option)], cfg_option_groups = []\<rparr>"

definition stop_input :: cli_input where
  "stop_input = \<lparr>ci_command = Some ''stop'', ci_command_role = None,
     ci_options = [\<lparr>oe_raw_key = ''force'', oe_modifier = ModNone, oe_value = None\<rparr>], ci_params = []\<rparr>"

definition stop_resolved :: resolved_cli where
  "stop_resolved = \<lparr>rc_command = ''stop'', rc_command_role = RoleMain,
     rc_options = [((''force'', None), OvBoolean True)], rc_resets = [], rc_params = []\<rparr>"

lemma stop_resolves: "resolve_cli stop_input stop_cfg = Ok stop_resolved"
  by (simp add: resolve_cli_def stop_input_def stop_cfg_def stop_resolved_def force_option_def base_option_def
      resolve_role_def resolve_entry_def decode_option_key_def bt_contains_def bt_get_def)

lemma resolve_cli_sound_witness:
  "ci_command stop_input = Some ''stop'' \<and> bt_contains (cfg_commands stop_cfg) ''stop'' \<and>
   bt_contains (cfg_options stop_cfg) ''force'' \<and> value_ok (OvBoolean True)"
proof -
  have opt: "bt_get (rc_options stop_resolved) (''force'', None) = Some (OvBoolean True)"
    "rc_command stop_resolved = ''stop''"
    by (simp_all add: stop_resolved_def bt_get_def)
  show ?thesis
    using resolve_cli_sound [OF stop_resolves] opt unfolding bt_contains_def by fastforce
qed

end
