(* ===== verification/Config_Compile.thy ===== *)
theory Config_Compile
  imports Config_Model
begin

text \<open>
  The compiler of the configuration model (\<open>crates/pgbr-config/src/compile.rs\<close>) over the typed form of
  \<open>config.yaml\<close> (\<open>crates/pgbr-build/src/config.rs\<close>): commands, the order in which options are resolved,
  inheritance, and the expansion of the command blocks.
\<close>

section \<open>The build schema\<close>

type_synonym empty_map = unit

record command_def =
  cd_command_role :: "(string, empty_map) btree"
  cd_log_file :: "bool option"
  cd_log_level_default :: "string option"
  cd_lock_required :: "bool option"
  cd_lock_remote_required :: "bool option"
  cd_lock_type :: "string option"
  cd_parameter_allowed :: "bool option"
  cd_internal :: "bool option"

record 'n depend_def =
  dp_option :: "string option"
  dp_list :: "'n yaml list option"
  dp_default :: "'n yaml option"

record 'n command_override =
  ov_default :: "'n yaml option"
  ov_required :: "bool option"
  ov_internal :: "bool option"
  ov_depend :: "'n depend_def option"
  ov_sequence :: "bool option"
  ov_allow_list :: "'n yaml list option"
  ov_command_role :: "(string, empty_map) btree option"

datatype 'n command_entry =
    EntryScalar string
  | EntrySequence "string list"
  | EntryOverride "'n command_override"

datatype 'n command_spec =
    SpecInherit string
  | SpecMap "(string, 'n command_entry) btree"

record 'n option_def =
  od_type :: "string option"
  od_inherit :: "string option"
  od_default :: "'n yaml option"
  od_default_type :: "string option"
  od_negate :: "bool option"
  od_reset :: "bool option"
  od_sequence :: "bool option"
  od_internal :: "bool option"
  od_secure :: "bool option"
  od_required :: "bool option"
  od_section :: "string option"
  od_group :: "string option"
  od_bool_like :: "bool option"
  od_beta :: "bool option"
  od_allow_list :: "'n yaml list option"
  od_allow_range :: "'n yaml option"
  od_depend :: "'n depend_def option"
  od_deprecate :: "(string, empty_map) btree option"
  od_command :: "'n command_spec"
  od_command_role :: "(string, empty_map) btree"

record 'n config =
  cf_command :: "(string, command_def) btree"
  cf_option_group :: "(string, empty_map) btree"
  cf_option :: "(string, 'n option_def) btree"

fun shortcut_values :: "'n command_entry \<Rightarrow> string list" where
  "shortcut_values (EntryScalar s) = [s]"
| "shortcut_values (EntrySequence v) = v"
| "shortcut_values (EntryOverride _) = []"

section \<open>Errors\<close>

datatype compile_error =
    CUnknownRole string string
  | CUnknownLockType string string
  | CUnknownOptionType string string
  | CUnknownSection string string
  | CUnknownGroup string string
  | CUnknownTopLevelOptionGroup string
  | CUnknownDefaultType string string
  | CMissingOptionType string
  | CUnknownOption string string
  | CUnknownCommand string string
  | CDependMissingOption string
  | CCyclicInheritance string

fun compile_error_display :: "compile_error \<Rightarrow> string" where
  "compile_error_display (CUnknownRole ctx role) = ctx @ '': unknown command-role `'' @ role @ ''`''"
| "compile_error_display (CUnknownLockType c l) = ''command `'' @ c @ ''`: unknown lock-type `'' @ l @ ''`''"
| "compile_error_display (CUnknownOptionType opt t) = ''option `'' @ opt @ ''`: unknown type `'' @ t @ ''`''"
| "compile_error_display (CUnknownSection opt s) = ''option `'' @ opt @ ''`: unknown section `'' @ s @ ''`''"
| "compile_error_display (CUnknownGroup opt g) = ''option `'' @ opt @ ''`: unknown group `'' @ g @ ''`''"
| "compile_error_display (CUnknownTopLevelOptionGroup n) = ''optionGroup: unknown entry `'' @ n @ ''`''"
| "compile_error_display (CUnknownDefaultType opt d) = ''option `'' @ opt @ ''`: unknown default-type `'' @ d @ ''`''"
| "compile_error_display (CMissingOptionType opt) =
     ''option `'' @ opt @ ''`: `type:` must be set locally or via `inherit:`''"
| "compile_error_display (CUnknownOption src target) = src @ '' references unknown option `'' @ target @ ''`''"
| "compile_error_display (CUnknownCommand opt c) = ''option `'' @ opt @ ''`: unknown command `'' @ c @ ''`''"
| "compile_error_display (CDependMissingOption owner) = owner @ '': `depend:` clause must name an option''"
| "compile_error_display (CCyclicInheritance opt) = ''option `'' @ opt @ ''`: cyclic inherit/command dependency''"

definition option_context :: "string \<Rightarrow> string" where
  "option_context name = ''option `'' @ name @ ''`''"

section \<open>Commands\<close>

text \<open>The roles named by the keys of a map, as a set.\<close>

definition parse_roles ::
  "string \<Rightarrow> string list \<Rightarrow> config_command_role list \<Rightarrow> (compile_error, config_command_role list) result" where
  "parse_roles ctx raws roles =
     try_fold (\<lambda>raw roles. rbind (ok_or (CUnknownRole ctx raw) (role_parse raw)) (\<lambda>r. Ok (bs_insert r roles))) raws roles"

definition unwrap_or :: "'a \<Rightarrow> 'a option \<Rightarrow> 'a" where
  "unwrap_or d v = (case v of None \<Rightarrow> d | Some x \<Rightarrow> x)"

definition compile_command :: "string \<Rightarrow> command_def \<Rightarrow> (compile_error, cfg_command) result" where
  "compile_command name d =
     rbind (parse_roles (''command `'' @ name @ ''`'') (bt_keys (cd_command_role d)) [RoleMain]) (\<lambda>roles.
     rbind (case cd_lock_type d of
         None \<Rightarrow> Ok LockNone
       | Some raw \<Rightarrow> ok_or (CUnknownLockType name raw) (lock_type_parse raw)) (\<lambda>lock_type.
     Ok \<lparr>cc_name = name, cc_roles = roles, cc_lock_type = lock_type,
         cc_lock_required = unwrap_or False (cd_lock_required d),
         cc_lock_remote_required = unwrap_or False (cd_lock_remote_required d),
         cc_log_file = unwrap_or True (cd_log_file d),
         cc_log_level_default = cd_log_level_default d,
         cc_parameter_allowed = unwrap_or False (cd_parameter_allowed d),
         cc_internal = unwrap_or False (cd_internal d)\<rparr>))"

section \<open>Command blocks of an option\<close>

definition resolve_depend :: "'n depend_def \<Rightarrow> string \<Rightarrow> (compile_error, 'n resolved_depend) result" where
  "resolve_depend d owner =
     rbind (ok_or (CDependMissingOption owner) (dp_option d)) (\<lambda>opt.
     Ok \<lparr>rd_option = opt, rd_list = dp_list d, rd_default = dp_default d\<rparr>)"

definition command_override_to_usage ::
  "'n command_entry \<Rightarrow> string \<Rightarrow> string \<Rightarrow> (compile_error, 'n command_usage) result" where
  "command_override_to_usage entry option_name command_name =
     (let ctx = option_context option_name @ '', command `'' @ command_name @ ''`'' in
      case entry of
        EntryOverride ov \<Rightarrow>
          rbind (case ov_depend ov of
              Some d \<Rightarrow> rbind (resolve_depend d ctx) (\<lambda>r. Ok (Some r))
            | None \<Rightarrow> Ok None) (\<lambda>depend.
          rbind (case ov_command_role ov of
              Some m \<Rightarrow> parse_roles ctx (bt_keys m) []
            | None \<Rightarrow> Ok []) (\<lambda>roles.
          Ok \<lparr>cu_default = ov_default ov, cu_required = ov_required ov, cu_internal = ov_internal ov,
              cu_depend = depend, cu_allow_list = ov_allow_list ov, cu_sequence = ov_sequence ov,
              cu_roles = roles\<rparr>))
      | _ \<Rightarrow> Ok default_usage)"

definition entry_or_default :: "string \<Rightarrow> (string, 'n command_usage) btree \<Rightarrow> (string, 'n command_usage) btree" where
  "entry_or_default name out = (if bt_contains out name then out else bt_insert name default_usage out)"

definition add_role_includes ::
  "'n command_entry \<Rightarrow> (string, cfg_command) btree \<Rightarrow> string \<Rightarrow> (string, 'n command_usage) btree \<Rightarrow>
     (compile_error, (string, 'n command_usage) btree) result" where
  "add_role_includes entry commands option_name out =
     try_fold (\<lambda>raw out.
         if raw = ''any'' then Ok (fold entry_or_default (bt_keys commands) out)
         else rbind (ok_or (CUnknownRole (option_context option_name @ '' (+role)'') raw) (role_parse raw)) (\<lambda>role.
           Ok (fold (\<lambda>(name, cmd) out. if has_role cmd role then entry_or_default name out else out) commands out)))
       (shortcut_values entry) out"

definition add_inherit_includes ::
  "'n command_entry \<Rightarrow> (string, 'n cfg_option) btree \<Rightarrow> string \<Rightarrow> (string, 'n command_usage) btree \<Rightarrow>
     (compile_error, (string, 'n command_usage) btree) result" where
  "add_inherit_includes entry resolved option_name out =
     try_fold (\<lambda>opt_name out.
         rbind (ok_or (CUnknownOption (option_context option_name @ '' (+inherit)'') opt_name) (bt_get resolved opt_name))
           (\<lambda>other. Ok (fold entry_or_default (bt_keys (co_commands other)) out)))
       (shortcut_values entry) out"

definition include_entry ::
  "string \<Rightarrow> (string, cfg_command) btree \<Rightarrow> (string, 'n cfg_option) btree \<Rightarrow> string \<times> 'n command_entry \<Rightarrow>
     (string, 'n command_usage) btree \<Rightarrow> (compile_error, (string, 'n command_usage) btree) result" where
  "include_entry option_name commands resolved keyed out =
     (let (key, entry) = keyed in
      if key = ''+role'' then add_role_includes entry commands option_name out
      else if key = ''+inherit'' then add_inherit_includes entry resolved option_name out
      else if key = ''-command'' then Ok out
      else if \<not> bt_contains commands key then Err (CUnknownCommand option_name key)
      else rbind (command_override_to_usage entry option_name key) (\<lambda>usage. Ok (bt_insert key usage out)))"

definition resolve_commands_field ::
  "'n command_spec \<Rightarrow> string \<Rightarrow> (string, cfg_command) btree \<Rightarrow> (string, 'n cfg_option) btree \<Rightarrow>
     (compile_error, (string, 'n command_usage) btree) result" where
  "resolve_commands_field spec option_name commands resolved = (case spec of
       SpecInherit other \<Rightarrow>
         rbind (ok_or (CUnknownOption (option_context option_name) other) (bt_get resolved other)) (\<lambda>other_opt.
           Ok (fold (\<lambda>cmd_name out. bt_insert cmd_name default_usage out) (bt_keys (co_commands other_opt)) []))
     | SpecMap m \<Rightarrow>
         rbind (try_fold (include_entry option_name commands resolved) m []) (\<lambda>out.
           Ok (case bt_get m ''-command'' of
               None \<Rightarrow> out
             | Some entry \<Rightarrow> fold bt_remove (shortcut_values entry) out)))"

fun option_command_locally_specified :: "'n command_spec \<Rightarrow> bool" where
  "option_command_locally_specified (SpecInherit _) = True"
| "option_command_locally_specified (SpecMap m) = (m \<noteq> [])"

definition default_all_commands :: "(string, cfg_command) btree \<Rightarrow> (string, 'n command_usage) btree" where
  "default_all_commands commands =
     map (\<lambda>name. (name, default_usage)) (filter (\<lambda>name. name \<noteq> ''help'' \<and> name \<noteq> ''version'') (bt_keys commands))"

section \<open>One option\<close>

text \<open>A field that is set locally replaces the inherited one; a text is parsed first.\<close>

definition set_bool :: "bool option \<Rightarrow> bool \<Rightarrow> bool" where
  "set_bool v old = unwrap_or old v"

definition set_opt :: "'a option \<Rightarrow> 'a option \<Rightarrow> 'a option" where
  "set_opt v old = (case v of None \<Rightarrow> old | Some _ \<Rightarrow> v)"

definition set_parsed ::
  "(string \<Rightarrow> 'a option) \<Rightarrow> (string \<Rightarrow> compile_error) \<Rightarrow> string option \<Rightarrow> 'a option \<Rightarrow> (compile_error, 'a option) result" where
  "set_parsed parse err raw old = (case raw of
       None \<Rightarrow> Ok old
     | Some s \<Rightarrow> rbind (ok_or (err s) (parse s)) (\<lambda>x. Ok (Some x)))"

definition option_base ::
  "string \<Rightarrow> 'n option_def \<Rightarrow> (string, 'n cfg_option) btree \<Rightarrow> (compile_error, 'n cfg_option) result" where
  "option_base name d resolved = (case od_inherit d of
       Some parent_name \<Rightarrow>
         rbind (ok_or (CUnknownOption (option_context name) parent_name) (bt_get resolved parent_name)) (\<lambda>parent.
           Ok (parent\<lparr>co_name := name, co_inherits_from := Some parent_name\<rparr>))
     | None \<Rightarrow> Ok (base_option name))"

definition option_own_type :: "string \<Rightarrow> 'n option_def \<Rightarrow> option_type \<Rightarrow> (compile_error, option_type) result" where
  "option_own_type name d old = (case od_type d of
       Some t \<Rightarrow> ok_or (CUnknownOptionType name t) (option_type_parse t)
     | None \<Rightarrow> if od_inherit d = None then Err (CMissingOptionType name) else Ok old)"

definition resolve_option ::
  "string \<Rightarrow> 'n option_def \<Rightarrow> (string, cfg_command) btree \<Rightarrow> (string, 'n cfg_option) btree \<Rightarrow>
     (compile_error, 'n cfg_option) result" where
  "resolve_option name d commands resolved =
     rbind (option_base name d resolved) (\<lambda>opt.
     rbind (option_own_type name d (co_type opt)) (\<lambda>ty.
     rbind (set_parsed option_section_parse (CUnknownSection name) (od_section d) (co_section opt)) (\<lambda>section.
     rbind (set_parsed option_group_parse (CUnknownGroup name) (od_group d) (co_group opt)) (\<lambda>grp.
     rbind (set_parsed default_type_parse (CUnknownDefaultType name) (od_default_type d) (co_default_type opt)) (\<lambda>dt.
     rbind (case od_depend d of
         None \<Rightarrow> Ok (co_depend opt)
       | Some v \<Rightarrow> rbind (resolve_depend v (option_context name)) (\<lambda>r. Ok (Some r))) (\<lambda>depend.
     rbind (if od_command_role d = [] then Ok (co_roles opt)
            else parse_roles (option_context name) (bt_keys (od_command_role d)) []) (\<lambda>roles.
     rbind (if option_command_locally_specified (od_command d)
            then resolve_commands_field (od_command d) name commands resolved
            else Ok (co_commands opt)) (\<lambda>cmds.
     Ok (opt\<lparr>co_type := ty, co_section := section, co_group := grp, co_default_type := dt,
             co_default := set_opt (od_default d) (co_default opt),
             co_negate := set_bool (od_negate d) (co_negate opt),
             co_reset := set_bool (od_reset d) (co_reset opt),
             co_sequence := set_bool (od_sequence d) (co_sequence opt),
             co_internal := set_bool (od_internal d) (co_internal opt),
             co_secure := set_bool (od_secure d) (co_secure opt),
             co_required := set_bool (od_required d) (co_required opt),
             co_bool_like := set_bool (od_bool_like d) (co_bool_like opt),
             co_beta := set_bool (od_beta d) (co_beta opt),
             co_allow_list := set_opt (od_allow_list d) (co_allow_list opt),
             co_allow_range := set_opt (od_allow_range d) (co_allow_range opt),
             co_depend := depend,
             co_deprecate := (case od_deprecate d of
                 None \<Rightarrow> co_deprecate opt
               | Some m \<Rightarrow> fold bs_insert (bt_keys m) (co_deprecate opt)),
             co_roles := roles,
             co_commands := (if cmds = [] then default_all_commands commands else cmds)\<rparr>)))))))))"

section \<open>The order of resolution\<close>

text \<open>An option waits for its parent and for the options its command block takes commands from.\<close>

definition option_deps :: "'n option_def \<Rightarrow> string list" where
  "option_deps d =
     (let parents = (case od_inherit d of None \<Rightarrow> [] | Some p \<Rightarrow> [p]) in
      case od_command d of
        SpecInherit other \<Rightarrow> bs_insert other parents
      | SpecMap m \<Rightarrow> (case bt_get m ''+inherit'' of
            None \<Rightarrow> parents
          | Some entry \<Rightarrow> fold bs_insert (shortcut_values entry) parents))"

datatype topo_state = InProgress | Done

type_synonym topo_run = "(string, topo_state) btree \<times> string list"

text \<open>
  The depth-first visit of a node, and of its children one by one. A node is marked before its children
  are visited, so the nodes with dependencies that are not marked yet become fewer.
\<close>

function (sequential) topo_visit :: "(string, 'n option_def) btree \<Rightarrow> (string, string list) btree \<Rightarrow> string \<Rightarrow> topo_run \<Rightarrow>
    (compile_error, topo_run) result" and
  topo_children :: "(string, 'n option_def) btree \<Rightarrow> (string, string list) btree \<Rightarrow> string \<Rightarrow> string list \<Rightarrow> topo_run \<Rightarrow>
    (compile_error, topo_run) result" where
  "topo_visit opts deps node (marks, order) = (case bt_get marks node of
       Some Done \<Rightarrow> Ok (marks, order)
     | Some InProgress \<Rightarrow> Err (CCyclicInheritance node)
     | None \<Rightarrow> (case bt_get deps node of
           None \<Rightarrow> Ok (bt_insert node Done (bt_insert node InProgress marks), order @ [node])
         | Some children \<Rightarrow>
             (case topo_children opts deps node children (bt_insert node InProgress marks, order) of
                Err e \<Rightarrow> Err e
              | Ok (marks', order') \<Rightarrow> Ok (bt_insert node Done marks', order' @ [node]))))"
| "topo_children opts deps node [] run = Ok run"
| "topo_children opts deps node (child # children) run =
     (if \<not> bt_contains opts child then Err (CUnknownOption (option_context node) child)
      else (case topo_visit opts deps child run of
          Err e \<Rightarrow> Err e
        | Ok run' \<Rightarrow> topo_children opts deps node children run'))"
  by pat_completeness auto

definition marked :: "topo_run \<Rightarrow> string set" where
  "marked run = fst ` set (fst run)"

lemma topo_marks_grow:
  "topo_visit_topo_children_dom (Inl (opts, deps, node, run)) \<Longrightarrow>
     topo_visit opts deps node run = Ok run' \<Longrightarrow> marked run \<subseteq> marked run'"
  "topo_visit_topo_children_dom (Inr (opts, deps, node, children, run)) \<Longrightarrow>
     topo_children opts deps node children run = Ok run' \<Longrightarrow> marked run \<subseteq> marked run'"
proof (induction opts deps node run and opts deps node children run arbitrary: run' and run'
    rule: topo_visit_topo_children.pinduct)
  case (1 opts deps node marks order)
  show ?case
  proof (cases "bt_get marks node")
    case None
    show ?thesis
    proof (cases "bt_get deps node")
      case None
      with 1(1,3) \<open>bt_get marks node = None\<close>
      have "run' = (bt_insert node Done (bt_insert node InProgress marks), order @ [node])"
        by (simp add: topo_visit.psimps)
      then show ?thesis by (simp add: marked_def subset_insertI)
    next
      case (Some children)
      with 1(1,3) \<open>bt_get marks node = None\<close> obtain marks' order' where
        "topo_children opts deps node children (bt_insert node InProgress marks, order) = Ok (marks', order')"
        "run' = (bt_insert node Done marks', order' @ [node])"
        by (auto simp: topo_visit.psimps split: sum.splits)
      with 1(2) [OF None Some] show ?thesis by (auto simp: marked_def)
    qed
  next
    case (Some m)
    with 1(1,3) show ?thesis by (cases m) (auto simp: topo_visit.psimps)
  qed
next
  case (2 opts deps node run)
  then show ?case by (simp add: topo_children.psimps)
next
  case (3 opts deps node child children run)
  from 3(1,4) obtain r where r: "bt_contains opts child" "topo_visit opts deps child run = Ok r"
    "topo_children opts deps node children r = Ok run'"
    by (auto simp: topo_children.psimps split: if_splits sum.splits)
  have "marked run \<subseteq> marked r" using 3(2) r by simp
  also have "marked r \<subseteq> marked run'" using 3(3) r by simp
  finally show ?case .
qed

definition unmarked :: "(string, string list) btree \<Rightarrow> topo_run \<Rightarrow> nat" where
  "unmarked deps run = card (fst ` set deps - marked run)"

lemma unmarked_mono: "marked run \<subseteq> marked run' \<Longrightarrow> unmarked deps run' \<le> unmarked deps run"
  by (auto simp: unmarked_def intro!: card_mono)

lemma unmarked_mark:
  "bt_get marks node = None \<Longrightarrow> bt_get deps node = Some c \<Longrightarrow>
     unmarked deps (bt_insert node s marks, order) < unmarked deps (marks, order)"
  unfolding unmarked_def marked_def
proof (rule psubset_card_mono)
  assume a: "bt_get marks node = None" "bt_get deps node = Some c"
  then have "node \<in> fst ` set deps" "node \<notin> fst ` set marks"
    by (metis bt_get_None_iff option.distinct(1), simp add: bt_get_None_iff)
  then show "fst ` set deps - fst ` set (fst (bt_insert node s marks, order)) \<subset>
      fst ` set deps - fst ` set (fst (marks, order))" by auto
qed simp

termination topo_visit
proof (relation "measures [
    \<lambda>x. case x of Inl (opts, deps, node, run) \<Rightarrow> unmarked deps run
      | Inr (opts, deps, node, children, run) \<Rightarrow> unmarked deps run,
    \<lambda>x. case x of Inl _ \<Rightarrow> 0 | Inr (opts, deps, node, children, run) \<Rightarrow> Suc (length children)]", goal_cases)
  case (2 opts deps node marks order children)
  then show ?case using unmarked_mark [of marks node deps children InProgress order] by simp
next
  case (4 opts deps node child children run run')
  then show ?case
    using unmarked_mono [OF topo_marks_grow(1) [OF 4(3), of run'], of deps] by auto
qed auto

definition topo_sort_options :: "'n config \<Rightarrow> (compile_error, string list) result" where
  "topo_sort_options input =
     (let deps = map (\<lambda>(name, d). (name, option_deps d)) (cf_option input) in
      rbind (try_fold (topo_visit (cf_option input) deps) (bt_keys (cf_option input)) ([], [])) (\<lambda>(marks, order).
        Ok order))"

section \<open>The compiler\<close>

definition resolve_options ::
  "'n config \<Rightarrow> (string, cfg_command) btree \<Rightarrow> (compile_error, (string, 'n cfg_option) btree) result" where
  "resolve_options input commands =
     rbind (topo_sort_options input) (\<lambda>order.
       try_fold (\<lambda>name resolved.
           rbind (resolve_option name (the (bt_get (cf_option input) name)) commands resolved) (\<lambda>opt.
             Ok (bt_insert name opt resolved))) order [])"

definition compile :: "'n config \<Rightarrow> (compile_error, 'n cfg) result" where
  "compile input =
     rbind (try_fold (\<lambda>(name, d) commands. rbind (compile_command name d) (\<lambda>c. Ok (bt_insert name c commands)))
       (cf_command input) []) (\<lambda>commands.
     rbind (try_fold (\<lambda>raw groups.
         rbind (ok_or (CUnknownTopLevelOptionGroup raw) (option_group_parse raw)) (\<lambda>g. Ok (bs_insert g groups)))
       (bt_keys (cf_option_group input)) []) (\<lambda>groups.
     rbind (resolve_options input commands) (\<lambda>options.
     Ok \<lparr>cfg_commands = commands, cfg_options = options, cfg_option_groups = groups\<rparr>)))"

end
