(* ===== verification/Config_Compile_Props.thy ===== *)
theory Config_Compile_Props
  imports Config_Compile
begin

text \<open>
  The order of resolution is topological and is refused only for a cycle or a dangling reference; the
  compiled model has exactly the declared options and commands, and inherits what is not set locally.
\<close>

section \<open>Visiting\<close>

definition deps_of :: "(string, string list) btree \<Rightarrow> string \<Rightarrow> string list" where
  "deps_of deps n = (case bt_get deps n of None \<Rightarrow> [] | Some c \<Rightarrow> c)"

definition dep_edges :: "(string, string list) btree \<Rightarrow> (string \<times> string) set" where
  "dep_edges deps = {(a, b). b \<in> set (deps_of deps a)}"

definition dep_ordered :: "(string, string list) btree \<Rightarrow> string list \<Rightarrow> bool" where
  "dep_ordered deps order = (\<forall>ys x zs. order = ys @ x # zs \<longrightarrow> set (deps_of deps x) \<subseteq> set ys)"

definition in_state :: "topo_state \<Rightarrow> topo_run \<Rightarrow> string set" where
  "in_state s run = {n. bt_get (fst run) n = Some s}"

definition topo_inv :: "(string, string list) btree \<Rightarrow> topo_run \<Rightarrow> bool" where
  "topo_inv deps run =
     (in_state Done run = set (snd run) \<and> distinct (snd run) \<and> dep_ordered deps (snd run))"

lemma dep_ordered_snoc:
  "dep_ordered deps order \<Longrightarrow> set (deps_of deps x) \<subseteq> set order \<Longrightarrow> dep_ordered deps (order @ [x])"
  unfolding dep_ordered_def
  by (metis append_butlast_last_id butlast.simps(2) butlast_append butlast_snoc last.simps last_appendR list.distinct(1) last_snoc)

lemma in_state_insert:
  "in_state s (bt_insert n t marks, order) = (if s = t then insert n (in_state s (marks, order')) else in_state s (marks, order') - {n})"
  by (auto simp: in_state_def)

lemma in_state_order: "in_state s (marks, order) = in_state s (marks, [])"
  by (simp add: in_state_def)

definition topo_step_ok :: "(string, string list) btree \<Rightarrow> string set \<Rightarrow> topo_run \<Rightarrow> topo_run \<Rightarrow> bool" where
  "topo_step_ok deps visited run run' =
     (topo_inv deps run \<longrightarrow> topo_inv deps run' \<and> in_state InProgress run' = in_state InProgress run \<and>
        in_state Done run \<union> visited \<subseteq> in_state Done run')"

lemma topo_finish:
  assumes inv: "topo_inv deps (marks, order)" and "bt_get marks node = None"
    and step: "topo_step_ok deps (set (deps_of deps node)) (bt_insert node InProgress marks, order) (marks', order')"
  shows "topo_step_ok deps {node} (marks, order) (bt_insert node Done marks', order' @ [node])"
proof -
  let ?run = "(bt_insert node InProgress marks, order)"
  have marked: "in_state Done ?run = in_state Done (marks, order)"
    "in_state InProgress ?run = insert node (in_state InProgress (marks, order))"
    using assms(2) by (auto simp: in_state_def)
  with inv have "topo_inv deps ?run" by (simp add: topo_inv_def)
  with step have run': "topo_inv deps (marks', order')"
    "in_state InProgress (marks', order') = in_state InProgress ?run"
    "in_state Done ?run \<union> set (deps_of deps node) \<subseteq> in_state Done (marks', order')"
    by (auto simp: topo_step_ok_def)
  have "node \<in> in_state InProgress (marks', order')" using run'(2) marked(2) by simp
  then have node: "bt_get marks' node = Some InProgress" by (simp add: in_state_def)
  then have "node \<notin> in_state Done (marks', order')" by (simp add: in_state_def)
  then have fresh: "node \<notin> set order'" using run'(1) by (simp add: topo_inv_def)
  have "set (deps_of deps node) \<subseteq> set order'" using run'(1,3) by (auto simp: topo_inv_def)
  then have "dep_ordered deps (order' @ [node])" using run'(1) by (simp add: topo_inv_def dep_ordered_snoc)
  moreover have "in_state Done (bt_insert node Done marks', order' @ [node]) = insert node (in_state Done (marks', order'))"
    "in_state InProgress (bt_insert node Done marks', order' @ [node]) = in_state InProgress (marks', order') - {node}"
    by (auto simp: in_state_def)
  moreover have "node \<notin> in_state InProgress (marks, order)" using assms(2) by (simp add: in_state_def)
  ultimately show ?thesis
    using run' marked fresh by (auto simp: topo_step_ok_def topo_inv_def)
qed

lemma topo_ok:
  "topo_visit opts deps node run = Ok run' \<Longrightarrow> topo_step_ok deps {node} run run'"
  "topo_children opts deps node children run = Ok run' \<Longrightarrow> topo_step_ok deps (set children) run run'"
proof (induction opts deps node run and opts deps node children run arbitrary: run' and run'
    rule: topo_visit_topo_children.induct)
  case (1 opts deps node marks order)
  show ?case
  proof (cases "bt_get marks node")
    case None
    have "topo_step_ok deps {node} (marks, order) run'" if inv: "topo_inv deps (marks, order)"
    proof (cases "bt_get deps node")
      case no_deps: None
      then have "run' = (bt_insert node Done (bt_insert node InProgress marks), order @ [node])"
        using 1(2) None by simp
      then show ?thesis
        using topo_finish [OF inv None] no_deps by (simp add: topo_step_ok_def deps_of_def)
    next
      case (Some children)
      with 1(2) None obtain marks' order' where kids:
        "topo_children opts deps node children (bt_insert node InProgress marks, order) = Ok (marks', order')"
        "run' = (bt_insert node Done marks', order' @ [node])"
        by (auto split: sum.splits)
      show ?thesis
        unfolding kids(2) using 1(1) [OF None Some kids(1)] topo_finish [OF inv None] Some
        by (simp add: deps_of_def)
    qed
    then show ?thesis by (simp add: topo_step_ok_def)
  next
    case (Some m)
    with 1(2) show ?thesis by (cases m) (auto simp: topo_step_ok_def in_state_def)
  qed
next
  case (2 opts deps node run)
  then show ?case by (simp add: topo_step_ok_def)
next
  case (3 opts deps node child children run)
  from 3(3) obtain r where r: "bt_contains opts child" "topo_visit opts deps child run = Ok r"
    "topo_children opts deps node children r = Ok run'"
    by (auto split: if_splits sum.splits)
  have "topo_step_ok deps {child} run r" "topo_step_ok deps (set children) r run'"
    using 3(1,2) r by simp_all
  then show ?case by (auto simp: topo_step_ok_def)
qed

text \<open>What an error says: a node that reaches itself, or a reference to an option that is not declared.\<close>

definition topo_error_ok ::
  "(string, 'n option_def) btree \<Rightarrow> (string, string list) btree \<Rightarrow> compile_error \<Rightarrow> bool" where
  "topo_error_ok opts deps e =
     ((\<exists>n. e = CCyclicInheritance n \<and> (n, n) \<in> (dep_edges deps)\<^sup>+) \<or>
      (\<exists>src target. e = CUnknownOption (option_context src) target \<and> (src, target) \<in> dep_edges deps \<and>
         \<not> bt_contains opts target))"

lemma topo_err:
  "topo_visit opts deps node run = Err e \<Longrightarrow> topo_inv deps run \<Longrightarrow>
     \<forall>p \<in> in_state InProgress run. (p, node) \<in> (dep_edges deps)\<^sup>+ \<Longrightarrow> topo_error_ok opts deps e"
  "topo_children opts deps node children run = Err e \<Longrightarrow> topo_inv deps run \<Longrightarrow> set children \<subseteq> set (deps_of deps node) \<Longrightarrow>
     \<forall>p \<in> in_state InProgress run. (p, node) \<in> (dep_edges deps)\<^sup>* \<Longrightarrow> topo_error_ok opts deps e"
proof (induction opts deps node run and opts deps node children run rule: topo_visit_topo_children.induct)
  case (1 opts deps node marks order)
  show ?case
  proof (cases "bt_get marks node")
    case None
    then obtain children where kids: "bt_get deps node = Some children"
      "topo_children opts deps node children (bt_insert node InProgress marks, order) = Err e"
      using 1(2) by (auto split: option.splits sum.splits)
    have "in_state Done (bt_insert node InProgress marks, order) = in_state Done (marks, order)"
      "in_state InProgress (bt_insert node InProgress marks, order) = insert node (in_state InProgress (marks, order))"
      using None by (auto simp: in_state_def)
    with 1(3,4) have "topo_inv deps (bt_insert node InProgress marks, order)"
      "\<forall>p \<in> in_state InProgress (bt_insert node InProgress marks, order). (p, node) \<in> (dep_edges deps)\<^sup>*"
      by (auto simp: topo_inv_def)
    with 1(1) [OF None kids] show ?thesis using kids(1) by (simp add: deps_of_def)
  next
    case (Some m)
    with 1(2) have "e = CCyclicInheritance node" "node \<in> in_state InProgress (marks, order)"
      by (cases m; simp add: in_state_def)+
    with 1(4) show ?thesis by (auto simp: topo_error_ok_def)
  qed
next
  case (3 opts deps node child children run)
  have edge: "(node, child) \<in> dep_edges deps" using 3(5) by (simp add: dep_edges_def)
  show ?case
  proof (cases "bt_contains opts child")
    case False
    with 3(3) edge show ?thesis by (auto simp: topo_error_ok_def)
  next
    case True
    have reach: "\<forall>p \<in> in_state InProgress run. (p, child) \<in> (dep_edges deps)\<^sup>+"
      using 3(6) edge by (meson rtrancl_into_trancl1)
    show ?thesis
    proof (cases "topo_visit opts deps child run")
      case (Inl e')
      with True 3(3) have "topo_visit opts deps child run = Err e" by simp
      with 3(1) [OF _ this 3(4) reach] True show ?thesis by simp
    next
      case (Inr r)
      then have "topo_step_ok deps {child} run r" by (rule topo_ok)
      with 3(4,6) have "topo_inv deps r" "\<forall>p \<in> in_state InProgress r. (p, node) \<in> (dep_edges deps)\<^sup>*"
        by (auto simp: topo_step_ok_def)
      with 3(2) [OF _ Inr] True 3(3,5) Inr show ?thesis by simp
    qed
  qed
qed simp

section \<open>The order of resolution\<close>

definition option_edges :: "'n config \<Rightarrow> (string \<times> string) set" where
  "option_edges input = {(a, b). \<exists>d. bt_get (cf_option input) a = Some d \<and> b \<in> set (option_deps d)}"

definition input_deps :: "'n config \<Rightarrow> (string, string list) btree" where
  "input_deps input = map (\<lambda>(name, d). (name, option_deps d)) (cf_option input)"

lemma input_deps_get: "bt_get (input_deps input) n = map_option option_deps (bt_get (cf_option input) n)"
  by (simp add: input_deps_def bt_get_def map_of_map)

lemma input_edges: "dep_edges (input_deps input) = option_edges input"
  by (force simp: dep_edges_def option_edges_def deps_of_def input_deps_get split: option.splits)

lemma topo_visit_all:
  assumes "topo_inv deps run" "in_state InProgress run = {}"
  shows "try_fold (topo_visit opts deps) names run = Ok run' \<Longrightarrow>
      topo_inv deps run' \<and> in_state InProgress run' = {} \<and> in_state Done run \<union> set names \<subseteq> in_state Done run'"
    and "try_fold (topo_visit opts deps) names run = Err e \<Longrightarrow> topo_error_ok opts deps e"
  using assms
proof (induction names arbitrary: run)
  case (Cons n names)
  {
    case 1
    then obtain r where r: "topo_visit opts deps n run = Ok r" "try_fold (topo_visit opts deps) names r = Ok run'"
      by (auto simp: rbind_Inr_iff)
    have "topo_inv deps r" "in_state InProgress r = {}" "in_state Done run \<union> {n} \<subseteq> in_state Done r"
      using topo_ok(1) [OF r(1)] 1(2,3) by (simp_all add: topo_step_ok_def)
    with Cons.IH(1) [OF r(2)] show ?case by auto
  next
    case 2
    show ?case
    proof (cases "topo_visit opts deps n run")
      case (Inl e')
      with 2 topo_err(1) [OF Inl] show ?thesis by simp
    next
      case (Inr r)
      then have "topo_inv deps r" "in_state InProgress r = {}"
        using topo_ok(1) [OF Inr] 2(2,3) by (simp_all add: topo_step_ok_def)
      with Cons.IH(2) Inr 2(1) show ?thesis by simp
    qed
  }
qed simp_all

lemma topo_only_options:
  "topo_visit opts deps node run = Ok run' \<Longrightarrow> bt_contains opts node \<Longrightarrow> list_all (bt_contains opts) (snd run) \<Longrightarrow>
     list_all (bt_contains opts) (snd run')"
  "topo_children opts deps node children run = Ok run' \<Longrightarrow> list_all (bt_contains opts) (snd run) \<Longrightarrow>
     list_all (bt_contains opts) (snd run')"
proof (induction opts deps node run and opts deps node children run arbitrary: run' and run'
    rule: topo_visit_topo_children.induct)
  case (1 opts deps node marks order)
  then show ?case by (auto split: option.splits topo_state.splits sum.splits)
next
  case (3 opts deps node child children run)
  then show ?case by (auto split: if_splits sum.splits)
qed simp

lemma bt_contains_iff: "bt_contains m k \<longleftrightarrow> k \<in> fst ` set m"
  by (metis bt_contains_def bt_get_None_iff)

lemma topo_inv_start: "topo_inv deps ([], [])" "in_state s ([], []) = {}"
  by (simp_all add: topo_inv_def in_state_def dep_ordered_def)

lemma topo_sort_Ok:
  assumes "topo_sort_options input = Ok order"
  shows "distinct order" "set order = fst ` set (cf_option input)" "dep_ordered (input_deps input) order"
proof -
  let ?visit = "topo_visit (cf_option input) (input_deps input)" and ?names = "bt_keys (cf_option input)"
  from assms obtain marks where run: "try_fold ?visit ?names ([], []) = Ok (marks, order)"
    by (auto simp: topo_sort_options_def input_deps_def Let_def rbind_Inr_iff)
  note all = topo_visit_all(1) [OF topo_inv_start run]
  then show "distinct order" "dep_ordered (input_deps input) order" by (simp_all add: topo_inv_def)
  have "list_all (bt_contains (cf_option input)) (snd (marks, order))"
  proof (rule try_fold_invariant [OF run])
    fix n a b
    assume "n \<in> set ?names" "list_all (bt_contains (cf_option input)) (snd a)" "?visit n a = Ok b"
    then show "list_all (bt_contains (cf_option input)) (snd b)"
      using topo_only_options(1) [of "cf_option input" "input_deps input" n a b]
      by (simp add: bt_contains_iff bt_keys_def)
  qed simp
  then have "set order \<subseteq> fst ` set (cf_option input)"
    by (simp add: list_all_iff bt_contains_iff subset_iff)
  moreover have "fst ` set (cf_option input) \<subseteq> set order" using all by (auto simp: topo_inv_def bt_keys_def)
  ultimately show "set order = fst ` set (cf_option input)" by auto
qed

text \<open>C34. Options are resolved in an order in which every declared option occurs once, after its parent and
  after the options its command block takes commands from. The sort gives up only on an option that
  depends on itself through such references, or on a reference to an undeclared option.\<close>

theorem topo_sort_exact:
  "case topo_sort_options input of
     Ok order \<Rightarrow> distinct order \<and> set order = fst ` set (cf_option input) \<and>
       (\<forall>ys x zs. order = ys @ x # zs \<longrightarrow> {b. (x, b) \<in> option_edges input} \<subseteq> set ys)
   | Err e \<Rightarrow> (\<exists>n. e = CCyclicInheritance n \<and> (n, n) \<in> (option_edges input)\<^sup>+) \<or>
       (\<exists>src target. e = CUnknownOption (option_context src) target \<and> (src, target) \<in> option_edges input \<and>
          target \<notin> fst ` set (cf_option input))"
proof (cases "topo_sort_options input")
  case (Inl e)
  then have "try_fold (topo_visit (cf_option input) (input_deps input)) (bt_keys (cf_option input)) ([], []) = Err e"
    by (auto simp: topo_sort_options_def input_deps_def Let_def rbind_def split: sum.splits)
  from topo_visit_all(2) [OF topo_inv_start this] show ?thesis
    unfolding Inl by (simp add: topo_error_ok_def input_edges bt_contains_def bt_get_None_iff)
next
  case (Inr order)
  have "{b. (x, b) \<in> option_edges input} = set (deps_of (input_deps input) x)" for x
    by (auto simp: dep_edges_def simp flip: input_edges)
  with topo_sort_Ok [OF Inr] show ?thesis unfolding Inr by (simp add: dep_ordered_def)
qed

text \<open>A sample: \<open>cmd-ssh\<close> inherits from \<open>ssh\<close>, which is declared after it.\<close>

definition bare_option :: "int option_def" where
  "bare_option = \<lparr>od_type = None, od_inherit = None, od_default = None, od_default_type = None, od_negate = None,
     od_reset = None, od_sequence = None, od_internal = None, od_secure = None, od_required = None, od_section = None,
     od_group = None, od_bool_like = None, od_beta = None, od_allow_list = None, od_allow_range = None,
     od_depend = None, od_deprecate = None, od_command = SpecMap [], od_command_role = []\<rparr>"

definition bare_command :: command_def where
  "bare_command = \<lparr>cd_command_role = [], cd_log_file = None, cd_log_level_default = None, cd_lock_required = None,
     cd_lock_remote_required = None, cd_lock_type = None, cd_parameter_allowed = None, cd_internal = None\<rparr>"

definition ssh_config :: "int config" where
  "ssh_config = \<lparr>cf_command = [(''backup'', bare_command), (''help'', bare_command)], cf_option_group = [],
     cf_option = [(''cmd-ssh'', bare_option\<lparr>od_inherit := Some ''ssh''\<rparr>),
       (''ssh'', bare_option\<lparr>od_type := Some ''string'', od_default := Some (YString ''ssh''), od_required := Some True\<rparr>)]\<rparr>"

lemma ssh_order: "topo_sort_options ssh_config = Ok [''ssh'', ''cmd-ssh'']"
  by (simp add: topo_sort_options_def ssh_config_def bare_option_def option_deps_def bt_keys_def bt_get_def bt_contains_def)

lemma topo_sort_exact_witness:
  "{b. (''cmd-ssh'', b) \<in> option_edges ssh_config} \<subseteq> set [''ssh'']"
proof -
  have "\<forall>ys x zs. [''ssh'', ''cmd-ssh''] = ys @ x # zs \<longrightarrow> {b. (x, b) \<in> option_edges ssh_config} \<subseteq> set ys"
    using topo_sort_exact [of ssh_config] unfolding ssh_order sum.case by blast
  then show ?thesis by (metis append.left_neutral append_Cons)
qed

section \<open>The compiled model\<close>

text \<open>The options are resolved one after the other into a map that only grows.\<close>

definition resolve_step ::
  "'n config \<Rightarrow> (string, cfg_command) btree \<Rightarrow> string \<Rightarrow> (string, 'n cfg_option) btree \<Rightarrow>
     (compile_error, (string, 'n cfg_option) btree) result" where
  "resolve_step input commands name resolved =
     rbind (resolve_option name (the (bt_get (cf_option input) name)) commands resolved) (\<lambda>opt.
       Ok (bt_insert name opt resolved))"

lemma resolve_run:
  assumes "try_fold (resolve_step input commands) order [] = Ok resolved" "distinct order"
  shows "bt_ok resolved \<and> fst ` set resolved = set order \<and>
    (\<forall>ys x zs. order = ys @ x # zs \<longrightarrow>
      (\<exists>before opt. resolve_option x (the (bt_get (cf_option input) x)) commands before = Ok opt \<and>
         bt_get resolved x = Some opt \<and> (\<forall>y \<in> set ys. bt_get before y = bt_get resolved y)))"
  using assms
proof (induction order arbitrary: resolved rule: rev_induct)
  case (snoc a order)
  then obtain r where r1: "try_fold (resolve_step input commands) order [] = Ok r" "resolve_step input commands a r = Ok resolved"
    by (auto simp: try_fold_append rbind_Inr_iff)
  from r1(2) obtain opt where
    "resolve_option a (the (bt_get (cf_option input) a)) commands r = Ok opt" "resolved = bt_insert a opt r"
    by (auto simp: rbind_Inr_iff resolve_step_def)
  note r = r1(1) this
  have "distinct order" "a \<notin> set order" using snoc.prems(2) by simp_all
  note IH = snoc.IH [OF r(1) this(1)]
  have "\<exists>before opt. resolve_option x (the (bt_get (cf_option input) x)) commands before = Ok opt \<and>
         bt_get resolved x = Some opt \<and> (\<forall>y \<in> set ys. bt_get before y = bt_get resolved y)"
    if split: "order @ [a] = ys @ x # zs" for ys x zs
  proof (cases "zs = []")
    case True
    with split have "x = a" "ys = order" by simp_all
    with r \<open>a \<notin> set order\<close> show ?thesis by (intro exI [of _ r] exI [of _ opt]) auto
  next
    case False
    with split have "order = ys @ x # butlast zs" by (metis butlast.simps(2) butlast_append butlast_snoc list.distinct(1))
    with IH r(3) \<open>a \<notin> set order\<close> show ?thesis by fastforce
  qed
  with IH r(3) show ?case by auto
qed simp

lemma resolve_option_fields:
  assumes "resolve_option name d commands resolved = Ok opt"
  shows "co_name opt = name"
    and "od_inherit d = Some p \<Longrightarrow> \<exists>parent. bt_get resolved p = Some parent \<and>
      (od_type d = None \<longrightarrow> co_type opt = co_type parent) \<and>
      co_default opt = set_opt (od_default d) (co_default parent) \<and>
      co_required opt = unwrap_or (co_required parent) (od_required d) \<and>
      (\<not> option_command_locally_specified (od_command d) \<and> co_commands parent \<noteq> [] \<longrightarrow> co_commands opt = co_commands parent)"
proof -
  from assms obtain base ty sec grp dt depend roles cmds where
    base: "option_base name d resolved = Ok base" and ty: "option_own_type name d (co_type base) = Ok ty"
    and cmds: "(if option_command_locally_specified (od_command d)
       then resolve_commands_field (od_command d) name commands resolved else Ok (co_commands base)) = Ok cmds"
    and opt: "co_name opt = co_name base" "co_type opt = ty" "co_default opt = set_opt (od_default d) (co_default base)"
      "co_required opt = set_bool (od_required d) (co_required base)"
      "co_commands opt = (if cmds = [] then default_all_commands commands else cmds)"
    unfolding resolve_option_def rbind_Inr_iff by fastforce
  show "co_name opt = name"
    using base opt(1) by (auto simp: option_base_def rbind_Inr_iff base_option_def split: option.splits)
  assume "od_inherit d = Some p"
  with base obtain parent where "bt_get resolved p = Some parent" "co_type base = co_type parent"
    "co_default base = co_default parent" "co_required base = co_required parent" "co_commands base = co_commands parent"
    by (auto simp: option_base_def rbind_Inr_iff)
  with opt ty cmds show "\<exists>parent. bt_get resolved p = Some parent \<and>
      (od_type d = None \<longrightarrow> co_type opt = co_type parent) \<and>
      co_default opt = set_opt (od_default d) (co_default parent) \<and>
      co_required opt = unwrap_or (co_required parent) (od_required d) \<and>
      (\<not> option_command_locally_specified (od_command d) \<and> co_commands parent \<noteq> [] \<longrightarrow> co_commands opt = co_commands parent)"
    by (auto simp: option_own_type_def set_bool_def split: option.splits if_splits)
qed

lemma compile_parts:
  assumes "compile input = Ok cfg"
  obtains order where "topo_sort_options input = Ok order"
    "try_fold (resolve_step input (cfg_commands cfg)) order [] = Ok (cfg_options cfg)"
    "try_fold (\<lambda>(name, d) commands. rbind (compile_command name d) (\<lambda>c. Ok (bt_insert name c commands)))
       (cf_command input) [] = Ok (cfg_commands cfg)"
proof -
  from assms obtain commands groups options where c:
    "try_fold (\<lambda>(name, d) commands. rbind (compile_command name d) (\<lambda>c. Ok (bt_insert name c commands)))
       (cf_command input) [] = Ok commands"
    "resolve_options input commands = Ok options"
    "cfg = \<lparr>cfg_commands = commands, cfg_options = options, cfg_option_groups = groups\<rparr>"
    unfolding compile_def rbind_Inr_iff by blast
  from c(2) obtain order where "topo_sort_options input = Ok order"
    "try_fold (resolve_step input commands) order [] = Ok options"
    unfolding resolve_options_def rbind_Inr_iff resolve_step_def [abs_def] by blast
  with c(1,3) that show thesis by simp
qed

lemma option_in_order:
  assumes "compile input = Ok cfg" "bt_get (cf_option input) name = Some d"
  obtains before opt where "resolve_option name d (cfg_commands cfg) before = Ok opt"
    "bt_get (cfg_options cfg) name = Some opt"
    "\<forall>p \<in> set (option_deps d). bt_get before p = bt_get (cfg_options cfg) p"
proof -
  obtain order where order: "topo_sort_options input = Ok order"
    "try_fold (resolve_step input (cfg_commands cfg)) order [] = Ok (cfg_options cfg)"
    by (rule compile_parts [OF assms(1)])
  note sorted = topo_sort_Ok [OF order(1)]
  have "name \<in> set order" using assms(2) sorted(2) by (metis bt_get_None_iff option.distinct(1))
  then obtain ys zs where split: "order = ys @ name # zs" by (auto dest: split_list)
  have "\<exists>before opt. resolve_option name (the (bt_get (cf_option input) name)) (cfg_commands cfg) before = Ok opt \<and>
      bt_get (cfg_options cfg) name = Some opt \<and> (\<forall>y \<in> set ys. bt_get before y = bt_get (cfg_options cfg) y)"
    using resolve_run [OF order(2) sorted(1)] split by blast
  with assms(2) obtain before opt where
    b: "resolve_option name d (cfg_commands cfg) before = Ok opt" "bt_get (cfg_options cfg) name = Some opt"
    "\<forall>y \<in> set ys. bt_get before y = bt_get (cfg_options cfg) y" by auto
  have "set (deps_of (input_deps input) name) \<subseteq> set ys"
    using sorted(3) split unfolding dep_ordered_def by blast
  then have "set (option_deps d) \<subseteq> set ys" using assms(2) by (simp add: deps_of_def input_deps_get)
  with b(3) show thesis by (intro that [OF b(1,2)]) blast
qed

text \<open>C36. In the compiled model an option has what its parent has, in its final form, wherever it sets nothing
  itself: the type, the default, whether it is required, and the commands it is valid for.\<close>

theorem compile_inherits:
  assumes "compile input = Ok cfg" and "bt_get (cf_option input) name = Some d" and "od_inherit d = Some p"
  shows "\<exists>opt parent. bt_get (cfg_options cfg) name = Some opt \<and> bt_get (cfg_options cfg) p = Some parent \<and>
    (od_type d = None \<longrightarrow> co_type opt = co_type parent) \<and>
    co_default opt = set_opt (od_default d) (co_default parent) \<and>
    co_required opt = unwrap_or (co_required parent) (od_required d) \<and>
    (\<not> option_command_locally_specified (od_command d) \<and> co_commands parent \<noteq> [] \<longrightarrow> co_commands opt = co_commands parent)"
proof -
  obtain before opt where o: "resolve_option name d (cfg_commands cfg) before = Ok opt"
    "bt_get (cfg_options cfg) name = Some opt"
    "\<forall>p \<in> set (option_deps d). bt_get before p = bt_get (cfg_options cfg) p"
    by (rule option_in_order [OF assms(1,2)])
  have "p \<in> set (option_deps d)"
    using assms(3) by (auto simp: option_deps_def Let_def split: command_spec.splits option.splits)
  then show ?thesis using resolve_option_fields(2) [OF o(1) assms(3)] o(2,3) by metis
qed

section \<open>Commands of an option are declared\<close>

definition cmds_ok :: "(string, cfg_command) btree \<Rightarrow> (string, 'n command_usage) btree \<Rightarrow> bool" where
  "cmds_ok commands m = (fst ` set m \<subseteq> fst ` set commands)"

definition options_ok :: "(string, cfg_command) btree \<Rightarrow> (string, 'n cfg_option) btree \<Rightarrow> bool" where
  "options_ok commands resolved = (\<forall>name opt. bt_get resolved name = Some opt \<longrightarrow> cmds_ok commands (co_commands opt))"

lemma cmds_ok_Nil [simp]: "cmds_ok commands []"
  by (simp add: cmds_ok_def)

lemma cmds_ok_insert: "cmds_ok commands (bt_insert k u m) \<longleftrightarrow> k \<in> fst ` set commands \<and> cmds_ok commands m"
  by (simp add: cmds_ok_def)

definition key_of :: "('k, 'v) btree \<Rightarrow> 'k \<Rightarrow> bool" where
  "key_of m k = (k \<in> fst ` set m)"

lemma bt_contains_fst: "bt_contains m k \<longleftrightarrow> key_of m k"
  by (simp add: key_of_def bt_contains_iff)

lemma cmds_ok_insert_key [simp]: "cmds_ok commands m \<Longrightarrow> key_of commands k \<Longrightarrow> cmds_ok commands (bt_insert k u m)"
  by (simp add: key_of_def cmds_ok_insert)

lemma cmds_ok_entry: "cmds_ok commands m \<Longrightarrow> k \<in> fst ` set commands \<Longrightarrow> cmds_ok commands (entry_or_default k m)"
  by (simp add: entry_or_default_def cmds_ok_insert)

lemma cmds_ok_fold_entry:
  "cmds_ok commands m \<Longrightarrow> set ks \<subseteq> fst ` set commands \<Longrightarrow> cmds_ok commands (fold entry_or_default ks m)"
  by (induction ks arbitrary: m) (simp_all add: cmds_ok_entry)

lemma cmds_ok_fold_insert:
  "cmds_ok commands m \<Longrightarrow> set ks \<subseteq> fst ` set commands \<Longrightarrow> cmds_ok commands (fold (\<lambda>k out. bt_insert k u out) ks m)"
  by (induction ks arbitrary: m) (simp_all add: cmds_ok_insert)

lemma cmds_ok_remove: "cmds_ok commands m \<Longrightarrow> cmds_ok commands (bt_remove k m)"
  unfolding cmds_ok_def bt_remove_def by (rule subset_trans [OF image_mono]) auto

lemma cmds_ok_fold_remove: "cmds_ok commands m \<Longrightarrow> cmds_ok commands (fold bt_remove ks m)"
  by (induction ks arbitrary: m) (simp_all add: cmds_ok_remove)

lemma cmds_ok_role:
  "cmds_ok commands m \<Longrightarrow> set cs \<subseteq> set commands \<Longrightarrow>
     cmds_ok commands (fold (\<lambda>(name, cmd) out. if has_role cmd role then entry_or_default name out else out) cs m)"
proof (induction cs arbitrary: m)
  case (Cons c cs)
  obtain name cmd where c: "c = (name, cmd)" by (cases c)
  then have "name \<in> fst ` set commands" using Cons.prems(2) by force
  with Cons c show ?case by (simp add: cmds_ok_entry)
qed simp

lemma resolve_commands_ok:
  assumes "resolve_commands_field spec name commands resolved = Ok m" "options_ok commands resolved"
  shows "cmds_ok commands m"
proof (cases spec)
  case (SpecInherit other)
  with assms(1) obtain o' where o': "bt_get resolved other = Some o'"
    "m = fold (\<lambda>cmd_name out. bt_insert cmd_name default_usage out) (bt_keys (co_commands o')) []"
    by (auto simp: resolve_commands_field_def rbind_Inr_iff)
  then have "cmds_ok commands (co_commands o')" using assms(2) by (simp add: options_ok_def)
  then show ?thesis unfolding o'(2) by (intro cmds_ok_fold_insert) (simp_all add: cmds_ok_def bt_keys_def)
next
  case (SpecMap entries)
  with assms(1) obtain out where out: "try_fold (include_entry name commands resolved) entries [] = Ok out"
    "m = (case bt_get entries ''-command'' of None \<Rightarrow> out | Some entry \<Rightarrow> fold bt_remove (shortcut_values entry) out)"
    by (auto simp: resolve_commands_field_def rbind_Inr_iff)
  have role: "cmds_ok commands b" if "add_role_includes entry commands name a = Ok b" "cmds_ok commands a" for entry a b
    by (rule try_fold_invariant [OF that(1) [unfolded add_role_includes_def]])
      (auto simp: that(2) rbind_Inr_iff bt_keys_def split: if_splits intro: cmds_ok_fold_entry cmds_ok_role)
  have inh: "cmds_ok commands b" if "add_inherit_includes entry resolved name a = Ok b" "cmds_ok commands a" for entry a b
  proof (rule try_fold_invariant [where P = "cmds_ok commands", OF that(1) [unfolded add_inherit_includes_def] that(2)])
    fix x c d
    assume c: "cmds_ok commands c" and "rbind (ok_or (CUnknownOption (option_context name @ '' (+inherit)'') x) (bt_get resolved x))
         (\<lambda>other. Ok (fold entry_or_default (bt_keys (co_commands other)) c)) = Ok d"
    then obtain other where "bt_get resolved x = Some other" "d = fold entry_or_default (bt_keys (co_commands other)) c"
      by (auto simp: rbind_Inr_iff)
    moreover from this assms(2) have "set (bt_keys (co_commands other)) \<subseteq> fst ` set commands"
      by (auto simp: options_ok_def cmds_ok_def bt_keys_def)
    ultimately show "cmds_ok commands d" using c by (simp add: cmds_ok_fold_entry)
  qed
  have "cmds_ok commands out"
  proof (rule try_fold_invariant [OF out(1)])
    fix x a b
    assume "cmds_ok commands a" "include_entry name commands resolved x a = Ok b"
    then show "cmds_ok commands b"
      by (cases x) (auto simp: include_entry_def rbind_Inr_iff bt_contains_fst split: if_splits dest: role inh)
  qed simp
  then show ?thesis unfolding out(2) by (simp add: cmds_ok_fold_remove split: option.split)
qed

lemma resolve_option_cmds:
  assumes "resolve_option name d commands resolved = Ok opt" "options_ok commands resolved"
  shows "cmds_ok commands (co_commands opt)"
proof -
  from assms(1) obtain base cmds where
    base: "option_base name d resolved = Ok base"
    and cmds: "(if option_command_locally_specified (od_command d)
       then resolve_commands_field (od_command d) name commands resolved else Ok (co_commands base)) = Ok cmds"
    and opt: "co_commands opt = (if cmds = [] then default_all_commands commands else cmds)"
    unfolding resolve_option_def rbind_Inr_iff by fastforce
  have "cmds_ok commands (co_commands base)"
    using base assms(2) by (auto simp: option_base_def rbind_Inr_iff options_ok_def base_option_def split: option.splits)
  with cmds have "cmds_ok commands cmds" using resolve_commands_ok assms(2) by (auto split: if_splits)
  moreover have "cmds_ok commands (default_all_commands commands :: (string, 'a command_usage) btree)"
    by (force simp: cmds_ok_def default_all_commands_def bt_keys_def)
  ultimately show ?thesis using opt by simp
qed

text \<open>C35. The compiled model has exactly the declared commands and options, each option under its own name, and
  an option is valid for declared commands only.\<close>

theorem compile_sound:
  assumes "compile input = Ok cfg"
  shows "bt_ok (cfg_options cfg) \<and> fst ` set (cfg_options cfg) = fst ` set (cf_option input) \<and>
    fst ` set (cfg_commands cfg) = fst ` set (cf_command input) \<and>
    (\<forall>name opt. bt_get (cfg_options cfg) name = Some opt \<longrightarrow>
      co_name opt = name \<and> fst ` set (co_commands opt) \<subseteq> fst ` set (cf_command input))"
proof -
  obtain order where order: "topo_sort_options input = Ok order"
    "try_fold (resolve_step input (cfg_commands cfg)) order [] = Ok (cfg_options cfg)"
    "try_fold (\<lambda>(name, d) commands. rbind (compile_command name d) (\<lambda>c. Ok (bt_insert name c commands)))
       (cf_command input) [] = Ok (cfg_commands cfg)" by (rule compile_parts [OF assms])
  note sorted = topo_sort_Ok [OF order(1)]
  note run = resolve_run [OF order(2) sorted(1)]
  have keys: "fst ` set out = fst ` set ds \<union> fst ` set init"
    if "try_fold (\<lambda>(name, d) commands. rbind (compile_command name d) (\<lambda>c. Ok (bt_insert name c commands))) ds init = Ok out"
    for ds init out
    using that
  proof (induction ds arbitrary: init)
    case (Cons a ds)
    obtain n d where a: "a = (n, d)" by (cases a)
    with Cons.prems obtain c where
      "try_fold (\<lambda>(name, d) commands. rbind (compile_command name d) (\<lambda>c. Ok (bt_insert name c commands))) ds
         (bt_insert n c init) = Ok out" by (auto simp: rbind_Inr_iff)
    from Cons.IH [OF this] a show ?case by simp
  qed simp
  have cmds: "fst ` set (cfg_commands cfg) = fst ` set (cf_command input)" using keys [OF order(3)] by simp
  have "options_ok (cfg_commands cfg) (cfg_options cfg)"
  proof (rule try_fold_invariant [OF order(2)])
    fix x a b
    assume a: "options_ok (cfg_commands cfg) a" and "resolve_step input (cfg_commands cfg) x a = Ok b"
    then obtain opt where o: "resolve_option x (the (bt_get (cf_option input) x)) (cfg_commands cfg) a = Ok opt"
      "b = bt_insert x opt a" by (auto simp: resolve_step_def rbind_Inr_iff)
    show "options_ok (cfg_commands cfg) b"
      using a resolve_option_cmds [OF o(1) a] o(2) by (auto simp: options_ok_def)
  qed (simp add: options_ok_def)
  moreover have "co_name opt = name" if "bt_get (cfg_options cfg) name = Some opt" for name opt
  proof -
    have "name \<in> set order" using that run by (metis bt_get_None_iff option.distinct(1))
    then obtain ys zs where "order = ys @ name # zs" by (auto dest: split_list)
    with run that show ?thesis using resolve_option_fields(1) by fastforce
  qed
  ultimately show ?thesis using run sorted(2) cmds by (auto simp: options_ok_def cmds_ok_def)
qed

definition ssh_cfg :: "int cfg" where
  "ssh_cfg = (case compile ssh_config of Ok cfg \<Rightarrow> cfg | Err _ \<Rightarrow> undefined)"

lemma ssh_compiles: "compile ssh_config = Ok ssh_cfg"
proof -
  have "\<exists>cfg. compile ssh_config = Ok cfg"
    by (simp add: compile_def resolve_options_def ssh_order)
       (simp add: ssh_config_def bare_option_def bare_command_def compile_command_def parse_roles_def bt_keys_def
         resolve_option_def option_base_def option_own_type_def set_parsed_def bt_get_def option_type_parse_def)
  then show ?thesis by (auto simp: ssh_cfg_def)
qed

lemma compile_inherits_witness:
  "\<exists>opt parent. bt_get (cfg_options ssh_cfg) ''cmd-ssh'' = Some opt \<and> bt_get (cfg_options ssh_cfg) ''ssh'' = Some parent \<and>
     co_type opt = co_type parent \<and> co_default opt = co_default parent"
proof -
  have "bt_get (cf_option ssh_config) ''cmd-ssh'' = Some (bare_option\<lparr>od_inherit := Some ''ssh''\<rparr>)"
    by (simp add: ssh_config_def bt_get_def)
  from compile_inherits [OF ssh_compiles this, of "''ssh''"] show ?thesis
    by (auto simp: bare_option_def set_opt_def)
qed

lemma compile_sound_witness: "fst ` set (cfg_options ssh_cfg) = {''cmd-ssh'', ''ssh''}"
  using compile_sound [OF ssh_compiles] by (simp add: ssh_config_def)

end
