(* ===== verification/Block.thy ===== *)
theory Block
  imports Rust_Num
begin

text \<open>
  The two packing policies of the backup (\<open>crates/pgbr-command/src/block.rs\<close> and \<open>bundle.rs\<close>): how large
  the blocks of a block-incremental file are, how a file is cut into them, and how small files and blocks are
  placed in bundle objects. Sizes are \<open>u64\<close> values, kept as numbers with the saturation written out.
\<close>

section \<open>Block sizes\<close>

abbreviation KIB :: nat where "KIB \<equiv> 1024"
abbreviation MIB :: nat where "MIB \<equiv> 1024 * KIB"
abbreviation AGE_NO_BLOCK_SECS :: int where "AGE_NO_BLOCK_SECS \<equiv> 4 * 7 * 24 * 60 * 60"
abbreviation MIN_BLOCK_FILE_SIZE :: nat where "MIN_BLOCK_FILE_SIZE \<equiv> 128 * KIB"
abbreviation BASE_BLOCK_SIZE :: nat where "BASE_BLOCK_SIZE \<equiv> 8 * KIB"
abbreviation WEEK_SECS :: int where "WEEK_SECS \<equiv> 7 * 24 * 60 * 60"
abbreviation DAY_SECS :: int where "DAY_SECS \<equiv> 24 * 60 * 60"
abbreviation DEFAULT_SUPER_SIZE :: nat where "DEFAULT_SUPER_SIZE \<equiv> 256 * KIB"
abbreviation DEFAULT_SUPER_SIZE_FULL :: nat where "DEFAULT_SUPER_SIZE_FULL \<equiv> MIB"
abbreviation DEFAULT_CHECKSUM_SIZE :: nat where "DEFAULT_CHECKSUM_SIZE \<equiv> 6"

text \<open>\<open>u64\<close> operations the code uses.\<close>

definition sat_add :: "nat \<Rightarrow> nat \<Rightarrow> nat" where
  "sat_add a b = min (a + b) (u64_bound - 1)"

definition sat_mul :: "nat \<Rightarrow> nat \<Rightarrow> nat" where
  "sat_mul a b = min (a * b) (u64_bound - 1)"

fun bit_length :: "nat \<Rightarrow> nat" where
  "bit_length n = (if n = 0 then 0 else Suc (bit_length (n div 2)))"

declare bit_length.simps [simp del]

definition leading_zeros :: "nat \<Rightarrow> nat" where
  "leading_zeros n = 64 - bit_length n"

definition block_size :: "nat \<Rightarrow> int \<Rightarrow> nat option" where
  "block_size file_size age_secs =
     (if file_size < MIN_BLOCK_FILE_SIZE then None
      else if AGE_NO_BLOCK_SECS \<le> age_secs then None
      else
        let age = max age_secs 0;
            size_buckets = (if file_size < MIB then 0 else 64 - leading_zeros (file_size div MIB));
            age_buckets = nat (age div WEEK_SECS);
            shift = min (size_buckets + age_buckets) 7
        in Some (BASE_BLOCK_SIZE * 2 ^ shift))"

text \<open>
  \<open>sort_unstable_by_key\<close> leaves the order of equal thresholds open; the model keeps their order, which is
  one of the results it allows. Maps of the options have distinct keys.
\<close>

record block_overrides =
  bo_size_map :: "(nat \<times> nat) list"
  bo_age_map :: "(nat \<times> nat) list"
  bo_checksum_size_map :: "(nat \<times> nat) list"
  bo_super_size :: nat
  bo_super_size_full :: nat

definition overrides_none :: block_overrides where
  "overrides_none = \<lparr>bo_size_map = [], bo_age_map = [], bo_checksum_size_map = [],
     bo_super_size = DEFAULT_SUPER_SIZE, bo_super_size_full = DEFAULT_SUPER_SIZE_FULL\<rparr>"

definition overrides_new ::
  "(nat \<times> nat) list \<Rightarrow> (nat \<times> nat) list \<Rightarrow> (nat \<times> nat) list \<Rightarrow> nat option \<Rightarrow> nat option \<Rightarrow> block_overrides" where
  "overrides_new size_map age_map checksum_size_map super_size super_size_full =
     \<lparr>bo_size_map = sort_key fst size_map, bo_age_map = sort_key fst age_map,
      bo_checksum_size_map = sort_key fst checksum_size_map,
      bo_super_size = (case super_size of None \<Rightarrow> DEFAULT_SUPER_SIZE | Some n \<Rightarrow> n),
      bo_super_size_full = (case super_size_full of None \<Rightarrow> DEFAULT_SUPER_SIZE_FULL | Some n \<Rightarrow> n)\<rparr>"

definition maps_empty :: "block_overrides \<Rightarrow> bool" where
  "maps_empty o' = (bo_size_map o' = [] \<and> bo_age_map o' = [] \<and> bo_checksum_size_map o' = [])"

definition bucket_lookup :: "(nat \<times> nat) list \<Rightarrow> nat \<Rightarrow> nat option" where
  "bucket_lookup m probe = (case rev (takeWhile (\<lambda>(threshold, _). threshold \<le> probe) m) of
       [] \<Rightarrow> None
     | (_, v) # _ \<Rightarrow> Some v)"

definition overrides_block_size :: "block_overrides \<Rightarrow> nat \<Rightarrow> int \<Rightarrow> nat option" where
  "overrides_block_size o' file_size age_secs =
     Option.bind (block_size file_size age_secs) (\<lambda>_.
       let age_days = nat (max age_secs 0 div DAY_SECS);
           age_multiplier = bucket_lookup (bo_age_map o') age_days;
           heuristic_age = (if age_multiplier \<noteq> None then 0 else age_secs)
       in Option.bind (block_size file_size heuristic_age) (\<lambda>heuristic.
            let chosen = (case bucket_lookup (bo_size_map o') file_size of None \<Rightarrow> heuristic | Some v \<Rightarrow> v)
            in Some (case age_multiplier of None \<Rightarrow> chosen | Some multiplier \<Rightarrow> sat_mul chosen multiplier)))"

definition overrides_checksum_size :: "block_overrides \<Rightarrow> nat \<Rightarrow> nat" where
  "overrides_checksum_size o' bs =
     (case bucket_lookup (bo_checksum_size_map o') bs of None \<Rightarrow> DEFAULT_CHECKSUM_SIZE | Some v \<Rightarrow> v)"

definition overrides_super_size :: "block_overrides \<Rightarrow> bool \<Rightarrow> nat" where
  "overrides_super_size o' is_full = (if is_full then bo_super_size_full o' else bo_super_size o')"

section \<open>Cutting and joining\<close>

function chunks :: "nat \<Rightarrow> 'a list \<Rightarrow> 'a list list" where
  "chunks n xs = (if xs = [] \<or> n = 0 then [] else take n xs # chunks n (drop n xs))"
  by auto
termination by (relation "measure (length \<circ> snd)") auto

declare chunks.simps [simp del]

definition split_blocks :: "'a list \<Rightarrow> nat \<Rightarrow> 'a list list" where
  "split_blocks bytes bs =
     (if bytes = [] then []
      else chunks (if bs = 0 then length bytes else min bs (u64_bound - 1)) bytes)"

definition reassemble :: "'a list list \<Rightarrow> 'a list" where
  "reassemble blocks = concat blocks"

section \<open>Bundles\<close>

definition bundle_object_path :: "string \<Rightarrow> nat \<Rightarrow> string" where
  "bundle_object_path backup_root i = backup_root @ ''/bundle/'' @ fmt_dec i"

record bundle_slot =
  sl_bundle_id :: nat
  sl_offset :: nat

record bundle_packer =
  pk_bundle_size :: nat
  pk_current_id :: nat
  pk_current_offset :: nat
  pk_has_file :: bool

definition packer_new :: "nat \<Rightarrow> bundle_packer" where
  "packer_new bundle_size = \<lparr>pk_bundle_size = (if bundle_size = 0 then 1 else bundle_size),
     pk_current_id = 1, pk_current_offset = 0, pk_has_file = False\<rparr>"

definition place :: "nat \<Rightarrow> bundle_packer \<Rightarrow> bundle_slot \<times> bundle_packer" where
  "place repo_bytes p =
     (let p = (if pk_has_file p \<and> pk_bundle_size p < sat_add (pk_current_offset p) repo_bytes
               then p\<lparr>pk_current_id := pk_current_id p + 1, pk_current_offset := 0, pk_has_file := False\<rparr>
               else p);
          slot = \<lparr>sl_bundle_id = pk_current_id p, sl_offset = pk_current_offset p\<rparr>
      in (slot, p\<lparr>pk_current_offset := sat_add (pk_current_offset p) repo_bytes, pk_has_file := True\<rparr>))"

fun place_all :: "nat list \<Rightarrow> bundle_packer \<Rightarrow> bundle_slot list \<times> bundle_packer" where
  "place_all [] p = ([], p)"
| "place_all (n # ns) p = (let (slot, p) = place n p; (slots, p) = place_all ns p in (slot # slots, p))"

section \<open>Properties of the block sizes\<close>

lemma bit_length_mono: "m \<le> n \<Longrightarrow> bit_length m \<le> bit_length n"
proof (induction n arbitrary: m rule: less_induct)
  case (less n)
  show ?case
  proof (cases "m = 0")
    case False
    then have "bit_length (m div 2) \<le> bit_length (n div 2)" using less.prems by (intro less.IH) (auto simp: div_le_mono)
    then show ?thesis using False less.prems by (subst (1 2) bit_length.simps) simp
  qed (simp add: bit_length.simps)
qed

lemma leading_zeros_mono: "m \<le> n \<Longrightarrow> 64 - leading_zeros m \<le> 64 - leading_zeros n"
  using bit_length_mono [of m n] by (simp add: leading_zeros_def)

definition size_buckets :: "nat \<Rightarrow> nat" where
  "size_buckets n = (if n < MIB then 0 else 64 - leading_zeros (n div MIB))"

definition age_buckets :: "int \<Rightarrow> nat" where
  "age_buckets a = nat (max a 0 div WEEK_SECS)"

lemma block_size_Some:
  "block_size sz age = Some b \<longleftrightarrow> \<not> sz < MIN_BLOCK_FILE_SIZE \<and> \<not> AGE_NO_BLOCK_SECS \<le> age \<and>
     b = BASE_BLOCK_SIZE * 2 ^ min (size_buckets sz + age_buckets age) 7"
  unfolding block_size_def Let_def size_buckets_def age_buckets_def
  by (auto simp only: option.inject option.distinct split: if_split)

lemma buckets_mono:
  "m \<le> n \<Longrightarrow> size_buckets m \<le> size_buckets n" "a \<le> b \<Longrightarrow> age_buckets a \<le> age_buckets b"
proof -
  assume "m \<le> n"
  then show "size_buckets m \<le> size_buckets n"
    using leading_zeros_mono [OF div_le_mono, of m n MIB] unfolding size_buckets_def by (cases "n < MIB") auto
next
  assume "a \<le> b"
  then show "age_buckets a \<le> age_buckets b"
    unfolding age_buckets_def by (intro nat_mono zdiv_mono1) simp_all
qed


lemma no_overrides: "overrides_block_size overrides_none sz age = block_size sz age"
  by (cases "block_size sz age") (simp_all add: overrides_block_size_def overrides_none_def bucket_lookup_def Let_def)

text \<open>A bucket map answers with the value of the largest threshold that the probe reaches.\<close>

lemma bucket_lookup_sorted:
  assumes "sorted_wrt (<) (map fst m)"
  shows "bucket_lookup m probe = Some v \<longleftrightarrow>
    (\<exists>t. (t, v) \<in> set m \<and> t \<le> probe \<and> (\<forall>(t', _) \<in> set m. t' \<le> probe \<longrightarrow> t' \<le> t))"
  using assms
proof (induction m arbitrary: v)
  case Nil
  then show ?case by (simp add: bucket_lookup_def)
next
  case (Cons a m)
  obtain t0 v0 where a: "a = (t0, v0)" by (cases a)
  have above: "\<And>u x. (u, x) \<in> set m \<Longrightarrow> t0 < u" and sorted: "sorted_wrt (<) (map fst m)"
    using Cons.prems a by auto
  show ?case
  proof (cases "t0 \<le> probe")
    case False
    then have "t \<le> probe \<Longrightarrow> (t, u) \<notin> set (a # m)" for t u using a above [of t u] by auto
    then show ?thesis using a False by (auto simp: bucket_lookup_def)
  next
    case True
    define kept where "kept = takeWhile (\<lambda>(threshold, _). threshold \<le> probe) m"
    have head: "bucket_lookup (a # m) probe = (case bucket_lookup m probe of None \<Rightarrow> Some v0 | Some w \<Rightarrow> Some w)"
      using a True by (cases "rev kept") (auto simp: bucket_lookup_def kept_def [symmetric])
    show ?thesis
    proof (cases "bucket_lookup m probe")
      case None
      then have none: "t \<le> probe \<Longrightarrow> (t, u) \<notin> set m" for t u
        using sorted by (cases m) (auto simp: bucket_lookup_def split: list.splits if_splits)
      have "bucket_lookup (a # m) probe = Some v \<longleftrightarrow> v0 = v" using head None by simp
      then show ?thesis using none a True by auto
    next
      case (Some w)
      then obtain t where t: "(t, w) \<in> set m" "t \<le> probe" "\<forall>(t', _) \<in> set m. t' \<le> probe \<longrightarrow> t' \<le> t"
        using Cons.IH [OF sorted] by blast
      have uniq: "u = w" if "(t, u) \<in> set m" for u
      proof -
        have "distinct (map fst m)" using sorted by (simp add: strict_sorted_iff)
        then show ?thesis using that t(1) by (rule eq_key_imp_eq_value)
      qed
      show ?thesis
      proof
        assume "bucket_lookup (a # m) probe = Some v"
        show "\<exists>t. (t, v) \<in> set (a # m) \<and> t \<le> probe \<and> (\<forall>(t', _) \<in> set (a # m). t' \<le> probe \<longrightarrow> t' \<le> t)"
        proof -
          have "v = w" using \<open>bucket_lookup (a # m) probe = Some v\<close> head Some by simp
          moreover have "t0 \<le> t" using above [OF t(1)] by simp
          ultimately show ?thesis using t a by auto
        qed
      next
        assume "\<exists>t. (t, v) \<in> set (a # m) \<and> t \<le> probe \<and> (\<forall>(t', _) \<in> set (a # m). t' \<le> probe \<longrightarrow> t' \<le> t)"
        then obtain t' where t': "(t', v) \<in> set (a # m)" "t' \<le> probe" "\<forall>(u, _) \<in> set (a # m). u \<le> probe \<longrightarrow> u \<le> t'"
          by blast
        have "t \<le> t'" using t t'(3) by auto
        moreover have "t0 < t" using above t(1) by auto
        ultimately have m: "(t', v) \<in> set m" using t'(1) a by auto
        then have "t' \<le> t" using t(3) t'(2) by auto
        with \<open>t \<le> t'\<close> have "t' = t" by simp
        then show "bucket_lookup (a # m) probe = Some v" using m uniq head Some by simp
      qed
    qed
  qed
qed

section \<open>Properties of the blocks\<close>

lemma concat_chunks: "0 < n \<Longrightarrow> concat (chunks n xs) = xs"
proof (induction n xs rule: chunks.induct)
  case (1 n xs)
  then show ?case by (subst chunks.simps) simp
qed

lemma chunks_sizes:
  "0 < n \<Longrightarrow> i < length (chunks n xs) \<Longrightarrow>
     chunks n xs ! i = take n (drop (i * n) xs) \<and> i * n < length xs"
proof (induction n xs arbitrary: i rule: chunks.induct)
  case (1 n xs)
  then have "xs \<noteq> []" by (auto simp: chunks.simps [of n xs] split: if_splits)
  then have shape: "chunks n xs = take n xs # chunks n (drop n xs)" using 1 by (subst chunks.simps) simp
  show ?case
  proof (cases i)
    case 0
    then show ?thesis using shape \<open>xs \<noteq> []\<close> by simp
  next
    case (Suc j)
    then have "j < length (chunks n (drop n xs))" using 1 shape by simp
    then have "chunks n (drop n xs) ! j = take n (drop (j * n) (drop n xs)) \<and> j * n < length (drop n xs)"
      using "1.IH" [of j] "1.prems" \<open>xs \<noteq> []\<close> by simp
    then show ?thesis using Suc shape by (simp add: add.commute drop_drop less_diff_conv)
  qed
qed

lemma concat_split_blocks: "concat (split_blocks bytes bs) = bytes"
  by (cases "bytes = []") (auto simp: split_blocks_def intro!: concat_chunks)

text \<open>Splitting a file into blocks and joining them gives the file back, for every block size, zero included (one
  block); each block is the next \<open>block_size\<close> bytes of the file, and no block is empty.
\<close>

theorem split_reassemble:
  assumes "length bytes < u64_bound"
  shows "reassemble (split_blocks bytes bs) = bytes \<and>
    (\<forall>i < length (split_blocks bytes bs).
       split_blocks bytes bs ! i = (if bs = 0 then bytes else take bs (drop (i * bs) bytes)) \<and>
       split_blocks bytes bs ! i \<noteq> [])"
proof (cases "bytes = []")
  case True
  then show ?thesis by (simp add: split_blocks_def reassemble_def)
next
  case False
  define n where "n = (if bs = 0 then length bytes else min bs (u64_bound - 1))"
  have n: "0 < n" using False by (simp add: n_def)
  have split: "split_blocks bytes bs = chunks n bytes" using False by (simp add: split_blocks_def n_def)
  have part: "chunks n bytes ! i = (if bs = 0 then bytes else take bs (drop (i * bs) bytes)) \<and> chunks n bytes ! i \<noteq> []"
    if i: "i < length (chunks n bytes)" for i
  proof -
    have at: "chunks n bytes ! i = take n (drop (i * n) bytes)" "i * n < length bytes"
      using chunks_sizes [OF n i] by auto
    have "take n (drop (i * n) bytes) = (if bs = 0 then bytes else take bs (drop (i * bs) bytes))"
    proof (cases "bs = 0 \<or> bs < u64_bound")
      case True
      then show ?thesis using at(2) False by (cases "bs = 0"; cases i) (auto simp: n_def min_def)
    next
      case big: False
      then have "n = u64_bound - 1" by (auto simp: n_def)
      then have "i = 0" using at(2) assms by (cases i) auto
      then show ?thesis using big assms \<open>n = u64_bound - 1\<close> by auto
    qed
    then show ?thesis using at n by auto
  qed
  then show ?thesis unfolding split reassemble_def using concat_chunks [OF n] by blast
qed


lemma split_reassemble_witness:
  "reassemble (split_blocks ''abcde'' 2) = ''abcde'' \<and> split_blocks ''abcde'' 2 = [''ab'', ''cd'', ''e'']"
proof -
  have "reassemble (split_blocks ''abcde'' 2) = ''abcde''" using split_reassemble [of "''abcde''" 2] by simp
  moreover have "split_blocks ''abcde'' 2 = [''ab'', ''cd'', ''e'']"
    by (simp add: split_blocks_def chunks.simps)
  ultimately show ?thesis by simp
qed

end
