(* ===== verification/Page.thy ===== *)
theory Page
  imports Bytes Rust_Num
begin

text \<open>
  Data pages (\<open>crates/pgbr-postgres/src/page.rs\<close>, \<open>tablespace.rs\<close>) and the page validation of the backup
  (\<open>crates/pgbr-command/src/backup.rs\<close>). A page is a list of bytes; native byte order is little endian, as
  on every platform the program is built for.
\<close>

section \<open>The page checksum\<close>

abbreviation BLCKSZ :: nat where "BLCKSZ \<equiv> 8192"
abbreviation PD_CHECKSUM_OFFSET :: nat where "PD_CHECKSUM_OFFSET \<equiv> 8"
abbreviation PARALLEL_SUM :: nat where "PARALLEL_SUM \<equiv> 32"
abbreviation ROUNDS :: nat where "ROUNDS \<equiv> 64"
abbreviation FNV_PRIME :: u32 where "FNV_PRIME \<equiv> 16777619"

definition SUM_SEEDS :: "u32 list" where
  "SUM_SEEDS = [0x5b1f36e9, 0xb8525960, 0x02ab50aa, 0x1de66d2a, 0x79ff467a, 0x9bb9f8a3, 0x217e7cd2, 0x83e13d2c,
     0xf8d4474f, 0xe39eb970, 0x42c6ae16, 0x993216fa, 0x7b093b5d, 0x98daff3c, 0xf718902a, 0x0b1c9cdb,
     0xe58f764b, 0x187636bc, 0x5d7b3bb1, 0xe73de7de, 0x92bec979, 0xcca6c0b2, 0x304a0979, 0x85aa43d4,
     0x783125bb, 0x6ca8eaa2, 0xe407eac6, 0x4b5cfc3e, 0x9fbf8c76, 0x15ca20be, 0xf2ca9fd3, 0x959bd756]"

definition checksum_round :: "u32 \<Rightarrow> u32 \<Rightarrow> u32" where
  "checksum_round checksum v = (let tmp = checksum XOR v in (tmp * FNV_PRIME) XOR drop_bit 17 tmp)"

definition zero_checksum_bytes :: "u32 \<Rightarrow> u32" where
  "zero_checksum_bytes w = u32_le ((le_bytes 4 (unat w))[0 := 0, 1 := 0])"

definition page_words :: "u8 list \<Rightarrow> u32 list" where
  "page_words page =
     (let words = map (\<lambda>idx. u32_le (slice page (idx * 4) 4)) [0..<BLCKSZ div 4]
      in words[PD_CHECKSUM_OFFSET div 4 := zero_checksum_bytes (words ! (PD_CHECKSUM_OFFSET div 4))])"

definition page_sums :: "u32 list \<Rightarrow> u32 list" where
  "page_sums words =
     (let sums = fold (\<lambda>round sums. map2 checksum_round sums (slice words (round * PARALLEL_SUM) PARALLEL_SUM))
            [0..<ROUNDS] SUM_SEEDS
      in fold (\<lambda>_ sums. map (\<lambda>sum. checksum_round sum 0) sums) [0..<2] sums)"

definition pg_checksum_page :: "u8 list \<Rightarrow> u32 \<Rightarrow> u16 option" where
  "pg_checksum_page page block_no =
     (if length page \<noteq> BLCKSZ then None
      else
        let result = fold (\<lambda>sum result. result XOR sum) (page_sums (page_words page)) 0;
            result = result XOR block_no
        in Some (ucast (result mod 65535 + 1)))"

definition stored_checksum :: "u8 list \<Rightarrow> u16 option" where
  "stored_checksum page =
     (if length page < PD_CHECKSUM_OFFSET + 2 then None else Some (u16_le (slice page PD_CHECKSUM_OFFSET 2)))"

definition page_checksum_valid :: "u8 list \<Rightarrow> u32 \<Rightarrow> bool option" where
  "page_checksum_valid page block_no =
     Option.bind (pg_checksum_page page block_no) (\<lambda>computed.
     Option.bind (stored_checksum page) (\<lambda>stored. Some (computed = stored)))"

section \<open>The page header\<close>

abbreviation SIZE_OF_PAGE_HEADER_DATA :: nat where "SIZE_OF_PAGE_HEADER_DATA \<equiv> 24"

definition page_lsn :: "u8 list \<Rightarrow> u64 option" where
  "page_lsn page =
     (if length page < 8 then None
      else Some (push_bit 32 (ucast (u32_le (slice page 0 4))) OR ucast (u32_le (slice page 4 4))))"

definition page_header_valid :: "u8 list \<Rightarrow> nat \<Rightarrow> u64 option \<Rightarrow> bool" where
  "page_header_valid page page_size max_lsn =
     (if length page < SIZE_OF_PAGE_HEADER_DATA then False
      else
        let read_u16 = (\<lambda>off. unat (u16_le (slice page off 2)));
            pd_lower = read_u16 12; pd_upper = read_u16 14; pd_special = read_u16 16
        in if pd_lower \<noteq> 0 \<and> pd_lower < SIZE_OF_PAGE_HEADER_DATA then False
           else if pd_lower > pd_upper \<or> pd_upper > pd_special \<or> pd_special > page_size then False
           else case (max_lsn, page_lsn page) of
               (Some m, Some lsn) \<Rightarrow> \<not> lsn > m
             | _ \<Rightarrow> True)"

section \<open>Tablespace directories and relation files\<close>

record tablespace_dir_name =
  td_pg_version_label :: string
  td_catalog_version :: nat

definition parse_tablespace_dir_name :: "string \<Rightarrow> tablespace_dir_name option" where
  "parse_tablespace_dir_name name =
     (if \<not> starts_with ''PG_'' name then None
      else case split_on (CHR ''_'') name of
          [p, version, catalog] \<Rightarrow>
            if p \<noteq> ''PG'' \<or> version = [] then None
            else map_option (\<lambda>n. \<lparr>td_pg_version_label = version, td_catalog_version = n\<rparr>) (parse_u32 catalog)
        | _ \<Rightarrow> None)"

definition is_relation_segment_name :: "string \<Rightarrow> bool" where
  "is_relation_segment_name name =
     (let all_digits = (\<lambda>field. field \<noteq> [] \<and> list_all is_ascii_digit field)
      in case split_once (CHR ''.'') name of
           Some (node, segment) \<Rightarrow> all_digits node \<and> all_digits segment
         | None \<Rightarrow> all_digits name)"

definition is_relation_file :: "string \<Rightarrow> bool" where
  "is_relation_file rel_path =
     (let cs = split_on (CHR ''/'') rel_path;
          depth_ok = (case cs of
              [] \<Rightarrow> False
            | c # _ \<Rightarrow>
                if c = ''base'' then length cs = 3
                else if c = ''global'' then length cs = 2
                else if c = ''pg_tblspc'' then length cs = 5 \<and> parse_tablespace_dir_name (cs ! 2) \<noteq> None
                else False)
      in depth_ok \<and> is_relation_segment_name (List.last cs))"

section \<open>Validation of a relation file\<close>

abbreviation PAGE_SIZE :: nat where "PAGE_SIZE \<equiv> BLCKSZ"

definition is_valid_page :: "u8 list \<Rightarrow> u32 \<Rightarrow> bool \<Rightarrow> bool" where
  "is_valid_page page block_no check_header =
     (if list_all (\<lambda>b. b = 0) page then True
      else if check_header \<and> \<not> page_header_valid page PAGE_SIZE None then False
      else page_checksum_valid page block_no = Some True)"

definition chunks_exact :: "nat \<Rightarrow> 'a list \<Rightarrow> 'a list list" where
  "chunks_exact n xs = map (\<lambda>i. slice xs (i * n) n) [0..<length xs div n]"

definition block_no_of :: "nat \<Rightarrow> nat" where
  "block_no_of idx = min idx (u32_bound - 1)"

definition validate_relation_pages :: "u8 list \<Rightarrow> bool \<Rightarrow> nat list" where
  "validate_relation_pages bytes check_header =
     map (\<lambda>(idx, _). block_no_of idx)
       (filter (\<lambda>(idx, page). \<not> is_valid_page page (word_of_nat (block_no_of idx)) check_header)
          (zip [0..<length bytes div PAGE_SIZE] (chunks_exact PAGE_SIZE bytes)))"

section \<open>A page is stamped with its checksum\<close>

text \<open>What the server does when it writes a page: the checksum goes into the bytes the computation skips.\<close>

definition stamp :: "u8 list \<Rightarrow> u16 \<Rightarrow> u8 list" where
  "stamp page c = take 8 page @ le_bytes 2 (unat c) @ drop 10 page"

lemma length_stamp [simp]: "10 \<le> length page \<Longrightarrow> length (stamp page c) = length page"
  by (simp add: stamp_def)

lemma le_bytes_of_bytes: "length bs = 4 \<Longrightarrow> le_bytes 4 (unat (u32_le bs)) = bs"
proof -
  have inverse: "le_bytes (length bs) (le_nat bs) = bs" for bs
  proof (induction bs)
    case (Cons b bs)
    have "(unat b + 256 * le_nat bs) mod 256 = unat b" by (simp add: mod_less)
    moreover have "(unat b + 256 * le_nat bs) div 256 = le_nat bs" by simp
    ultimately show ?case using Cons by simp
  qed simp
  assume len: "length bs = 4"
  then have "le_nat bs < 4294967296" using le_nat_bound [of bs] by simp
  then have "unat (u32_le bs) = le_nat bs" by (simp add: u32_le_def unat_of_nat)
  then show ?thesis using inverse [of bs] len by simp
qed

lemma zero_checksum_slice:
  assumes "length bs = 4"
  shows "zero_checksum_bytes (u32_le bs) = u32_le ([0, 0] @ drop 2 bs)"
proof -
  obtain a b c d where "bs = [a, b, c, d]"
    using assms by (auto simp: numeral_eq_Suc length_Suc_conv)
  then show ?thesis by (simp add: zero_checksum_bytes_def le_bytes_of_bytes)
qed

lemma page_words_stamp:
  assumes "length page = BLCKSZ"
  shows "page_words (stamp page c) = page_words page"
proof (rule nth_equalityI)
  show "length (page_words (stamp page c)) = length (page_words page)" by (simp add: page_words_def)
  fix i assume "i < length (page_words (stamp page c))"
  then have i: "i < 2048" by (simp add: page_words_def)
  have at: "page_words p ! i = (if i = 2 then u32_le ([0, 0] @ slice p 10 2) else u32_le (slice p (i * 4) 4))"
    if p: "length p = BLCKSZ" for p
  proof (cases "i = 2")
    case True
    have "drop 2 (slice p 8 4) = slice p 10 2" by (simp add: slice_def drop_take)
    then show ?thesis using True i p by (simp add: page_words_def Let_def zero_checksum_slice)
  next
    case False
    then show ?thesis using i by (simp add: page_words_def Let_def)
  qed
  have parts: "slice (stamp page c) 10 2 = slice page 10 2"
    using assms by (simp add: stamp_def slice_def)
  have "slice (stamp page c) (i * 4) 4 = slice page (i * 4) 4" if "i \<noteq> 2"
  proof (cases "i < 2")
    case True
    then have "i * 4 + 4 \<le> length (take 8 page)" using assms by simp
    then have "slice (stamp page c) (i * 4) 4 = slice (take 8 page) (i * 4) 4"
      unfolding stamp_def by (rule slice_append_left)
    also have "\<dots> = slice page (i * 4) 4" using True by (simp add: slice_def drop_take min_def)
    finally show ?thesis .
  next
    case False
    then have "12 \<le> i * 4" using that by simp
    then obtain k where k: "i * 4 = 12 + k"
      using that le_Suc_ex [of 12 "i * 4"] by auto
    show ?thesis using assms by (simp add: k stamp_def slice_def)
  qed
  then show "page_words (stamp page c) ! i = page_words page ! i"
    using at [of page] at [of "stamp page c"] assms parts by simp
qed

lemma stamp_facts:
  assumes "length page = BLCKSZ"
  shows "pg_checksum_page (stamp page e) block_no = pg_checksum_page page block_no"
    "stored_checksum (stamp page e) = Some e"
  using assms page_words_stamp [OF assms, of e]
  by (simp_all add: pg_checksum_page_def stored_checksum_def stamp_def slice_append_right)

text \<open>C18. A page stamped with the checksum that is computed for its block validates there, and with any other stored
  value it does not; the computed checksum is never zero.
\<close>

theorem stamped_page_validates:
  assumes "length page = BLCKSZ" "pg_checksum_page page block_no = Some c"
  shows "page_checksum_valid (stamp page c) block_no = Some True \<and> c \<noteq> 0 \<and>
    (d \<noteq> c \<longrightarrow> page_checksum_valid (stamp page d) block_no = Some False)"
proof -
  obtain r :: u32 where c: "c = ucast (r mod 65535 + 1)"
    using assms by (auto simp: pg_checksum_page_def Let_def)
  have "unat (r mod 65535) < 65535" by (simp add: unat_mod)
  then have "unat (r mod 65535 + 1) = unat (r mod 65535) + 1"
    by (simp add: unat_word_ariths)
  then have "unat c = unat (r mod 65535) + 1"
    using \<open>unat (r mod 65535) < 65535\<close> unfolding c by (simp add: unsigned_ucast_eq take_bit_eq_mod)
  then have "c \<noteq> 0" by (metis add_is_0 one_neq_zero unat_0)
  then show ?thesis using stamp_facts [OF assms(1)] assms(2) by (simp add: page_checksum_valid_def)
qed

section \<open>Segments\<close>

lemma flip_bit_17:
  fixes s :: u32
  shows "(s XOR 131072) mod 65535 \<noteq> s mod 65535"
proof
  assume eq: "(s XOR 131072) mod 65535 = s mod 65535"
  define n where "n = unat s"
  have "unat (s XOR 131072) = flip_bit 17 n"
    by (simp add: n_def unsigned_xor_eq flip_bit_eq_xor)
  moreover have "flip_bit 17 n + 131072 = n \<or> flip_bit 17 n = n + 131072"
  proof -
    have set: "flip_bit 17 k = k + 131072" if "\<not> bit k 17" for k :: nat
      using that by (simp add: flip_bit_eq_if set_bit_eq)
    have "flip_bit 17 (flip_bit 17 n) = n" by (simp add: flip_bit_eq_xor xor.assoc)
    moreover have "bit (flip_bit 17 n) 17 \<longleftrightarrow> \<not> bit n 17" by (simp add: bit_flip_bit_iff)
    ultimately show ?thesis using set [of n] set [of "flip_bit 17 n"] by auto
  qed
  moreover have "unat (s XOR 131072) mod 65535 = n mod 65535"
    using arg_cong [OF eq, of unat] by (simp add: unat_mod n_def)
  ultimately obtain m where m: "(m + 131072) mod 65535 = m mod (65535::nat)" by metis
  have "(m + 131072) mod 65535 = (m + 2) mod 65535"
  proof -
    have "m + 131072 = (m + 2) + 2 * 65535" by simp
    then show ?thesis using mod_mult_self1 [of "m + 2" 2 65535] by metis
  qed
  with m have "(65535::nat) dvd (m + 2) - m" by (simp add: mod_eq_dvd_iff_nat)
  then show False by (auto dest: dvd_imp_le)
qed

lemma checksum_next_segment:
  assumes "pg_checksum_page page (word_of_nat idx) = Some c" "idx < 131072"
  shows "pg_checksum_page page (word_of_nat (131072 + idx)) \<noteq> Some c"
proof
  assume next_seg: "pg_checksum_page page (word_of_nat (131072 + idx)) = Some c"
  define r where "r = fold (\<lambda>sum result. result XOR sum) (page_sums (page_words page)) 0"
  define s where "s = r XOR word_of_nat idx"
  have "take_bit 17 idx = idx" using assms(2) by (simp add: take_bit_nat_eq_self)
  then have "\<not> bit idx 17" by (metis bit_take_bit_iff less_irrefl)
  then have "131072 + idx = idx XOR 131072"
    using flip_bit_eq_xor [of 17 idx] by (simp add: flip_bit_eq_if set_bit_eq)
  then have "(word_of_nat (131072 + idx) :: u32) = word_of_nat idx XOR 131072"
    by (metis of_nat_numeral of_nat_xor_eq)
  then have next_s: "r XOR word_of_nat (131072 + idx) = s XOR 131072" by (simp add: s_def xor.assoc)
  have low: "(ucast (x mod 65535 + 1 :: u32) :: u16) = ucast (y mod 65535 + 1 :: u32) \<Longrightarrow> x mod 65535 = y mod 65535"
    for x y :: u32
  proof -
    assume eq: "(ucast (x mod 65535 + 1 :: u32) :: u16) = ucast (y mod 65535 + 1 :: u32)"
    have unat: "unat (ucast (z mod 65535 + 1) :: u16) = unat z mod 65535 + 1" for z :: u32
    proof -
      have "unat z mod 65535 < 65535" by simp
      then show ?thesis
        by (simp add: unsigned_ucast_eq take_bit_eq_mod unat_word_ariths unat_mod)
    qed
    have "unat x mod 65535 = unat y mod 65535" using arg_cong [OF eq, of unat] unfolding unat by simp
    then show ?thesis by (simp add: word_unat_eq_iff unat_mod)
  qed
  have "s mod 65535 = (s XOR 131072) mod 65535"
    using assms(1) next_seg next_s unfolding pg_checksum_page_def Let_def r_def [symmetric] s_def [symmetric]
    by (auto split: if_splits intro: low)
  then show False using flip_bit_17 [of s] by simp
qed

lemma second_segment_page:
  assumes "page_checksum_valid page (word_of_nat (131072 + idx)) = Some True" "idx < 131072"
  shows "page_checksum_valid page (word_of_nat idx) = Some False"
proof -
  obtain c d where c: "pg_checksum_page page (word_of_nat (131072 + idx)) = Some c" "stored_checksum page = Some c"
    and d: "pg_checksum_page page (word_of_nat idx) = Some d"
    using assms(1) by (auto simp: page_checksum_valid_def bind_eq_Some_conv pg_checksum_page_def Let_def split: if_splits)
  have "d \<noteq> c" using checksum_next_segment [OF d assms(2)] c(1) by auto
  then show ?thesis using c(2) d by (simp add: page_checksum_valid_def)
qed


text \<open>A sample: an empty heap page, stamped for the first block of the second segment.\<close>

definition sample_page :: "u8 list" where
  "sample_page = replicate 12 0 @ [24, 0, 0, 32, 0, 32, 4, 32] @ replicate 8172 0"

definition stamped_sample :: "u8 list" where
  "stamped_sample = stamp sample_page (the (pg_checksum_page sample_page (word_of_nat 131072)))"

lemma length_sample [simp]: "length sample_page = BLCKSZ"
  by (simp add: sample_page_def)

lemma sample_checksum: "\<exists>c. pg_checksum_page sample_page (word_of_nat 131072) = Some c"
  by (simp add: pg_checksum_page_def Let_def)

lemma stamped_sample_not_zero: "\<not> list_all (\<lambda>b. b = 0) stamped_sample"
proof -
  have "drop 10 sample_page = [0, 0, 24, 0, 0, 32, 0, 32, 4, 32] @ replicate 8172 0"
    by (simp add: sample_page_def numeral_2_eq_2)
  then show ?thesis by (simp add: stamped_sample_def stamp_def)
qed

lemma stamped_page_validates_witness:
  "page_checksum_valid stamped_sample (word_of_nat 131072) = Some True"
proof -
  obtain c where "pg_checksum_page sample_page (word_of_nat 131072) = Some c" using sample_checksum by blast
  then show ?thesis
    using stamped_page_validates [OF length_sample, of "word_of_nat 131072" c 0] by (simp add: stamped_sample_def)
qed


end
