(* ===== verification/Filters.thy ===== *)
theory Filters
  imports Storage Rust_Num
begin

text \<open>
  The stream filters of \<open>crates/pgbr-io\<close>: the filter objects (\<open>lib.rs\<close>, \<open>filter/size.rs\<close>,
  \<open>filter/hash.rs\<close>, \<open>filter/cipher.rs\<close>), their chain, and the contract that makes a chain the composition
  of its filters. The primitives of the \<open>RustCrypto\<close> crates, the random salt and the one-shot codecs that
  the filters of \<open>crates/pgbr-compress\<close> run at the end of their input are the fields of \<open>filter_env\<close>.
\<close>

section \<open>Environment\<close>

datatype cipher_mode = Encrypt | Decrypt
datatype cipher_digest = DigestMd5 | DigestSha1 | DigestSha256

datatype codec =
    GzCompress int bool | GzDecompress bool
  | Bz2Compress int | Bz2Decompress
  | Lz4Compress int bool | Lz4Decompress
  | ZstCompress int | ZstDecompress

record filter_env =
  fe_digest :: "cipher_digest \<Rightarrow> string \<Rightarrow> string"
  fe_aes_encrypt :: "string \<Rightarrow> string \<Rightarrow> string \<Rightarrow> (string, string) result"
  fe_aes_decrypt :: "string \<Rightarrow> string \<Rightarrow> string \<Rightarrow> (string, string) result"
  fe_salt :: string
  fe_codec :: "codec \<Rightarrow> string \<Rightarrow> (io_error, string) result"

section \<open>Key derivation\<close>

text \<open>
  \<open>EVP_BytesToKey\<close> with one iteration: digests are chained until 48 bytes are there. Every digest has
  at least one byte, so 48 rounds are enough.
\<close>

abbreviation KEY_LEN :: nat where "KEY_LEN \<equiv> 32"
abbreviation IV_LEN :: nat where "IV_LEN \<equiv> 16"
abbreviation SALT_LEN :: nat where "SALT_LEN \<equiv> 8"
abbreviation SALT_MAGIC :: string where "SALT_MAGIC \<equiv> ''Salted__''"

fun derive_loop ::
  "nat \<Rightarrow> (string \<Rightarrow> string) \<Rightarrow> string \<Rightarrow> string \<Rightarrow> string \<Rightarrow> string \<Rightarrow> string option" where
  "derive_loop fuel digest pass salt prev buf =
     (if KEY_LEN + IV_LEN \<le> length buf then Some buf
      else case fuel of
          0 \<Rightarrow> None
        | Suc fuel \<Rightarrow>
            let prev = digest (prev @ pass @ salt) in derive_loop fuel digest pass salt prev (buf @ prev))"

definition derive_bytes :: "(string \<Rightarrow> string) \<Rightarrow> string \<Rightarrow> string \<Rightarrow> string option" where
  "derive_bytes digest pass salt = derive_loop (KEY_LEN + IV_LEN) digest pass salt [] []"

definition derive_key_iv :: "filter_env \<Rightarrow> cipher_digest \<Rightarrow> string \<Rightarrow> string \<Rightarrow> (string \<times> string) option" where
  "derive_key_iv E digest pass salt =
     map_option (\<lambda>buf. (take KEY_LEN buf, take IV_LEN (drop KEY_LEN buf))) (derive_bytes (fe_digest E digest) pass salt)"

declare derive_loop.simps [simp del]

lemma derive_loop_enough:
  assumes "\<And>x. digest x \<noteq> []" "KEY_LEN + IV_LEN \<le> length buf + fuel"
  shows "\<exists>out. derive_loop fuel digest pass salt prev buf = Some out \<and> KEY_LEN + IV_LEN \<le> length out"
  using assms(2)
proof (induction fuel arbitrary: prev buf)
  case 0
  then show ?case by (simp add: derive_loop.simps)
next
  case (Suc fuel)
  let ?prev = "digest (prev @ pass @ salt)"
  have "Suc 0 \<le> length ?prev" using assms(1) [of "prev @ pass @ salt"] by (simp add: Suc_le_eq)
  then have "KEY_LEN + IV_LEN \<le> length (buf @ ?prev) + fuel"
    using Suc.prems unfolding length_append by linarith
  then have "\<exists>out. derive_loop fuel digest pass salt ?prev (buf @ ?prev) = Some out \<and> KEY_LEN + IV_LEN \<le> length out"
    by (rule Suc.IH)
  then show ?case by (subst derive_loop.simps) (simp add: Let_def)
qed

lemma derive_key_iv_total:
  assumes "\<And>d x. fe_digest E d x \<noteq> []"
  shows "\<exists>key iv. derive_key_iv E d pass salt = Some (key, iv) \<and> length key = KEY_LEN \<and> length iv = IV_LEN"
proof -
  obtain out where "derive_bytes (fe_digest E d) pass salt = Some out" "KEY_LEN + IV_LEN \<le> length out"
    using derive_loop_enough [where digest = "fe_digest E d" and buf = "[]"] assms
    unfolding derive_bytes_def by fastforce
  then show ?thesis by (simp add: derive_key_iv_def)
qed

section \<open>Filters\<close>

text \<open>
  The implementations of the \<open>Filter\<close> trait. A digest keeps what it has seen; the cipher and the codecs
  keep their input until the end.
\<close>

datatype stream_filter =
    FIdentity
  | FSize nat
  | FSha cipher_digest string
  | FCipher cipher_mode cipher_digest string string
  | FCodec codec string

definition cipher_new :: "cipher_mode \<Rightarrow> cipher_digest \<Rightarrow> string \<Rightarrow> stream_filter" where
  "cipher_new mode digest password = FCipher mode digest password []"

fun filter_process :: "stream_filter \<Rightarrow> string \<Rightarrow> (io_error, string \<times> stream_filter) result" where
  "filter_process FIdentity input = Ok (input, FIdentity)"
| "filter_process (FSize bytes) input = Ok (input, FSize (min (bytes + length input) (u64_bound - 1)))"
| "filter_process (FSha d seen) input = Ok (input, FSha d (seen @ input))"
| "filter_process (FCipher mode digest pass pending) input = Ok ([], FCipher mode digest pass (pending @ input))"
| "filter_process (FCodec c pending) input = Ok ([], FCodec c (pending @ input))"

text \<open>The derivation cannot run out of rounds for a digest with output; the last branch is then dead.\<close>

definition no_key :: io_error where
  "no_key = IoBackend ''cipher: key derivation''"

definition cipher_encrypt ::
  "filter_env \<Rightarrow> cipher_digest \<Rightarrow> string \<Rightarrow> string \<Rightarrow> (io_error, string) result" where
  "cipher_encrypt E digest pass pending =
     (case derive_key_iv E digest pass (fe_salt E) of
        None \<Rightarrow> Err no_key
      | Some (key, iv) \<Rightarrow>
          rbind (map_err (\<lambda>e. IoBackend (''cipher: encryption failed: '' @ e)) (fe_aes_encrypt E key iv pending))
            (\<lambda>ciphertext. Ok (SALT_MAGIC @ fe_salt E @ ciphertext)))"

definition cipher_decrypt ::
  "filter_env \<Rightarrow> cipher_digest \<Rightarrow> string \<Rightarrow> string \<Rightarrow> (io_error, string) result" where
  "cipher_decrypt E digest pass pending =
     (if length pending < length SALT_MAGIC + SALT_LEN then Err (IoBackend ''cipher: input too short for header'')
      else if take (length SALT_MAGIC) pending \<noteq> SALT_MAGIC
      then Err (IoBackend ''cipher: missing Salted__ magic'')
      else
        let salt = take SALT_LEN (drop (length SALT_MAGIC) pending);
            body = drop (length SALT_MAGIC + SALT_LEN) pending
        in case derive_key_iv E digest pass salt of
             None \<Rightarrow> Err no_key
           | Some (key, iv) \<Rightarrow>
               map_err (\<lambda>e. IoBackend (''cipher: decryption failed: '' @ e)) (fe_aes_decrypt E key iv body))"

fun filter_finish :: "filter_env \<Rightarrow> stream_filter \<Rightarrow> (io_error, string) result" where
  "filter_finish E FIdentity = Ok []"
| "filter_finish E (FSize bytes) = Ok []"
| "filter_finish E (FSha d seen) = Ok []"
| "filter_finish E (FCipher Encrypt digest pass pending) = cipher_encrypt E digest pass pending"
| "filter_finish E (FCipher Decrypt digest pass pending) = cipher_decrypt E digest pass pending"
| "filter_finish E (FCodec c pending) = fe_codec E c pending"

section \<open>Chains\<close>

fun chain_process :: "('f \<Rightarrow> string \<Rightarrow> ('e, string \<times> 'f) result) \<Rightarrow> 'f list \<Rightarrow> string \<Rightarrow> ('e, string \<times> 'f list) result" where
  "chain_process process [] current = Ok (current, [])"
| "chain_process process (f # fs) current =
     rbind (process f current) (\<lambda>(next, f).
     rbind (chain_process process fs next) (\<lambda>(out, fs). Ok (out, f # fs)))"

fun chain_finish ::
  "('f \<Rightarrow> string \<Rightarrow> ('e, string \<times> 'f) result) \<Rightarrow> ('f \<Rightarrow> ('e, string) result) \<Rightarrow> 'f list \<Rightarrow> string \<Rightarrow> ('e, string) result" where
  "chain_finish process finish [] current = Ok current"
| "chain_finish process finish (f # fs) current =
     rbind (process f current) (\<lambda>(next, f).
     rbind (finish f) (\<lambda>rest. chain_finish process finish fs (next @ rest)))"

definition run_chain ::
  "('f \<Rightarrow> string \<Rightarrow> ('e, string \<times> 'f) result) \<Rightarrow> ('f \<Rightarrow> ('e, string) result) \<Rightarrow> 'f list \<Rightarrow> string \<Rightarrow> ('e, string) result" where
  "run_chain process finish chain input =
     rbind (chain_process process chain input) (\<lambda>(out, chain).
     rbind (chain_finish process finish chain []) (\<lambda>rest. Ok (out @ rest)))"

text \<open>
  The contract: \<open>total f x\<close> is all a filter emits when \<open>x\<close> is still to come. However the input is cut, the
  emitted parts add up to it.
\<close>

locale streaming =
  fixes process :: "'f \<Rightarrow> string \<Rightarrow> ('e, string \<times> 'f) result"
    and finish :: "'f \<Rightarrow> ('e, string) result"
    and total :: "'f \<Rightarrow> string \<Rightarrow> string option"
  assumes process_Ok: "process f x = Ok (out, g) \<Longrightarrow> total f (x @ y) = map_option (\<lambda>r. out @ r) (total g y)"
    and process_Err: "process f x = Err e \<Longrightarrow> total f (x @ y) = None"
    and finish_total: "ok (finish f) = total f []"
begin

fun chain_total :: "'f list \<Rightarrow> string \<Rightarrow> string option" where
  "chain_total [] x = Some x"
| "chain_total (f # fs) x = Option.bind (total f x) (chain_total fs)"

lemma chain_process_Ok:
  "chain_process process fs x = Ok (out, gs) \<Longrightarrow> chain_total fs (x @ y) = map_option (\<lambda>r. out @ r) (chain_total gs y)"
proof (induction fs arbitrary: x out gs y)
  case (Cons f fs)
  then obtain u g hs where step: "process f x = Ok (u, g)" "chain_process process fs u = Ok (out, hs)" "gs = g # hs"
    by (auto simp: rbind_Inr_iff)
  then have "chain_total fs (u @ r) = map_option (\<lambda>t. out @ t) (chain_total hs r)" for r
    using Cons.IH by blast
  then show ?case
    using process_Ok [OF step(1), of y] step(3) by (cases "total g y") simp_all
qed simp

lemma chain_process_Err:
  "chain_process process fs x = Err e \<Longrightarrow> chain_total fs (x @ y) = None"
proof (induction fs arbitrary: x y)
  case (Cons f fs)
  show ?case
  proof (cases "process f x")
    case (Inl e')
    then show ?thesis using process_Err by simp
  next
    case (Inr r)
    obtain u g where r: "r = (u, g)" by (cases r)
    then have "chain_process process fs u = Err e"
      using Cons.prems Inr by (cases "chain_process process fs u") auto
    then have "chain_total fs (u @ t) = None" for t using Cons.IH by blast
    then show ?thesis
      using process_Ok [OF Inr [unfolded r], of y] by (cases "total g y") simp_all
  qed
qed simp

lemma chain_finish_total: "ok (chain_finish process finish fs x) = chain_total fs x"
proof (induction fs arbitrary: x)
  case (Cons f fs)
  show ?case
  proof (cases "process f x")
    case (Inl e)
    then show ?thesis using process_Err [of f x e "[]"] by simp
  next
    case (Inr r)
    obtain u g where r: "r = (u, g)" by (cases r)
    show ?thesis
      using process_Ok [OF Inr [unfolded r], of "[]"] finish_total [of g, symmetric] Cons.IH Inr r
      by (cases "finish g") auto
  qed
qed simp

lemma run_chain_total: "ok (run_chain process finish fs x) = chain_total fs x"
proof (cases "chain_process process fs x")
  case (Inl e)
  then show ?thesis using chain_process_Err [of fs x e "[]"] by (simp add: run_chain_def)
next
  case (Inr r)
  obtain out gs where r: "r = (out, gs)" by (cases r)
  show ?thesis
    using chain_process_Ok [OF Inr [unfolded r], of "[]"] chain_finish_total [of gs "[]", symmetric] Inr r
    by (cases "chain_finish process finish gs []") (auto simp: run_chain_def)
qed

end

text \<open>The filters of the program meet it.\<close>

fun filter_total :: "filter_env \<Rightarrow> stream_filter \<Rightarrow> string \<Rightarrow> string option" where
  "filter_total E FIdentity x = Some x"
| "filter_total E (FSize n) x = Some x"
| "filter_total E (FSha d seen) x = Some x"
| "filter_total E (FCipher Encrypt digest pass pending) x = ok (cipher_encrypt E digest pass (pending @ x))"
| "filter_total E (FCipher Decrypt digest pass pending) x = ok (cipher_decrypt E digest pass (pending @ x))"
| "filter_total E (FCodec c pending) x = ok (fe_codec E c (pending @ x))"

interpretation filters: streaming filter_process "filter_finish E" "filter_total E" for E
proof
  fix f :: stream_filter and x out g and y :: string
  assume "filter_process f x = Ok (out, g)"
  then show "filter_total E f (x @ y) = map_option (\<lambda>r. out @ r) (filter_total E g y)"
    by (cases f; cases "case f of FCipher m _ _ _ \<Rightarrow> m | _ \<Rightarrow> Encrypt") (auto simp: option.map_ident)
next
  fix f x and e :: io_error and y
  assume "filter_process f x = Err e"
  then show "filter_total E f (x @ y) = None" by (cases f) auto
next
  fix f
  show "ok (filter_finish E f) = filter_total E f []"
    by (cases f; cases "case f of FCipher m _ _ _ \<Rightarrow> m | _ \<Rightarrow> Encrypt") auto
qed

end
