(* ===== verification/Pipeline.thy ===== *)
theory Pipeline
  imports Filters Command_Base Json_Api
begin

text \<open>
  \<open>crates/pgbr-command/src/pipeline.rs\<close>: how a repository object is made from a file (compress, then
  encrypt) and read back (decrypt, then decompress), and where the settings come from.
\<close>

section \<open>Compression types\<close>

datatype compress_type = CompNone | CompGz | CompBz2 | CompLz4 | CompZst

definition compress_from_str_id :: "string \<Rightarrow> compress_type" where
  "compress_from_str_id v =
     (if v = ''gz'' then CompGz else if v = ''bz2'' then CompBz2 else if v = ''lz4'' then CompLz4
      else if v = ''zst'' then CompZst else CompNone)"

fun compress_as_str_id :: "compress_type \<Rightarrow> string" where
  "compress_as_str_id CompNone = ''none''"
| "compress_as_str_id CompGz = ''gz''"
| "compress_as_str_id CompBz2 = ''bz2''"
| "compress_as_str_id CompLz4 = ''lz4''"
| "compress_as_str_id CompZst = ''zst''"

fun compress_suffix :: "compress_type \<Rightarrow> string" where
  "compress_suffix CompNone = []"
| "compress_suffix CompGz = ''.gz''"
| "compress_suffix CompBz2 = ''.bz2''"
| "compress_suffix CompLz4 = ''.lz4''"
| "compress_suffix CompZst = ''.zst''"

fun default_level :: "compress_type \<Rightarrow> int" where
  "default_level CompNone = 0"
| "default_level CompGz = 6"
| "default_level CompBz2 = 9"
| "default_level CompLz4 = 1"
| "default_level CompZst = 3"

lemma compress_round_trip [simp]: "compress_from_str_id (compress_as_str_id t) = t"
  by (cases t) (simp_all add: compress_from_str_id_def)

section \<open>The transform\<close>

record repo_transform =
  rt_compress_type :: compress_type
  rt_compress_level :: int
  rt_cipher_pass :: "string option"

definition identity_transform :: repo_transform where
  "identity_transform = \<lparr>rt_compress_type = CompNone, rt_compress_level = 0, rt_cipher_pass = None\<rparr>"

definition string_id_opt :: "loaded_config \<Rightarrow> string \<Rightarrow> string option" where
  "string_id_opt config name = (case config_get config name None of Some (OvStringId v) \<Rightarrow> Some v | _ \<Rightarrow> None)"

definition string_opt :: "loaded_config \<Rightarrow> string \<Rightarrow> string option" where
  "string_opt config name = (case config_get config name None of Some (OvString v) \<Rightarrow> Some v | _ \<Rightarrow> None)"

definition integer_opt :: "loaded_config \<Rightarrow> string \<Rightarrow> int option" where
  "integer_opt config name = (case config_get config name None of Some (OvInteger v) \<Rightarrow> Some v | _ \<Rightarrow> None)"

definition boolean_opt :: "loaded_config \<Rightarrow> string \<Rightarrow> bool option" where
  "boolean_opt config name = (case config_get config name None of Some (OvBoolean v) \<Rightarrow> Some v | _ \<Rightarrow> None)"

definition i32_of :: "int \<Rightarrow> int option" where
  "i32_of n = (if - (2 ^ 31) \<le> n \<and> n < 2 ^ 31 then Some n else None)"

definition transform_from_options :: "loaded_config \<Rightarrow> repo_transform" where
  "transform_from_options config =
     (let ct = (case string_id_opt config ''compress-type'' of
            Some v \<Rightarrow> compress_from_str_id v
          | None \<Rightarrow> if boolean_opt config ''compress'' = Some True then CompGz else CompNone);
          level = (case Option.bind (integer_opt config ''compress-level'') i32_of of
            Some n \<Rightarrow> n
          | None \<Rightarrow> default_level ct);
          pass = (if string_id_opt config ''cipher-type'' = Some ''aes-256-cbc''
            then string_opt config ''cipher-pass'' else None)
      in \<lparr>rt_compress_type = ct, rt_compress_level = level, rt_cipher_pass = pass\<rparr>)"

definition transform_with_key :: "compress_type \<Rightarrow> int \<Rightarrow> string option \<Rightarrow> repo_transform" where
  "transform_with_key ct level pass =
     \<lparr>rt_compress_type = ct, rt_compress_level = level, rt_cipher_pass = pass\<rparr>"

definition from_options_with_key :: "loaded_config \<Rightarrow> string option \<Rightarrow> repo_transform" where
  "from_options_with_key config sub_key =
     (let b = transform_from_options config
      in transform_with_key (rt_compress_type b) (rt_compress_level b) sub_key)"

abbreviation metadata_compress_type_key :: string where
  "metadata_compress_type_key \<equiv> ''backup-info-compress-type''"

abbreviation metadata_encrypted_key :: string where
  "metadata_encrypted_key \<equiv> ''backup-info-encrypted''"

definition transform_from_metadata ::
  "'j json_api \<Rightarrow> ('j \<Rightarrow> bool option) \<Rightarrow> 'j \<Rightarrow> loaded_config \<Rightarrow> repo_transform" where
  "transform_from_metadata J as_bool entry config =
     (let from_opts = transform_from_options config;
          ct = (case Option.bind (j_get J entry metadata_compress_type_key) (j_as_str J) of
            None \<Rightarrow> rt_compress_type from_opts
          | Some v \<Rightarrow> compress_from_str_id v);
          encrypted = (case Option.bind (j_get J entry metadata_encrypted_key) as_bool of
            Some b \<Rightarrow> b
          | None \<Rightarrow> rt_cipher_pass from_opts \<noteq> None);
          pass = (if encrypted then (case rt_cipher_pass from_opts of
              Some p \<Rightarrow> Some p
            | None \<Rightarrow> string_opt config ''cipher-pass'') else None)
      in \<lparr>rt_compress_type = ct, rt_compress_level = rt_compress_level from_opts, rt_cipher_pass = pass\<rparr>)"

definition transform_is_encrypted :: "repo_transform \<Rightarrow> bool" where
  "transform_is_encrypted t = (rt_cipher_pass t \<noteq> None)"

definition repo_suffix :: "repo_transform \<Rightarrow> string" where
  "repo_suffix t = compress_suffix (rt_compress_type t)"

section \<open>Chains\<close>

definition forward_chain_with_digest :: "repo_transform \<Rightarrow> cipher_digest \<Rightarrow> stream_filter list" where
  "forward_chain_with_digest t digest =
     (let level = rt_compress_level t in
      (case rt_compress_type t of
         CompNone \<Rightarrow> []
       | CompGz \<Rightarrow> [FCodec (GzCompress level False) []]
       | CompBz2 \<Rightarrow> [FCodec (Bz2Compress level) []]
       | CompLz4 \<Rightarrow> [FCodec (Lz4Compress level False) []]
       | CompZst \<Rightarrow> [FCodec (ZstCompress level) []]) @
      (case rt_cipher_pass t of None \<Rightarrow> [] | Some pass \<Rightarrow> [cipher_new Encrypt digest pass]))"

definition reverse_chain_with_digest :: "repo_transform \<Rightarrow> cipher_digest \<Rightarrow> stream_filter list" where
  "reverse_chain_with_digest t digest =
     (case rt_cipher_pass t of None \<Rightarrow> [] | Some pass \<Rightarrow> [cipher_new Decrypt digest pass]) @
     (case rt_compress_type t of
        CompNone \<Rightarrow> []
      | CompGz \<Rightarrow> [FCodec (GzDecompress False) []]
      | CompBz2 \<Rightarrow> [FCodec Bz2Decompress []]
      | CompLz4 \<Rightarrow> [FCodec Lz4Decompress []]
      | CompZst \<Rightarrow> [FCodec ZstDecompress []])"

definition apply_forward :: "filter_env \<Rightarrow> repo_transform \<Rightarrow> string \<Rightarrow> (io_error, string) result" where
  "apply_forward E t input =
     run_chain filter_process (filter_finish E) (forward_chain_with_digest t DigestMd5) input"

definition apply_reverse :: "filter_env \<Rightarrow> repo_transform \<Rightarrow> string \<Rightarrow> (io_error, string) result" where
  "apply_reverse E t input =
     run_chain filter_process (filter_finish E) (reverse_chain_with_digest t DigestMd5) input"

definition apply_forward_keyed :: "filter_env \<Rightarrow> repo_transform \<Rightarrow> string \<Rightarrow> (io_error, string) result" where
  "apply_forward_keyed E t input =
     run_chain filter_process (filter_finish E) (forward_chain_with_digest t DigestSha1) input"

definition apply_reverse_keyed :: "filter_env \<Rightarrow> repo_transform \<Rightarrow> string \<Rightarrow> (io_error, string) result" where
  "apply_reverse_keyed E t input =
     run_chain filter_process (filter_finish E) (reverse_chain_with_digest t DigestSha1) input"

section \<open>Round trip\<close>

text \<open>
  What the primitives promise: AES decryption inverts encryption under the same key and vector, a digest
  has output, a salt has eight bytes, and each decompressor inverts its compressor at every level.
\<close>

definition env_ok :: "filter_env \<Rightarrow> bool" where
  "env_ok E = ((\<forall>d x. fe_digest E d x \<noteq> []) \<and> length (fe_salt E) = SALT_LEN \<and>
     (\<forall>k iv x y. fe_aes_encrypt E k iv x = Ok y \<longrightarrow> fe_aes_decrypt E k iv y = Ok x) \<and>
     (\<forall>l x y. (fe_codec E (GzCompress l False) x = Ok y \<longrightarrow> fe_codec E (GzDecompress False) y = Ok x) \<and>
        (fe_codec E (Bz2Compress l) x = Ok y \<longrightarrow> fe_codec E Bz2Decompress y = Ok x) \<and>
        (fe_codec E (Lz4Compress l False) x = Ok y \<longrightarrow> fe_codec E Lz4Decompress y = Ok x) \<and>
        (fe_codec E (ZstCompress l) x = Ok y \<longrightarrow> fe_codec E ZstDecompress y = Ok x)))"

lemma cipher_inverse:
  assumes "env_ok E" "cipher_encrypt E d pass x = Ok y"
  shows "cipher_decrypt E d pass y = Ok x"
proof -
  obtain key iv c where run: "derive_key_iv E d pass (fe_salt E) = Some (key, iv)" "fe_aes_encrypt E key iv x = Ok c"
      "y = SALT_MAGIC @ fe_salt E @ c"
    using assms(2) by (auto simp: cipher_encrypt_def rbind_Inr_iff split: option.splits)
  have "length (fe_salt E) = SALT_LEN" "fe_aes_decrypt E key iv c = Ok x"
    using assms(1) run(2) by (auto simp: env_ok_def)
  then show ?thesis using run by (simp add: cipher_decrypt_def Let_def)
qed

lemma forward_total:
  "ok (run_chain filter_process (filter_finish E) (forward_chain_with_digest t d) x) =
     Option.bind (case rt_compress_type t of
         CompNone \<Rightarrow> Some x
       | CompGz \<Rightarrow> ok (fe_codec E (GzCompress (rt_compress_level t) False) x)
       | CompBz2 \<Rightarrow> ok (fe_codec E (Bz2Compress (rt_compress_level t)) x)
       | CompLz4 \<Rightarrow> ok (fe_codec E (Lz4Compress (rt_compress_level t) False) x)
       | CompZst \<Rightarrow> ok (fe_codec E (ZstCompress (rt_compress_level t)) x))
       (\<lambda>c. case rt_cipher_pass t of None \<Rightarrow> Some c | Some pass \<Rightarrow> ok (cipher_encrypt E d pass c))"
  unfolding filters.run_chain_total forward_chain_with_digest_def Let_def cipher_new_def
  by (cases "rt_compress_type t"; cases "rt_cipher_pass t") (simp_all split: bind_split)

lemma reverse_total:
  "ok (run_chain filter_process (filter_finish E) (reverse_chain_with_digest t d) y) =
     Option.bind (case rt_cipher_pass t of None \<Rightarrow> Some y | Some pass \<Rightarrow> ok (cipher_decrypt E d pass y))
       (\<lambda>c. case rt_compress_type t of
         CompNone \<Rightarrow> Some c
       | CompGz \<Rightarrow> ok (fe_codec E (GzDecompress False) c)
       | CompBz2 \<Rightarrow> ok (fe_codec E Bz2Decompress c)
       | CompLz4 \<Rightarrow> ok (fe_codec E Lz4Decompress c)
       | CompZst \<Rightarrow> ok (fe_codec E ZstDecompress c))"
  unfolding filters.run_chain_total reverse_chain_with_digest_def cipher_new_def
  by (cases "rt_compress_type t"; cases "rt_cipher_pass t") (simp_all split: bind_split)

lemma transform_roundtrip:
  assumes "env_ok E" "rt_compress_type t = rt_compress_type u" "rt_cipher_pass t = rt_cipher_pass u"
    and "apply_forward_keyed E t x = Ok y"
  shows "apply_reverse_keyed E u y = Ok x"
proof -
  have "ok (apply_forward_keyed E t x) = Some y" using assms(4) by simp
  then have "ok (apply_reverse_keyed E u y) = Some x"
    using assms(1) cipher_inverse [OF assms(1)]
    unfolding apply_forward_keyed_def apply_reverse_keyed_def forward_total reverse_total assms(2,3)
    by (cases "rt_compress_type u"; cases "rt_cipher_pass u") (auto simp: env_ok_def bind_eq_Some_conv)
  then show ?thesis by simp
qed

text \<open>With no compression and no passphrase the bytes pass through; anything else makes an object that is
  not empty, the cipher because of its header.\<close>

lemma plain_forward:
  "rt_compress_type t = CompNone \<Longrightarrow> rt_cipher_pass t = None \<Longrightarrow> apply_forward_keyed E t x = Ok x"
  "rt_compress_type t = CompNone \<Longrightarrow> rt_cipher_pass t = None \<Longrightarrow> apply_reverse_keyed E t x = Ok x"
  by (simp_all add: apply_forward_keyed_def apply_reverse_keyed_def forward_chain_with_digest_def
      reverse_chain_with_digest_def run_chain_def)

lemma encrypted_not_empty:
  assumes "apply_forward_keyed E t x = Ok y" "rt_cipher_pass t = Some pass"
  shows "16 \<le> length y \<or> length (fe_salt E) < SALT_LEN"
proof -
  have "ok (apply_forward_keyed E t x) = Some y" using assms(1) by simp
  then show ?thesis
    unfolding apply_forward_keyed_def forward_total
    using assms(2) by (auto simp: bind_eq_Some_conv cipher_encrypt_def rbind_Inr_iff split: option.splits)
qed

end
