(* ===== verification/Manifest.thy ===== *)
theory Manifest
  imports Info_Save
begin

text \<open>
  \<open>crates/pgbr-info/src/manifest.rs\<close>: the inventory of one backup, its document and its reader. The
  derived JSON codecs of the entry values are the fields of \<open>manifest_env\<close>; the hand-written codec of
  the page-checksum outcome is modelled.
\<close>

section \<open>Entries\<close>

datatype checksum_page = CpValidated | CpInvalidBlocks "nat list"

text \<open>What \<open>serde\<close> hands to or takes from a value that describes itself: a bool, a sequence of
  numbers, or anything else.\<close>

datatype serde_value = SvBool bool | SvSeq "int list" | SvOther

fun serialize_checksum_page :: "checksum_page \<Rightarrow> serde_value" where
  "serialize_checksum_page CpValidated = SvBool True"
| "serialize_checksum_page (CpInvalidBlocks blocks) = SvSeq (map int blocks)"

definition visit_bool :: "bool \<Rightarrow> checksum_page" where
  "visit_bool v = (if v then CpValidated else CpInvalidBlocks [])"

definition visit_seq :: "int list \<Rightarrow> checksum_page option" where
  "visit_seq xs = (if \<forall>x \<in> set xs. 0 \<le> x \<and> x < int u32_bound
     then Some (CpInvalidBlocks (map nat xs)) else None)"

fun deserialize_checksum_page :: "serde_value \<Rightarrow> checksum_page option" where
  "deserialize_checksum_page (SvBool v) = Some (visit_bool v)"
| "deserialize_checksum_page (SvSeq xs) = visit_seq xs"
| "deserialize_checksum_page SvOther = None"

record block_ref =
  br_checksum :: string
  br_reference :: string
  br_bundle_id :: nat
  br_offset :: nat
  br_size :: nat

record block_map =
  bm_block_size :: nat
  bm_blocks :: "block_ref list"

record manifest_file =
  mf_path :: string
  mf_size :: nat
  mf_timestamp :: int
  mf_checksum :: "string option"
  mf_checksum_page :: "checksum_page option"
  mf_reference :: "string option"
  mf_mode :: "nat option"
  mf_user :: "nat option"
  mf_group :: "nat option"
  mf_bundle_id :: "nat option"
  mf_bundle_offset :: "nat option"
  mf_block_map :: "block_map option"

record manifest_path =
  mp_path :: string

record manifest_link =
  ml_path :: string
  ml_destination :: string

record manifest =
  mn_backup_label :: string
  mn_backup_type :: string
  mn_timestamp_start :: int
  mn_timestamp_stop :: int
  mn_db_version :: string
  mn_db_system_id :: nat
  mn_files :: "manifest_file list"
  mn_option_checksum_page :: "bool option"
  mn_paths :: "manifest_path list"
  mn_links :: "manifest_link list"

definition total_size :: "manifest \<Rightarrow> nat" where
  "total_size m = sum_list (map mf_size (mn_files m))"

definition manifest_file_of :: "manifest \<Rightarrow> string \<Rightarrow> manifest_file option" where
  "manifest_file_of m path = find (\<lambda>f. mf_path f = path) (mn_files m)"

section \<open>The JSON shapes\<close>

record block_value =
  bv_c :: string
  bv_r :: string
  bv_b :: nat
  bv_o :: nat
  bv_s :: nat

record block_map_value =
  bmv_bs :: nat
  bmv_bl :: "block_value list"

record file_value =
  fv_size :: nat
  fv_timestamp :: int
  fv_checksum :: "string option"
  fv_checksum_page :: "checksum_page option"
  fv_reference :: "string option"
  fv_mode :: "nat option"
  fv_user :: "nat option"
  fv_group :: "nat option"
  fv_bni :: "nat option"
  fv_bno :: "nat option"
  fv_blk :: "block_map_value option"

record link_value =
  lv_destination :: string

record manifest_env =
  me_print_file :: "file_value \<Rightarrow> string option"
  me_parse_file :: "string \<Rightarrow> (string, file_value) result"
  me_print_link :: "link_value \<Rightarrow> string option"
  me_parse_link :: "string \<Rightarrow> (string, link_value) result"

definition block_map_to_value :: "block_map \<Rightarrow> block_map_value" where
  "block_map_to_value bm = \<lparr>bmv_bs = bm_block_size bm,
     bmv_bl = map (\<lambda>b. \<lparr>bv_c = br_checksum b, bv_r = br_reference b, bv_b = br_bundle_id b,
       bv_o = br_offset b, bv_s = br_size b\<rparr>) (bm_blocks bm)\<rparr>"

definition block_map_from_value :: "block_map_value \<Rightarrow> block_map" where
  "block_map_from_value bm = \<lparr>bm_block_size = bmv_bs bm,
     bm_blocks = map (\<lambda>b. \<lparr>br_checksum = bv_c b, br_reference = bv_r b, br_bundle_id = bv_b b,
       br_offset = bv_o b, br_size = bv_s b\<rparr>) (bmv_bl bm)\<rparr>"

definition file_to_value :: "manifest_file \<Rightarrow> file_value" where
  "file_to_value f = \<lparr>fv_size = mf_size f, fv_timestamp = mf_timestamp f, fv_checksum = mf_checksum f,
     fv_checksum_page = mf_checksum_page f, fv_reference = mf_reference f, fv_mode = mf_mode f,
     fv_user = mf_user f, fv_group = mf_group f, fv_bni = mf_bundle_id f, fv_bno = mf_bundle_offset f,
     fv_blk = map_option block_map_to_value (mf_block_map f)\<rparr>"

definition file_from_value :: "string \<Rightarrow> file_value \<Rightarrow> manifest_file" where
  "file_from_value path v = \<lparr>mf_path = path, mf_size = fv_size v, mf_timestamp = fv_timestamp v,
     mf_checksum = fv_checksum v, mf_checksum_page = fv_checksum_page v, mf_reference = fv_reference v,
     mf_mode = fv_mode v, mf_user = fv_user v, mf_group = fv_group v, mf_bundle_id = fv_bni v,
     mf_bundle_offset = fv_bno v, mf_block_map = map_option block_map_from_value (fv_blk v)\<rparr>"

section \<open>The document\<close>

definition parse_required_i64 :: "info_file \<Rightarrow> string \<Rightarrow> string \<Rightarrow> (info_error, int) result" where
  "parse_required_i64 file section key =
     rbind (ok_or (IeMissingField section key) (info_get file section key)) (\<lambda>raw.
       ok_or (IeMissingField section key) (parse_i64 (trim raw)))"

definition bool_y_n :: "bool \<Rightarrow> string" where
  "bool_y_n value = (if value then ''y'' else ''n'')"

definition parse_y_n_bool :: "string \<Rightarrow> bool option" where
  "parse_y_n_bool raw =
     (if trim raw \<in> {''y'', ''true'', ''1''} then Some True
      else if trim raw \<in> {''n'', ''false'', ''0''} then Some False
      else None)"

definition option_checksum_page_of :: "info_file \<Rightarrow> (info_error, bool option) result" where
  "option_checksum_page_of file = (case info_get file ''backup:option'' ''option-checksum-page'' of
       None \<Rightarrow> Ok None
     | Some raw \<Rightarrow> (case parse_y_n_bool raw of
           Some b \<Rightarrow> Ok (Some b)
         | None \<Rightarrow> Err (IeMissingField ''backup:option'' ''option-checksum-page'')))"

definition parse_file_row ::
  "manifest_env \<Rightarrow> string \<times> string \<Rightarrow> (info_error, manifest_file) result" where
  "parse_file_row M row =
     rbind (map_err (IeJson (''[target:file].'' @ fst row)) (me_parse_file M (snd row))) (\<lambda>value.
       Ok (file_from_value (fst row) value))"

definition parse_link_row ::
  "manifest_env \<Rightarrow> string \<times> string \<Rightarrow> (info_error, manifest_link) result" where
  "parse_link_row M row =
     rbind (map_err (IeJson (''[target:link].'' @ fst row)) (me_parse_link M (snd row))) (\<lambda>value.
       Ok \<lparr>ml_path = fst row, ml_destination = lv_destination value\<rparr>)"

definition section_rows :: "info_file \<Rightarrow> string \<Rightarrow> info_entries" where
  "section_rows file s = (case im_get file s of None \<Rightarrow> [] | Some rows \<Rightarrow> rows)"

definition manifest_from_file ::
  "'j info_env \<Rightarrow> manifest_env \<Rightarrow> info_file \<Rightarrow> (info_error, manifest) result" where
  "manifest_from_file E M file =
     rbind (parse_required_string E file ''backup'' ''backup-label'') (\<lambda>backup_label.
     rbind (parse_required_string E file ''backup'' ''backup-type'') (\<lambda>backup_type.
     rbind (parse_required_i64 file ''backup'' ''backup-timestamp-start'') (\<lambda>timestamp_start.
     rbind (parse_required_i64 file ''backup'' ''backup-timestamp-stop'') (\<lambda>timestamp_stop.
     rbind (parse_required_string E file ''backup:db'' ''db-version'') (\<lambda>db_version.
     rbind (parse_required_u64 file ''backup:db'' ''db-system-id'') (\<lambda>db_system_id.
     rbind (option_checksum_page_of file) (\<lambda>option_checksum_page.
     rbind (try_map (parse_file_row M) (section_rows file ''target:file'')) (\<lambda>files.
     let paths = map (\<lambda>row. \<lparr>mp_path = fst row\<rparr>) (section_rows file ''target:path'') in
     rbind (try_map (parse_link_row M) (section_rows file ''target:link'')) (\<lambda>links.
       Ok \<lparr>mn_backup_label = backup_label, mn_backup_type = backup_type,
           mn_timestamp_start = timestamp_start, mn_timestamp_stop = timestamp_stop,
           mn_db_version = db_version, mn_db_system_id = db_system_id, mn_files = files,
           mn_option_checksum_page = option_checksum_page, mn_paths = paths,
           mn_links = links\<rparr>)))))))))"

text \<open>An entry that does not print is written as the empty object.\<close>

definition or_empty_object :: "string option \<Rightarrow> string" where
  "or_empty_object j = (case j of Some json \<Rightarrow> json | None \<Rightarrow> ''{}'')"

definition manifest_to_file :: "'j info_env \<Rightarrow> manifest_env \<Rightarrow> manifest \<Rightarrow> info_file" where
  "manifest_to_file E M m =
     (let file = info_set ''backup'' ''backup-label'' (ie_json_string E (mn_backup_label m)) [];
          file = info_set ''backup'' ''backup-timestamp-start'' (fmt_int (mn_timestamp_start m)) file;
          file = info_set ''backup'' ''backup-timestamp-stop'' (fmt_int (mn_timestamp_stop m)) file;
          file = info_set ''backup'' ''backup-type'' (ie_json_string E (mn_backup_type m)) file;
          file = info_set ''backup:db'' ''db-system-id'' (fmt_dec (mn_db_system_id m)) file;
          file = info_set ''backup:db'' ''db-version'' (ie_json_string E (mn_db_version m)) file;
          file = (case mn_option_checksum_page m of
              Some value \<Rightarrow> info_set ''backup:option'' ''option-checksum-page'' (bool_y_n value) file
            | None \<Rightarrow> file);
          file = fold (\<lambda>entry. info_set ''target:file'' (mf_path entry)
                   (or_empty_object (me_print_file M (file_to_value entry)))) (mn_files m) file;
          file = fold (\<lambda>entry. info_set ''target:link'' (ml_path entry)
                   (or_empty_object (me_print_link M \<lparr>lv_destination = ml_destination entry\<rparr>)))
                   (mn_links m) file;
          file = fold (\<lambda>entry. info_set ''target:path'' (mp_path entry) ''{}'') (mn_paths m) file;
          file = info_set ''backrest'' ''backrest-format'' (fmt_dec 5) file
      in info_set ''backrest'' ''backrest-version'' (ie_json_string E ''2.58'') file)"

definition manifest_from_text ::
  "'j info_env \<Rightarrow> manifest_env \<Rightarrow> string \<Rightarrow> (info_error, manifest) result" where
  "manifest_from_text E M raw =
     rbind (map_err IeFormat (checksumed_load (ie_sha1 E) raw)) (manifest_from_file E M)"

definition manifest_to_text :: "'j info_env \<Rightarrow> manifest_env \<Rightarrow> manifest \<Rightarrow> string" where
  "manifest_to_text E M m = checksumed_render (ie_sha1 E) (manifest_to_file E M m)"

definition manifest_from_bytes_keyed ::
  "'j info_env \<Rightarrow> manifest_env \<Rightarrow> string \<Rightarrow> string option \<Rightarrow> (info_error, manifest) result" where
  "manifest_from_bytes_keyed E M raw passphrase =
     rbind (decode_maybe_encrypted E raw passphrase) (\<lambda>plaintext.
     rbind (bytes_to_text plaintext) (manifest_from_text E M))"

definition manifest_to_bytes_keyed ::
  "'j info_env \<Rightarrow> manifest_env \<Rightarrow> manifest \<Rightarrow> string option \<Rightarrow> (info_error, string) result" where
  "manifest_to_bytes_keyed E M m passphrase =
     encode_maybe_encrypted E (manifest_to_text E M m) passphrase"

definition manifest_load_keyed ::
  "'s storage_ops \<Rightarrow> 'j info_env \<Rightarrow> manifest_env \<Rightarrow> path \<Rightarrow> string option \<Rightarrow>
   ('s, info_error, manifest) action" where
  "manifest_load_keyed ops E M p passphrase =
     read_and_decode ops p (\<lambda>bytes. manifest_from_bytes_keyed E M bytes passphrase)"

definition manifest_save_keyed ::
  "'s storage_ops \<Rightarrow> 'j info_env \<Rightarrow> manifest_env \<Rightarrow> manifest \<Rightarrow> path \<Rightarrow> string option \<Rightarrow>
   ('s, info_error, unit) action" where
  "manifest_save_keyed ops E M m p passphrase =
     act_bind (act_lift (manifest_to_bytes_keyed E M m passphrase)) (\<lambda>bytes.
       act_map_err info_error_from_storage (so_write ops p bytes))"

section \<open>Manifests the document can carry\<close>

text \<open>Paths that fit a key of the format, entries that print on one line and parse back.\<close>

definition i64_ok :: "int \<Rightarrow> bool" where
  "i64_ok i = (- (2 ^ 63) \<le> i \<and> i < 2 ^ 63)"

definition keys_ok :: "string list \<Rightarrow> bool" where
  "keys_ok paths = (distinct paths \<and> list_all label_ok paths)"

definition file_ok :: "manifest_env \<Rightarrow> manifest_file \<Rightarrow> bool" where
  "file_ok M f = (case me_print_file M (file_to_value f) of
       None \<Rightarrow> False
     | Some t \<Rightarrow> one_line t \<and> me_parse_file M t = Ok (file_to_value f))"

definition link_ok :: "manifest_env \<Rightarrow> manifest_link \<Rightarrow> bool" where
  "link_ok M l = (case me_print_link M \<lparr>lv_destination = ml_destination l\<rparr> of
       None \<Rightarrow> False
     | Some t \<Rightarrow> one_line t \<and> me_parse_link M t = Ok \<lparr>lv_destination = ml_destination l\<rparr>)"

definition manifest_supported :: "'j info_env \<Rightarrow> manifest_env \<Rightarrow> manifest \<Rightarrow> bool" where
  "manifest_supported E M m =
     (string_ok E (mn_backup_label m) \<and> string_ok E (mn_backup_type m) \<and> string_ok E (mn_db_version m) \<and>
      string_ok E ''2.58'' \<and> i64_ok (mn_timestamp_start m) \<and> i64_ok (mn_timestamp_stop m) \<and>
      mn_db_system_id m < u64_bound \<and>
      keys_ok (map mf_path (mn_files m)) \<and> list_all (file_ok M) (mn_files m) \<and>
      keys_ok (map ml_path (mn_links m)) \<and> list_all (link_ok M) (mn_links m) \<and>
      keys_ok (map mp_path (mn_paths m)))"

section \<open>The shape of the document\<close>

definition file_rows :: "manifest_env \<Rightarrow> manifest_file list \<Rightarrow> info_entries" where
  "file_rows M fs = map (\<lambda>f. (mf_path f, or_empty_object (me_print_file M (file_to_value f)))) fs"

definition link_rows :: "manifest_env \<Rightarrow> manifest_link list \<Rightarrow> info_entries" where
  "link_rows M ls = map (\<lambda>l. (ml_path l,
     or_empty_object (me_print_link M \<lparr>lv_destination = ml_destination l\<rparr>))) ls"

definition path_rows :: "manifest_path list \<Rightarrow> info_entries" where
  "path_rows ps = map (\<lambda>p. (mp_path p, ''{}'')) ps"

definition backup_rows :: "'j info_env \<Rightarrow> manifest \<Rightarrow> info_entries" where
  "backup_rows E m = [(''backup-label'', ie_json_string E (mn_backup_label m)),
     (''backup-timestamp-start'', fmt_int (mn_timestamp_start m)),
     (''backup-timestamp-stop'', fmt_int (mn_timestamp_stop m)),
     (''backup-type'', ie_json_string E (mn_backup_type m))]"

definition db_rows :: "'j info_env \<Rightarrow> manifest \<Rightarrow> info_entries" where
  "db_rows E m = [(''db-system-id'', fmt_dec (mn_db_system_id m)),
     (''db-version'', ie_json_string E (mn_db_version m))]"

definition option_rows :: "manifest \<Rightarrow> info_entries" where
  "option_rows m = (case mn_option_checksum_page m of None \<Rightarrow> []
     | Some b \<Rightarrow> [(''option-checksum-page'', bool_y_n b)])"

definition manifest_body :: "'j info_env \<Rightarrow> manifest_env \<Rightarrow> manifest \<Rightarrow> info_file" where
  "manifest_body E M m = [(''backup'', backup_rows E m)] @ [(''backup:db'', db_rows E m)] @
     optional_section ''backup:option'' (option_rows m) @
     optional_section ''target:file'' (file_rows M (mn_files m)) @
     optional_section ''target:link'' (link_rows M (mn_links m)) @
     optional_section ''target:path'' (path_rows (mn_paths m))"

lemma row_keys [simp]:
  "map fst (file_rows M fs) = map mf_path fs" "map fst (link_rows M ls) = map ml_path ls"
  "map fst (path_rows ps) = map mp_path ps"
  by (simp_all add: file_rows_def link_rows_def path_rows_def comp_def)

lemma fold_rows:
  assumes "s \<notin> fst ` set file" "distinct (map key xs)"
  shows "fold (\<lambda>x. info_set s (key x) (val x)) xs file = file @ optional_section s (map (\<lambda>x. (key x, val x)) xs)"
proof -
  have "fold (\<lambda>x. info_set s (key x) (val x)) xs file =
      fold (\<lambda>(k, v). info_set s k v) (map (\<lambda>x. (key x, val x)) xs) file"
    by (induction xs arbitrary: "file") auto
  also have "\<dots> = file @ optional_section s (map (\<lambda>x. (key x, val x)) xs)"
    using set_rows [OF assms(1), of "map (\<lambda>x. (key x, val x)) xs"] assms(2)
    by (simp add: optional_section_def comp_def)
  finally show ?thesis .
qed

lemma fst_optional [simp]: "fst ` set (optional_section s rows) = (if rows = [] then {} else {s})"
  by (simp add: optional_section_def)

lemma mem_optional [simp]:
  "(k, v) \<in> set (optional_section s rows) \<longleftrightarrow> k = s \<and> v = rows \<and> rows \<noteq> []"
  by (auto simp: optional_section_def)

lemma manifest_shape:
  assumes "distinct (map mf_path (mn_files m))" "distinct (map ml_path (mn_links m))"
    "distinct (map mp_path (mn_paths m))"
  shows "manifest_to_file E M m = manifest_body E M m @ [(backrest_section, base_rows E 5 ''2.58'')]"
proof -
  define f0 where "f0 = [(''backup'', backup_rows E m)] @ [(''backup:db'', db_rows E m)] @
      optional_section ''backup:option'' (option_rows m)"
  have keys: "fst ` set f0 \<subseteq> {''backup'', ''backup:db'', ''backup:option''}"
    by (auto simp: f0_def)
  have head: "manifest_to_file E M m =
     (let file = fold (\<lambda>entry. info_set ''target:file'' (mf_path entry)
                   (or_empty_object (me_print_file M (file_to_value entry)))) (mn_files m) f0;
          file = fold (\<lambda>entry. info_set ''target:link'' (ml_path entry)
                   (or_empty_object (me_print_link M \<lparr>lv_destination = ml_destination entry\<rparr>)))
                   (mn_links m) file;
          file = fold (\<lambda>entry. info_set ''target:path'' (mp_path entry) ''{}'') (mn_paths m) file;
          file = info_set ''backrest'' ''backrest-format'' (fmt_dec 5) file
      in info_set ''backrest'' ''backrest-version'' (ie_json_string E ''2.58'') file)"
    by (simp add: manifest_to_file_def f0_def Let_def info_set_def backup_rows_def db_rows_def option_rows_def
        optional_section_def split: option.split)
  define f1 where "f1 = f0 @ optional_section ''target:file'' (file_rows M (mn_files m))"
  have f1: "fold (\<lambda>entry. info_set ''target:file'' (mf_path entry)
       (or_empty_object (me_print_file M (file_to_value entry)))) (mn_files m) f0 = f1"
    unfolding f1_def file_rows_def by (rule fold_rows) (use keys assms in auto)
  define f2 where "f2 = f1 @ optional_section ''target:link'' (link_rows M (mn_links m))"
  have f2: "fold (\<lambda>entry. info_set ''target:link'' (ml_path entry)
       (or_empty_object (me_print_link M \<lparr>lv_destination = ml_destination entry\<rparr>))) (mn_links m) f1 = f2"
    unfolding f2_def link_rows_def by (rule fold_rows) (use keys assms in \<open>auto simp: f1_def\<close>)
  define f3 where "f3 = f2 @ optional_section ''target:path'' (path_rows (mn_paths m))"
  have f3: "fold (\<lambda>entry. info_set ''target:path'' (mp_path entry) ''{}'') (mn_paths m) f2 = f3"
    unfolding f3_def path_rows_def by (rule fold_rows) (use keys assms in \<open>auto simp: f1_def f2_def\<close>)
  have body: "f3 = manifest_body E M m"
    by (simp add: f0_def f1_def f2_def f3_def manifest_body_def)
  have "''backrest'' \<notin> fst ` set f3"
    using keys by (auto simp: f1_def f2_def f3_def)
  then show ?thesis
    unfolding head f1 f2 f3 Let_def body
    by (simp add: info_set_def im_get_None_iff [THEN iffD2] im_insert_fresh im_insert_at base_rows_def)
qed

section \<open>The codec contract\<close>

lemma plain_fmt_int: "list_all plain_char (fmt_int i)"
  using plain_fmt_dec by (simp add: fmt_int_def plain_char_def char_code_def)

lemma fmt_int_line [simp]: "one_line (fmt_int i)" "trim (fmt_int i) = fmt_int i"
  using plain_text [OF plain_fmt_int, of i] by (simp_all add: one_line_def trim_tight)

lemma manifest_labels [simp]:
  "label_ok ''backup-label''" "label_ok ''backup-timestamp-start''" "label_ok ''backup-timestamp-stop''"
  "label_ok ''backup-type''" "label_ok ''option-checksum-page''"
  by ((rule plain_label; (rule refl)?; simp add: plain_char_def char_code_def))+

lemma manifest_sections [simp]:
  "newline \<notin> set ''backup''" "utf8_valid ''backup''" "newline \<notin> set ''backup:db''" "utf8_valid ''backup:db''"
  "newline \<notin> set ''backup:option''" "utf8_valid ''backup:option''"
  "newline \<notin> set ''target:file''" "utf8_valid ''target:file''"
  "newline \<notin> set ''target:link''" "utf8_valid ''target:link''"
  "newline \<notin> set ''target:path''" "utf8_valid ''target:path''"
  by ((rule plain_text; simp add: plain_char_def char_code_def))+

lemma short_lines [simp]: "one_line ''y''" "one_line ''n''" "one_line ''{}''"
  by (rule plain_line_text; simp add: plain_char_def char_code_def)+

lemma entry_rows_ok:
  "list_all (file_ok M) fs \<Longrightarrow> list_all label_ok (map mf_path fs) \<Longrightarrow>
     list_all (\<lambda>e. label_ok (fst e) \<and> one_line (snd e)) (file_rows M fs)"
  "list_all (link_ok M) ls \<Longrightarrow> list_all label_ok (map ml_path ls) \<Longrightarrow>
     list_all (\<lambda>e. label_ok (fst e) \<and> one_line (snd e)) (link_rows M ls)"
  "list_all label_ok (map mp_path ps) \<Longrightarrow>
     list_all (\<lambda>e. label_ok (fst e) \<and> one_line (snd e)) (path_rows ps)"
  by (auto simp: file_rows_def link_rows_def path_rows_def list_all_iff file_ok_def link_ok_def or_empty_object_def
      split: option.splits)

lemma entry_rows_parse:
  "list_all (file_ok M) fs \<Longrightarrow> try_map (parse_file_row M) (file_rows M fs) = Ok fs"
  "list_all (link_ok M) ls \<Longrightarrow> try_map (parse_link_row M) (link_rows M ls) = Ok ls"
proof -
  have "block_map_from_value (block_map_to_value b) = b" for b
    by (cases b) (simp add: block_map_to_value_def block_map_from_value_def comp_def map_idI)
  then have back_value: "file_from_value (mf_path f) (file_to_value f) = f" for f
    by (cases f) (simp add: file_from_value_def file_to_value_def option.map_comp comp_def option.map_ident)
  show "list_all (file_ok M) fs \<Longrightarrow> try_map (parse_file_row M) (file_rows M fs) = Ok fs"
    by (induction fs)
       (auto simp: file_rows_def parse_file_row_def file_ok_def or_empty_object_def back_value split: option.splits)
  show "list_all (link_ok M) ls \<Longrightarrow> try_map (parse_link_row M) (link_rows M ls) = Ok ls"
    by (induction ls)
       (auto simp: link_rows_def parse_link_row_def link_ok_def or_empty_object_def split: option.splits)
qed

lemma manifest_keys:
  assumes "manifest_supported E M m"
  shows "distinct (map mf_path (mn_files m))" "distinct (map ml_path (mn_links m))" "distinct (map mp_path (mn_paths m))"
    "list_all label_ok (map mf_path (mn_files m))" "list_all label_ok (map ml_path (mn_links m))"
    "list_all label_ok (map mp_path (mn_paths m))" "list_all (file_ok M) (mn_files m)" "list_all (link_ok M) (mn_links m)"
  using assms by (simp_all add: manifest_supported_def keys_ok_def)

lemma manifest_strings:
  assumes "manifest_supported E M m"
  shows "string_ok E (mn_backup_label m)" "string_ok E (mn_backup_type m)" "string_ok E (mn_db_version m)"
    "string_ok E ''2.58''"
  using assms by (simp_all add: manifest_supported_def)

lemma manifest_doc:
  assumes "manifest_supported E M m"
  shows "doc_ok (manifest_to_file E M m)"
proof -
  note keys = manifest_keys [OF assms] and strings = manifest_strings [OF assms, THEN string_ok_line]
  note rows = entry_rows_ok(1) [OF keys(7,4)] entry_rows_ok(2) [OF keys(8,5)] entry_rows_ok(3) [OF keys(6)]
  have "doc_ok [(''backup'', backup_rows E m)]"
    using strings by (simp add: doc_ok_def backup_rows_def newline_def)
  then have "doc_ok ([(''backup'', backup_rows E m)] @ optional_section ''backup:db'' (db_rows E m))"
    using strings by (elim doc_ok_parts) (simp_all add: db_rows_def newline_def)
  then have "doc_ok (([(''backup'', backup_rows E m)] @ optional_section ''backup:db'' (db_rows E m)) @
      optional_section ''backup:option'' (option_rows m))"
    by (elim doc_ok_parts) (auto simp: newline_def option_rows_def bool_y_n_def split: option.splits)
  then have "doc_ok ((([(''backup'', backup_rows E m)] @ optional_section ''backup:db'' (db_rows E m)) @
      optional_section ''backup:option'' (option_rows m)) @
      optional_section ''target:file'' (file_rows M (mn_files m)))"
    using keys rows by (elim doc_ok_parts) (auto simp: newline_def)
  then have "doc_ok (((([(''backup'', backup_rows E m)] @ optional_section ''backup:db'' (db_rows E m)) @
      optional_section ''backup:option'' (option_rows m)) @
      optional_section ''target:file'' (file_rows M (mn_files m))) @
      optional_section ''target:link'' (link_rows M (mn_links m)))"
    using keys rows by (elim doc_ok_parts) (auto simp: newline_def)
  then have "doc_ok ((((([(''backup'', backup_rows E m)] @ optional_section ''backup:db'' (db_rows E m)) @
      optional_section ''backup:option'' (option_rows m)) @
      optional_section ''target:file'' (file_rows M (mn_files m))) @
      optional_section ''target:link'' (link_rows M (mn_links m))) @
      optional_section ''target:path'' (path_rows (mn_paths m)))"
    using keys rows by (elim doc_ok_parts) (auto simp: newline_def)
  then have "doc_ok (manifest_body E M m)"
    by (simp add: manifest_body_def optional_section_def db_rows_def)
  then have "doc_ok (manifest_body E M m @ optional_section backrest_section (base_rows E 5 ''2.58''))"
    using strings by (elim doc_ok_parts) (auto simp: newline_def manifest_body_def base_rows_def)
  then show ?thesis
    using manifest_shape [OF keys(1-3), of E M] by (simp add: optional_section_def base_rows_def)
qed

lemma with_checksum_last:
  assumes "checksum_key \<notin> fst ` set es" "backrest_section \<notin> fst ` set body"
  shows "\<exists>v. with_checksum sha1 (body @ [(backrest_section, es)]) =
    body @ [(backrest_section, es @ [(checksum_key, v)])]"
proof -
  have "im_remove checksum_key es = es"
    unfolding im_remove_def filter_id_conv using assms by force
  then show ?thesis
    using assms
    by (simp add: with_checksum_def drop_checksum_def info_set_def Let_def im_insert_fresh im_insert_at
        im_get_None_iff [THEN iffD2])
qed

lemma manifest_from_to:
  assumes "manifest_supported E M m"
  shows "manifest_from_file E M (with_checksum sha1 (manifest_to_file E M m)) = Ok m"
    and "info_get (with_checksum sha1 (manifest_to_file E M m)) cipher_section cipher_pass_key = None"
proof -
  note keys = manifest_keys [OF assms] and strings = manifest_strings [OF assms]
  have fresh: "backrest_section \<notin> fst ` set (manifest_body E M m)"
    by (auto simp: manifest_body_def)
  obtain v where "with_checksum sha1 (manifest_to_file E M m) =
      manifest_body E M m @ [(backrest_section, base_rows E 5 ''2.58'' @ [(checksum_key, v)])]"
    using manifest_shape [OF keys(1-3), of E M] with_checksum_last [OF base_rows_fresh fresh] by metis
  then obtain d where doc: "d = with_checksum sha1 (manifest_to_file E M m)"
    and get: "im_get d ''backup'' = Some (backup_rows E m)" "im_get d ''backup:db'' = Some (db_rows E m)"
      "im_get d ''backup:option'' = (if option_rows m = [] then None else Some (option_rows m))"
      "section_rows d ''target:file'' = file_rows M (mn_files m)"
      "section_rows d ''target:link'' = link_rows M (mn_links m)"
      "section_rows d ''target:path'' = path_rows (mn_paths m)"
      "im_get d cipher_section = None"
    by (simp add: manifest_body_def section_rows_def)
  have nums: "parse_i64 (fmt_int (mn_timestamp_start m)) = Some (mn_timestamp_start m)"
      "parse_i64 (fmt_int (mn_timestamp_stop m)) = Some (mn_timestamp_stop m)"
      "parse_u64 (fmt_dec (mn_db_system_id m)) = Some (mn_db_system_id m)"
    using assms by (auto simp: manifest_supported_def i64_ok_def)
  have opt: "option_checksum_page_of d = Ok (mn_option_checksum_page m)"
  proof (cases "mn_option_checksum_page m")
    case (Some b)
    have "trim ''y'' = ''y''" "trim ''n'' = ''n''" by code_simp+
    then show ?thesis using Some get(3)
      by (cases b) (simp_all add: option_checksum_page_of_def info_get_def option_rows_def parse_y_n_bool_def bool_y_n_def)
  qed (use get(3) in \<open>simp add: option_checksum_page_of_def info_get_def option_rows_def\<close>)
  have paths: "map (\<lambda>row. \<lparr>mp_path = fst row\<rparr>) (path_rows ps) = ps" for ps
    by (induction ps) (auto simp: path_rows_def)
  have "manifest_from_file E M d = Ok m"
    using nums opt paths strings entry_rows_parse(1) [OF keys(7)] entry_rows_parse(2) [OF keys(8)]
    by (simp add: manifest_from_file_def parse_required_string_def parse_required_i64_def parse_required_u64_def
        info_get_def get backup_rows_def db_rows_def string_ok_strip Let_def)
  then show "manifest_from_file E M (with_checksum sha1 (manifest_to_file E M m)) = Ok m"
    by (simp add: doc)
  show "info_get (with_checksum sha1 (manifest_to_file E M m)) cipher_section cipher_pass_key = None"
    using get(7) by (simp add: doc info_get_def)
qed

interpretation manifest_codec: info_codec E "\<lambda>m _. manifest_to_file E M m" "manifest_from_file E M"
  "\<lambda>m c. manifest_supported E M m \<and> c = None" for E M
proof
  fix m and c :: "string option"
  assume sup: "manifest_supported E M m \<and> c = None"
  then have doc: "doc_ok (manifest_to_file E M m)" by (simp add: manifest_doc)
  show "wf_info (manifest_to_file E M m)" using doc by (rule doc_ok_wf)
  show "checksum_reserved (manifest_to_file E M m)" using doc by (rule doc_ok_reserved)
  show some: "im_get (manifest_to_file E M m) backrest_section \<noteq> None"
    using sup manifest_shape [of m E M] manifest_keys(1-3) [of E M m]
    by (simp split: option.splits)
  show "utf8_valid (checksumed_render (ie_sha1 E) (manifest_to_file E M m))"
    using doc some by (rule doc_ok_utf8)
  show "manifest_from_file E M (with_checksum (ie_sha1 E) (manifest_to_file E M m)) = Ok m"
    "map_option (strip_json_quotes E)
       (info_get (with_checksum (ie_sha1 E) (manifest_to_file E M m)) cipher_section cipher_pass_key) = c"
    using manifest_from_to [of E M m] sup by simp_all
qed

section \<open>Round trip\<close>

lemma checksum_page_roundtrip:
  assumes "\<And>blocks b. c = CpInvalidBlocks blocks \<Longrightarrow> b \<in> set blocks \<Longrightarrow> b < u32_bound"
  shows "deserialize_checksum_page (serialize_checksum_page c) = Some c"
proof (cases c)
  case (CpInvalidBlocks blocks)
  then have "map (nat \<circ> int) blocks = blocks" by (simp add: map_idI)
  then show ?thesis using assms CpInvalidBlocks by (auto simp: visit_seq_def)
qed (simp add: visit_bool_def)

lemma manifest_from_bytes_codec:
  "manifest_from_bytes_keyed E M b pass = rbind (from_bytes_keyed E (manifest_from_file E M) b pass) (\<lambda>x. Ok (fst x))"
  by (cases "decode_maybe_encrypted E b pass")
     (auto simp: manifest_from_bytes_keyed_def from_bytes_keyed_def manifest_from_text_def bytes_to_text_def
       rbind_def map_err_def Let_def split: sum.splits)

text \<open>C17. The manifest round trip: a manifest whose paths, numbers and entries the document can carry, written to
  bytes under a passphrase or none and read back under the same, is the same manifest, with every file,
  reference, bundle place and block map, path, link and option.
\<close>

theorem manifest_roundtrip:
  assumes "manifest_supported E M m" "manifest_to_bytes_keyed E M m pass = Ok b"
    and "\<And>p t. pass = Some p \<Longrightarrow> ie_encrypt E p t = Ok b \<Longrightarrow> ie_decrypt E p b = Ok t"
  shows "manifest_from_bytes_keyed E M b pass = Ok m"
proof -
  have "to_bytes_keyed E (\<lambda>m _. manifest_to_file E M m) m pass None = Ok b"
    using assms(2) by (simp add: to_bytes_keyed_def manifest_to_bytes_keyed_def manifest_to_text_def)
  then have "from_bytes_keyed E (manifest_from_file E M) b pass = Ok (m, None)"
    using manifest_codec.bytes_roundtrip [of E M m None pass b] assms(1,3) by blast
  then show ?thesis by (simp add: manifest_from_bytes_codec)
qed

section \<open>Paths with an equals sign\<close>

definition no_equals :: "info_file \<Rightarrow> bool" where
  "no_equals file = (\<forall>s \<in> set file. \<forall>e \<in> set (snd s). CHR ''='' \<notin> set (fst e))"

lemma no_equals_rows: "no_equals file \<Longrightarrow> e \<in> set (section_rows file s) \<Longrightarrow> CHR ''='' \<notin> set (fst e)"
  by (cases "im_get file s") (auto simp: no_equals_def section_rows_def im_get_def dest!: map_of_SomeD)

lemma im_insert_mem: "e \<in> set (im_insert k v m) \<Longrightarrow> e = (k, v) \<or> e \<in> set m"
  by (induction m) (auto split: if_splits)

lemma no_equals_set:
  assumes "no_equals file" "CHR ''='' \<notin> set k"
  shows "no_equals (info_set s k v file)"
  unfolding no_equals_def
proof (intro ballI)
  fix sec e assume sec: "sec \<in> set (info_set s k v file)" and e: "e \<in> set (snd sec)"
  have shape: "info_set s k v file = im_insert s (im_insert k v (section_rows file s)) file"
    by (simp add: info_set_def section_rows_def)
  show "CHR ''='' \<notin> set (fst e)"
  proof (cases "sec \<in> set file")
    case True
    then show ?thesis using assms(1) e by (auto simp: no_equals_def)
  next
    case False
    then have "e \<in> set (im_insert k v (section_rows file s))"
      using im_insert_mem [OF sec [unfolded shape]] e by auto
    then show ?thesis using im_insert_mem assms(2) no_equals_rows [OF assms(1)] by fastforce
  qed
qed

lemma no_equals_entry: "no_equals file \<Longrightarrow> no_equals (im_entry name [] file)"
  by (auto simp: no_equals_def im_entry_def split: option.splits)

lemma parse_lines_no_equals:
  "parse_lines n ls file current = Ok out \<Longrightarrow> no_equals file \<Longrightarrow> no_equals out"
proof (induction n ls "file" current rule: parse_lines.induct)
  case (2 n raw ls "file" current)
  have key: "CHR ''='' \<notin> set k" if "split_once (CHR ''='') s = Some (k, v)" for s k v
    using that by (simp add: split_once_Some_iff)
  show ?case
    using 2 key by (auto simp: Let_def no_equals_set no_equals_entry split: if_splits option.splits)
qed auto

text \<open>C20. No manifest that loads has a file with an equals sign in its path: the line of such a file is split at the
  first equals sign. A backup of a data directory with such a file writes a manifest that does not give the
  file back.
\<close>

theorem manifest_path_equals:
  assumes "manifest_from_text E M raw = Ok m" "f \<in> set (mn_files m)"
  shows "CHR ''='' \<notin> set (mf_path f)"
proof -
  obtain d where d: "parse raw = Ok d" "manifest_from_file E M d = Ok m"
    using assms(1) by (auto simp: manifest_from_text_def checksumed_load_def rbind_Inr_iff Let_def split: if_splits)
  have "no_equals d"
    using parse_lines_no_equals [OF d(1) [unfolded parse_def]] by (simp add: no_equals_def)
  then have keys: "\<forall>row \<in> set (section_rows d ''target:file''). CHR ''='' \<notin> set (fst row)"
    using no_equals_rows by blast
  have "try_map (parse_file_row M) (section_rows d ''target:file'') = Ok (mn_files m)"
    using d(2) by (auto simp: manifest_from_file_def rbind_Inr_iff Let_def)
  moreover have "map mf_path fs = map fst rows" if "try_map (parse_file_row M) rows = Ok fs" for rows fs
    using that by (induction rows arbitrary: fs) (auto simp: rbind_Inr_iff parse_file_row_def file_from_value_def)
  ultimately have "mf_path f \<in> fst ` set (section_rows d ''target:file'')"
    using assms(2) by (metis image_eqI list.set_map)
  then show ?thesis using keys by auto
qed

section \<open>A sample\<close>

definition sample_file :: manifest_file where
  "sample_file = \<lparr>mf_path = ''pg_data/PG_VERSION'', mf_size = 3, mf_timestamp = 17, mf_checksum = Some ''e1'',
     mf_checksum_page = None, mf_reference = None, mf_mode = None, mf_user = None, mf_group = None,
     mf_bundle_id = None, mf_bundle_offset = None, mf_block_map = None\<rparr>"

definition sample_menv :: manifest_env where
  "sample_menv = \<lparr>me_print_file = (\<lambda>v. if v = file_to_value sample_file then Some ''{size:3}'' else None),
     me_parse_file = (\<lambda>t. if t = ''{size:3}'' then Ok (file_to_value sample_file) else Err ''json''),
     me_print_link = (\<lambda>v. Some (lv_destination v)), me_parse_link = (\<lambda>t. Ok \<lparr>lv_destination = t\<rparr>)\<rparr>"

definition sample_manifest :: manifest where
  "sample_manifest = \<lparr>mn_backup_label = ''20240101-120000F'', mn_backup_type = ''full'', mn_timestamp_start = 17,
     mn_timestamp_stop = 20, mn_db_version = ''14'', mn_db_system_id = 6, mn_files = [sample_file],
     mn_option_checksum_page = Some True, mn_paths = [\<lparr>mp_path = ''pg_data''\<rparr>],
     mn_links = [\<lparr>ml_path = ''pg_data/pg_wal'', ml_destination = ''/wal''\<rparr>]\<rparr>"

lemma sample_manifest_labels:
  "label_ok ''pg_data/PG_VERSION''" "label_ok ''pg_data''" "label_ok ''pg_data/pg_wal''"
  by ((rule plain_label; (rule refl)?; simp add: plain_char_def char_code_def))+

lemma sample_manifest_ok: "manifest_supported sample_env sample_menv sample_manifest"
proof -
  have "one_line ''{size:3}''" "one_line ''/wal''"
    by (rule plain_line_text; simp add: plain_char_def char_code_def)+
  then show ?thesis
    using sample_manifest_labels
    by (simp add: manifest_supported_def sample_manifest_def quoted_ok plain_char_def char_code_def i64_ok_def keys_ok_def
        file_ok_def link_ok_def sample_menv_def sample_file_def)
qed

lemma manifest_roundtrip_witness:
  "\<exists>b. manifest_to_bytes_keyed sample_env sample_menv sample_manifest (Some ''key'') = Ok b \<and>
     manifest_from_bytes_keyed sample_env sample_menv b (Some ''key'') = Ok sample_manifest"
proof -
  have enc: "ie_encrypt sample_env ''key'' t = Ok (''key'' @ rev t)" for t by (simp add: sample_env_def)
  obtain b where b: "manifest_to_bytes_keyed sample_env sample_menv sample_manifest (Some ''key'') = Ok b"
    using enc by (simp add: manifest_to_bytes_keyed_def encode_maybe_encrypted_def)
  then show ?thesis
    using manifest_roundtrip [OF sample_manifest_ok b sample_decrypts] by blast
qed

lemma manifest_path_equals_witness: "CHR ''='' \<notin> set (mf_path sample_file)"
proof -
  have "manifest_from_text sample_env sample_menv (manifest_to_text sample_env sample_menv sample_manifest) = Ok sample_manifest"
    using manifest_codec.text_roundtrip [of sample_env sample_menv sample_manifest None] sample_manifest_ok
    by (simp add: manifest_from_text_def manifest_to_text_def info_from_text_def)
  then show ?thesis by (rule manifest_path_equals) (simp add: sample_manifest_def)
qed

end
