(* ===== verification/Bundle_Copy.thy ===== *)
theory Bundle_Copy
  imports Block Page Pipeline Manifest Config_Value
begin

text \<open>
  The bundled copy of the backup (\<open>crates/pgbr-command/src/backup.rs\<close>: \<open>BackupFeatures\<close> and its options,
  \<open>JobRetry\<close>, \<open>build_block_map\<close>, \<open>run_bundled_copy_serial\<close>). Small files and the changed blocks of large
  files are appended to bundle objects; the manifest entries record where. The bundles in memory are a
  \<open>BTreeMap\<close> from identifiers to bytes.
\<close>

section \<open>Options\<close>

abbreviation DEFAULT_BUNDLE_SIZE :: nat where "DEFAULT_BUNDLE_SIZE \<equiv> 20 * 1024 * 1024"
abbreviation DEFAULT_BUNDLE_LIMIT :: nat where "DEFAULT_BUNDLE_LIMIT \<equiv> 2 * 1024 * 1024"

record backup_features =
  bf_bundle :: bool
  bf_bundle_size :: nat
  bf_bundle_limit :: nat
  bf_block :: bool

definition features_disabled :: backup_features where
  "features_disabled = \<lparr>bf_bundle = False, bf_bundle_size = DEFAULT_BUNDLE_SIZE,
     bf_bundle_limit = DEFAULT_BUNDLE_LIMIT, bf_block = False\<rparr>"

definition boolean_indexed :: "loaded_config \<Rightarrow> string \<Rightarrow> bool" where
  "boolean_indexed config name = list_ex (\<lambda>idx. config_get config name (Some idx) = Some (OvBoolean True)) [1..<9]"

definition size_value :: "option_value option \<Rightarrow> nat option" where
  "size_value v = (case v of
       Some (OvSize n) \<Rightarrow> Some n
     | Some (OvInteger i) \<Rightarrow> if 0 \<le> i then Some (nat i) else None
     | _ \<Rightarrow> None)"

fun first_some :: "('a \<Rightarrow> 'b option) \<Rightarrow> 'a list \<Rightarrow> 'b option" where
  "first_some f [] = None"
| "first_some f (x # xs) = (case f x of Some y \<Rightarrow> Some y | None \<Rightarrow> first_some f xs)"

definition size_indexed :: "loaded_config \<Rightarrow> string \<Rightarrow> nat \<Rightarrow> nat" where
  "size_indexed config name dflt =
     (case first_some (\<lambda>idx. size_value (config_get config name (Some idx))) [1..<9] of
        Some n \<Rightarrow> n
      | None \<Rightarrow> dflt)"

definition boolean_grouped :: "loaded_config \<Rightarrow> string \<Rightarrow> bool" where
  "boolean_grouped config name =
     (config_get config name None = Some (OvBoolean True) \<or> boolean_indexed config name)"

definition size_grouped :: "loaded_config \<Rightarrow> string \<Rightarrow> nat \<Rightarrow> nat" where
  "size_grouped config name dflt =
     (let bare = (case size_value (config_get config name None) of Some n \<Rightarrow> n | None \<Rightarrow> dflt)
      in if bare = dflt then size_indexed config name dflt else bare)"

definition features_from_options :: "loaded_config \<Rightarrow> backup_features" where
  "features_from_options config = \<lparr>bf_bundle = boolean_grouped config ''repo-bundle'',
     bf_bundle_size = size_grouped config ''repo-bundle-size'' DEFAULT_BUNDLE_SIZE,
     bf_bundle_limit = size_grouped config ''repo-bundle-limit'' DEFAULT_BUNDLE_LIMIT,
     bf_block = boolean_grouped config ''repo-block''\<rparr>"

definition repo_hardlink_enabled :: "loaded_config \<Rightarrow> bool" where
  "repo_hardlink_enabled config = boolean_grouped config ''repo-hardlink''"

definition validate_features :: "loaded_config \<Rightarrow> backup_features \<Rightarrow> (command_error, unit) result" where
  "validate_features config features =
     (if bf_bundle features \<and> repo_hardlink_enabled config
      then Err (CmdOther ''repo-bundle and repo-hardlink are mutually exclusive'')
      else if bf_block features \<and> \<not> bf_bundle features then Err (CmdOther ''repo-block requires repo-bundle'')
      else Ok ())"

definition size_grouped_opt :: "loaded_config \<Rightarrow> string \<Rightarrow> nat option" where
  "size_grouped_opt config name =
     (case size_value (config_get config name None) of
        Some n \<Rightarrow> Some n
      | None \<Rightarrow> first_some (\<lambda>idx. size_value (config_get config name (Some idx))) [1..<9])"

definition hash_value :: "option_value option \<Rightarrow> (string, string) btree option" where
  "hash_value v = (case v of Some (OvHash m) \<Rightarrow> Some m | _ \<Rightarrow> None)"

definition hash_grouped :: "loaded_config \<Rightarrow> string \<Rightarrow> (string, string) btree option" where
  "hash_grouped config name =
     (case hash_value (config_get config name None) of
        Some m \<Rightarrow> Some m
      | None \<Rightarrow> first_some (\<lambda>idx. hash_value (config_get config name (Some idx))) [1..<9])"

definition parse_block_map ::
  "loaded_config \<Rightarrow> string \<Rightarrow> (string \<Rightarrow> nat option) \<Rightarrow> (string \<Rightarrow> nat option) \<Rightarrow> (nat \<times> nat) list" where
  "parse_block_map config name key_parse value_parse =
     (case hash_grouped config name of
        None \<Rightarrow> []
      | Some m \<Rightarrow> List.map_filter (\<lambda>(k, v). Option.bind (key_parse k) (\<lambda>a. map_option (Pair a) (value_parse v))) m)"

definition parse_size_str :: "string \<Rightarrow> nat option" where
  "parse_size_str raw = (case parse_value TySize raw of Inr (OvSize n) \<Rightarrow> Some n | _ \<Rightarrow> None)"

definition parse_uint_str :: "string \<Rightarrow> nat option" where
  "parse_uint_str raw = parse_u64 (trim raw)"

definition block_overrides_from_options :: "loaded_config \<Rightarrow> block_overrides" where
  "block_overrides_from_options config = overrides_new
     (parse_block_map config ''repo-block-size-map'' parse_size_str parse_size_str)
     (parse_block_map config ''repo-block-age-map'' parse_uint_str parse_uint_str)
     (parse_block_map config ''repo-block-checksum-size-map'' parse_size_str parse_uint_str)
     (size_grouped_opt config ''repo-block-size-super'')
     (size_grouped_opt config ''repo-block-size-super-full'')"

section \<open>Retries\<close>

abbreviation DEFAULT_JOB_RETRY :: nat where "DEFAULT_JOB_RETRY \<equiv> 2"

definition job_retries :: "loaded_config \<Rightarrow> nat" where
  "job_retries config = (case config_get config ''job-retry'' None of
       Some (OvInteger v) \<Rightarrow> if 0 \<le> v \<and> v < int u32_bound then nat v else DEFAULT_JOB_RETRY
     | _ \<Rightarrow> DEFAULT_JOB_RETRY)"

definition attempts :: "nat \<Rightarrow> nat" where
  "attempts retries = min (retries + 1) (u32_bound - 1)"

text \<open>The loop of \<open>run\<close>, given the attempts that are left; the pause between attempts has no effect.\<close>

fun retry_loop :: "nat \<Rightarrow> ('s, 'e, 'a) action \<Rightarrow> ('s, 'e, 'a) action" where
  "retry_loop left op s =
     (case op s of
        (Inr v, t) \<Rightarrow> (Inr v, t)
      | (Inl e, t) \<Rightarrow> (case left of
            0 \<Rightarrow> (Inl e, t)
          | Suc n \<Rightarrow> if n = 0 then (Inl e, t) else retry_loop n op t))"

declare retry_loop.simps [simp del]

definition job_retry_run :: "nat \<Rightarrow> ('s, 'e, 'a) action \<Rightarrow> ('s, 'e, 'a) action" where
  "job_retry_run retries op = retry_loop (attempts retries) op"

section \<open>Checksums\<close>

definition bytes_to_hex :: "string \<Rightarrow> string" where
  "bytes_to_hex bytes = concat (map (\<lambda>c. map ascii_lower (hex_digits 2 (char_code c))) bytes)"

definition digest_hex :: "filter_env \<Rightarrow> stream_filter \<Rightarrow> string" where
  "digest_hex E f = (case f of FSha d seen \<Rightarrow> bytes_to_hex (fe_digest E d seen) | _ \<Rightarrow> [])"

definition plaintext_sha1 :: "filter_env \<Rightarrow> string \<Rightarrow> (command_error, string) result" where
  "plaintext_sha1 E bytes =
     rbind (map_err CmdIo (filter_process (FSha DigestSha1 []) bytes)) (\<lambda>(_, sha). Ok (digest_hex E sha))"

lemma plaintext_sha1_Ok: "plaintext_sha1 E bytes = Ok (bytes_to_hex (fe_digest E DigestSha1 bytes))"
  by (simp add: plaintext_sha1_def digest_hex_def)

definition truncate_checksum :: "string \<Rightarrow> nat \<Rightarrow> string" where
  "truncate_checksum csum checksum_size =
     (let n = sat_mul checksum_size 2
      in if 0 < n \<and> n < length csum then take n csum else csum)"

section \<open>Super blocks\<close>

function layout_loop :: "nat \<Rightarrow> nat \<Rightarrow> nat list" where
  "layout_loop remaining per_super =
     (if remaining = 0 \<or> per_super = 0 then []
      else min remaining per_super # layout_loop (remaining - min remaining per_super) per_super)"
  by auto
termination by (relation "measure fst") auto

declare layout_loop.simps [simp del]

definition super_block_layout :: "nat \<Rightarrow> nat \<Rightarrow> nat \<Rightarrow> nat list" where
  "super_block_layout block_count bs super_size =
     (if block_count = 0 then []
      else layout_loop block_count (if bs = 0 then 1 else max (super_size div bs) 1))"

lemma layout_loop_sum:
  "0 < per \<Longrightarrow> sum_list (layout_loop n per) = n"
  "0 < per \<Longrightarrow> g \<in> set (layout_loop n per) \<Longrightarrow> 0 < g \<and> g \<le> per"
proof -
  have step: "layout_loop n per = (if n = 0 then [] else min n per # layout_loop (n - min n per) per)" if "0 < per" for n
    using that by (simp add: layout_loop.simps [of n per])
  show "0 < per \<Longrightarrow> sum_list (layout_loop n per) = n"
  proof (induction n rule: less_induct)
    case (less n)
    then have "n \<noteq> 0 \<Longrightarrow> sum_list (layout_loop (n - min n per) per) = n - min n per" by simp
    then show ?case unfolding step [OF less.prems, of n] by simp
  qed
  show "0 < per \<Longrightarrow> g \<in> set (layout_loop n per) \<Longrightarrow> 0 < g \<and> g \<le> per"
  proof (induction n rule: less_induct)
    case (less n)
    show ?case
    proof (cases "n = 0 \<or> g = min n per")
      case True
      then show ?thesis using less.prems unfolding step [OF less.prems(1), of n] by (auto split: if_splits)
    next
      case False
      then have "g \<in> set (layout_loop (n - min n per) per)"
        using less.prems(2) unfolding step [OF less.prems(1), of n] by auto
      then show ?thesis using less.IH [of "n - min n per"] less.prems(1) False by simp
    qed
  qed
qed

lemma super_block_layout_sum: "sum_list (super_block_layout n bs ss) = n"
  by (auto simp: super_block_layout_def layout_loop_sum)

lemma super_block_layout_fits:
  assumes "g \<in> set (super_block_layout n bs ss)"
  shows "0 < g \<and> (g * bs \<le> ss \<or> g = 1)"
proof -
  define per where "per = (if bs = 0 then 1 else max (ss div bs) 1)"
  have per: "0 < per" by (auto simp: per_def)
  have g: "0 < g" "g \<le> per"
    using assms layout_loop_sum(2) [OF per, of g n] by (auto simp: super_block_layout_def per_def split: if_splits)
  show ?thesis
  proof (cases "bs = 0 \<or> ss div bs = 0")
    case True
    then show ?thesis using g by (auto simp: per_def split: if_splits)
  next
    case False
    then have "g \<le> ss div bs" using g by (auto simp: per_def max_def split: if_splits)
    then show ?thesis using g by (meson div_times_less_eq_dividend mult_le_mono1 order_trans)
  qed
qed

section \<open>The block map of a file\<close>

record bundle_state =
  bst_bundles :: "(nat, string) btree"
  bst_packer :: bundle_packer
  bst_repo_size :: nat

record stored_block =
  st_idx :: nat
  st_bytes :: string
  st_checksum :: string

definition prior_block :: "block_map option \<Rightarrow> nat \<Rightarrow> block_ref option" where
  "prior_block prior_map idx = (case prior_map of
       None \<Rightarrow> None
     | Some m \<Rightarrow> if idx < length (bm_blocks m) then Some (bm_blocks m ! idx) else None)"

definition classify_block ::
  "filter_env \<Rightarrow> repo_transform \<Rightarrow> nat \<Rightarrow> block_map option \<Rightarrow> nat \<times> string \<Rightarrow>
   block_ref option list \<times> stored_block list \<Rightarrow> (command_error, block_ref option list \<times> stored_block list) result" where
  "classify_block E t checksum_size prior_map ib st =
     (let (idx, block) = ib; (refs, stored) = st in
      rbind (plaintext_sha1 E block) (\<lambda>full.
        let csum = truncate_checksum full checksum_size in
        case prior_block prior_map idx of
          Some prior \<Rightarrow>
            if br_checksum prior = csum then Ok (refs[idx := Some prior], stored)
            else rbind (map_err CmdIo (apply_forward_keyed E t block)) (\<lambda>repo_bytes.
              Ok (refs, stored @ [\<lparr>st_idx = idx, st_bytes = repo_bytes, st_checksum = csum\<rparr>]))
        | None \<Rightarrow> rbind (map_err CmdIo (apply_forward_keyed E t block)) (\<lambda>repo_bytes.
              Ok (refs, stored @ [\<lparr>st_idx = idx, st_bytes = repo_bytes, st_checksum = csum\<rparr>]))))"

text \<open>One member of a super block: its bytes go to the end of the bundle, the reference to its place.\<close>

type_synonym member_state = "nat \<times> string \<times> nat \<times> block_ref option list"

definition place_member :: "string \<Rightarrow> nat \<Rightarrow> stored_block \<Rightarrow> member_state \<Rightarrow> member_state" where
  "place_member label bundle_id b st =
     (let (cursor, target, repo_size, refs) = st; repo_len = length (st_bytes b)
      in (sat_add cursor repo_len, target @ st_bytes b, repo_size + repo_len,
          refs[st_idx b := Some \<lparr>br_checksum = st_checksum b, br_reference = label, br_bundle_id = bundle_id,
            br_offset = cursor, br_size = repo_len\<rparr>]))"

definition entry_or_default :: "(nat, string) btree \<Rightarrow> nat \<Rightarrow> string" where
  "entry_or_default bundles i = (case bt_get bundles i of None \<Rightarrow> [] | Some b \<Rightarrow> b)"

definition place_group ::
  "string \<Rightarrow> stored_block list \<Rightarrow> block_ref option list \<times> bundle_state \<Rightarrow> block_ref option list \<times> bundle_state" where
  "place_group label group_blocks st =
     (let (refs, s) = st;
          super_len = sum_list (map (length \<circ> st_bytes) group_blocks);
          (slot, packer) = place super_len (bst_packer s);
          i = sl_bundle_id slot;
          (_, target, repo_size, refs) = fold (place_member label i) group_blocks
            (sl_offset slot, entry_or_default (bst_bundles s) i, bst_repo_size s, refs)
      in (refs, \<lparr>bst_bundles = bt_insert i target (bst_bundles s), bst_packer = packer, bst_repo_size = repo_size\<rparr>))"

fun place_groups ::
  "string \<Rightarrow> nat list \<Rightarrow> stored_block list \<Rightarrow> block_ref option list \<times> bundle_state \<Rightarrow> block_ref option list \<times> bundle_state" where
  "place_groups label [] stored st = st"
| "place_groups label (group_len # groups) stored st =
     place_groups label groups (drop group_len stored) (place_group label (take group_len stored) st)"

definition build_block_map ::
  "filter_env \<Rightarrow> repo_transform \<Rightarrow> string \<Rightarrow> string \<Rightarrow> nat \<Rightarrow> nat \<Rightarrow> nat \<Rightarrow> block_map option \<Rightarrow> bundle_state \<Rightarrow>
   (command_error, block_map \<times> bundle_state) result" where
  "build_block_map E t label bytes bs checksum_size super_size prior_map s =
     (let blocks = split_blocks bytes bs in
      rbind (try_fold (classify_block E t checksum_size prior_map) (enumerate 0 blocks)
          (replicate (length blocks) None, [])) (\<lambda>(refs, stored).
        let (refs, s) = place_groups label (super_block_layout (length stored) bs super_size) stored (refs, s) in
        rbind (try_map (\<lambda>(idx, slot). ok_or (CmdOther (''block '' @ fmt_dec idx @ '' left unplaced'')) slot)
            (enumerate 0 refs)) (\<lambda>blocks.
          Ok (\<lparr>bm_block_size = bs, bm_blocks = blocks\<rparr>, s))))"

section \<open>Bundles as lists of members\<close>

text \<open>
  The proofs see a bundle as the list of the members appended to it. \<open>spots\<close> are the offsets of its members,
  \<open>places\<close> the members of all bundles, and \<open>packed\<close> relates a copy in progress to its members: the bytes of a
  bundle are its members one after the other, and the packer stands at the end of the current one. The
  counters saturate, so that this holds of bundles of any length.
\<close>

type_synonym members = "nat \<Rightarrow> string list"

fun spots :: "nat \<Rightarrow> string list \<Rightarrow> (nat \<times> string) set" where
  "spots off [] = {}"
| "spots off (y # ys) = insert (off, y) (spots (off + length y) ys)"

definition places :: "members \<Rightarrow> (nat \<times> nat \<times> string) set" where
  "places ms = {(i, off, y). (off, y) \<in> spots 0 (ms i)}"

definition sat :: "nat \<Rightarrow> nat" where
  "sat n = min n (u64_bound - 1)"

definition packed :: "bundle_state \<Rightarrow> members \<Rightarrow> bool" where
  "packed s ms = (let i = pk_current_id (bst_packer s) in
     (\<forall>j. bt_get (bst_bundles s) j = None \<and> ms j = [] \<or> bt_get (bst_bundles s) j = Some (concat (ms j))) \<and>
     pk_current_offset (bst_packer s) = sat (length (concat (ms i))) \<and>
     (\<forall>j > i. bt_get (bst_bundles s) j = None))"

definition extends :: "members \<Rightarrow> members \<Rightarrow> bool" where
  "extends ms ms' = (\<forall>i. \<exists>ys. ms' i = ms i @ ys)"

lemma sat_add_sat [simp]: "sat_add (sat a) b = sat (a + b)" "sat_add 0 b = sat b"
  by (auto simp: sat_add_def sat_def)

lemma sat_0 [simp]: "sat 0 = 0"
  by (simp add: sat_def)

lemma sat_bounded: "n < u64_bound \<Longrightarrow> sat n = n"
  by (simp add: sat_def)

lemma spots_append: "spots off (xs @ ys) = spots off xs \<union> spots (off + length (concat xs)) ys"
  by (induction xs arbitrary: off) (auto simp: add.assoc)

lemma extends_refl [simp]: "extends ms ms"
  by (simp add: extends_def)

lemma extends_trans: "extends a b \<Longrightarrow> extends b c \<Longrightarrow> extends a c"
  unfolding extends_def by (metis append.assoc)

lemma extends_append [simp]: "extends ms (ms(i := ms i @ ys))"
  by (simp add: extends_def)

lemma places_append:
  "places (ms(i := ms i @ ys)) = places ms \<union> {(i, off, y) |off y. (off, y) \<in> spots (length (concat (ms i))) ys}"
  by (auto simp: places_def spots_append split: if_splits)

lemma packed_entry: "packed s ms \<Longrightarrow> entry_or_default (bst_bundles s) i = concat (ms i)"
  unfolding packed_def entry_or_default_def Let_def by (metis concat.simps(1) option.simps(4,5))

lemma packed_place:
  assumes "packed s ms" "place (length (concat ys)) (bst_packer s) = (slot, packer)"
    and i: "i = sl_bundle_id slot"
  shows "packed \<lparr>bst_bundles = bt_insert i (concat (ms i @ ys)) (bst_bundles s), bst_packer = packer, bst_repo_size = r\<rparr>
      (ms(i := ms i @ ys))" (is ?new)
    and "sl_offset slot = sat (length (concat (ms i)))" (is ?off)
proof -
  have "ms i = []" if "i = pk_current_id (bst_packer s) + 1"
    using assms(1) that by (auto simp: packed_def Let_def)
  then have off: "sl_offset slot = sat (length (concat (ms i)))" "\<forall>j > i. bt_get (bst_bundles s) j = None"
      "pk_current_id packer = i" "pk_current_offset packer = sat_add (sl_offset slot) (length (concat ys))"
    using assms by (auto simp: place_def packed_def Let_def split: if_splits)
  then show ?new ?off using assms(1) by (auto simp: packed_def Let_def)
qed

lemma packed_new: "packed \<lparr>bst_bundles = [], bst_packer = packer_new n, bst_repo_size = r\<rparr> (\<lambda>_. [])"
  by (simp add: packed_def packer_new_def Let_def)

text \<open>Where the blocks of a group go, and the references to them.\<close>

type_synonym laid = "stored_block \<times> nat \<times> nat"

fun lay :: "nat \<Rightarrow> nat \<Rightarrow> stored_block list \<Rightarrow> laid list" where
  "lay i off [] = []"
| "lay i off (b # bs) = (b, i, off) # lay i (off + length (st_bytes b)) bs"

definition ref_to :: "string \<Rightarrow> laid \<Rightarrow> block_ref" where
  "ref_to label p = (case p of (b, i, off) \<Rightarrow> \<lparr>br_checksum = st_checksum b, br_reference = label, br_bundle_id = i,
     br_offset = sat off, br_size = length (st_bytes b)\<rparr>)"

definition put_ref :: "string \<Rightarrow> laid \<Rightarrow> block_ref option list \<Rightarrow> block_ref option list" where
  "put_ref label p refs = refs[st_idx (fst p) := Some (ref_to label p)]"

definition laid_places :: "laid list \<Rightarrow> (nat \<times> nat \<times> string) set" where
  "laid_places ps = (\<lambda>(b, i, off). (i, off, st_bytes b)) ` set ps"

lemma laid_places_append [simp]: "laid_places (ps @ qs) = laid_places ps \<union> laid_places qs"
  by (simp add: laid_places_def image_Un)

lemma map_fst_lay [simp]: "map fst (lay i off bs) = bs"
  by (induction bs arbitrary: off) simp_all

lemma laid_places_lay: "laid_places (lay i off bs) = {(i, o', y) |o' y. (o', y) \<in> spots off (map st_bytes bs)}"
proof (induction bs arbitrary: off)
  case (Cons b bs)
  have "laid_places (lay i off (b # bs)) = insert (i, off, st_bytes b) (laid_places (lay i (off + length (st_bytes b)) bs))"
    by (simp add: laid_places_def)
  then show ?case unfolding Cons.IH by auto
qed (simp add: laid_places_def)

lemma place_members:
  "fold (place_member label i) bs (sat off, target, rs, refs) =
     (sat (off + length (concat (map st_bytes bs))), target @ concat (map st_bytes bs),
      rs + length (concat (map st_bytes bs)), fold (put_ref label) (lay i off bs) refs)"
  by (induction bs arbitrary: off target rs refs)
    (simp_all add: place_member_def put_ref_def ref_to_def Let_def add.assoc)

definition placement :: "string \<Rightarrow> members \<Rightarrow> bundle_state \<times> members \<Rightarrow> stored_block list \<Rightarrow>
    block_ref option list \<Rightarrow> block_ref option list \<Rightarrow> bool" where
  "placement label ms sm bs refs refs' = (case sm of (s, ms') \<Rightarrow> packed s ms' \<and> extends ms ms' \<and>
     (\<exists>ps. map fst ps = bs \<and> refs' = fold (put_ref label) ps refs \<and> places ms' = places ms \<union> laid_places ps))"

lemma place_group_placement:
  assumes "packed s ms" "place_group label g (refs, s) = (refs', s')"
  shows "\<exists>ms'. placement label ms (s', ms') g refs refs'"
proof -
  have len: "sum_list (map (length \<circ> st_bytes) g) = length (concat (map st_bytes g))"
    by (simp add: length_concat comp_def)
  obtain slot packer where place: "place (length (concat (map st_bytes g))) (bst_packer s) = (slot, packer)"
    by (cases "place (length (concat (map st_bytes g))) (bst_packer s)")
  let ?i = "sl_bundle_id slot"
  note packs = packed_place [OF assms(1) place refl]
  have run: "refs' = fold (put_ref label) (lay ?i (length (concat (ms ?i))) g) refs"
      "s' = \<lparr>bst_bundles = bt_insert ?i (concat (ms ?i @ map st_bytes g)) (bst_bundles s), bst_packer = packer,
        bst_repo_size = bst_repo_size s + length (concat (map st_bytes g))\<rparr>"
    using assms(2) place packs(2)
    by (simp_all add: place_group_def len Let_def packed_entry [OF assms(1)] place_members)
  have "placement label ms (s', ms(?i := ms ?i @ map st_bytes g)) g refs refs'"
    unfolding placement_def prod.case run(2)
  proof (intro conjI packs(1) extends_append exI)
    show "map fst (lay ?i (length (concat (ms ?i))) g) = g" by simp
    show "refs' = fold (put_ref label) (lay ?i (length (concat (ms ?i))) g) refs" by (rule run(1))
    show "places (ms(?i := ms ?i @ map st_bytes g)) = places ms \<union> laid_places (lay ?i (length (concat (ms ?i))) g)"
      by (simp only: places_append laid_places_lay)
  qed
  then show ?thesis by blast
qed

lemma placement_trans:
  assumes "placement label a (s, b) xs refs refs1" "placement label b (t, c) ys refs1 refs2"
  shows "placement label a (t, c) (xs @ ys) refs refs2"
proof -
  obtain ps qs where "map fst ps = xs" "refs1 = fold (put_ref label) ps refs" "places b = places a \<union> laid_places ps"
      "map fst qs = ys" "refs2 = fold (put_ref label) qs refs1" "places c = places b \<union> laid_places qs"
    using assms by (auto simp: placement_def)
  then show ?thesis using assms extends_trans [of a b c]
    by (auto simp: placement_def intro!: exI [of _ "ps @ qs"])
qed

lemma place_groups_placement:
  assumes "packed s ms" "place_groups label gs stored (refs, s) = (refs', s')" "sum_list gs = length stored"
  shows "\<exists>ms'. placement label ms (s', ms') stored refs refs'"
  using assms
proof (induction gs arbitrary: stored refs s ms)
  case Nil
  then show ?case by (auto simp: placement_def laid_places_def intro!: exI [of _ ms])
next
  case (Cons n gs)
  obtain refs1 s1 where one: "place_group label (take n stored) (refs, s) = (refs1, s1)" by fastforce
  then obtain ms1 where first: "placement label ms (s1, ms1) (take n stored) refs refs1"
    using place_group_placement [OF Cons.prems(1)] by blast
  then have "packed s1 ms1" by (simp add: placement_def)
  then obtain ms2 where "placement label ms1 (s', ms2) (drop n stored) refs1 refs'"
    using Cons.IH [of s1 ms1 "drop n stored" refs1] Cons.prems(2,3) one by fastforce
  from placement_trans [OF first this] show ?case by auto
qed

lemma fold_put_ref:
  assumes "distinct (map (st_idx \<circ> fst) ps)" "\<forall>p \<in> set ps. st_idx (fst p) < length refs"
  shows "length (fold (put_ref label) ps refs) = length refs \<and>
    (\<forall>p \<in> set ps. fold (put_ref label) ps refs ! st_idx (fst p) = Some (ref_to label p)) \<and>
    (\<forall>j. j \<notin> (st_idx \<circ> fst) ` set ps \<longrightarrow> fold (put_ref label) ps refs ! j = refs ! j)"
  using assms
proof (induction ps arbitrary: refs)
  case (Cons p ps)
  have "length (put_ref label p refs) = length refs" by (simp add: put_ref_def)
  moreover have "put_ref label p refs ! st_idx (fst p) = Some (ref_to label p)"
    using Cons.prems(2) by (simp add: put_ref_def)
  moreover have "j \<noteq> st_idx (fst p) \<Longrightarrow> put_ref label p refs ! j = refs ! j" for j by (simp add: put_ref_def)
  ultimately show ?case using Cons.IH [of "put_ref label p refs"] Cons.prems by auto
qed simp

section \<open>What a block map refers to\<close>

definition block_sum :: "filter_env \<Rightarrow> nat \<Rightarrow> string \<Rightarrow> string" where
  "block_sum E checksum_size block =
     truncate_checksum (bytes_to_hex (fe_digest E DigestSha1 block)) checksum_size"

definition kept_ref :: "filter_env \<Rightarrow> nat \<Rightarrow> block_map option \<Rightarrow> nat \<Rightarrow> string \<Rightarrow> block_ref option" where
  "kept_ref E checksum_size prior_map idx block = (case prior_block prior_map idx of
       Some prior \<Rightarrow> if br_checksum prior = block_sum E checksum_size block then Some prior else None
     | None \<Rightarrow> None)"

lemma classify_block_eq:
  "classify_block E t csz prior_map (idx, block) (refs, stored) =
     (case kept_ref E csz prior_map idx block of
        Some prior \<Rightarrow> Ok (refs[idx := Some prior], stored)
      | None \<Rightarrow> rbind (map_err CmdIo (apply_forward_keyed E t block)) (\<lambda>repo_bytes.
          Ok (refs, stored @ [\<lparr>st_idx = idx, st_bytes = repo_bytes, st_checksum = block_sum E csz block\<rparr>])))"
  by (simp add: classify_block_def plaintext_sha1_Ok kept_ref_def block_sum_def Let_def split: option.split)

definition block_stored :: "filter_env \<Rightarrow> repo_transform \<Rightarrow> nat \<Rightarrow> nat \<Rightarrow> string \<Rightarrow> stored_block \<Rightarrow> bool" where
  "block_stored E t csz idx block b = (st_idx b = idx \<and> st_checksum b = block_sum E csz block \<and>
     apply_forward_keyed E t block = Ok (st_bytes b))"

definition classified ::
  "filter_env \<Rightarrow> repo_transform \<Rightarrow> nat \<Rightarrow> block_map option \<Rightarrow> block_ref option list \<Rightarrow> stored_block list \<Rightarrow>
   nat \<Rightarrow> string \<Rightarrow> bool" where
  "classified E t csz prior_map refs stored idx block = (case kept_ref E csz prior_map idx block of
       Some p \<Rightarrow> refs ! idx = Some p \<and> idx \<notin> st_idx ` set stored
     | None \<Rightarrow> \<exists>b \<in> set stored. block_stored E t csz idx block b)"

lemma classified_Cons:
  "classified E t csz pm refs new idx block \<Longrightarrow> st_idx b \<noteq> idx \<Longrightarrow> classified E t csz pm refs (b # new) idx block"
  by (auto simp: classified_def split: option.splits)

lemma classify_run:
  assumes "try_fold (classify_block E t csz pm) (enumerate k bs) (refs, stored) = Ok (refs', stored')"
    and "k + length bs \<le> length refs"
  shows "length refs' = length refs \<and> (\<exists>new. stored' = stored @ new \<and> distinct (map st_idx new) \<and>
    st_idx ` set new \<subseteq> {k..<k + length bs} \<and> (\<forall>j. j < k \<longrightarrow> refs' ! j = refs ! j) \<and>
    (\<forall>i < length bs. classified E t csz pm refs' new (k + i) (bs ! i)))"
  using assms
proof (induction bs arbitrary: k refs stored)
  case (Cons block bs)
  show ?case
  proof (cases "kept_ref E csz pm k block")
    case (Some p)
    then have "try_fold (classify_block E t csz pm) (enumerate (Suc k) bs) (refs[k := Some p], stored) = Ok (refs', stored')"
      using Cons.prems(1) by (simp add: classify_block_eq)
    from Cons.IH [OF this] Cons.prems(2) obtain new where IH: "length refs' = length refs" "stored' = stored @ new"
        "distinct (map st_idx new)" "st_idx ` set new \<subseteq> {Suc k..<Suc k + length bs}"
        "\<forall>j < Suc k. refs' ! j = refs[k := Some p] ! j"
        "\<forall>i < length bs. classified E t csz pm refs' new (Suc k + i) (bs ! i)"
      by auto
    have "classified E t csz pm refs' new k block"
      using IH(4,5) Cons.prems(2) Some by (auto simp: classified_def)
    then have "\<forall>i < length (block # bs). classified E t csz pm refs' new (k + i) ((block # bs) ! i)"
      using IH(6) by (simp add: All_less_Suc2)
    then show ?thesis using IH(1-5) by (intro conjI exI [of _ new]) auto
  next
    case None
    then obtain y where y: "apply_forward_keyed E t block = Ok y"
      and rest: "try_fold (classify_block E t csz pm) (enumerate (Suc k) bs)
         (refs, stored @ [\<lparr>st_idx = k, st_bytes = y, st_checksum = block_sum E csz block\<rparr>]) = Ok (refs', stored')"
      using Cons.prems(1) by (auto simp: classify_block_eq rbind_Inr_iff)
    let ?b = "\<lparr>st_idx = k, st_bytes = y, st_checksum = block_sum E csz block\<rparr>"
    from Cons.IH [OF rest] Cons.prems(2) obtain new where IH: "length refs' = length refs" "stored' = (stored @ [?b]) @ new"
        "distinct (map st_idx new)" "st_idx ` set new \<subseteq> {Suc k..<Suc k + length bs}"
        "\<forall>j < Suc k. refs' ! j = refs ! j"
        "\<forall>i < length bs. classified E t csz pm refs' new (Suc k + i) (bs ! i)"
      by auto
    have "classified E t csz pm refs' (?b # new) k block"
      using None y by (simp add: classified_def block_stored_def)
    moreover have "\<forall>i < length bs. classified E t csz pm refs' (?b # new) (Suc k + i) (bs ! i)"
      using IH(6) by (auto intro: classified_Cons)
    ultimately have "\<forall>i < length (block # bs). classified E t csz pm refs' (?b # new) (k + i) ((block # bs) ! i)"
      by (simp add: All_less_Suc2)
    moreover have "distinct (map st_idx (?b # new))" "st_idx ` set (?b # new) \<subseteq> {k..<k + length (block # bs)}"
      using IH(3,4) by auto
    ultimately show ?thesis using IH(1,2,5) by (intro conjI exI [of _ "?b # new"]) auto
  qed
qed auto

text \<open>
  Each entry of a built map is the kept one of the prior map, or names this backup and the place of its
  bytes; what is placed anew is exactly what the entries of the second kind name.
\<close>

definition entry_place :: "string \<Rightarrow> members \<Rightarrow> block_ref \<Rightarrow> string \<Rightarrow> nat \<times> nat \<times> string \<Rightarrow> bool" where
  "entry_place label ms r csum p = (case p of (i, off, y) \<Rightarrow> p \<in> places ms \<and>
     r = \<lparr>br_checksum = csum, br_reference = label, br_bundle_id = i, br_offset = sat off, br_size = length y\<rparr>)"

definition block_entry ::
  "filter_env \<Rightarrow> repo_transform \<Rightarrow> string \<Rightarrow> nat \<Rightarrow> block_map option \<Rightarrow> members \<Rightarrow> nat \<Rightarrow> string \<Rightarrow>
   block_ref \<Rightarrow> bool" where
  "block_entry E t label csz pm ms idx block r = (case kept_ref E csz pm idx block of
       Some p \<Rightarrow> r = p
     | None \<Rightarrow> \<exists>i off y. apply_forward_keyed E t block = Ok y \<and>
         entry_place label ms r (block_sum E csz block) (i, off, y))"

lemma places_extend: "extends a b \<Longrightarrow> places a \<subseteq> places b"
proof
  fix x assume "extends a b" "x \<in> places a"
  moreover obtain i off y where "x = (i, off, y)" by (cases x)
  moreover from calculation obtain ys where "b i = a i @ ys" unfolding extends_def by blast
  ultimately show "x \<in> places b" by (simp add: places_def spots_append)
qed

lemma block_entry_extend:
  "block_entry E t label csz pm a idx block r \<Longrightarrow> extends a b \<Longrightarrow> block_entry E t label csz pm b idx block r"
  using places_extend by (fastforce simp: block_entry_def entry_place_def split: option.splits)

lemma collect_slots:
  "try_map (\<lambda>(idx, slot). ok_or (e idx) slot) (enumerate k slots) = Ok rs \<longleftrightarrow> slots = map Some rs"
proof (induction slots arbitrary: k rs)
  case (Cons s slots)
  then show ?case by (cases s; cases rs) (auto simp: rbind_Inr_iff)
qed auto

definition named_by :: "string \<Rightarrow> nat \<times> nat \<times> string \<Rightarrow> block_ref \<Rightarrow> bool" where
  "named_by label p r = (case p of (i, off, y) \<Rightarrow>
     br_reference r = label \<and> br_bundle_id r = i \<and> br_offset r = sat off)"

lemma build_block_map_entries:
  assumes "build_block_map E t label bytes bs csz ssz pm s = Ok (bm, s')" "packed s ms"
  shows "\<exists>ms'. packed s' ms' \<and> extends ms ms' \<and> bm_block_size bm = bs \<and>
    length (bm_blocks bm) = length (split_blocks bytes bs) \<and>
    (\<forall>i < length (split_blocks bytes bs).
       block_entry E t label csz pm ms' i (split_blocks bytes bs ! i) (bm_blocks bm ! i)) \<and>
    (\<forall>p \<in> places ms' - places ms. \<exists>r \<in> set (bm_blocks bm). named_by label p r)"
proof -
  let ?blocks = "split_blocks bytes bs" and ?layout = "\<lambda>stored. super_block_layout (length stored) bs ssz"
  obtain refs stored where fold: "try_fold (classify_block E t csz pm) (enumerate 0 ?blocks)
        (replicate (length ?blocks) None, []) = Ok (refs, stored)"
    using assms(1) by (auto simp: build_block_map_def rbind_Inr_iff Let_def)
  obtain refs' s'' where "place_groups label (?layout stored) stored (refs, s) = (refs', s'')" by fastforce
  then have run: "place_groups label (?layout stored) stored (refs, s) = (refs', s')"
      "refs' = map Some (bm_blocks bm)" "bm_block_size bm = bs"
    using assms(1) fold by (auto simp: build_block_map_def rbind_Inr_iff Let_def collect_slots)
  obtain dist: "distinct (map st_idx stored)" and idxs: "st_idx ` set stored \<subseteq> {0..<length ?blocks}"
    and len: "length refs = length ?blocks"
    and each: "\<forall>i < length ?blocks. classified E t csz pm refs stored i (?blocks ! i)"
    using classify_run [OF fold] by auto
  obtain ms' where "placement label ms (s', ms') stored refs refs'"
    using place_groups_placement [OF assms(2) run(1) super_block_layout_sum] by blast
  then obtain ps where ps: "packed s' ms'" "extends ms ms'" "map fst ps = stored"
      "refs' = fold (put_ref label) ps refs" "places ms' = places ms \<union> laid_places ps"
    by (auto simp: placement_def)
  have fsts: "fst ` set ps = set stored" using ps(3) by (metis set_map)
  have "distinct (map (st_idx \<circ> fst) ps)" using dist ps(3) by (metis map_map)
  moreover have "\<forall>p \<in> set ps. st_idx (fst p) < length refs" using idxs fsts len by force
  ultimately have put: "length refs' = length refs" "\<forall>p \<in> set ps. refs' ! st_idx (fst p) = Some (ref_to label p)"
      "\<forall>j. j \<notin> st_idx ` set stored \<longrightarrow> refs' ! j = refs ! j"
    using fold_put_ref [of ps refs label] ps(4) fsts image_image [of st_idx fst "set ps"] by simp_all
  have count: "length (bm_blocks bm) = length ?blocks" using put(1) len run(2) by simp
  have at: "j < length ?blocks \<Longrightarrow> refs' ! j = Some r \<Longrightarrow> bm_blocks bm ! j = r" for j r
    using run(2) count by simp
  have "block_entry E t label csz pm ms' j (?blocks ! j) (bm_blocks bm ! j)" if j: "j < length ?blocks" for j
  proof (cases "kept_ref E csz pm j (?blocks ! j)")
    case (Some q)
    then have "refs' ! j = Some q" using each [rule_format, OF j] put(3) by (auto simp: classified_def)
    then show ?thesis using Some at [OF j] by (simp add: block_entry_def)
  next
    case None
    then obtain b where b: "b \<in> set stored" "block_stored E t csz j (?blocks ! j) b"
      using each [rule_format, OF j] by (auto simp: classified_def)
    then obtain i off where "(b, i, off) \<in> set ps" using fsts by force
    then have "bm_blocks bm ! j = ref_to label (b, i, off)" "(i, off, st_bytes b) \<in> places ms'"
      using put(2) b(2) at [OF j] ps(5) by (force simp: block_stored_def laid_places_def)+
    then show ?thesis using None b(2) by (auto simp: block_entry_def block_stored_def entry_place_def ref_to_def)
  qed
  moreover have "\<exists>r \<in> set (bm_blocks bm). named_by label p r" if new: "p \<in> places ms' - places ms" for p
  proof -
    obtain b i off where x: "(b, i, off) \<in> set ps" "p = (i, off, st_bytes b)"
      using new ps(5) by (auto simp: laid_places_def)
    then have "st_idx b < length ?blocks" using idxs fsts by force
    then have "ref_to label (b, i, off) \<in> set (bm_blocks bm)"
      using at put(2) x(1) count by (metis fst_conv nth_mem)
    then show ?thesis using x(2) by (auto simp: named_by_def ref_to_def intro!: bexI)
  qed
  ultimately show ?thesis using ps(1,2) run(3) count by blast
qed

end
