(* ===== verification/Posix_Dirs.thy ===== *)
theory Posix_Dirs
  imports Posix
begin

text \<open>
  The operations of the local backend (\<open>crates/pgbr-storage/src/posix.rs\<close>) on metadata, directories, names
  and links, and the \<open>std::fs\<close> calls that the copy workers make on resolved paths. A locale states what the
  backup and restore commands rely on beyond the storage contract; the local backend interprets it.
\<close>

section \<open>Directory calls of the file system\<close>

text \<open>A new directory is empty: it replaces nothing and has nothing below.\<close>

definition fs_create_dir :: "fs_path \<Rightarrow> posix_fs \<Rightarrow> unit fs_result" where
  "fs_create_dir p s0 = (case fs_tick s0 of
       (Some (e, _), s) \<Rightarrow> (Err e, s)
     | (None, s) \<Rightarrow>
         if p = [] then (Err EAlreadyExists, s)
         else (case fs_walk (fs_nodes s) [] (butlast p) of
             Inl e \<Rightarrow> (Err e, s)
           | Inr NDir \<Rightarrow> (case im_get (fs_nodes s) p of
                 None \<Rightarrow> (Ok (), fs_put p NDir (fs_drop (strict_prefix p) s))
               | Some _ \<Rightarrow> (Err EAlreadyExists, s))
           | Inr _ \<Rightarrow> (Err (EOther ''Not a directory''), s)))"

definition fs_is_dir :: "fs_path \<Rightarrow> posix_fs \<Rightarrow> bool \<times> posix_fs" where
  "fs_is_dir p s = (case fs_lstat p s of (r, t) \<Rightarrow> (r = Ok NDir, t))"

text \<open>\<open>create_dir_all\<close> of the standard library: first the directory itself, its parents only when one is missing.
  The path is reversed, so that the recursion goes to the parent.\<close>

definition dir_or_err :: "fs_path \<Rightarrow> fs_errno \<Rightarrow> posix_fs \<Rightarrow> unit fs_result" where
  "dir_or_err p e s = (case fs_is_dir p s of (d, t) \<Rightarrow> (if d then Ok () else Err e, t))"

fun fs_create_dirs :: "string list \<Rightarrow> posix_fs \<Rightarrow> unit fs_result" where
  "fs_create_dirs [] s = (case fs_create_dir [] s of
       (Inr _, t) \<Rightarrow> (Ok (), t)
     | (Inl e, t) \<Rightarrow> dir_or_err [] e t)"
| "fs_create_dirs (c # cs) s = (let p = rev (c # cs) in
     case fs_create_dir p s of
       (Inr _, t) \<Rightarrow> (Ok (), t)
     | (Inl e, t) \<Rightarrow>
         if e = ENotFound then act_bind (fs_create_dirs cs) (\<lambda>_ u. case fs_create_dir p u of
             (Inr _, v) \<Rightarrow> (Ok (), v)
           | (Inl e, v) \<Rightarrow> dir_or_err p e v) t
         else dir_or_err p e t)"

definition fs_create_dir_all :: "fs_path \<Rightarrow> posix_fs \<Rightarrow> unit fs_result" where
  "fs_create_dir_all p = fs_create_dirs (rev p)"

text \<open>\<open>symlink\<close>: the target is written as it is.\<close>

definition fs_symlink :: "path \<Rightarrow> fs_path \<Rightarrow> posix_fs \<Rightarrow> unit fs_result" where
  "fs_symlink target p s0 = (case fs_tick s0 of
       (Some (e, _), s) \<Rightarrow> (Err e, s)
     | (None, s) \<Rightarrow>
         if p = [] then (Err EAlreadyExists, s)
         else (case fs_walk (fs_nodes s) [] (butlast p) of
             Inl e \<Rightarrow> (Err e, s)
           | Inr NDir \<Rightarrow> (case im_get (fs_nodes s) p of
                 None \<Rightarrow> (Ok (), fs_put p (NLink target) s)
               | Some _ \<Rightarrow> (Err EAlreadyExists, s))
           | Inr _ \<Rightarrow> (Err (EOther ''Not a directory''), s)))"

section \<open>The operations of the backend\<close>

definition posix_info :: "path \<Rightarrow> path \<Rightarrow> posix_fs \<Rightarrow> (storage_error, storage_info) result \<times> posix_fs" where
  "posix_info root p s =
     (let resolved = posix_resolve root p in
      case fs_lstat (components resolved) s of
        (Inl e, t) \<Rightarrow> (Err (map_io e resolved), t)
      | (Inr meta, t) \<Rightarrow> (Ok (info_from_metadata resolved meta), t))"

definition posix_rename :: "path \<Rightarrow> path \<Rightarrow> path \<Rightarrow> (posix_fs, storage_error, unit) action" where
  "posix_rename root source target =
     (let resolved_source = posix_resolve root source; resolved_target = posix_resolve root target
      in act_map_err (\<lambda>e. map_io e resolved_source)
           (fs_rename (components resolved_source) (components resolved_target)))"

definition posix_create_path :: "path \<Rightarrow> path \<Rightarrow> bool \<Rightarrow> (posix_fs, storage_error, unit) action" where
  "posix_create_path root p recursive =
     (let resolved = posix_resolve root p; k = components resolved
      in act_map_err (\<lambda>e. map_io e resolved) (if recursive then fs_create_dir_all k else fs_create_dir k))"

definition posix_create_symlink :: "path \<Rightarrow> path \<Rightarrow> path \<Rightarrow> (posix_fs, storage_error, unit) action" where
  "posix_create_symlink root link_path target =
     (let resolved = posix_resolve root link_path
      in act_map_err (\<lambda>e. map_io e resolved) (fs_symlink target (components resolved)))"

section \<open>What the copies rely on\<close>

text \<open>
  \<open>dir_ops\<close> are the trait's \<open>info\<close> and \<open>create_path\<close>; \<open>std_fs\<close> are \<open>std::fs::read\<close>, \<open>write\<close>,
  \<open>create_dir_all\<close> and \<open>set_permissions\<close> on absolute paths, which the workers call on the host they run on.
\<close>

record 's dir_ops =
  do_info :: "path \<Rightarrow> ('s, storage_error, storage_info) action"
  do_create_path :: "path \<Rightarrow> bool \<Rightarrow> ('s, storage_error, unit) action"

record 's std_fs =
  sf_read :: "path \<Rightarrow> ('s, fs_errno, string) action"
  sf_write :: "path \<Rightarrow> string \<Rightarrow> ('s, fs_errno, unit) action"
  sf_create_dir_all :: "path \<Rightarrow> ('s, fs_errno, unit) action"
  sf_chmod :: "path \<Rightarrow> nat \<Rightarrow> ('s, fs_errno, unit) action"

locale copy_host = storage ops key view healthy
  for ops :: "'s storage_ops" and key view healthy +
  fixes dirs :: "'s dir_ops" and std :: "'s std_fs" and place :: "path \<Rightarrow> string list"
  assumes key_slash: "p \<noteq> [] \<Longrightarrow> key (p @ ''/'' @ q) = key p @ components q"
    and info_view: "view (snd (do_info dirs p s)) = view s"
    and info_size: "do_info dirs p s = (Ok i, t) \<Longrightarrow> view s (key p) = Some b \<Longrightarrow> si_size i = length b"
    and info_healthy: "healthy s \<Longrightarrow> view s (key p) = Some b \<Longrightarrow>
          \<exists>i t. do_info dirs p s = (Ok i, t) \<and> place (si_path i) = key p \<and> healthy t"
    and create_view: "view (snd (do_create_path dirs p rec s)) = view s"
    and std_read_view: "view (snd (sf_read std p s)) = view s"
    and std_read_Ok: "sf_read std p s = (Ok b, t) \<Longrightarrow> view s (place p) = Some b"
    and std_read_healthy: "healthy s \<Longrightarrow> view s (place p) = Some b \<Longrightarrow>
          \<exists>t. sf_read std p s = (Ok b, t) \<and> healthy t"
    and std_write_frame: "k \<noteq> place p \<Longrightarrow> view (snd (sf_write std p b s)) k = view s k"
    and std_write_Ok: "sf_write std p b s = (Ok u, t) \<Longrightarrow> view t (place p) = Some b"
    and std_dirs_view: "view (snd (sf_create_dir_all std p s)) = view s"
    and std_chmod_view: "view (snd (sf_chmod std p m s)) = view s"
begin

lemma untouched_calls [simp]:
  "act_keeps (untouched K) (do_info dirs p)" "act_keeps (untouched K) (do_create_path dirs p rec)"
  "act_keeps (untouched K) (sf_read std p)" "act_keeps (untouched K) (sf_create_dir_all std p)"
  "act_keeps (untouched K) (sf_chmod std p m)"
  by (simp_all add: act_keeps_def untouched_def info_view create_view std_read_view std_dirs_view std_chmod_view)

lemma untouched_std_write: "place p \<in> K \<Longrightarrow> act_keeps (untouched K) (sf_write std p b)"
  by (auto simp: act_keeps_def untouched_def intro!: std_write_frame)

end

section \<open>The local backend\<close>

definition posix_dirs :: "path \<Rightarrow> posix_fs dir_ops" where
  "posix_dirs root = \<lparr>do_info = posix_info root, do_create_path = posix_create_path root\<rparr>"

text \<open>\<open>std::fs\<close> over the same file system; \<open>set_permissions\<close> looks the file up and changes its mode, which a
  node does not record. The working directory is the root.\<close>

definition posix_std :: "posix_fs std_fs" where
  "posix_std = \<lparr>sf_read = (\<lambda>p. fs_read_file (components p)),
     sf_write = (\<lambda>p b. act_bind (fs_create (components p)) (\<lambda>_. fs_write_all (components p) b)),
     sf_create_dir_all = (\<lambda>p. fs_create_dir_all (components p)),
     sf_chmod = (\<lambda>p m. act_bind (fs_lstat (components p)) (\<lambda>_. act_ok ()))\<rparr>"

lemma view_put_dir:
  assumes "p \<noteq> []" "im_get (fs_nodes s) p = None"
  shows "fs_view (fs_put p NDir (fs_drop (strict_prefix p) s)) k = fs_view s k"
proof (rule view_eqI)
  fix b
  have node: "fs_node_at (fs_nodes (fs_put p NDir (fs_drop (strict_prefix p) s))) q =
      (if q = p then Some NDir else if strict_prefix p q then None else fs_node_at (fs_nodes s) q)" for q
    using assms(1) by (auto simp: node_at_put node_at_drop)
  have old: "fs_node_at (fs_nodes s) p = None" using assms by (simp add: fs_node_at_def)
  show "fs_view (fs_put p NDir (fs_drop (strict_prefix p) s)) k = Some b \<longleftrightarrow> fs_view s k = Some b"
  proof (cases "prefix p k")
    case True
    then obtain r where k: "k = p @ r" by (auto simp: prefix_def)
    have "fs_view s k \<noteq> Some b"
    proof
      assume "fs_view s k = Some b"
      then have "fs_node_at (fs_nodes s) (take (length p) k) \<noteq> None"
        unfolding view_Some by (cases "length p < length k") auto
      then show False using old k by simp
    qed
    moreover have "fs_view (fs_put p NDir (fs_drop (strict_prefix p) s)) k \<noteq> Some b"
      using k by (cases "r = []") (auto simp: view_Some node strict_prefix_def)
    ultimately show ?thesis by simp
  next
    case False
    then have "take i k \<noteq> p \<and> \<not> strict_prefix p (take i k)" for i
      by (metis prefix_order.less_imp_le prefix_order.trans take_is_prefix)
    moreover have "k \<noteq> p \<and> \<not> strict_prefix p k" using False by auto
    ultimately show ?thesis by (simp add: view_Some node)
  qed
qed

lemma create_dir_view [simp]: "fs_view (snd (fs_create_dir p s)) = fs_view s"
proof
  fix k
  obtain f s1 where tick: "fs_tick s = (f, s1)" by (cases "fs_tick s")
  then have "snd (fs_create_dir p s) = s1 \<or> p \<noteq> [] \<and> im_get (fs_nodes s1) p = None \<and>
      snd (fs_create_dir p s) = fs_put p NDir (fs_drop (strict_prefix p) s1)"
    by (cases f) (auto simp: fs_create_dir_def split: sum.splits fs_node.splits option.splits)
  then show "fs_view (snd (fs_create_dir p s)) k = fs_view s k"
    using tick view_put_dir [of p s1 k] by auto
qed

lemma dir_or_err_view [simp]: "fs_view (snd (dir_or_err p e s)) = fs_view s"
  by (auto simp: dir_or_err_def fs_is_dir_def call_view split: prod.splits)

lemma create_dirs_view [simp]: "fs_view (snd (fs_create_dirs cs s)) = fs_view s"
proof (induction cs arbitrary: s)
  case Nil
  obtain r t where "fs_create_dir [] s = (r, t)" by fastforce
  then show ?case using create_dir_view [of "[]" s] by (cases r) simp_all
next
  case (Cons c cs)
  let ?p = "rev (c # cs)"
  obtain r t where first: "fs_create_dir ?p s = (r, t)" by fastforce
  then have t: "fs_view t = fs_view s" using create_dir_view [of ?p s] by simp
  obtain r1 u where rest: "fs_create_dirs cs t = (r1, u)" by fastforce
  then have u: "fs_view u = fs_view s" using Cons.IH [of t] t by simp
  obtain r2 v where again: "fs_create_dir ?p u = (r2, v)" by fastforce
  then have v: "fs_view v = fs_view s" using create_dir_view [of ?p u] u by simp
  show ?case
    using first rest again t u v
    by (cases r; cases r1; cases r2) (simp_all add: act_bind_def Let_def del: rev.simps)
qed

lemma create_dir_all_view [simp]: "fs_view (snd (fs_create_dir_all p s)) = fs_view s"
  by (simp add: fs_create_dir_all_def)

interpretation px_copy: copy_host "posix_ops root" "posix_key root" fs_view fs_healthy "posix_dirs root" posix_std components
  for root
proof
  fix p :: path and s t :: posix_fs and k :: fs_path and b :: string and i :: storage_info and u :: unit
    and r :: bool and m :: nat and q :: path
  show "posix_key root (p @ ''/'' @ q) = posix_key root p @ components q" if "p \<noteq> []"
  proof -
    have "is_absolute (p @ ''/'' @ q) = is_absolute p"
      using that by (cases p) (simp_all add: is_absolute_def starts_with_def)
    then show ?thesis using components_slash [of p q] components_join [of _ root]
      by (simp add: posix_key_def posix_resolve_def)
  qed
  show "fs_view (snd (do_info (posix_dirs root) p s)) = fs_view s"
    by (auto simp: posix_dirs_def posix_info_def Let_def call_view split: prod.splits sum.splits)
  show "si_size i = length b"
    if "do_info (posix_dirs root) p s = (Ok i, t)" "fs_view s (posix_key root p) = Some b"
    using that unfolding view_walk
    by (auto simp: posix_dirs_def posix_info_def posix_key_def Let_def fs_lstat_def info_from_metadata_def tick_nodes
        split: prod.splits sum.splits option.splits)
  show "\<exists>i t. do_info (posix_dirs root) p s = (Ok i, t) \<and> components (si_path i) = posix_key root p \<and> fs_healthy t"
    if "fs_healthy s" "fs_view s (posix_key root p) = Some b"
    using lstat_healthy [OF that]
    by (auto simp: posix_dirs_def posix_info_def posix_key_def Let_def info_from_metadata_def)
  show "fs_view (snd (do_create_path (posix_dirs root) p r s)) = fs_view s"
    by (simp add: posix_dirs_def posix_create_path_def Let_def)
  show "fs_view (snd (sf_read posix_std p s)) = fs_view s" by (simp add: posix_std_def)
  show "fs_view s (components p) = Some b" if "sf_read posix_std p s = (Ok b, t)"
    using that by (intro read_file_Ok) (simp add: posix_std_def)
  show "\<exists>t. sf_read posix_std p s = (Ok b, t) \<and> fs_healthy t"
    if "fs_healthy s" "fs_view s (components p) = Some b"
    using read_file_healthy [OF that] by (simp add: posix_std_def)
  show "fs_view (snd (sf_write posix_std p b s)) k = fs_view s k" if "k \<noteq> components p"
  proof -
    have "act_keeps (\<lambda>s t. fs_view t k = fs_view s k) (sf_write posix_std p b)"
      using that unfolding posix_std_def std_fs.simps
      by (intro act_keeps_bind keep_view_trans) (simp_all add: act_keeps_def create_frame write_all_frame)
    then show ?thesis by (rule act_keepsD)
  qed
  show "fs_view t (components p) = Some b" if "sf_write posix_std p b s = (Ok u, t)"
    using that write_all_Ok create_Ok by (fastforce simp: posix_std_def act_bind_Inr_iff)
  show "fs_view (snd (sf_create_dir_all posix_std p s)) = fs_view s" by (simp add: posix_std_def)
  show "fs_view (snd (sf_chmod posix_std p m s)) = fs_view s"
    by (auto simp: posix_std_def act_bind_def act_ok_def call_view split: prod.splits sum.splits)
qed

end
