(* ===== verification/Bundle_Run.thy ===== *)
theory Bundle_Run
  imports Bundle_Copy Posix_Dirs
begin

text \<open>
  Copying the files of a backup into the repository (\<open>crates/pgbr-command/src/backup.rs\<close>): \<open>CopyJob\<close>,
  \<open>transform_and_validate\<close>, \<open>copy_file\<close>, \<open>copy_file_storage\<close>, \<open>write_repo_file\<close> and the serial bundled
  copy \<open>run_bundled_copy_serial\<close>. Storages and \<open>std::fs\<close> are those of \<open>Posix_Dirs\<close>, over one state of the
  machine. Log lines are not modelled, a size counter is a natural number, and \<open>job_by_rel\<close> is a map in key
  order (it is only looked up).
\<close>

section \<open>Paths and pages\<close>

text \<open>\<open>Path::parent\<close>, on the reversed path: trailing separators and \<open>.\<close> components do not count.\<close>

fun trim_rev_path :: "string \<Rightarrow> string" where
  "trim_rev_path (c # d # r) =
     (if c = CHR ''/'' then trim_rev_path (d # r)
      else if c = CHR ''.'' \<and> d = CHR ''/'' then trim_rev_path (d # r)
      else c # d # r)"
| "trim_rev_path r = r"

definition path_parent :: "path \<Rightarrow> path option" where
  "path_parent p = (let q = trim_rev_path (rev p) in
     if q = [] \<or> q = ''/'' then None
     else Some (rev (trim_rev_path (dropWhile (\<lambda>c. c \<noteq> CHR ''/'') q))))"

definition byte_words :: "string \<Rightarrow> u8 list" where
  "byte_words bytes = map of_char bytes"

section \<open>One file\<close>

record copy_job =
  cj_rel :: string
  cj_abs_src :: path
  cj_abs_dest :: path
  cj_rel_dest :: string
  cj_validate_pages :: bool
  cj_validate_page_header :: bool

record copy_result =
  cr_checksum :: string
  cr_repo_bytes :: nat
  cr_checksum_page :: "checksum_page option"

definition page_outcome :: "copy_job \<Rightarrow> string \<Rightarrow> checksum_page option" where
  "page_outcome job bytes =
     (if cj_validate_pages job \<and> bytes \<noteq> [] \<and> length bytes mod PAGE_SIZE = 0
      then let invalid = validate_relation_pages (byte_words bytes) (cj_validate_page_header job)
           in Some (if invalid = [] then CpValidated else CpInvalidBlocks invalid)
      else None)"

definition transform_and_validate ::
  "filter_env \<Rightarrow> copy_job \<Rightarrow> string \<Rightarrow> repo_transform \<Rightarrow> (command_error, string \<times> copy_result) result" where
  "transform_and_validate E job bytes t =
     rbind (plaintext_sha1 E bytes) (\<lambda>csum.
     rbind (map_err CmdIo (apply_forward_keyed E t bytes)) (\<lambda>repo_bytes.
       Ok (repo_bytes, \<lparr>cr_checksum = csum, cr_repo_bytes = length repo_bytes,
         cr_checksum_page = page_outcome job bytes\<rparr>)))"

definition std_err :: "string \<Rightarrow> path \<Rightarrow> fs_errno \<Rightarrow> command_error" where
  "std_err verb p e = CmdOther (verb @ '' '' @ p @ '': '' @ errno_text e)"

text \<open>The storage contract joins the opening of a stream with its use; an error of the stream is an \<open>IoError\<close>.\<close>

definition command_error_from_storage :: "storage_error \<Rightarrow> command_error" where
  "command_error_from_storage e = (case e of StIo io \<Rightarrow> CmdIo io | other \<Rightarrow> CmdStorage other)"

definition read_source :: "'s storage_ops \<Rightarrow> 's std_fs \<Rightarrow> copy_job \<Rightarrow> ('s, command_error, string) action" where
  "read_source pg std job =
     (if so_is_local pg then act_map_err (std_err ''read'' (cj_abs_src job)) (sf_read std (cj_abs_src job))
      else act_map_err command_error_from_storage (so_read pg (cj_rel job)))"

definition write_repo_file :: "'s storage_ops \<Rightarrow> string \<Rightarrow> string \<Rightarrow> ('s, command_error, unit) action" where
  "write_repo_file ops rel bytes = act_map_err command_error_from_storage (so_write ops rel bytes)"

text \<open>Parent directory and file through \<open>std::fs\<close>, on the repository of this host.\<close>

definition write_local :: "'s std_fs \<Rightarrow> path \<Rightarrow> string \<Rightarrow> ('s, command_error, unit) action" where
  "write_local std p bytes =
     act_bind (case path_parent p of
         None \<Rightarrow> act_ok ()
       | Some parent \<Rightarrow> act_map_err (std_err ''create'' parent) (sf_create_dir_all std parent)) (\<lambda>_.
     act_map_err (std_err ''write'' p) (sf_write std p bytes))"

text \<open>The same through the repository storage.\<close>

definition write_remote ::
  "'s storage_ops \<Rightarrow> 's dir_ops \<Rightarrow> string \<Rightarrow> string \<Rightarrow> ('s, command_error, unit) action" where
  "write_remote repo dirs rel bytes =
     act_bind (case path_parent rel of
         None \<Rightarrow> act_ok ()
       | Some parent \<Rightarrow> act_map_err CmdStorage (do_create_path dirs parent True)) (\<lambda>_.
     write_repo_file repo rel bytes)"

definition copy_file ::
  "filter_env \<Rightarrow> 's std_fs \<Rightarrow> copy_job \<Rightarrow> repo_transform \<Rightarrow> ('s, command_error, copy_result) action" where
  "copy_file E std job t =
     act_bind (act_map_err (std_err ''read'' (cj_abs_src job)) (sf_read std (cj_abs_src job))) (\<lambda>bytes.
     act_bind (act_lift (transform_and_validate E job bytes t)) (\<lambda>(repo_bytes, result).
     act_bind (write_local std (cj_abs_dest job) repo_bytes) (\<lambda>_. act_ok result)))"

definition copy_file_storage ::
  "filter_env \<Rightarrow> copy_job \<Rightarrow> repo_transform \<Rightarrow> 's storage_ops \<Rightarrow> 's dir_ops \<Rightarrow> 's storage_ops \<Rightarrow> 's std_fs \<Rightarrow>
   ('s, command_error, copy_result) action" where
  "copy_file_storage E job t repo dirs pg std =
     act_bind (read_source pg std job) (\<lambda>bytes.
     act_bind (act_lift (transform_and_validate E job bytes t)) (\<lambda>(repo_bytes, result).
     act_bind (write_remote repo dirs (cj_rel_dest job) repo_bytes) (\<lambda>_. act_ok result)))"

section \<open>The bundled copy\<close>

record 's bundled_ctx =
  bc_repo_storage :: "'s storage_ops"
  bc_repo_dirs :: "'s dir_ops"
  bc_pg_storage :: "'s storage_ops"
  bc_std :: "'s std_fs"
  bc_env :: filter_env
  bc_backup_root :: string
  bc_transform :: repo_transform
  bc_label :: string
  bc_skeletons :: "manifest_file list"
  bc_jobs :: "copy_job list"
  bc_referenced :: "manifest_file list"
  bc_prior_manifest :: "manifest option"
  bc_features :: backup_features
  bc_block_overrides :: block_overrides
  bc_is_full :: bool
  bc_job_retry :: nat
  bc_timestamp_start :: int

record copy_progress =
  cp_files :: "manifest_file list"
  cp_job_by_rel :: "(string, copy_job) btree"
  cp_bundle :: bundle_state

definition jobs_by_rel :: "copy_job list \<Rightarrow> (string, copy_job) btree" where
  "jobs_by_rel jobs = fold (\<lambda>j. bt_insert (cj_rel j) j) jobs []"

definition i64_sat_sub :: "int \<Rightarrow> int \<Rightarrow> int" where
  "i64_sat_sub a b = max i64_min (min i64_max (a - b))"

definition block_size_for :: "'s bundled_ctx \<Rightarrow> manifest_file \<Rightarrow> nat option" where
  "block_size_for ctx skeleton =
     (if bf_block (bc_features ctx)
      then overrides_block_size (bc_block_overrides ctx) (mf_size skeleton)
             (i64_sat_sub (bc_timestamp_start ctx) (mf_timestamp skeleton))
      else None)"

definition prior_map_of :: "'s bundled_ctx \<Rightarrow> string \<Rightarrow> block_map option" where
  "prior_map_of ctx path =
     Option.bind (bc_prior_manifest ctx) (\<lambda>m. Option.bind (manifest_file_of m path) mf_block_map)"

text \<open>The branches of the loop body: a file in blocks, a small file in a bundle, an object of its own.\<close>

definition store_blocks ::
  "'s bundled_ctx \<Rightarrow> manifest_file \<Rightarrow> string \<Rightarrow> nat \<Rightarrow> bundle_state \<Rightarrow>
   ('s, command_error, manifest_file \<times> bundle_state) action" where
  "store_blocks ctx skeleton bytes bs b =
     act_bind (act_lift (build_block_map (bc_env ctx) (bc_transform ctx) (bc_label ctx) bytes bs
         (overrides_checksum_size (bc_block_overrides ctx) bs)
         (overrides_super_size (bc_block_overrides ctx) (bc_is_full ctx))
         (prior_map_of ctx (mf_path skeleton)) b)) (\<lambda>(bm, b).
     act_ok (skeleton\<lparr>mf_block_map := Some bm\<rparr>, b))"

definition store_in_bundle :: "manifest_file \<Rightarrow> string \<Rightarrow> bundle_state \<Rightarrow> manifest_file \<times> bundle_state" where
  "store_in_bundle skeleton repo_bytes b =
     (let (slot, packer) = place (length repo_bytes) (bst_packer b);
          i = sl_bundle_id slot
      in (skeleton\<lparr>mf_bundle_id := Some i, mf_bundle_offset := Some (sl_offset slot)\<rparr>,
          \<lparr>bst_bundles = bt_insert i (entry_or_default (bst_bundles b) i @ repo_bytes) (bst_bundles b),
           bst_packer = packer, bst_repo_size = bst_repo_size b\<rparr>))"

definition store_whole ::
  "'s bundled_ctx \<Rightarrow> copy_job \<Rightarrow> manifest_file \<Rightarrow> string \<Rightarrow> bundle_state \<Rightarrow>
   ('s, command_error, manifest_file \<times> bundle_state) action" where
  "store_whole ctx job skeleton bytes b =
     act_bind (act_lift (map_err CmdIo (apply_forward_keyed (bc_env ctx) (bc_transform ctx) bytes))) (\<lambda>repo_bytes.
       let b = b\<lparr>bst_repo_size := bst_repo_size b + length repo_bytes\<rparr> in
       if length repo_bytes \<le> bf_bundle_limit (bc_features ctx) then act_ok (store_in_bundle skeleton repo_bytes b)
       else act_bind (if so_is_local (bc_repo_storage ctx)
           then write_local (bc_std ctx) (cj_abs_dest job) repo_bytes
           else write_remote (bc_repo_storage ctx) (bc_repo_dirs ctx) (cj_rel_dest job) repo_bytes) (\<lambda>_.
         act_ok (skeleton, b)))"

definition copy_skeleton ::
  "'s bundled_ctx \<Rightarrow> manifest_file \<Rightarrow> copy_progress \<Rightarrow> ('s, command_error, copy_progress) action" where
  "copy_skeleton ctx skeleton cp =
     (case bt_get (cp_job_by_rel cp) (mf_path skeleton) of
        None \<Rightarrow> act_err (CmdOther (''no copy job for '' @ mf_path skeleton))
      | Some job \<Rightarrow>
          act_bind (job_retry_run (bc_job_retry ctx) (read_source (bc_pg_storage ctx) (bc_std ctx) job)) (\<lambda>bytes.
          act_bind (act_lift (plaintext_sha1 (bc_env ctx) bytes)) (\<lambda>csum.
          let filled = skeleton\<lparr>mf_checksum := Some csum, mf_checksum_page := page_outcome job bytes\<rparr> in
          act_bind (case block_size_for ctx skeleton of
              Some bs \<Rightarrow> store_blocks ctx filled bytes bs (cp_bundle cp)
            | None \<Rightarrow> store_whole ctx job filled bytes (cp_bundle cp)) (\<lambda>(entry, b).
          act_ok \<lparr>cp_files = cp_files cp @ [entry], cp_job_by_rel = bt_remove (mf_path skeleton) (cp_job_by_rel cp),
            cp_bundle = b\<rparr>))))"

fun copy_skeletons ::
  "'s bundled_ctx \<Rightarrow> manifest_file list \<Rightarrow> copy_progress \<Rightarrow> ('s, command_error, copy_progress) action" where
  "copy_skeletons ctx [] cp = act_ok cp"
| "copy_skeletons ctx (skeleton # skeletons) cp =
     act_bind (copy_skeleton ctx skeleton cp) (copy_skeletons ctx skeletons)"

definition flush_bundles :: "'s bundled_ctx \<Rightarrow> (nat, string) btree \<Rightarrow> ('s, command_error, unit) action" where
  "flush_bundles ctx bundles =
     act_bind (if bundles = [] then act_ok ()
       else act_map_err CmdStorage (do_create_path (bc_repo_dirs ctx) (bc_backup_root ctx @ ''/bundle'') True)) (\<lambda>_.
     act_for (\<lambda>(i, data). write_repo_file (bc_repo_storage ctx) (bundle_object_path (bc_backup_root ctx) i) data)
       bundles)"

definition run_bundled_copy_serial ::
  "'s bundled_ctx \<Rightarrow> ('s, command_error, manifest_file list \<times> nat) action" where
  "run_bundled_copy_serial ctx =
     act_bind (copy_skeletons ctx (bc_skeletons ctx)
         \<lparr>cp_files = bc_referenced ctx, cp_job_by_rel = jobs_by_rel (bc_jobs ctx),
          cp_bundle = \<lparr>bst_bundles = [], bst_packer = packer_new (bf_bundle_size (bc_features ctx)),
            bst_repo_size = 0\<rparr>\<rparr>) (\<lambda>cp.
     act_bind (flush_bundles ctx (bst_bundles (cp_bundle cp))) (\<lambda>_.
     act_ok (cp_files cp, bst_repo_size (cp_bundle cp))))"

end
