(* ===== verification/Restore_Source.thy ===== *)
theory Restore_Source
  imports Bundle_Run Parallel
begin

text \<open>
  Where a restore finds the bytes of a file, and how it writes them (\<open>crates/pgbr-command/src/restore.rs\<close>):
  \<open>BundleLayout\<close>, \<open>SourceResolver\<close> with its caches, \<open>read_bundle_slice\<close>, \<open>restore_file\<close>,
  \<open>restore_file_storage\<close>, \<open>build_bundle_cache\<close>, the serial part of \<open>run_restore_jobs\<close> and
  \<open>destination_absolute_path\<close>. The JSON values of \<open>backup.info\<close> and the codecs are parameters.
\<close>

section \<open>Sources\<close>

record block_source =
  bks_abs_bundle :: path
  bks_repo_bundle :: path
  bks_offset :: nat
  bks_len :: nat
  bks_transform :: repo_transform

datatype restore_source =
    Standalone path path repo_transform
  | Bundled path path nat nat repo_transform
  | Blocks "block_source list"

record restore_copy_job =
  rj_rel :: string
  rj_source :: restore_source
  rj_abs_dst :: path
  rj_expected_checksum :: "string option"
  rj_mode :: "nat option"

definition restore_manifest_path :: "string \<Rightarrow> string \<Rightarrow> path" where
  "restore_manifest_path stanza label = ''backup/'' @ stanza @ ''/'' @ label @ ''/backup.manifest''"

definition backup_file_path :: "string \<Rightarrow> string \<Rightarrow> string \<Rightarrow> path" where
  "backup_file_path stanza label rel = ''backup/'' @ stanza @ ''/'' @ label @ ''/'' @ rel"

definition backup_root_of :: "string \<Rightarrow> string \<Rightarrow> string" where
  "backup_root_of stanza label = ''backup/'' @ stanza @ ''/'' @ label"

section \<open>Slices of a bundle\<close>

definition reverse_keyed :: "filter_env \<Rightarrow> repo_transform \<Rightarrow> string \<Rightarrow> (command_error, string) result" where
  "reverse_keyed E t bytes = map_err CmdIo (apply_reverse_keyed E t bytes)"

text \<open>Out of range: the end of the slice does not fit \<open>usize\<close>, or lies behind the end of the bundle.\<close>

definition read_bundle_slice_buffered ::
  "filter_env \<Rightarrow> string \<Rightarrow> nat \<Rightarrow> nat \<Rightarrow> repo_transform \<Rightarrow> (command_error, string) result" where
  "read_bundle_slice_buffered E bundle offset len t =
     (if offset + len < u64_bound \<and> offset + len \<le> length bundle
      then reverse_keyed E t (slice bundle offset len)
      else Err (CmdOther (''bundle slice '' @ fmt_dec offset @ ''..+'' @ fmt_dec len @ '' out of range (len '' @
        fmt_dec (length bundle) @ '')'')))"

text \<open>\<open>open\<close>, \<open>seek\<close> and \<open>read_exact\<close> of \<open>len\<close> bytes; seeking behind the end is no error, reading there is.\<close>

definition read_bundle_slice ::
  "filter_env \<Rightarrow> 's std_fs \<Rightarrow> path \<Rightarrow> nat \<Rightarrow> nat \<Rightarrow> repo_transform \<Rightarrow> ('s, command_error, string) action" where
  "read_bundle_slice E std p offset len t =
     act_bind (act_map_err (std_err ''open'' p) (sf_read std p)) (\<lambda>bundle.
     act_lift (if i64_max < int offset then Err (std_err ''seek'' p (EOther ''Invalid argument''))
       else if len = 0 \<or> offset + len \<le> length bundle then reverse_keyed E t (slice bundle offset len)
       else Err (std_err ''read'' p (EOther ''failed to fill whole buffer''))))"

record bundle_layout =
  bl_bundle_size :: nat
  bl_offsets :: "nat list"

definition member_len :: "bundle_layout \<Rightarrow> nat \<Rightarrow> nat" where
  "member_len layout offset =
     (case find (\<lambda>o'. offset < o') (bl_offsets layout) of
        Some n \<Rightarrow> n
      | None \<Rightarrow> bl_bundle_size layout) - offset"

definition file_offsets :: "string \<Rightarrow> nat \<Rightarrow> manifest_file \<Rightarrow> nat list" where
  "file_offsets holder_label i f =
     (case mf_bundle_offset f of
        Some off \<Rightarrow> if mf_bundle_id f = Some i then [off] else []
      | None \<Rightarrow> []) @
     (case mf_block_map f of
        None \<Rightarrow> []
      | Some bm \<Rightarrow> map br_offset
          (filter (\<lambda>b. br_reference b = holder_label \<and> br_bundle_id b = i) (bm_blocks bm)))"

definition bundle_layout_of ::
  "'s dir_ops \<Rightarrow> string \<Rightarrow> string \<Rightarrow> manifest \<Rightarrow> nat \<Rightarrow> ('s, command_error, bundle_layout) action" where
  "bundle_layout_of dirs stanza holder_label m i =
     (let offsets = bs_of (concat (map (file_offsets holder_label i) (mn_files m)));
          p = bundle_object_path (backup_root_of stanza holder_label) i
      in act_bind (act_map_err CmdStorage (do_info dirs p)) (\<lambda>info.
           act_ok \<lparr>bl_bundle_size = si_size info, bl_offsets = offsets\<rparr>))"

section \<open>The resolver\<close>

record ('s, 'j) resolver =
  sr_repo :: "'s storage_ops"
  sr_dirs :: "'s dir_ops"
  sr_stanza :: string
  sr_config :: loaded_config
  sr_label :: string
  sr_transform :: repo_transform
  sr_manifest :: manifest
  sr_info :: "'j info_backup"
  sr_sub_key :: "string option"
  sr_env :: "'j info_env"
  sr_menv :: manifest_env
  sr_json :: "'j json_api"
  sr_as_bool :: "'j \<Rightarrow> bool option"

record source_cache =
  sc_manifests :: "(string, manifest) btree"
  sc_layouts :: "(string \<times> nat, bundle_layout) btree"

definition restore_transform ::
  "'j json_api \<Rightarrow> ('j \<Rightarrow> bool option) \<Rightarrow> 'j \<Rightarrow> loaded_config \<Rightarrow> string option \<Rightarrow> repo_transform" where
  "restore_transform J as_bool metadata config sub_key =
     (let base = transform_from_metadata J as_bool metadata config
      in transform_with_key (rt_compress_type base) (rt_compress_level base) sub_key)"

definition holder_transform :: "('s, 'j) resolver \<Rightarrow> string \<Rightarrow> repo_transform" where
  "holder_transform R holder_label =
     (if holder_label = sr_label R then sr_transform R
      else case bt_get (ib_current (sr_info R)) holder_label of
          None \<Rightarrow> sr_transform R
        | Some entry \<Rightarrow> restore_transform (sr_json R) (sr_as_bool R) entry (sr_config R) (sr_sub_key R))"

definition load_manifest ::
  "('s, 'j) resolver \<Rightarrow> string \<Rightarrow> source_cache \<Rightarrow> ('s, command_error, manifest \<times> source_cache) action" where
  "load_manifest R holder_label c =
     (case bt_get (sc_manifests c) holder_label of
        Some m \<Rightarrow> act_ok (m, c)
      | None \<Rightarrow>
          let p = restore_manifest_path (sr_stanza R) holder_label in
          act_bind (act_map_err (\<lambda>e. case e of
                IeStorage (NotFound _) \<Rightarrow> CmdStorage (NotFound p)
              | other \<Rightarrow> CmdOther (info_error_display other))
            (manifest_load_keyed (sr_repo R) (sr_env R) (sr_menv R) p (sr_sub_key R))) (\<lambda>m.
          act_ok (m, c\<lparr>sc_manifests := bt_insert holder_label m (sc_manifests c)\<rparr>)))"

definition layout_of ::
  "('s, 'j) resolver \<Rightarrow> string \<Rightarrow> nat \<Rightarrow> source_cache \<Rightarrow> ('s, command_error, bundle_layout \<times> source_cache) action" where
  "layout_of R holder_label i c =
     (case bt_get (sc_layouts c) (holder_label, i) of
        Some layout \<Rightarrow> act_ok (layout, c)
      | None \<Rightarrow>
          act_bind (if holder_label = sr_label R then act_ok (sr_manifest R, c) else load_manifest R holder_label c) (\<lambda>(m, c).
          act_bind (bundle_layout_of (sr_dirs R) (sr_stanza R) holder_label m i) (\<lambda>layout.
          act_ok (layout, c\<lparr>sc_layouts := bt_insert (holder_label, i) layout (sc_layouts c)\<rparr>))))"

text \<open>\<open>self.repo.info(..)?.path\<close> on a local repository; elsewhere the path is a placeholder.\<close>

definition local_path :: "('s, 'j) resolver \<Rightarrow> path \<Rightarrow> ('s, command_error, path) action" where
  "local_path R p =
     (if so_is_local (sr_repo R)
      then act_bind (act_map_err CmdStorage (do_info (sr_dirs R) p)) (\<lambda>info. act_ok (si_path info))
      else act_ok p)"

fun act_map :: "('x \<Rightarrow> ('s, 'e, 'y) action) \<Rightarrow> 'x list \<Rightarrow> ('s, 'e, 'y list) action" where
  "act_map f [] = act_ok []"
| "act_map f (x # xs) = act_bind (f x) (\<lambda>y. act_bind (act_map f xs) (\<lambda>ys. act_ok (y # ys)))"

definition block_source_of :: "('s, 'j) resolver \<Rightarrow> block_ref \<Rightarrow> ('s, command_error, block_source) action" where
  "block_source_of R b =
     (let repo_bundle = bundle_object_path (backup_root_of (sr_stanza R) (br_reference b)) (br_bundle_id b) in
      act_bind (local_path R repo_bundle) (\<lambda>abs_bundle.
      act_ok \<lparr>bks_abs_bundle = abs_bundle, bks_repo_bundle = repo_bundle, bks_offset = br_offset b,
        bks_len = br_size b, bks_transform = holder_transform R (br_reference b)\<rparr>))"

definition resolve_block_map :: "('s, 'j) resolver \<Rightarrow> block_map \<Rightarrow> ('s, command_error, restore_source) action" where
  "resolve_block_map R bm = act_bind (act_map (block_source_of R) (bm_blocks bm)) (\<lambda>sources. act_ok (Blocks sources))"

definition find_holder ::
  "('s, 'j) resolver \<Rightarrow> manifest_file \<Rightarrow> source_cache \<Rightarrow>
   ('s, command_error, (string \<times> manifest_file) \<times> source_cache) action" where
  "find_holder R f c =
     (case mf_reference f of
        None \<Rightarrow> act_ok ((sr_label R, f), c)
      | Some reference \<Rightarrow> act_bind (load_manifest R reference c) (\<lambda>(m, c).
          act_ok ((reference, case manifest_file_of m (mf_path f) of None \<Rightarrow> f | Some entry \<Rightarrow> entry), c)))"

definition resolve_whole ::
  "('s, 'j) resolver \<Rightarrow> manifest_file \<Rightarrow> string \<Rightarrow> manifest_file \<Rightarrow> source_cache \<Rightarrow>
   ('s, command_error, restore_source \<times> source_cache) action" where
  "resolve_whole R f holder_label holder_entry c =
     (let t = holder_transform R holder_label in
      case (mf_bundle_id holder_entry, mf_bundle_offset holder_entry) of
        (Some i, Some offset) \<Rightarrow>
          act_bind (layout_of R holder_label i c) (\<lambda>(layout, c).
          let repo_bundle = bundle_object_path (backup_root_of (sr_stanza R) holder_label) i in
          act_bind (local_path R repo_bundle) (\<lambda>abs_bundle.
          act_ok (Bundled abs_bundle repo_bundle offset (member_len layout offset) t, c)))
      | _ \<Rightarrow>
          let repo_src = backup_file_path (sr_stanza R) holder_label (mf_path f @ repo_suffix t) in
          act_bind (local_path R repo_src) (\<lambda>abs_src. act_ok (Standalone abs_src repo_src t, c)))"

definition resolve ::
  "('s, 'j) resolver \<Rightarrow> manifest_file \<Rightarrow> source_cache \<Rightarrow> ('s, command_error, restore_source \<times> source_cache) action" where
  "resolve R f c =
     (case mf_block_map f of
        Some bm \<Rightarrow> act_bind (resolve_block_map R bm) (\<lambda>src. act_ok (src, c))
      | None \<Rightarrow>
          act_bind (find_holder R f c) (\<lambda>((holder_label, holder_entry), c).
          case mf_block_map holder_entry of
            Some bm \<Rightarrow> act_bind (resolve_block_map R bm) (\<lambda>src. act_ok (src, c))
          | None \<Rightarrow> resolve_whole R f holder_label holder_entry c))"

section \<open>Writing a file\<close>

definition mode_bits :: "nat \<Rightarrow> nat" where
  "mode_bits m = m mod 4096"

definition apply_mode :: "'s std_fs \<Rightarrow> path \<Rightarrow> nat option \<Rightarrow> ('s, command_error, unit) action" where
  "apply_mode std p mode = (case mode of
       None \<Rightarrow> act_ok ()
     | Some m \<Rightarrow> act_map_err (std_err ''chmod'' p) (sf_chmod std p (mode_bits m)))"

definition write_and_verify ::
  "filter_env \<Rightarrow> 's std_fs \<Rightarrow> restore_copy_job \<Rightarrow> string \<Rightarrow> ('s, command_error, unit) action" where
  "write_and_verify E std job plaintext =
     act_bind (case path_parent (rj_abs_dst job) of
         None \<Rightarrow> act_ok ()
       | Some parent \<Rightarrow>
           if parent = [] then act_ok ()
           else act_map_err (std_err ''create'' parent) (sf_create_dir_all std parent)) (\<lambda>_.
     act_bind (act_map_err (std_err ''write'' (rj_abs_dst job)) (sf_write std (rj_abs_dst job) plaintext)) (\<lambda>_.
     act_bind (apply_mode std (rj_abs_dst job) (rj_mode job)) (\<lambda>_.
     act_bind (act_lift (plaintext_sha1 E plaintext)) (\<lambda>actual.
       case rj_expected_checksum job of
         Some expected \<Rightarrow>
           if actual \<noteq> expected then act_err (CmdOther (''restore checksum mismatch for '' @ rj_rel job)) else act_ok ()
       | None \<Rightarrow> act_ok ()))))"

section \<open>The local path\<close>

text \<open>\<open>bundle_cache\<close> maps the absolute path of a bundle to its bytes.\<close>

definition cached_slice ::
  "filter_env \<Rightarrow> 's std_fs \<Rightarrow> (path \<times> string) list \<Rightarrow> path \<Rightarrow> nat \<Rightarrow> nat \<Rightarrow> repo_transform \<Rightarrow>
   ('s, command_error, string) action" where
  "cached_slice E std cache abs_bundle offset len t =
     (case im_get cache abs_bundle of
        Some bytes \<Rightarrow> act_lift (read_bundle_slice_buffered E bytes offset len t)
      | None \<Rightarrow> read_bundle_slice E std abs_bundle offset len t)"

definition local_plaintext ::
  "filter_env \<Rightarrow> 's std_fs \<Rightarrow> (path \<times> string) list \<Rightarrow> restore_source \<Rightarrow> ('s, command_error, string) action" where
  "local_plaintext E std cache src = (case src of
       Standalone abs_src _ t \<Rightarrow>
         act_bind (act_map_err (std_err ''read'' abs_src) (sf_read std abs_src)) (\<lambda>bytes. act_lift (reverse_keyed E t bytes))
     | Bundled abs_bundle _ offset len t \<Rightarrow> cached_slice E std cache abs_bundle offset len t
     | Blocks blocks \<Rightarrow> act_bind (act_map (\<lambda>b. cached_slice E std cache (bks_abs_bundle b) (bks_offset b) (bks_len b)
           (bks_transform b)) blocks) (\<lambda>parts. act_ok (concat parts)))"

definition restore_file ::
  "filter_env \<Rightarrow> 's std_fs \<Rightarrow> restore_copy_job \<Rightarrow> (path \<times> string) list \<Rightarrow> ('s, command_error, unit) action" where
  "restore_file E std job cache = act_bind (local_plaintext E std cache (rj_source job)) (write_and_verify E std job)"

text \<open>The order in which the \<open>HashSet\<close> yields the paths is not fixed; the model takes the first occurrences.\<close>

definition source_bundles :: "restore_source \<Rightarrow> path list" where
  "source_bundles src = (case src of
       Standalone _ _ _ \<Rightarrow> []
     | Bundled abs_bundle _ _ _ _ \<Rightarrow> [abs_bundle]
     | Blocks blocks \<Rightarrow> map bks_abs_bundle blocks)"

definition build_bundle_cache ::
  "'s std_fs \<Rightarrow> bool \<Rightarrow> restore_copy_job list \<Rightarrow> ('s, command_error, (path \<times> string) list) action" where
  "build_bundle_cache std local jobs =
     (if \<not> local then act_ok []
      else act_map (\<lambda>p. act_bind (act_map_err (std_err ''read bundle'' p) (sf_read std p)) (\<lambda>bytes. act_ok (p, bytes)))
        (remdups (concat (map (source_bundles \<circ> rj_source) jobs))))"

section \<open>The path through the storage\<close>

definition read_repo_object :: "'s storage_ops \<Rightarrow> path \<Rightarrow> ('s, command_error, string) action" where
  "read_repo_object repo p = act_map_err command_error_from_storage (so_read repo p)"

text \<open>The blocks of one file, each bundle read once.\<close>

fun storage_blocks ::
  "filter_env \<Rightarrow> 's storage_ops \<Rightarrow> (path \<times> string) list \<Rightarrow> block_source list \<Rightarrow> ('s, command_error, string) action" where
  "storage_blocks E repo cache [] = act_ok []"
| "storage_blocks E repo cache (b # bs) =
     act_bind (case im_get cache (bks_repo_bundle b) of
         Some bytes \<Rightarrow> act_ok (bytes, cache)
       | None \<Rightarrow> act_bind (read_repo_object repo (bks_repo_bundle b)) (\<lambda>bytes.
           act_ok (bytes, im_insert (bks_repo_bundle b) bytes cache))) (\<lambda>(bundle, cache).
     act_bind (act_lift (read_bundle_slice_buffered E bundle (bks_offset b) (bks_len b) (bks_transform b))) (\<lambda>part.
     act_bind (storage_blocks E repo cache bs) (\<lambda>rest. act_ok (part @ rest))))"

definition storage_plaintext ::
  "filter_env \<Rightarrow> 's storage_ops \<Rightarrow> restore_source \<Rightarrow> ('s, command_error, string) action" where
  "storage_plaintext E repo src = (case src of
       Standalone _ repo_src t \<Rightarrow>
         act_bind (read_repo_object repo repo_src) (\<lambda>bytes. act_lift (reverse_keyed E t bytes))
     | Bundled _ repo_bundle offset len t \<Rightarrow>
         act_bind (read_repo_object repo repo_bundle) (\<lambda>bundle. act_lift (read_bundle_slice_buffered E bundle offset len t))
     | Blocks blocks \<Rightarrow> storage_blocks E repo [] blocks)"

definition restore_file_storage ::
  "filter_env \<Rightarrow> 's std_fs \<Rightarrow> restore_copy_job \<Rightarrow> 's storage_ops \<Rightarrow> ('s, command_error, unit) action" where
  "restore_file_storage E std job repo =
     act_bind (storage_plaintext E repo (rj_source job)) (write_and_verify E std job)"

text \<open>
  \<open>run_restore_jobs\<close>: one job after the other on a repository that is not local, worker threads on a local one.
  \<open>order\<close> is the order in which the workers take the jobs and \<open>arrival\<close> the order in which their results
  arrive (\<open>parallel_exactly_once\<close> shows that every run of the executor is such a pair); a worker finds its job
  by its name.
\<close>

definition restore_worker ::
  "filter_env \<Rightarrow> 's std_fs \<Rightarrow> nat \<Rightarrow> restore_copy_job list \<Rightarrow> (path \<times> string) list \<Rightarrow> string \<Rightarrow> ('s, string, unit) action" where
  "restore_worker E std retries jobs cache rel =
     (case find (\<lambda>job. rj_rel job = rel) (rev jobs) of
        None \<Rightarrow> act_err (''no restore job for '' @ rel)
      | Some job \<Rightarrow> act_map_err command_error_display (job_retry_run retries (restore_file E std job cache)))"

definition run_restore_jobs ::
  "filter_env \<Rightarrow> 's std_fs \<Rightarrow> (nat \<Rightarrow> nat list) \<Rightarrow> (nat \<Rightarrow> nat list) \<Rightarrow> restore_copy_job list \<Rightarrow>
   's storage_ops \<Rightarrow> nat \<Rightarrow> ('s, command_error, unit) action" where
  "run_restore_jobs E std order arrival jobs repo retries =
     (if jobs = [] then act_ok ()
      else if \<not> so_is_local repo then act_for (\<lambda>job. job_retry_run retries (restore_file_storage E std job repo)) jobs
      else act_bind (build_bundle_cache std True jobs) (\<lambda>cache s.
        let (results, t) = run_jobs (restore_worker E std retries jobs cache)
              (permute (order (length jobs)) (map rj_rel jobs)) s
        in (case find (\<lambda>(_, r). ok r = None) (permute (arrival (length jobs)) results) of
              Some (_, Inl message) \<Rightarrow> Err (CmdOther message)
            | _ \<Rightarrow> Ok (), t)))"

definition destination_absolute_path :: "'s dir_ops \<Rightarrow> path \<Rightarrow> ('s, command_error, path) action" where
  "destination_absolute_path dirs rel =
     act_bind (case path_parent rel of
         Some parent \<Rightarrow>
           if parent = [] then act_map_err CmdStorage (do_info dirs ''.'')
           else act_bind (act_map_err CmdStorage (do_create_path dirs parent True)) (\<lambda>_. act_map_err CmdStorage (do_info dirs parent))
       | None \<Rightarrow> act_map_err CmdStorage (do_info dirs ''.'')) (\<lambda>info.
     case file_name rel of
       Some name \<Rightarrow> act_ok (path_join (si_path info) name)
     | None \<Rightarrow> act_err (CmdOther (''cannot resolve absolute path for '' @ rel)))"

end
