(* ===== verification/Backup_Label.thy ===== *)
theory Backup_Label
  imports Label_Date Info_Files
begin

text \<open>
  The labels of backups (\<open>crates/pgbr-command/src/backup.rs\<close>): the civil date of a timestamp, the label
  of each type of backup, and the prior backups that a new label is derived from; with
  \<open>format_timestamp\<close> of \<open>info.rs\<close>.
\<close>

section \<open>Civil dates\<close>

definition civil_of_days :: "int \<Rightarrow> int \<times> int \<times> int" where
  "civil_of_days days =
     (let z = days + 719468;
          era = z div 146097;
          doe = z mod 146097;
          yoe = (doe - doe div 1460 + doe div 36524 - doe div 146096) div 365;
          year = yoe + era * 400;
          doy = doe - (365 * yoe + yoe div 4 - yoe div 100);
          mp = (5 * doy + 2) div 153;
          day = doy - (153 * mp + 2) div 5 + 1;
          month = (if mp < 10 then mp + 3 else mp - 9);
          year = (if month \<le> 2 then year + 1 else year)
      in (year, month, day))"

definition unix_to_civil :: "int \<Rightarrow> int \<times> int \<times> int \<times> int \<times> int \<times> int" where
  "unix_to_civil timestamp =
     (let secs = timestamp mod 86400;
          days = timestamp div 86400;
          hour = secs div 3600;
          minute = (secs mod 3600) div 60;
          second = secs mod 60;
          (year, month, day) = civil_of_days days
      in (year, month, day, hour, minute, second))"

text \<open>A day of an era as its century, four-year cycle, year and day of the year, which starts in March.\<close>

lemma year_of_era:
  fixes doe :: int
  assumes "0 \<le> doe" "doe < 146097"
  obtains c q t doy where "doe = 36524 * c + 1461 * q + 365 * t + doy"
    "0 \<le> c" "c \<le> 3" "0 \<le> q" "q \<le> 24" "0 \<le> t" "t \<le> 3" "0 \<le> doy" "doy \<le> 365"
    "doy = 365 \<longrightarrow> t = 3 \<and> (q = 24 \<longrightarrow> c = 3)"
proof -
  define c where "c = (if doe = 146096 then 3 else doe div 36524)"
  define r where "r = doe - 36524 * c"
  have c: "0 \<le> c" "c \<le> 3" "0 \<le> r" "r \<le> 36524" "r = 36524 \<longrightarrow> c = 3"
    using assms by (auto simp: c_def r_def)
  define q where "q = (if r = 36524 then 24 else r div 1461)"
  define s where "s = r - 1461 * q"
  have q: "0 \<le> q" "q \<le> 24" "0 \<le> s" "s \<le> 1460" "s = 1460 \<longrightarrow> q = 24 \<longrightarrow> r = 36524"
    using c by (auto simp: q_def s_def)
  define t where "t = (if s = 1460 then 3 else s div 365)"
  have t: "0 \<le> t" "t \<le> 3" "0 \<le> s - 365 * t" "s - 365 * t \<le> 365" "s - 365 * t = 365 \<longrightarrow> t = 3 \<and> s = 1460"
    using q by (auto simp: t_def)
  show ?thesis
    by (rule that [of c q t "s - 365 * t"]) (use c q t in \<open>auto simp: r_def s_def\<close>)
qed

lemma year_of_era_formula:
  fixes c q t doy :: int
  assumes "doe = 36524 * c + 1461 * q + 365 * t + doy"
    "0 \<le> c" "c \<le> 3" "0 \<le> q" "q \<le> 24" "0 \<le> t" "t \<le> 3" "0 \<le> doy" "doy \<le> 365"
    "doy = 365 \<longrightarrow> t = 3 \<and> (q = 24 \<longrightarrow> c = 3)"
  defines "yoe \<equiv> 100 * c + 4 * q + t"
  shows "(doe - doe div 1460 + doe div 36524 - doe div 146096) div 365 = yoe"
    "365 * yoe + yoe div 4 - yoe div 100 = 36524 * c + 1461 * q + 365 * t"
    "0 \<le> yoe" "yoe \<le> 399"
proof -
  show "365 * yoe + yoe div 4 - yoe div 100 = 36524 * c + 1461 * q + 365 * t"
  proof -
    have "yoe = t + 4 * (25 * c + q)" "yoe = (4 * q + t) + 100 * c" by (simp_all add: yoe_def)
    then have "yoe div 4 = 25 * c + q" "yoe div 100 = c" using assms by auto
    then show ?thesis by (simp add: yoe_def)
  qed
  show "0 \<le> yoe" "yoe \<le> 399" using assms by (auto simp: yoe_def)
  define u where "u = 24 * c + q + 365 * t + doy"
  define e where "e = u div 1460"
  define w where "w = 1461 * q + 365 * t + doy"
  have "doe = u + 1460 * (25 * c + q)" by (simp add: assms(1) u_def)
  then have d1: "doe div 1460 = 25 * c + q + e" by (simp add: e_def)
  have "doe = w + 36524 * c" by (simp add: assms(1) w_def)
  moreover have "w div 36524 = (if w = 36524 then 1 else 0)"
  proof -
    have "0 \<le> w" "w \<le> 36524" using assms(4-9) by (simp_all add: w_def)
    then show ?thesis by auto
  qed
  ultimately have d2: "doe div 36524 = c + (if w = 36524 then 1 else 0)" by simp
  have w: "w \<le> 36524" "doe = 36524 * c + w" using assms by (simp_all add: w_def)
  have "c = 3" if "w = 36524"
  proof -
    have "doy = 365" using that assms(5,7,9) unfolding w_def by linarith
    moreover have "q = 24" using that assms(5,7,9) unfolding w_def by linarith
    ultimately show ?thesis using assms(10) by blast
  qed
  then have "w = 36524 \<longleftrightarrow> doe = 146096" using w assms(3) by auto
  moreover have "0 \<le> doe" "doe \<le> 146096" using assms by auto
  ultimately have d3: "doe div 146096 = (if w = 36524 then 1 else 0)" by simp
  have "0 \<le> u" "u < 2920" using assms by (auto simp: u_def)
  then have e: "0 \<le> e" "e \<le> 1" "e = 1 \<longleftrightarrow> 1460 \<le> u" by (auto simp: e_def)
  then have "0 \<le> doy - e" "doy - e < 365" using assms by (auto simp: u_def)
  then have "(doy - e) div 365 = 0" by simp
  moreover have "doe - doe div 1460 + doe div 36524 - doe div 146096 = (doy - e) + 365 * yoe"
    unfolding d1 d2 d3 by (simp add: assms(1) yoe_def)
  ultimately show "(doe - doe div 1460 + doe div 36524 - doe div 146096) div 365 = yoe" by simp
qed


definition march_year :: "int \<Rightarrow> int" where
  "march_year y = 365 * y + leap_days y"

definition march_month :: "int \<Rightarrow> int" where
  "march_month mp = (153 * mp + 2) div 5"

lemma march_year_mono: "y < z \<Longrightarrow> march_year y + 365 + (if is_leap (y + 1) then 1 else 0) \<le> march_year z"
proof -
  have step: "march_year (y + 1) = march_year y + 365 + (if is_leap (y + 1) then 1 else 0)" for y
    using leap_step [of "y + 1"] by (simp add: march_year_def)
  have "march_year a \<le> march_year b" if "a \<le> b" for a b
    using that
  proof (induction b rule: int_ge_induct)
    case (step i)
    then show ?case using \<open>\<And>y. march_year (y + 1) = _\<close> [of i] by (simp split: if_splits)
  qed simp
  from this [of "y + 1" z] show "y < z \<Longrightarrow> ?thesis" unfolding step by simp
qed

lemma month_of_year:
  fixes doy :: int
  assumes "0 \<le> doy" "doy \<le> 365"
  shows "0 \<le> (5 * doy + 2) div 153 \<and> (5 * doy + 2) div 153 \<le> 11 \<and>
    1 \<le> doy - march_month ((5 * doy + 2) div 153) + 1 \<and> doy - march_month ((5 * doy + 2) div 153) + 1 \<le> 31"
proof -
  define mp where "mp = (5 * doy + 2) div 153"
  have mp: "153 * mp \<le> 5 * doy + 2" "5 * doy + 2 < 153 * mp + 153" unfolding mp_def by presburger+
  then have "0 \<le> mp" "mp \<le> 11" using assms by linarith+
  have g: "5 * march_month mp \<le> 153 * mp + 2" "153 * mp + 2 < 5 * march_month mp + 5"
    unfolding march_month_def by presburger+
  have "5 * march_month mp < 5 * (doy + 1)" using mp(1) g(1) by simp
  moreover have "5 * doy < 5 * (march_month mp + 31)" using mp(2) g(2) by simp
  ultimately show ?thesis using \<open>0 \<le> mp\<close> \<open>mp \<le> 11\<close> unfolding mp_def [symmetric] by simp
qed

text \<open>The date of a day, by the year that starts in March and the day of that year.\<close>

lemma civil_cases:
  obtains y doy where "n = march_year y + doy - 719468" "0 \<le> doy" "doy < 365 + (if is_leap (y + 1) then 1 else 0)"
    "civil_of_days n = (let mp = (5 * doy + 2) div 153 in
       (if mp < 10 then y else y + 1, if mp < 10 then mp + 3 else mp - 9, doy - march_month mp + 1))"
proof -
  define era where "era = (n + 719468) div 146097"
  define doe where "doe = (n + 719468) mod 146097"
  have doe: "0 \<le> doe" "doe < 146097" "n + 719468 = 146097 * era + doe" by (simp_all add: doe_def era_def)
  from year_of_era [OF doe(1,2)] obtain c q t doy where
    parts: "doe = 36524 * c + 1461 * q + 365 * t + doy" "0 \<le> c" "c \<le> 3" "0 \<le> q" "q \<le> 24" "0 \<le> t" "t \<le> 3"
      "0 \<le> doy" "doy \<le> 365" "doy = 365 \<longrightarrow> t = 3 \<and> (q = 24 \<longrightarrow> c = 3)" .
  note yoe = year_of_era_formula [OF this]
  define y where "y = 100 * c + 4 * q + t + era * 400"
  have "leap_days y = leap_days (100 * c + 4 * q + t) + 97 * era"
  proof -
    have era_div: "(a + 4 * (100 * era)) div 4 = a div 4 + 100 * era" "(a + 100 * (4 * era)) div 100 = a div 100 + 4 * era"
      "(a + 400 * era) div 400 = a div 400 + era" for a :: int by (simp_all only: div_mult_self2 numeral_neq_zero add.commute not_False_eq_True)
    have "y = (100 * c + 4 * q + t) + 4 * (100 * era)" "y = (100 * c + 4 * q + t) + 100 * (4 * era)"
      "y = (100 * c + 4 * q + t) + 400 * era"
      by (simp_all add: y_def)
    then have "y div 4 = (100 * c + 4 * q + t) div 4 + 100 * era" "y div 100 = (100 * c + 4 * q + t) div 100 + 4 * era"
      "y div 400 = (100 * c + 4 * q + t) div 400 + era"
      using era_div by metis+
    then show ?thesis by (simp add: leap_days_def)
  qed
  moreover have "(100 * c + 4 * q + t) div 400 = 0" using yoe(3,4) by simp
  ultimately have n: "n = march_year y + doy - 719468"
    using doe(3) parts(1) yoe(2) by (simp add: march_year_def leap_days_def y_def)
  have leap: "is_leap (y + 1)" if "doy = 365"
  proof -
    have t: "t = 3" "q = 24 \<longrightarrow> c = 3" using parts(10) that by blast+
    have "y + 1 = 4 * (25 * c + q + 1 + 100 * era)" by (simp add: y_def t)
    then have "4 dvd y + 1" by simp
    moreover have "400 dvd y + 1" if "100 dvd y + 1"
    proof -
      have "y + 1 = 4 * (q + 1) + 100 * (c + 4 * era)" by (simp add: y_def t)
      then have "100 dvd 4 * (q + 1)" using that by (metis dvd_add_left_iff dvd_triv_left)
      then have "q = 24" using parts(4,5) by presburger
      then have "y + 1 = 400 * (1 + era)" using t by (simp add: y_def)
      then show ?thesis by simp
    qed
    ultimately show ?thesis by (auto simp: is_leap_def)
  qed
  have mp: "0 \<le> (5 * doy + 2) div 153" "(5 * doy + 2) div 153 \<le> 11"
    using month_of_year parts(8,9) by blast+
  show ?thesis
  proof (rule that [of y doy])
    show "civil_of_days n = (let mp = (5 * doy + 2) div 153 in
       (if mp < 10 then y else y + 1, if mp < 10 then mp + 3 else mp - 9, doy - march_month mp + 1))"
      using mp
      unfolding civil_of_days_def Let_def doe_def [symmetric] era_def [symmetric] yoe(1) yoe(2) march_month_def
      by (simp add: parts(1) y_def)
  qed (use n parts(8,9) leap in force)+
qed


lemma civil_roundtrip:
  assumes "civil_of_days n = (y, m, d)"
  shows "days_from_civil y m d = n" "1 \<le> m" "m \<le> 12" "1 \<le> d" "d \<le> 31"
proof -
  obtain z doy where n: "n = march_year z + doy - 719468" "0 \<le> doy" "doy < 365 + (if is_leap (z + 1) then 1 else 0)"
    and c: "civil_of_days n = (let mp = (5 * doy + 2) div 153 in
      (if mp < 10 then z else z + 1, if mp < 10 then mp + 3 else mp - 9, doy - march_month mp + 1))"
    by (rule civil_cases)
  define mp where "mp = (5 * doy + 2) div 153"
  have "doy \<le> 365" using n(3) by (simp split: if_splits)
  note b = month_of_year [OF n(2) this, folded mp_def]
  have e: "y = (if mp < 10 then z else z + 1)" "m = (if mp < 10 then mp + 3 else mp - 9)" "d = doy - march_month mp + 1"
    using c assms by (simp_all add: mp_def Let_def)
  show m: "1 \<le> m" "m \<le> 12" and "1 \<le> d" "d \<le> 31" using b by (auto simp: e)
  have "(if m \<le> 2 then y - 1 else y) = z" "(if m > 2 then m - 3 else m + 9) = mp" using b by (auto simp: e)
  then show "days_from_civil y m d = n"
    by (simp add: days_from_civil_floor [OF m] Let_def n(1) march_year_def march_month_def e(3))
qed

definition date_code :: "int \<times> int \<times> int \<Rightarrow> int" where
  "date_code date = (case date of (y, m, d) \<Rightarrow> y * 10000 + m * 100 + d)"

lemma civil_mono:
  assumes "n < n'"
  shows "date_code (civil_of_days n) < date_code (civil_of_days n')"
proof -
  have parts: "\<exists>y doy mp. n = march_year y + doy - 719468 \<and> 0 \<le> doy \<and> doy < 365 + (if is_leap (y + 1) then 1 else 0) \<and>
    mp = (5 * doy + 2) div 153 \<and> 0 \<le> mp \<and> mp \<le> 11 \<and> 1 \<le> doy - march_month mp + 1 \<and> doy - march_month mp + 1 \<le> 31 \<and>
    date_code (civil_of_days n) = (100 * y + mp + (if mp < 10 then 3 else 91)) * 100 + (doy - march_month mp + 1)" for n
  proof -
    obtain y doy where n: "n = march_year y + doy - 719468" "0 \<le> doy" "doy < 365 + (if is_leap (y + 1) then 1 else 0)"
      "civil_of_days n = (let mp = (5 * doy + 2) div 153 in
      (if mp < 10 then y else y + 1, if mp < 10 then mp + 3 else mp - 9, doy - march_month mp + 1))"
      by (rule civil_cases)
    define mp where "mp = (5 * doy + 2) div 153"
    have "doy \<le> 365" using n(3) by (simp split: if_splits)
    note b = month_of_year [OF n(2) this, folded mp_def]
    have "date_code (civil_of_days n) = (100 * y + mp + (if mp < 10 then 3 else 91)) * 100 + (doy - march_month mp + 1)"
      unfolding n(4) mp_def [symmetric] Let_def date_code_def by simp
    then show ?thesis using n(1-3) b mp_def by blast
  qed
  obtain y doy mp where a: "n = march_year y + doy - 719468" "0 \<le> doy" "doy < 365 + (if is_leap (y + 1) then 1 else 0)"
    "mp = (5 * doy + 2) div 153" "0 \<le> mp" "mp \<le> 11" "1 \<le> doy - march_month mp + 1" "doy - march_month mp + 1 \<le> 31"
    "date_code (civil_of_days n) = (100 * y + mp + (if mp < 10 then 3 else 91)) * 100 + (doy - march_month mp + 1)"
    using parts [of n] by blast
  obtain y' doy' mp' where b: "n' = march_year y' + doy' - 719468" "0 \<le> doy'" "doy' < 365 + (if is_leap (y' + 1) then 1 else 0)"
    "mp' = (5 * doy' + 2) div 153" "0 \<le> mp'" "mp' \<le> 11" "1 \<le> doy' - march_month mp' + 1" "doy' - march_month mp' + 1 \<le> 31"
    "date_code (civil_of_days n') = (100 * y' + mp' + (if mp' < 10 then 3 else 91)) * 100 + (doy' - march_month mp' + 1)"
    using parts [of n'] by blast
  have "\<not> y' < y" using march_year_mono [of y' y] assms a(1,2) b(1,3) by linarith
  moreover have ?thesis if "y < y'" using that a(5,6,8) b(5-7) unfolding a(9) b(9) by auto
  moreover have ?thesis if "y = y'"
  proof -
    have doy: "doy < doy'" using assms a(1) b(1) that by simp
    then have "mp \<le> mp'" unfolding a(4) b(4) by (intro zdiv_mono1) simp_all
    then consider "mp = mp'" | "mp < mp'" by linarith
    then show ?thesis
    proof cases
      case 1
      then show ?thesis using doy that unfolding a(9) b(9) by simp
    next
      case 2
      then show ?thesis using that a(8) b(7) unfolding a(9) b(9) by auto
    qed
  qed
  ultimately show ?thesis by linarith
qed

section \<open>Decimal digits\<close>

fun dec_digits :: "nat \<Rightarrow> nat \<Rightarrow> string" where
  "dec_digits 0 n = []"
| "dec_digits (Suc w) n = dec_digits w (n div 10) @ [digit_char (n mod 10)]"

text \<open>\<open>{:0w}\<close> of an unsigned and of a signed number; the sign counts.\<close>

definition fmt_dec_pad :: "nat \<Rightarrow> nat \<Rightarrow> string" where
  "fmt_dec_pad w n = replicate (w - length (fmt_dec n)) (CHR ''0'') @ fmt_dec n"

definition fmt_int_pad :: "nat \<Rightarrow> int \<Rightarrow> string" where
  "fmt_int_pad w i = (if i < 0 then ''-'' @ fmt_dec_pad (w - 1) (nat (- i)) else fmt_dec_pad w (nat i))"

lemma length_dec_digits [simp]: "length (dec_digits w n) = w"
  by (induction w arbitrary: n) auto

lemma dec_digits_digit: "c \<in> set (dec_digits w n) \<Longrightarrow> is_ascii_digit c"
  by (induction w arbitrary: n) auto

lemma digits_val_dec_digits: "digits_val 10 0 (dec_digits w n) = Some (n mod 10 ^ w)"
proof (induction w arbitrary: n)
  case (Suc w)
  have "n mod 10 ^ Suc w = 10 * (n div 10 mod 10 ^ w) + n mod 10"
    by (simp add: mod_mult2_eq)
  with Suc show ?case by (simp add: digits_val_append mult.commute)
qed simp

lemma parse_i64_dec_digits:
  assumes "0 < w" "w \<le> 18" "n < 10 ^ w"
  shows "parse_i64 (dec_digits w n) = Some (int n)"
proof -
  have "(10::nat) ^ w \<le> 10 ^ 18" using assms(2) by (intro power_increasing) simp_all
  moreover have "(10::nat) ^ 18 < 2 ^ 63" by simp
  ultimately have "n < 2 ^ 63" using assms(3) by linarith
  moreover have "dec_digits w n \<noteq> []" using assms(1) by (metis length_dec_digits less_numeral_extra(3) list.size(3))
  moreover have digits: "\<forall>c \<in> set (dec_digits w n). is_ascii_hexdigit c" using dec_digits_digit hexdigit_if_digit by blast
  ultimately have "from_str_radix (2 ^ 63) 10 (dec_digits w n) = Some n"
    using assms(3) by (subst from_str_radix_digits) (simp_all add: digits_val_dec_digits)
  then show ?thesis using no_sign(2) [OF digits] by (simp add: parse_i64_def)
qed

lemma dec_digits_eq_fmt: "n < 10 ^ w \<Longrightarrow> 0 < w \<Longrightarrow> fmt_dec_pad w n = dec_digits w n"
proof (induction w arbitrary: n)
  case (Suc w)
  show ?case
  proof (cases "n < 10")
    case True
    have "dec_digits w 0 = replicate w (CHR ''0'')" for w
      by (induction w) (simp_all add: digit_char_0 replicate_append_same)
    with True show ?thesis
      by (simp add: fmt_dec_pad_def fmt_dec_def fmt_radix.simps [of 10 n])
  next
    case False
    with Suc.prems have "0 < w" by (cases w) auto
    moreover have "n div 10 < 10 ^ w" using Suc.prems by (simp add: less_mult_imp_div_less mult.commute)
    ultimately have "fmt_dec_pad w (n div 10) = dec_digits w (n div 10)" using Suc.IH by simp
    moreover have "fmt_radix 10 n = fmt_radix 10 (n div 10) @ [digit_char (n mod 10)]"
      using False by (subst fmt_radix.simps) simp
    ultimately show ?thesis by (simp add: fmt_dec_pad_def fmt_dec_def)
  qed
qed simp

lemma dec_digits_append:
  "n < 10 ^ b \<Longrightarrow> dec_digits a m @ dec_digits b n = dec_digits (a + b) (m * 10 ^ b + n)"
proof (induction b arbitrary: n)
  case (Suc b)
  have "n div 10 < 10 ^ b" using Suc.prems by (simp add: less_mult_imp_div_less mult.commute)
  moreover have "(m * 10 ^ Suc b + n) div 10 = m * 10 ^ b + n div 10" "(m * 10 ^ Suc b + n) mod 10 = n mod 10"
    by (simp_all add: mult.left_commute [of m 10])
  ultimately show ?case using Suc.IH [of "n div 10"] by (simp del: power_Suc flip: append_assoc)
qed simp

lemma dec_digits_less_iff:
  assumes "m < 10 ^ w" "n < 10 ^ w"
  shows "dec_digits w m < dec_digits w n \<longleftrightarrow> m < n"
  using assms
proof (induction w arbitrary: m n)
  case (Suc w)
  have b: "m div 10 < 10 ^ w" "n div 10 < 10 ^ w"
    using Suc.prems by (simp_all add: less_mult_imp_div_less mult.commute)
  have eq: "dec_digits w (m div 10) = dec_digits w (n div 10) \<longleftrightarrow> m div 10 = n div 10"
    using b by (metis digits_val_dec_digits mod_less option.inject)
  have "dec_digits (Suc w) m < dec_digits (Suc w) n \<longleftrightarrow>
      m div 10 < n div 10 \<or> (m div 10 = n div 10 \<and> m mod 10 < n mod 10)"
    using Suc.IH [OF b] eq by (simp add: list_less_append digit_char_less_iff)
  also have "\<dots> \<longleftrightarrow> m < n"
  proof -
    have "m = 10 * (m div 10) + m mod 10" "n = 10 * (n div 10) + n mod 10" by simp_all
    moreover have "m mod 10 < 10" "n mod 10 < 10" by simp_all
    ultimately show ?thesis by linarith
  qed
  finally show ?case .
qed simp


section \<open>Labels\<close>

datatype backup_type = BtFull | BtDiff | BtIncr

fun backup_type_str :: "backup_type \<Rightarrow> string" where
  "backup_type_str BtFull = ''full''"
| "backup_type_str BtDiff = ''diff''"
| "backup_type_str BtIncr = ''incr''"

text \<open>The civil time of a label: \<open>{year:04}{month:02}{day:02}-{hour:02}{minute:02}{second:02}\<close>.\<close>

definition label_stamp :: "int \<Rightarrow> string" where
  "label_stamp timestamp =
     (let (year, month, day, hour, minute, second) = unix_to_civil timestamp in
      fmt_int_pad 4 year @ fmt_dec_pad 2 (nat month) @ fmt_dec_pad 2 (nat day) @ ''-'' @
      fmt_dec_pad 2 (nat hour) @ fmt_dec_pad 2 (nat minute) @ fmt_dec_pad 2 (nat second))"

definition full_backup_label :: "int \<Rightarrow> string" where
  "full_backup_label timestamp = label_stamp timestamp @ ''F''"

definition diff_backup_label :: "string \<Rightarrow> int \<Rightarrow> string" where
  "diff_backup_label full_label timestamp = full_label @ ''_'' @ label_stamp timestamp @ ''D''"

definition incr_backup_label :: "string \<Rightarrow> int \<Rightarrow> string" where
  "incr_backup_label full_root timestamp = full_root @ ''_'' @ label_stamp timestamp @ ''I''"

definition full_root_label :: "string \<Rightarrow> string" where
  "full_root_label label = (case split_once (CHR ''_'') label of None \<Rightarrow> label | Some (r, _) \<Rightarrow> r)"

definition unwrap_or_default :: "string option \<Rightarrow> string" where
  "unwrap_or_default x = (case x of None \<Rightarrow> [] | Some s \<Rightarrow> s)"

fun derive_label :: "backup_type \<Rightarrow> string option \<Rightarrow> int \<Rightarrow> string" where
  "derive_label BtFull prior_label timestamp = full_backup_label timestamp"
| "derive_label BtDiff prior_label timestamp = diff_backup_label (unwrap_or_default prior_label) timestamp"
| "derive_label BtIncr prior_label timestamp =
     incr_backup_label (full_root_label (unwrap_or_default prior_label)) timestamp"

definition entry_type :: "'j json_api \<Rightarrow> 'j \<Rightarrow> string option" where
  "entry_type J entry = Option.bind (j_get J entry ''backup-type'') (j_as_str J)"

definition latest_full_label :: "'j json_api \<Rightarrow> (string, 'j) btree \<Rightarrow> string option" where
  "latest_full_label J current = map_option fst (find (\<lambda>(_, entry). entry_type J entry = Some ''full'') (rev current))"

definition latest_any_label :: "(string, 'j) btree \<Rightarrow> string option" where
  "latest_any_label current = (if current = [] then None else Some (fst (last current)))"

text \<open>
  The label of a new backup: the prior of its type, without one a full backup (\<open>resolve_prior\<close> and
  \<open>run_backup\<close>).
\<close>

definition prior_label_of :: "'j json_api \<Rightarrow> (string, 'j) btree \<Rightarrow> backup_type \<Rightarrow> string option" where
  "prior_label_of J current ty = (case ty of
       BtFull \<Rightarrow> None
     | BtDiff \<Rightarrow> latest_full_label J current
     | BtIncr \<Rightarrow> latest_any_label current)"

definition promoted_type :: "backup_type \<Rightarrow> string option \<Rightarrow> backup_type" where
  "promoted_type ty prior = (if prior = None \<and> ty \<noteq> BtFull then BtFull else ty)"

definition new_label :: "'j json_api \<Rightarrow> (string, 'j) btree \<Rightarrow> backup_type \<Rightarrow> int \<Rightarrow> string" where
  "new_label J current ty timestamp =
     (let prior = prior_label_of J current ty in derive_label (promoted_type ty prior) prior timestamp)"

section \<open>Labels sort by time\<close>

text \<open>The timestamps of the years 0 to 9999, whose labels have four digits for the year.\<close>

definition four_digit_year :: "int \<Rightarrow> bool" where
  "four_digit_year timestamp = (case unix_to_civil timestamp of (year, _) \<Rightarrow> 0 \<le> year \<and> year \<le> 9999)"

definition time_code :: "int \<Rightarrow> int" where
  "time_code secs = (secs div 3600) * 10000 + ((secs mod 3600) div 60) * 100 + secs mod 60"

lemma time_parts:
  fixes secs :: int
  assumes "0 \<le> secs" "secs < 86400"
  shows "0 \<le> secs div 3600" "secs div 3600 \<le> 23" "0 \<le> (secs mod 3600) div 60" "(secs mod 3600) div 60 \<le> 59"
    "0 \<le> secs mod 60" "secs mod 60 \<le> 59" "secs = 3600 * (secs div 3600) + 60 * ((secs mod 3600) div 60) + secs mod 60"
proof -
  show "0 \<le> secs div 3600" "secs div 3600 \<le> 23" using assms by auto
  have "0 \<le> secs mod 3600" "secs mod 3600 < 3600" by simp_all
  then show "0 \<le> (secs mod 3600) div 60" "(secs mod 3600) div 60 \<le> 59" by auto
  show "0 \<le> secs mod 60" "secs mod 60 \<le> 59" by auto
  have "secs mod 3600 mod 60 = secs mod 60" by (simp add: mod_mod_cancel)
  then have "secs mod 3600 = 60 * ((secs mod 3600) div 60) + secs mod 60"
    using mult_div_mod_eq [of 60 "secs mod 3600"] by simp
  then show "secs = 3600 * (secs div 3600) + 60 * ((secs mod 3600) div 60) + secs mod 60"
    using mult_div_mod_eq [of 3600 secs] by linarith
qed

lemma time_code_less_iff:
  assumes "0 \<le> a" "a < 86400" "0 \<le> b" "b < 86400"
  shows "time_code a < time_code b \<longleftrightarrow> a < b"
proof -
  have carry: "60 * m + s < 60 * m' + s' \<Longrightarrow> 0 \<le> s \<Longrightarrow> s \<le> 59 \<Longrightarrow> 0 \<le> s' \<Longrightarrow> s' \<le> 59 \<Longrightarrow>
      100 * m + s < 100 * m' + s'" for m s m' s' :: int
  proof -
    assume a: "60 * m + s < 60 * m' + s'" "0 \<le> s" "s \<le> 59" "0 \<le> s'" "s' \<le> 59"
    then have "60 * m < 60 * (m' + 1)" by simp
    then have "m = m' \<or> m + 1 \<le> m'" by auto
    then show ?thesis using a by auto
  qed
  have less: "time_code a < time_code b" if "0 \<le> a" "a < 86400" "0 \<le> b" "b < 86400" "a < b" for a b
  proof -
    note p = time_parts [OF that(1,2)] and q = time_parts [OF that(3,4)]
    have h: "a div 3600 \<le> b div 3600" using that(5) by (simp add: zdiv_mono1)
    show ?thesis
    proof (cases "a div 3600 = b div 3600")
      case True
      then have "60 * ((a mod 3600) div 60) + a mod 60 < 60 * ((b mod 3600) div 60) + b mod 60"
        using p(7) q(7) that(5) by linarith
      then have "100 * ((a mod 3600) div 60) + a mod 60 < 100 * ((b mod 3600) div 60) + b mod 60"
        by (rule carry [OF _ p(5,6) q(5,6)])
      with True show ?thesis unfolding time_code_def by linarith
    next
      case False
      then have "a div 3600 + 1 \<le> b div 3600" using h by linarith
      then show ?thesis unfolding time_code_def using p(4,6) q(3,5) by linarith
    qed
  qed
  show ?thesis
  proof
    assume "time_code a < time_code b"
    then show "a < b" using less [OF assms(3,4,1,2)] by (metis linorder_neqE_linordered_idom order_less_irrefl order_less_trans)
  next
    assume "a < b"
    then show "time_code a < time_code b" by (rule less [OF assms])
  qed
qed


text \<open>The fields of a timestamp.\<close>

lemma civil_fields:
  assumes "four_digit_year t"
  obtains y m d h n s where "unix_to_civil t = (y, m, d, h, n, s)" "civil_of_days (t div 86400) = (y, m, d)"
    "0 \<le> y" "y \<le> 9999" "1 \<le> m" "m \<le> 12" "1 \<le> d" "d \<le> 31"
    "0 \<le> h" "h \<le> 23" "0 \<le> n" "n \<le> 59" "0 \<le> s" "s \<le> 59"
    "t mod 86400 = 3600 * h + 60 * n + s" "time_code (t mod 86400) = (h * 100 + n) * 100 + s"
    "days_from_civil y m d = t div 86400"
proof -
  obtain y m d where c: "civil_of_days (t div 86400) = (y, m, d)" by (cases "civil_of_days (t div 86400)")
  have y: "0 \<le> y" "y \<le> 9999" using assms(1) c by (simp_all add: four_digit_year_def unix_to_civil_def Let_def)
  define h where "h = (t mod 86400) div 3600"
  define n where "n = ((t mod 86400) mod 3600) div 60"
  define s where "s = (t mod 86400) mod 60"
  have "0 \<le> t mod 86400" "t mod 86400 < 86400" by simp_all
  note p = time_parts [OF this, folded h_def n_def s_def]
  have "unix_to_civil t = (y, m, d, h, n, s)"
    by (simp only: unix_to_civil_def c h_def n_def s_def Let_def prod.case)
  moreover have "time_code (t mod 86400) = (h * 100 + n) * 100 + s" by (simp add: time_code_def h_def n_def s_def)
  ultimately show ?thesis
    using that c y civil_roundtrip [OF c] p by blast
qed

lemma label_stamp_fields:
  assumes "unix_to_civil t = (y, m, d, h, n, s)" "0 \<le> y" "y \<le> 9999" "1 \<le> m" "m \<le> 12" "1 \<le> d" "d \<le> 31"
    "0 \<le> h" "h \<le> 23" "0 \<le> n" "n \<le> 59" "0 \<le> s" "s \<le> 59"
  shows "label_stamp t = dec_digits 4 (nat y) @ dec_digits 2 (nat m) @ dec_digits 2 (nat d) @ ''-'' @
      dec_digits 2 (nat h) @ dec_digits 2 (nat n) @ dec_digits 2 (nat s)"
proof -
  have "fmt_int_pad 4 y = dec_digits 4 (nat y)" using assms(2,3) by (simp add: fmt_int_pad_def dec_digits_eq_fmt nat_less_iff)
  moreover have "fmt_dec_pad 2 (nat k) = dec_digits 2 (nat k)" if "0 \<le> k" "k < 100" for k
    using that by (simp add: dec_digits_eq_fmt nat_less_iff)
  ultimately show ?thesis
    using assms(4-) by (simp add: label_stamp_def assms(1))
qed

lemma label_stamp_digits:
  assumes "four_digit_year t"
  defines "date \<equiv> nat (date_code (civil_of_days (t div 86400)))" and "time \<equiv> nat (time_code (t mod 86400))"
  shows "label_stamp t = dec_digits 8 date @ ''-'' @ dec_digits 6 time" "date < 10 ^ 8" "time < 10 ^ 6"
    "0 \<le> date_code (civil_of_days (t div 86400))" "0 \<le> time_code (t mod 86400)"
proof -
  from assms(1) obtain y m d h n s where f: "unix_to_civil t = (y, m, d, h, n, s)" "civil_of_days (t div 86400) = (y, m, d)"
    and b: "0 \<le> y" "y \<le> 9999" "1 \<le> m" "m \<le> 12" "1 \<le> d" "d \<le> 31" "0 \<le> h" "h \<le> 23" "0 \<le> n" "n \<le> 59" "0 \<le> s" "s \<le> 59"
    and tc: "time_code (t mod 86400) = (h * 100 + n) * 100 + s"
    by (rule civil_fields)
  have dc: "date_code (civil_of_days (t div 86400)) = (y * 100 + m) * 100 + d" by (simp add: f(2) date_code_def)
  show "0 \<le> date_code (civil_of_days (t div 86400))" "0 \<le> time_code (t mod 86400)"
    using b unfolding dc tc by simp_all
  show "date < 10 ^ 8" "time < 10 ^ 6"
    using b unfolding date_def time_def dc tc by (simp_all add: nat_less_iff)
  have date_nat: "date = (nat y * 10 ^ 2 + nat m) * 10 ^ 2 + nat d" and time_nat: "time = (nat h * 10 ^ 2 + nat n) * 10 ^ 2 + nat s"
    using b unfolding date_def time_def dc tc by (simp_all add: nat_add_distrib nat_mult_distrib)
  have "dec_digits 8 date = dec_digits 4 (nat y) @ dec_digits 2 (nat m) @ dec_digits 2 (nat d)"
    using b by (simp add: date_nat dec_digits_append nat_less_iff algebra_simps flip: append_assoc)
  moreover have "dec_digits 6 time = dec_digits 2 (nat h) @ dec_digits 2 (nat n) @ dec_digits 2 (nat s)"
    using b by (simp add: time_nat dec_digits_append nat_less_iff algebra_simps flip: append_assoc)
  ultimately show "label_stamp t = dec_digits 8 date @ ''-'' @ dec_digits 6 time"
    using label_stamp_fields [OF f(1) b] by simp
qed

lemma length_label_stamp: "four_digit_year t \<Longrightarrow> length (label_stamp t) = 15"
  by (simp add: label_stamp_digits(1))

lemma label_stamp_mono:
  assumes "four_digit_year a" "four_digit_year b" "a < b"
  shows "label_stamp a < label_stamp b"
proof -
  note A = label_stamp_digits [OF assms(1)] and B = label_stamp_digits [OF assms(2)]
  have "a div 86400 \<le> b div 86400" using assms(3) by (simp add: zdiv_mono1)
  then consider "a div 86400 < b div 86400" | "a div 86400 = b div 86400" "a mod 86400 < b mod 86400"
    using assms(3) mult_div_mod_eq [of 86400 a] mult_div_mod_eq [of 86400 b] by linarith
  then show ?thesis
  proof cases
    case 1
    then have "nat (date_code (civil_of_days (a div 86400))) < nat (date_code (civil_of_days (b div 86400)))"
      using civil_mono nat_less_eq_zless [OF A(4)] by blast
    then show ?thesis
      unfolding A(1) B(1) using dec_digits_less_iff [OF A(2) B(2)] by (simp add: list_less_append)
  next
    case 2
    then have "nat (time_code (a mod 86400)) < nat (time_code (b mod 86400))"
      using time_code_less_iff [of "a mod 86400" "b mod 86400"] nat_less_eq_zless [OF A(5)]
      by (metis pos_mod_bound pos_mod_sign zero_less_numeral)
    then show ?thesis
      unfolding A(1) B(1) using dec_digits_less_iff [OF A(3) B(3)] 2(1) by (simp add: list_less_append)
  qed
qed

lemma label_stamp_chars: "four_digit_year t \<Longrightarrow> CHR ''_'' \<notin> set (label_stamp t)"
proof -
  have "\<not> is_ascii_digit (CHR ''_'')" by code_simp
  then show "four_digit_year t \<Longrightarrow> ?thesis" using label_stamp_digits(1) [of t] dec_digits_digit by auto
qed

section \<open>A new label is the greatest\<close>

text \<open>
  What can happen to \<open>[backup:current]\<close>: a backup, of any type, is added under its label with a timestamp
  after the last one, and backups are removed, but no full backup that another one still stands on.
\<close>

inductive label_history :: "'j json_api \<Rightarrow> (string, 'j) btree \<Rightarrow> int \<Rightarrow> bool" for J where
  history_start: "label_history J [] latest"
| history_backup: "label_history J current latest \<Longrightarrow> latest < timestamp \<Longrightarrow> four_digit_year timestamp \<Longrightarrow>
    entry_type J entry = Some (backup_type_str (promoted_type ty (prior_label_of J current ty))) \<Longrightarrow>
    label_history J (bt_insert (new_label J current ty timestamp) entry current) timestamp"
| history_expire: "label_history J current latest \<Longrightarrow> kept = filter keep current \<Longrightarrow>
    \<forall>l \<in> set (bt_keys kept). full_root_label l \<in> set (bt_keys kept) \<Longrightarrow> label_history J kept latest"

text \<open>A label is the full label of its chain, alone or with the stamp and the letter of a dependent backup.\<close>

definition dated_label :: "'j json_api \<Rightarrow> int \<Rightarrow> string \<times> 'j \<Rightarrow> bool" where
  "dated_label J latest e \<longleftrightarrow>
     (\<exists>r \<le> latest. four_digit_year r \<and>
       (fst e = full_backup_label r \<and> entry_type J (snd e) = Some ''full'' \<or>
        (\<exists>t \<le> latest. \<exists>k. four_digit_year t \<and> k \<noteq> [] \<and>
           fst e = full_backup_label r @ ''_'' @ label_stamp t @ k \<and> entry_type J (snd e) \<noteq> Some ''full'')))"

definition labels_ok :: "'j json_api \<Rightarrow> (string, 'j) btree \<Rightarrow> int \<Rightarrow> bool" where
  "labels_ok J current latest \<longleftrightarrow> bt_ok current \<and>
     (\<forall>e \<in> set current. dated_label J latest e \<and> full_root_label (fst e) \<in> set (bt_keys current))"

lemma split_once_cut: "c \<notin> set a \<Longrightarrow> split_once c (a @ c # b) = Some (a, b)"
  by (induction a) auto

lemma split_once_none: "c \<notin> set a \<Longrightarrow> split_once c a = None"
  by (induction a) auto

lemma full_root_label_simps:
  assumes "four_digit_year r"
  shows "full_root_label (full_backup_label r) = full_backup_label r"
    "full_root_label (full_backup_label r @ ''_'' @ s) = full_backup_label r"
  using label_stamp_chars [OF assms]
  by (simp_all add: full_root_label_def full_backup_label_def split_once_none split_once_cut [of _ "label_stamp r @ ''F''", simplified])


lemma label_root:
  assumes "dated_label J latest e"
  obtains r where "r \<le> latest" "four_digit_year r" "full_root_label (fst e) = full_backup_label r"
    "entry_type J (snd e) = Some ''full'' \<longrightarrow> fst e = full_backup_label r"
    "fst e = full_backup_label r \<or>
      (\<exists>t \<le> latest. \<exists>k. four_digit_year t \<and> k \<noteq> [] \<and> fst e = full_backup_label r @ ''_'' @ label_stamp t @ k)"
proof -
  from assms obtain r where r: "r \<le> latest" "four_digit_year r"
    "fst e = full_backup_label r \<and> entry_type J (snd e) = Some ''full'' \<or>
      (\<exists>t \<le> latest. \<exists>k. four_digit_year t \<and> k \<noteq> [] \<and>
         fst e = full_backup_label r @ ''_'' @ label_stamp t @ k \<and> entry_type J (snd e) \<noteq> Some ''full'')"
    unfolding dated_label_def by blast
  show ?thesis
    by (rule that [OF r(1,2)]) (use r(3) full_root_label_simps [OF r(2)] in auto)
qed

lemma prefix_le: "s \<le> s @ (t :: string)"
  by (induction s) auto

lemma prefix_less: "s < s @ c # (t :: string)"
  by (induction s) auto

lemma label_root_le: "dated_label J latest e \<Longrightarrow> full_root_label (fst e) \<le> fst e"
  by (erule label_root) (auto simp: prefix_le)

lemma bt_ok_le_last:
  assumes "bt_ok m" "e \<in> set m"
  shows "fst e \<le> fst (last m)"
proof -
  have "sorted (map fst m)" using assms(1) by (simp add: bt_ok_def strict_sorted_iff)
  then show ?thesis using assms(2)
    by (induction m) (auto split: if_splits)
qed


lemma find_mem: "find P xs = Some x \<Longrightarrow> x \<in> set xs \<and> P x"
  by (induction xs) (auto split: if_splits)

lemma root_entry:
  assumes ok: "labels_ok J current latest" and e: "e \<in> set current"
  obtains f where "f \<in> set current" "fst f = full_root_label (fst e)" "entry_type J (snd f) = Some ''full''"
proof -
  obtain f where f: "f \<in> set current" "fst f = full_root_label (fst e)"
    using ok e by (auto simp: labels_ok_def bt_keys_def)
  have le: "dated_label J latest e" "dated_label J latest f" using ok e f(1) by (simp_all add: labels_ok_def)
  obtain r where r: "four_digit_year r" "full_root_label (fst e) = full_backup_label r" using le(1) by (rule label_root)
  obtain q where q: "four_digit_year q" "fst f = full_backup_label q \<and> entry_type J (snd f) = Some ''full'' \<or>
      (\<exists>t k. fst f = full_backup_label q @ ''_'' @ label_stamp t @ k)"
    using le(2) unfolding dated_label_def by blast
  have "length (full_backup_label r) = length (full_backup_label q)"
    using r(1) q(1) by (simp add: full_backup_label_def length_label_stamp)
  then have "entry_type J (snd f) = Some ''full''"
    using q(2) f(2) r(2) by auto
  then show ?thesis using that f by blast
qed

lemma full_is_root:
  "dated_label J latest e \<Longrightarrow> entry_type J (snd e) = Some ''full'' \<Longrightarrow> full_root_label (fst e) = fst e"
  by (erule label_root) simp

text \<open>The chain of a new dependent backup is the greatest chain.\<close>

lemma prior_root:
  assumes ok: "labels_ok J current latest"
    and prior: "prior_label_of J current ty = Some p"
  shows "full_root_label p \<in> set (bt_keys current) \<and> (\<forall>e \<in> set current. full_root_label (fst e) \<le> full_root_label p) \<and>
    (ty = BtDiff \<longrightarrow> full_root_label p = p)"
proof (cases ty)
  case BtFull
  then show ?thesis using prior by (simp add: prior_label_of_def)
next
  case BtDiff
  then obtain e where e: "find (\<lambda>(_, entry). entry_type J entry = Some ''full'') (rev current) = Some e" "p = fst e"
    using prior by (auto simp: prior_label_of_def latest_full_label_def)
  obtain i where i: "i < length current" "rev current ! i = e" "entry_type J (snd e) = Some ''full''"
    "\<And>j. j < i \<Longrightarrow> entry_type J (snd (rev current ! j)) \<noteq> Some ''full''"
    using e(1) by (auto simp: find_Some_iff split: prod.splits) (metis prod.collapse)
  then have mem: "e \<in> set current" by (metis length_rev nth_mem set_rev)
  then have "dated_label J latest e" using ok by (simp add: labels_ok_def)
  then have p: "full_root_label p = p" using full_is_root i(3) e(2) by blast
  have "full_root_label (fst f) \<le> p" if f: "f \<in> set current" for f
  proof -
    from root_entry [OF ok f] obtain g where g: "g \<in> set current" "fst g = full_root_label (fst f)"
      "entry_type J (snd g) = Some ''full''" .
    obtain j where j: "j < length current" "rev current ! j = g"
      using g(1) by (metis in_set_conv_nth length_rev set_rev)
    then have "i \<le> j" using i(4) g(3) by (meson not_le)
    moreover have "sorted (rev (map fst (rev current)))"
      using ok by (simp add: labels_ok_def bt_ok_def rev_map strict_sorted_iff)
    then have "sorted_wrt (\<ge>) (map fst (rev current))" by (simp add: sorted_wrt_rev)
    ultimately have "fst (rev current ! j) \<le> fst (rev current ! i)"
      using j(1) by (cases "i = j") (auto simp: sorted_wrt_iff_nth_less)
    then show ?thesis using i(2) j(2) g(2) e(2) by simp
  qed
  then show ?thesis using p mem e(2) by (auto simp: bt_keys_def)
next
  case BtIncr
  then have c: "current \<noteq> []" "p = fst (last current)" using prior by (auto simp: prior_label_of_def latest_any_label_def split: if_splits)
  have lo: "\<And>e. e \<in> set current \<Longrightarrow> dated_label J latest e" using ok by (simp add: labels_ok_def)
  have "full_root_label (fst f) \<le> full_root_label p" if f: "f \<in> set current" for f
  proof -
    have "fst f \<le> p" using bt_ok_le_last [OF _ f] ok c(2) by (simp add: labels_ok_def)
    moreover obtain r where r: "four_digit_year r" "full_root_label (fst f) = full_backup_label r" using lo [OF f] by (rule label_root)
    moreover obtain q where q: "four_digit_year q" "full_root_label p = full_backup_label q"
        "p = full_backup_label q \<or> (\<exists>t \<le> latest. \<exists>k. four_digit_year t \<and> k \<noteq> [] \<and> p = full_backup_label q @ ''_'' @ label_stamp t @ k)"
      using lo [OF last_in_set [OF c(1)]] unfolding c(2) by (rule label_root)
    ultimately have "full_backup_label r \<le> p" using label_root_le [OF lo [OF f]] by simp
    moreover have "length (full_backup_label r) = length (full_backup_label q)" using r(1) q(1) by (simp add: full_backup_label_def length_label_stamp)
    then have "\<not> full_backup_label q < full_backup_label r \<or> full_backup_label q @ u < full_backup_label r" for u
      using list_less_append [of "full_backup_label q" "full_backup_label r" u "[]"] by auto
    ultimately show ?thesis unfolding r(2) q(2) using q(3) by (metis append_Nil2 leD leI)
  qed
  then show ?thesis using c ok by (auto simp: labels_ok_def BtIncr)
qed

lemma prior_entry: "prior_label_of J current ty = Some p \<Longrightarrow> \<exists>g \<in> set current. fst g = p"
  by (cases ty) (auto simp: prior_label_of_def latest_full_label_def latest_any_label_def
      split: if_splits dest!: find_mem intro: bexI [rotated])

lemma new_label_greatest:
  assumes ok: "labels_ok J current latest" and t: "latest < t" "four_digit_year t" and e: "e \<in> set current"
  shows "fst e < new_label J current ty t"
proof -
  have "dated_label J latest e" using ok e by (simp add: labels_ok_def)
  then obtain r where r: "r \<le> latest" "four_digit_year r" "full_root_label (fst e) = full_backup_label r"
    "fst e = full_backup_label r \<or> (\<exists>s \<le> latest. \<exists>k. four_digit_year s \<and> k \<noteq> [] \<and> fst e = full_backup_label r @ ''_'' @ label_stamp s @ k)"
    by (rule label_root)
  let ?prior = "prior_label_of J current ty"
  show ?thesis
  proof (cases "promoted_type ty ?prior = BtFull")
    case True
    then have "new_label J current ty t = full_backup_label t" by (simp add: new_label_def Let_def)
    moreover have "label_stamp r < label_stamp t" using label_stamp_mono [OF r(2) t(2)] r(1) t(1) by simp
    ultimately show ?thesis
      using r(4) list_less_append [of "label_stamp r" "label_stamp t"] length_label_stamp r(2) t(2)
      by (auto simp: full_backup_label_def)
  next
    case False
    then obtain p where p: "?prior = Some p" "ty \<noteq> BtFull" by (auto simp: promoted_type_def split: if_splits)
    note root = prior_root [OF ok p(1)]
    have new: "\<exists>k. new_label J current ty t = full_root_label p @ ''_'' @ label_stamp t @ k"
      using p root by (cases ty) (auto simp: new_label_def promoted_type_def unwrap_or_default_def diff_backup_label_def incr_backup_label_def)
    from root obtain f where f: "f \<in> set current" "full_root_label p = fst f" by (auto simp: bt_keys_def)
    have le: "full_backup_label r \<le> full_root_label p" using root e r(3) by auto
    obtain q where q: "four_digit_year q" "full_root_label p = full_backup_label q"
      using ok prior_entry [OF p(1)] label_root unfolding labels_ok_def by metis
    have len: "length (full_backup_label r) = length (full_backup_label q)" using r(2) q(1) by (simp add: full_backup_label_def length_label_stamp)
    show ?thesis
    proof (cases "full_backup_label r = full_backup_label q")
      case True
      have "s < t" "label_stamp s < label_stamp t" if "s \<le> latest" "four_digit_year s" for s
        using that t label_stamp_mono [of s t] by simp_all
      then show ?thesis
        using new r(4) True q(2) length_label_stamp t(2)
        by (auto simp: list_less_append prefix_less)
    next
      case False
      then have "full_backup_label r < full_backup_label q" using le q(2) by simp
      then show ?thesis using new r(4) q(2) list_less_append [OF len] by (metis append_Nil2)
    qed
  qed
qed


lemma labels_ok_backup:
  assumes ok: "labels_ok J current latest" and t: "latest < t" "four_digit_year t"
    and entry: "entry_type J entry = Some (backup_type_str (promoted_type ty (prior_label_of J current ty)))"
  shows "labels_ok J (bt_insert (new_label J current ty t) entry current) t"
proof -
  let ?prior = "prior_label_of J current ty" and ?new = "new_label J current ty t"
  have last: "bt_insert ?new entry current = current @ [(?new, entry)]"
    using new_label_greatest [OF ok t] by (intro bt_insert_last) auto
  then have entries: "set (bt_insert ?new entry current) = insert (?new, entry) (set current)" by simp
  have grow: "dated_label J latest e \<Longrightarrow> dated_label J t e" for e
    using t(1) unfolding dated_label_def by (meson less_imp_le order_trans)
  have "dated_label J t (?new, entry) \<and> full_root_label ?new \<in> insert ?new (set (bt_keys current))"
  proof (cases "promoted_type ty ?prior = BtFull")
    case True
    then have "?new = full_backup_label t" by (simp add: new_label_def Let_def)
    then show ?thesis using True entry t(2) full_root_label_simps by (auto simp: dated_label_def)
  next
    case False
    then obtain p where p: "?prior = Some p" "ty \<noteq> BtFull" by (auto simp: promoted_type_def split: if_splits)
    note root = prior_root [OF ok p(1)]
    obtain g where "g \<in> set current" "fst g = p" using prior_entry [OF p(1)] by blast
    then obtain q where q: "q \<le> latest" "four_digit_year q" and pq: "full_root_label p = full_backup_label q"
      using ok label_root unfolding labels_ok_def by metis
    have new: "\<exists>k. k \<noteq> [] \<and> ?new = full_backup_label q @ ''_'' @ label_stamp t @ k"
      using p root pq by (cases ty) (auto simp: new_label_def promoted_type_def unwrap_or_default_def diff_backup_label_def incr_backup_label_def)
    have "entry_type J entry \<noteq> Some ''full''" using entry p by (cases ty) (auto simp: promoted_type_def)
    have dated: "dated_label J t (?new, entry)"
    proof -
      have "q \<le> t" using q(1) t(1) by simp
      then show "?thesis" using new q(2) t(2) \<open>entry_type J entry \<noteq> _\<close> unfolding dated_label_def by (metis fst_conv order_refl snd_conv)
    qed
    have "full_root_label ?new = full_backup_label q" using new full_root_label_simps(2) [OF q(2)] by auto
    with dated show ?thesis using root pq by simp
  qed
  then show ?thesis
    using ok grow by (auto simp: labels_ok_def bt_keys_def entries)
qed


lemma labels_ok_history: "label_history J current latest \<Longrightarrow> labels_ok J current latest"
proof (induction rule: label_history.induct)
  case (history_start latest)
  then show ?case by (simp add: labels_ok_def)
next
  case (history_backup current latest timestamp entry ty)
  then show ?case by (intro labels_ok_backup)
next
  case (history_expire current latest kept keep)
  then show ?case by (auto simp: labels_ok_def bt_keys_def)
qed


definition sample_current :: "(string, sample_json) btree" where
  "sample_current = [(''20240101-100000F'', SObj [(''backup-type'', SStr ''full'')]),
     (''20240101-100000F_20240102-100000D'', SObj [(''backup-type'', SStr ''diff'')])]"

lemma sample_label_history: "label_history sample_api sample_current 1704189600"
proof -
  let ?full = "SObj [(''backup-type'', SStr ''full'')]" and ?diff = "SObj [(''backup-type'', SStr ''diff'')]"
  have "label_history sample_api (bt_insert (new_label sample_api [] BtFull 1704103200) ?full []) 1704103200"
    by (rule history_backup [OF history_start [of sample_api 0]]) code_simp+
  moreover have "bt_insert (new_label sample_api [] BtFull 1704103200) ?full [] = [(''20240101-100000F'', ?full)]"
    by code_simp
  ultimately have "label_history sample_api [(''20240101-100000F'', ?full)] 1704103200" by simp
  then have "label_history sample_api (bt_insert (new_label sample_api [(''20240101-100000F'', ?full)] BtDiff 1704189600)
      ?diff [(''20240101-100000F'', ?full)]) 1704189600"
    by (rule history_backup) code_simp+
  moreover have "bt_insert (new_label sample_api [(''20240101-100000F'', ?full)] BtDiff 1704189600) ?diff
      [(''20240101-100000F'', ?full)] = sample_current"
    by code_simp
  ultimately show ?thesis by simp
qed


text \<open>
  A label carries its time: the date that \<open>expire\<close> reads from the label of a backup is the day on which the
  backup started.
\<close>

theorem label_date_is_start:
  assumes "four_digit_year t"
  shows "label_date_epoch (full_backup_label t @ rest) = Some (t div 86400 * 86400)"
proof -
  from assms obtain y m d h n s where f: "unix_to_civil t = (y, m, d, h, n, s)"
    and b: "0 \<le> y" "y \<le> 9999" "1 \<le> m" "m \<le> 12" "1 \<le> d" "d \<le> 31" "0 \<le> h" "h \<le> 23" "0 \<le> n" "n \<le> 59" "0 \<le> s" "s \<le> 59"
    and days: "days_from_civil y m d = t div 86400"
    by (rule civil_fields)
  let ?date = "dec_digits 4 (nat y) @ dec_digits 2 (nat m) @ dec_digits 2 (nat d)"
  have "take 8 (full_backup_label t @ rest) = ?date" "8 \<le> length (full_backup_label t @ rest)"
    using label_stamp_fields [OF f b] by (simp_all add: full_backup_label_def)
  moreover have "list_all is_ascii_digit ?date" by (auto simp: list_all_iff dest: dec_digits_digit)
  moreover have "parse_i64 (dec_digits 4 (nat y)) = Some y" "parse_i64 (dec_digits 2 (nat m)) = Some m" "parse_i64 (dec_digits 2 (nat d)) = Some d"
    using b by (simp_all add: parse_i64_dec_digits nat_less_iff)
  ultimately show ?thesis using b days by (simp add: label_date_epoch_def Let_def)
qed

lemma label_date_is_start_witness:
  "four_digit_year 1704189600 \<and> label_date_epoch ''20240102-100000F'' = Some 1704153600"
proof -
  have "four_digit_year 1704189600" "full_backup_label 1704189600 = ''20240102-100000F''" by code_simp+
  then show ?thesis using label_date_is_start [of 1704189600 "[]"] by simp
qed

end
