(* ===== verification/Restore_Plan.thy ===== *)
theory Restore_Plan
  imports Restore_Source Backup_Label
begin

text \<open>
  What a restore decides (\<open>crates/pgbr-command/src/restore.rs\<close>): its options, the recovery settings and files,
  the time of a target, the backup it selects, the databases it keeps and the destinations of links; with
  \<open>format_timestamp\<close> of \<open>info.rs\<close>, which prints the times that a target names.
\<close>

section \<open>Options\<close>

definition bool_option :: "loaded_config \<Rightarrow> string \<Rightarrow> bool" where
  "bool_option config name = (config_get config name None = Some (OvBoolean True))"

definition hash_option :: "loaded_config \<Rightarrow> string \<Rightarrow> (string, string) btree" where
  "hash_option config name = (case config_get config name None of Some (OvHash m) \<Rightarrow> m | _ \<Rightarrow> [])"

definition string_option :: "loaded_config \<Rightarrow> string \<Rightarrow> string option" where
  "string_option config name = (case config_get config name None of
       Some (OvString v) \<Rightarrow> Some v
     | Some (OvStringId v) \<Rightarrow> Some v
     | Some (OvPath v) \<Rightarrow> Some v
     | _ \<Rightarrow> None)"

definition id_or_string :: "loaded_config \<Rightarrow> string \<Rightarrow> string option" where
  "id_or_string config name = (case config_get config name None of
       Some (OvStringId v) \<Rightarrow> Some v
     | Some (OvString v) \<Rightarrow> Some v
     | _ \<Rightarrow> None)"

definition requested_set :: "loaded_config \<Rightarrow> string option" where
  "requested_set config = (case config_get config ''set'' None of Some (OvString label) \<Rightarrow> Some label | _ \<Rightarrow> None)"

definition tablespace_map_all :: "loaded_config \<Rightarrow> string option" where
  "tablespace_map_all config = (case config_get config ''tablespace-map-all'' None of
       Some (OvPath v) \<Rightarrow> Some v
     | Some (OvString v) \<Rightarrow> Some v
     | _ \<Rightarrow> None)"

definition repo_symlink :: "loaded_config \<Rightarrow> bool" where
  "repo_symlink config =
     (let lookup = (case config_get config ''repo-symlink'' None of
            Some v \<Rightarrow> Some v
          | None \<Rightarrow> config_get config ''repo-symlink'' (Some 1))
      in case lookup of Some (OvBoolean value) \<Rightarrow> value | _ \<Rightarrow> True)"

definition db_list :: "loaded_config \<Rightarrow> string \<Rightarrow> string list" where
  "db_list config name = (case config_get config name None of Some (OvList values) \<Rightarrow> values | _ \<Rightarrow> [])"

section \<open>Recovery settings\<close>

definition PG_VERSION_RECOVERY_GUC :: nat where "PG_VERSION_RECOVERY_GUC = 12"

datatype target_kind = TkTime | TkName | TkLsn | TkXid

datatype recovery_type = RtNone | RtImmediate | RtStandby | RtTarget target_kind | RtDefault

fun guc_suffix :: "target_kind \<Rightarrow> string" where
  "guc_suffix TkTime = ''time''"
| "guc_suffix TkName = ''name''"
| "guc_suffix TkLsn = ''lsn''"
| "guc_suffix TkXid = ''xid''"

definition supports_inclusive :: "target_kind \<Rightarrow> bool" where
  "supports_inclusive k = (k = TkTime \<or> k = TkLsn \<or> k = TkXid)"

definition recovery_type_of :: "loaded_config \<Rightarrow> recovery_type" where
  "recovery_type_of config =
     (let raw = (case id_or_string config ''type'' of None \<Rightarrow> ''default'' | Some v \<Rightarrow> v) in
      if raw = ''none'' then RtNone
      else if raw = ''immediate'' then RtImmediate
      else if raw = ''standby'' then RtStandby
      else if raw = ''time'' then RtTarget TkTime
      else if raw = ''name'' then RtTarget TkName
      else if raw = ''lsn'' then RtTarget TkLsn
      else if raw = ''xid'' then RtTarget TkXid
      else RtDefault)"

definition target_action :: "loaded_config \<Rightarrow> string" where
  "target_action config =
     (let raw = (case id_or_string config ''target-action'' of None \<Rightarrow> ''pause'' | Some v \<Rightarrow> v) in
      if raw = ''promote'' then ''promote'' else if raw = ''shutdown'' then ''shutdown'' else ''pause'')"

definition archive_mode_off :: "loaded_config \<Rightarrow> bool" where
  "archive_mode_off config = (id_or_string config ''archive-mode'' = Some ''off'')"

definition restore_command :: "string \<Rightarrow> string" where
  "restore_command stanza = ''pgbackrust --stanza='' @ stanza @ '' archive-get %f '' @ [CHR 0x22] @ ''%p'' @ [CHR 0x22]"

record recovery_settings =
  rs_target :: "string option"
  rs_exclusive :: bool
  rs_action :: string
  rs_timeline :: "string option"
  rs_recovery_options :: "(string, string) btree"
  rs_archive_mode_off :: bool

definition normalise_recovery_key :: "string \<Rightarrow> string" where
  "normalise_recovery_key key = map (\<lambda>c. if c = CHR ''-'' then CHR ''_'' else c) key"

definition user_overrides :: "(string, string) btree \<Rightarrow> string \<Rightarrow> bool" where
  "user_overrides opts guc = list_ex (\<lambda>(k, _). normalise_recovery_key k = guc) opts"

definition squote :: char where "squote = CHR 0x27"

text \<open>\<open>writeln!(out, "{key} = '{value}'")\<close>.\<close>

definition setting_line :: "string \<Rightarrow> string \<Rightarrow> string" where
  "setting_line key v = key @ '' = '' @ [squote] @ v @ [squote, newline]"

definition target_lines :: "nat \<Rightarrow> recovery_type \<Rightarrow> recovery_settings \<Rightarrow> string" where
  "target_lines db_major ty settings = (case ty of
       RtImmediate \<Rightarrow> setting_line ''recovery_target'' ''immediate''
     | RtStandby \<Rightarrow> if db_major < PG_VERSION_RECOVERY_GUC then setting_line ''standby_mode'' ''on'' else []
     | RtTarget kind \<Rightarrow> (case rs_target settings of
           None \<Rightarrow> []
         | Some v \<Rightarrow> setting_line (''recovery_target_'' @ guc_suffix kind) v @
             (if rs_exclusive settings \<and> supports_inclusive kind
              then setting_line ''recovery_target_inclusive'' ''false'' else []))
     | _ \<Rightarrow> [])"

definition timeline_line :: "nat \<Rightarrow> recovery_type \<Rightarrow> recovery_settings \<Rightarrow> string" where
  "timeline_line db_major ty settings = (case rs_timeline settings of
       Some v \<Rightarrow>
         if PG_VERSION_RECOVERY_GUC \<le> db_major \<or> v \<noteq> ''current''
         then setting_line ''recovery_target_timeline'' v else []
     | None \<Rightarrow>
         if ty = RtImmediate \<and> PG_VERSION_RECOVERY_GUC \<le> db_major
         then setting_line ''recovery_target_timeline'' ''current'' else [])"

definition recovery_block :: "nat \<Rightarrow> string \<Rightarrow> recovery_type \<Rightarrow> recovery_settings \<Rightarrow> string" where
  "recovery_block db_major stanza ty settings =
     (if ty = RtNone then []
      else let opts = rs_recovery_options settings in
        ''# Recovery settings generated by pgBackRust restore'' @ [newline] @
        (if \<not> user_overrides opts ''restore_command'' then setting_line ''restore_command'' (restore_command stanza) else []) @
        target_lines db_major ty settings @
        (if rs_action settings \<noteq> ''pause'' then setting_line ''recovery_target_action'' (rs_action settings) else []) @
        timeline_line db_major ty settings @
        (if rs_archive_mode_off settings \<and> \<not> user_overrides opts ''archive_mode''
         then ''archive_mode = off'' @ [newline] else []) @
        concat (map (\<lambda>(key, v). setting_line (normalise_recovery_key key) v) opts))"

definition db_major_version :: "string \<Rightarrow> nat" where
  "db_major_version db_version =
     (case parse_u32 (takeWhile is_ascii_digit db_version) of
        None \<Rightarrow> PG_VERSION_RECOVERY_GUC
      | Some n \<Rightarrow> n)"

definition recovery_files :: "string \<Rightarrow> string \<Rightarrow> loaded_config \<Rightarrow> (path \<times> string) list" where
  "recovery_files db_version stanza config =
     (let ty = recovery_type_of config in
      if ty = RtNone then []
      else
        let db_major = db_major_version (case string_option config ''pg-version-force'' of None \<Rightarrow> db_version | Some v \<Rightarrow> v);
            settings = \<lparr>rs_target = string_option config ''target'', rs_exclusive = bool_option config ''target-exclusive'',
              rs_action = target_action config, rs_timeline = string_option config ''target-timeline'',
              rs_recovery_options = hash_option config ''recovery-option'',
              rs_archive_mode_off = archive_mode_off config\<rparr>;
            block = recovery_block db_major stanza ty settings
        in if db_major < PG_VERSION_RECOVERY_GUC then [(''recovery.conf'', block)]
           else [(''postgresql.auto.conf'', block),
             (if ty = RtStandby then ''standby.signal'' else ''recovery.signal'', [])])"

section \<open>The time of a target\<close>

text \<open>The first of two separators, as \<open>split_once([' ', 'T'])\<close>.\<close>

fun split_once_any :: "char list \<Rightarrow> string \<Rightarrow> (string \<times> string) option" where
  "split_once_any cs [] = None"
| "split_once_any cs (x # xs) =
     (if x \<in> set cs then Some ([], xs)
      else case split_once_any cs xs of None \<Rightarrow> None | Some (a, b) \<Rightarrow> Some (x # a, b))"

text \<open>\<open>i64\<close> arithmetic wraps in a release build; each wrap leaves the value unchanged modulo \<open>2^64\<close>.\<close>

definition wrap_i64 :: "int \<Rightarrow> int" where
  "wrap_i64 i = (i + 2 ^ 63) mod 2 ^ 64 - 2 ^ 63"

definition parse_date :: "string \<Rightarrow> (int \<times> int \<times> int) option" where
  "parse_date date = (case split_on (CHR ''-'') date of
       [y, m, d] \<Rightarrow> (case (parse_i64 y, parse_i64 m, parse_i64 d) of
           (Some year, Some month, Some day) \<Rightarrow>
             if 1 \<le> month \<and> month \<le> 12 \<and> 1 \<le> day \<and> day \<le> 31 then Some (year, month, day) else None
         | _ \<Rightarrow> None)
     | _ \<Rightarrow> None)"

definition parse_clock :: "string \<Rightarrow> (int \<times> int \<times> int) option" where
  "parse_clock time = (case split_on (CHR '':'') time of
       [] \<Rightarrow> None
     | h # rest \<Rightarrow>
         let minute = (case rest of [] \<Rightarrow> ''0'' | m # _ \<Rightarrow> m);
             second = (case rest of
                 _ # sec # _ \<Rightarrow> (case parse_i64 (takeWhile is_ascii_digit sec) of None \<Rightarrow> 0 | Some s \<Rightarrow> s)
               | _ \<Rightarrow> 0)
         in case (parse_i64 h, parse_i64 minute) of
              (Some hour, Some minute) \<Rightarrow>
                if 0 \<le> hour \<and> hour \<le> 23 \<and> 0 \<le> minute \<and> minute \<le> 59 \<and> 0 \<le> second \<and> second \<le> 60
                then Some (hour, minute, second) else None
            | _ \<Rightarrow> None)"

definition parse_civil_time :: "string \<Rightarrow> int option" where
  "parse_civil_time raw =
     (let trimmed = trim raw;
          (date, time) = (case split_once_any '' T'' trimmed of Some p \<Rightarrow> p | None \<Rightarrow> (trimmed, ''00:00:00''))
      in case (parse_date date, parse_clock time) of
           (Some (year, month, day), Some (hour, minute, second)) \<Rightarrow>
             let y = (if month \<le> 2 then wrap_i64 (year - 1) else year);
                 era = y div 400;
                 yoe = y - era * 400;
                 mp = (if month > 2 then month - 3 else month + 9);
                 doy = (153 * mp + 2) div 5 + day - 1;
                 doe = yoe * 365 + yoe div 4 - yoe div 100 + doy;
                 days = era * 146097 + doe - 719468
             in Some (wrap_i64 (days * 86400 + hour * 3600 + minute * 60 + second))
         | _ \<Rightarrow> None)"

definition format_timestamp :: "int \<Rightarrow> string" where
  "format_timestamp epoch =
     (let (year, month, day, hour, minute, second) = unix_to_civil epoch in
      fmt_int_pad 4 year @ ''-'' @ fmt_int_pad 2 month @ ''-'' @ fmt_int_pad 2 day @ '' '' @
      fmt_int_pad 2 hour @ '':'' @ fmt_int_pad 2 minute @ '':'' @ fmt_int_pad 2 second @ ''+0000'')"

section \<open>The backup to restore\<close>

definition backup_set_target_time :: "loaded_config \<Rightarrow> int option" where
  "backup_set_target_time config =
     (case Option.bind (string_option config ''repo-target-time'') parse_civil_time of
        Some epoch \<Rightarrow> Some epoch
      | None \<Rightarrow>
          if recovery_type_of config = RtTarget TkTime
          then Option.bind (string_option config ''target'') parse_civil_time else None)"

definition entry_timestamp_stop :: "'j json_api \<Rightarrow> 'j \<Rightarrow> int option" where
  "entry_timestamp_stop J v = Option.bind (j_get J v ''backup-timestamp-stop'') (j_as_i64 J)"

text \<open>The loop keeps the last backup that stopped in time, and the first backup of all.\<close>

definition note_candidate ::
  "'j json_api \<Rightarrow> int \<Rightarrow> string \<times> 'j \<Rightarrow> string option \<times> string option \<Rightarrow> string option \<times> string option" where
  "note_candidate J target e st =
     (let (chosen, earliest) = st; (label, entry) = e in
      (case entry_timestamp_stop J entry of
         Some stop \<Rightarrow> if stop \<le> target then Some label else chosen
       | None \<Rightarrow> chosen,
       if earliest = None then Some label else earliest))"

definition select_backup_by_time :: "'j json_api \<Rightarrow> 'j info_backup \<Rightarrow> int \<Rightarrow> string option" where
  "select_backup_by_time J info target =
     (let (chosen, earliest) = fold (note_candidate J target) (ib_current info) (None, None)
      in case chosen of Some l \<Rightarrow> Some l | None \<Rightarrow> earliest)"

text \<open>The selection in a loaded \<open>backup.info\<close>; \<open>null\<close> is the JSON value of \<open>Value::default()\<close>.\<close>

definition select_auto ::
  "'j json_api \<Rightarrow> 'j \<Rightarrow> loaded_config \<Rightarrow> 'j info_backup \<Rightarrow> (command_error, string \<times> 'j) result" where
  "select_auto J null config info =
     (case backup_set_target_time config of
        Some target \<Rightarrow> (case select_backup_by_time J info target of
            None \<Rightarrow> Err (CmdOther ''no backups to restore'')
          | Some label \<Rightarrow> Ok (label, case bt_get (ib_current info) label of None \<Rightarrow> null | Some entry \<Rightarrow> entry))
      | None \<Rightarrow>
          if ib_current info = [] then Err (CmdOther ''no backups to restore'') else Ok (last (ib_current info)))"

definition select_in ::
  "'j json_api \<Rightarrow> 'j \<Rightarrow> loaded_config \<Rightarrow> 'j info_backup \<Rightarrow> (command_error, string \<times> 'j) result" where
  "select_in J null config info =
     (case requested_set config of
        Some label \<Rightarrow>
          if label \<noteq> ''latest'' then
            (case bt_get (ib_current info) label of
               Some entry \<Rightarrow> Ok (label, entry)
             | None \<Rightarrow> Err (CmdOther (''backup set '' @ label @ '' is not present in the repository'')))
          else select_auto J null config info
      | None \<Rightarrow> select_auto J null config info)"

definition restore_info_path :: "string \<Rightarrow> path" where
  "restore_info_path stanza = ''backup/'' @ stanza @ ''/backup.info''"

definition not_found_at :: "path \<Rightarrow> info_error \<Rightarrow> command_error" where
  "not_found_at p e = (case e of
       IeStorage (NotFound _) \<Rightarrow> CmdStorage (NotFound p)
     | other \<Rightarrow> CmdOther (info_error_display other))"

definition select_backup ::
  "'j info_env \<Rightarrow> 'j json_api \<Rightarrow> 'j \<Rightarrow> loaded_config \<Rightarrow> 's storage_ops \<Rightarrow> string \<Rightarrow>
   ('s, command_error, string \<times> 'j \<times> 'j info_backup) action" where
  "select_backup E J null config repo stanza =
     act_bind (act_lift (active_user_pass config)) (\<lambda>user_pass.
     act_bind (act_map_err (not_found_at (restore_info_path stanza))
         (load_keyed repo E (backup_from_file E) (restore_info_path stanza) user_pass)) (\<lambda>(info, _).
     act_bind (act_lift (select_in J null config info)) (\<lambda>(label, entry). act_ok (label, entry, info))))"

section \<open>Databases and links\<close>

definition is_numeric :: "string \<Rightarrow> bool" where
  "is_numeric s = (s \<noteq> [] \<and> list_all is_ascii_digit s)"

text \<open>A directory \<open>base\<close> or \<open>PG_*\<close>, the oid, and at least one more component.\<close>

fun oid_in :: "string list \<Rightarrow> string option" where
  "oid_in (seg # oid # file # rest) =
     (if (seg = ''base'' \<or> starts_with ''PG_'' seg) \<and> is_numeric oid then Some oid else oid_in (oid # file # rest))"
| "oid_in _ = None"

definition database_oid :: "string \<Rightarrow> string option" where
  "database_oid file_path = oid_in (split_on (CHR ''/'') file_path)"

definition database_included :: "string \<Rightarrow> string list \<Rightarrow> string list \<Rightarrow> bool" where
  "database_included file_path incl excl =
     (case database_oid file_path of
        None \<Rightarrow> True
      | Some oid \<Rightarrow>
          if incl \<noteq> [] then list_ex (\<lambda>name. name = oid) incl
          else if excl \<noteq> [] then \<not> list_ex (\<lambda>name. name = oid) excl
          else True)"

text \<open>\<open>rsplit_once\<close> at a string that is not empty: its last occurrence.\<close>

fun rsplit_once_str :: "string \<Rightarrow> string \<Rightarrow> (string \<times> string) option" where
  "rsplit_once_str p [] = None"
| "rsplit_once_str p (x # xs) =
     (case rsplit_once_str p xs of
        Some (a, b) \<Rightarrow> Some (x # a, b)
      | None \<Rightarrow> if starts_with p (x # xs) then Some ([], drop (length p) (x # xs)) else None)"

definition tablespace_oid :: "manifest_link \<Rightarrow> string option" where
  "tablespace_oid link = map_option snd (rsplit_once_str ''pg_tblspc/'' (ml_path link))"

definition resolve_tablespace_target :: "manifest_link \<Rightarrow> (string, string) btree \<Rightarrow> string option \<Rightarrow> path" where
  "resolve_tablespace_target link m map_all = (case tablespace_oid link of
       None \<Rightarrow> ml_destination link
     | Some oid \<Rightarrow> (case bt_get m oid of
           Some p \<Rightarrow> p
         | None \<Rightarrow> (case map_all of
               Some pre \<Rightarrow> path_join pre (case file_name (ml_destination link) of None \<Rightarrow> oid | Some n \<Rightarrow> n)
             | None \<Rightarrow> ml_destination link)))"

definition link_relative_name :: "string \<Rightarrow> string" where
  "link_relative_name p = (case strip_prefix ''pg_data/'' p of None \<Rightarrow> p | Some r \<Rightarrow> r)"

definition resolve_link_target :: "string \<Rightarrow> string \<Rightarrow> (string, string) btree \<Rightarrow> string" where
  "resolve_link_target link_name recorded_target link_map =
     (case bt_get link_map link_name of Some t \<Rightarrow> t | None \<Rightarrow> recorded_target)"

datatype link_plan = PlanSymlink | PlanPlainDir

definition link_plan_of :: "bool \<Rightarrow> link_plan" where
  "link_plan_of symlinks = (if symlinks then PlanSymlink else PlanPlainDir)"

definition link_target :: "loaded_config \<Rightarrow> manifest_link \<Rightarrow> path" where
  "link_target config link =
     (if tablespace_oid link \<noteq> None
      then resolve_tablespace_target link (hash_option config ''tablespace-map'') (tablespace_map_all config)
      else resolve_link_target (link_relative_name (ml_path link)) (ml_destination link) (hash_option config ''link-map''))"

section \<open>Printed times parse back\<close>

lemma split_once_any_append: "\<forall>c \<in> set a. c \<notin> set cs \<Longrightarrow> x \<in> set cs \<Longrightarrow> split_once_any cs (a @ x # b) = Some (a, b)"
  by (induction a) auto

lemma split_on_sep: "c \<notin> set a \<Longrightarrow> split_on c (a @ c # b) = a # split_on c b"
  by (induction a) auto

lemma wrap_i64_id: "i64_min \<le> i \<Longrightarrow> i \<le> i64_max \<Longrightarrow> wrap_i64 i = i"
  by (simp add: wrap_i64_def)

lemma four_digit_range:
  assumes "four_digit_year t"
  shows "i64_min \<le> t" "t \<le> i64_max"
proof -
  obtain y m d h n s where f: "0 \<le> y" "y \<le> 9999" "1 \<le> m" "m \<le> 12" "1 \<le> d" "d \<le> 31" "days_from_civil y m d = t div 86400"
    using civil_fields [OF assms] by metis
  define z where "z = (if m \<le> 2 then y - 1 else y)"
  have z: "-1 \<le> z" "z \<le> 9999" using f(1,2) by (auto simp: z_def)
  have "(153 * (if m > 2 then m - 3 else m + 9) + 2) div 5 \<in> {0..400}" using f(3,4) by auto
  moreover have "-3 \<le> leap_days z" "leap_days z \<le> 2600" using z unfolding leap_days_def by linarith+
  ultimately have "- 800000 \<le> t div 86400" "t div 86400 \<le> 4000000"
    using f(5,6) z unfolding f(7) [symmetric] days_from_civil_floor [OF f(3,4)] Let_def z_def [symmetric] by auto
  then show "i64_min \<le> t" "t \<le> i64_max" using mult_div_mod_eq [of 86400 t] pos_mod_sign [of 86400 t] pos_mod_bound [of 86400 t] by linarith+
qed

lemma format_timestamp_fields:
  assumes "unix_to_civil t = (y, m, d, h, n, s)" "0 \<le> y" "y \<le> 9999" "1 \<le> m" "m \<le> 12" "1 \<le> d" "d \<le> 31"
    "0 \<le> h" "h \<le> 23" "0 \<le> n" "n \<le> 59" "0 \<le> s" "s \<le> 59"
  shows "format_timestamp t = dec_digits 4 (nat y) @ ''-'' @ dec_digits 2 (nat m) @ ''-'' @ dec_digits 2 (nat d) @ '' '' @
      dec_digits 2 (nat h) @ '':'' @ dec_digits 2 (nat n) @ '':'' @ dec_digits 2 (nat s) @ ''+0000''"
proof -
  have "fmt_int_pad 4 y = dec_digits 4 (nat y)" using assms(2,3) by (simp add: fmt_int_pad_def dec_digits_eq_fmt nat_less_iff)
  moreover have "fmt_int_pad 2 k = dec_digits 2 (nat k)" if "0 \<le> k" "k < 100" for k
    using that by (simp add: fmt_int_pad_def dec_digits_eq_fmt nat_less_iff)
  ultimately show ?thesis
    using assms(4-) by (simp add: format_timestamp_def assms(1))
qed


lemma days_from_civil_euclid:
  assumes "1 \<le> m" "m \<le> 12" "z = (if m \<le> 2 then y - 1 else y)"
  shows "days_from_civil y m d = (z div 400) * 146097 + ((z - (z div 400) * 400) * 365 + (z - (z div 400) * 400) div 4 -
    (z - (z div 400) * 400) div 100 + ((153 * (if m > 2 then m - 3 else m + 9) + 2) div 5 + d - 1)) - 719468"
proof -
  have "0 \<le> z - (z div 400) * 400" by (simp add: minus_div_mult_eq_mod)
  moreover have "0 \<le> 153 * (if m > 2 then m - 3 else m + 9) + 2" using assms by simp
  ultimately show ?thesis
    unfolding days_from_civil_def Let_def assms(3) [symmetric] era_floor by (simp add: tdiv_nonneg)
qed

lemma no_sep_digits: "\<not> is_ascii_digit c \<Longrightarrow> c \<notin> set (dec_digits w n)"
  using dec_digits_digit by blast

lemma sep_not_digit:
  "\<not> is_ascii_digit (CHR ''-'')" "\<not> is_ascii_digit (CHR '':'')" "\<not> is_ascii_digit (CHR '' '')"
  "\<not> is_ascii_digit (CHR ''T'')" "\<not> is_ascii_digit (CHR ''+'')"
  by code_simp+

text \<open>C26. A time that \<open>info\<close> prints names the same second as the target of a restore, for the years 0 to 9999.
\<close>

theorem printed_time_parses:
  assumes "four_digit_year t"
  shows "parse_civil_time (format_timestamp t) = Some t"
proof -
  from assms obtain y m d h n s where f: "unix_to_civil t = (y, m, d, h, n, s)"
    and b: "0 \<le> y" "y \<le> 9999" "1 \<le> m" "m \<le> 12" "1 \<le> d" "d \<le> 31" "0 \<le> h" "h \<le> 23" "0 \<le> n" "n \<le> 59" "0 \<le> s" "s \<le> 59"
    and secs: "t mod 86400 = 3600 * h + 60 * n + s" and days: "days_from_civil y m d = t div 86400"
    by (rule civil_fields)
  let ?date = "dec_digits 4 (nat y) @ ''-'' @ dec_digits 2 (nat m) @ ''-'' @ dec_digits 2 (nat d)"
  let ?time = "dec_digits 2 (nat h) @ '':'' @ dec_digits 2 (nat n) @ '':'' @ dec_digits 2 (nat s) @ ''+0000''"
  note nums = parse_i64_dec_digits [OF _ _ iffD2 [OF nat_less_iff]]
  have num: "parse_i64 (dec_digits 4 (nat y)) = Some y" "parse_i64 (dec_digits 2 (nat m)) = Some m" "parse_i64 (dec_digits 2 (nat d)) = Some d"
    "parse_i64 (dec_digits 2 (nat h)) = Some h" "parse_i64 (dec_digits 2 (nat n)) = Some n" "parse_i64 (dec_digits 2 (nat s)) = Some s"
    using b by (simp_all add: parse_i64_dec_digits nat_less_iff)
  have fmt: "format_timestamp t = ?date @ '' '' @ ?time" using format_timestamp_fields [OF f b] by simp
  have split: "split_once_any '' T'' (format_timestamp t) = Some (?date, ?time)"
    unfolding fmt using split_once_any_append [of ?date "'' T''" "CHR '' ''" ?time] sep_not_digit no_sep_digits
    by (auto simp: dest: dec_digits_digit)
  have date: "parse_date ?date = Some (y, m, d)"
    using b num by (simp add: parse_date_def split_on_sep split_on_no_sep no_sep_digits sep_not_digit)
  have time: "parse_clock ?time = Some (h, n, s)"
  proof -
    have "takeWhile is_ascii_digit (dec_digits 2 (nat s) @ ''+0000'') = dec_digits 2 (nat s)"
      using dec_digits_digit sep_not_digit(5) by (simp add: takeWhile_append2)
    moreover have "CHR '':'' \<notin> set (dec_digits 2 (nat s) @ ''+0000'')" using no_sep_digits sep_not_digit(2) by simp
    ultimately show ?thesis
      using b num by (simp add: parse_clock_def split_on_sep split_on_no_sep no_sep_digits sep_not_digit Let_def)
  qed
  have trim: "trim (format_timestamp t) = format_timestamp t"
  proof (rule trim_tight)
    have "dec_digits 4 (nat y) \<noteq> []" by (metis length_dec_digits list.size(3) zero_neq_numeral)
    then show "tight_start (format_timestamp t)"
      unfolding fmt append_assoc by (intro hex_text_tight(1)) (auto intro: hexdigit_if_digit dec_digits_digit)
    have "\<forall>c \<in> set ''0000''. is_ascii_hexdigit c" by code_simp
    moreover have "format_timestamp t = (?date @ '' '' @ dec_digits 2 (nat h) @ '':'' @ dec_digits 2 (nat n) @ '':'' @
        dec_digits 2 (nat s) @ ''+'') @ ''0000''" using fmt by simp
    ultimately show "tight_end (format_timestamp t)" by (metis hex_text_tight(2) list.distinct(1))
  qed
  define z where "z = (if m \<le> 2 then y - 1 else y)"
  have z: "(if m \<le> 2 then wrap_i64 (y - 1) else y) = z" using b(1,2) by (simp add: z_def wrap_i64_id)
  have "parse_civil_time (format_timestamp t) = Some (wrap_i64 (days_from_civil y m d * 86400 + h * 3600 + n * 60 + s))"
    unfolding parse_civil_time_def trim split Let_def prod.case option.case date time z days_from_civil_euclid [OF b(3,4) z_def]
    by (rule refl)
  moreover have "days_from_civil y m d * 86400 + h * 3600 + n * 60 + s = t"
    using secs days mult_div_mod_eq [of 86400 t] by simp
  ultimately show ?thesis using wrap_i64_id [OF four_digit_range [OF assms]] by simp
qed


lemma printed_time_parses_witness:
  "four_digit_year 1700000000 \<and> parse_civil_time ''2023-11-14 22:13:20+0000'' = Some 1700000000"
proof -
  have "four_digit_year 1700000000" "format_timestamp 1700000000 = ''2023-11-14 22:13:20+0000''" by code_simp+
  then show ?thesis using printed_time_parses [of 1700000000] by simp
qed

section \<open>The selected backup\<close>

definition in_time :: "'j json_api \<Rightarrow> int \<Rightarrow> string \<times> 'j \<Rightarrow> bool" where
  "in_time J target e = (\<exists>stop. entry_timestamp_stop J (snd e) = Some stop \<and> stop \<le> target)"

lemma note_candidate_in_time:
  "note_candidate J target e (c, f) = (if in_time J target e then Some (fst e) else c, if f = None then Some (fst e) else f)"
  by (cases e) (auto simp: note_candidate_def in_time_def split: option.splits)

lemma fold_candidates:
  "fold (note_candidate J target) es (c, f) =
     (if \<exists>e \<in> set es. in_time J target e then Some (fst (last (filter (in_time J target) es))) else c,
      case f of Some l \<Rightarrow> Some l | None \<Rightarrow> if es = [] then None else Some (fst (hd es)))"
proof (induction es arbitrary: c f)
  case (Cons e es)
  show ?case
    by (cases f) (auto simp: Cons.IH note_candidate_in_time filter_empty_conv)
qed (simp split: option.splits)

lemma select_by_time:
  "select_backup_by_time J info target =
     (if ib_current info = [] then None
      else Some (fst (if \<exists>e \<in> set (ib_current info). in_time J target e
        then last (filter (in_time J target) (ib_current info)) else hd (ib_current info))))"
  by (auto simp: select_backup_by_time_def fold_candidates)



definition sample_set_config :: loaded_config where
  "sample_set_config = \<lparr>lc_command = ''restore'', lc_role = RoleMain, lc_stanza = Some ''d'',
     lc_options = [((''set'', None), OvString ''20240101-100000F'')], lc_params = []\<rparr>"


end
