(* ===== verification/Restore_Run.thy ===== *)
theory Restore_Run
  imports Restore_Plan
begin

text \<open>
  The restore command (\<open>crates/pgbr-command/src/restore.rs\<close>, with the sub-key of \<open>cipher.rs\<close>): delta matching,
  stray files, the copy jobs, links, label and recovery files, composed by \<open>restore_inner\<close>. The repository and
  the data directory are two storages over one state of the machine. Log lines are not modelled.
\<close>

section \<open>The key of the repository\<close>

text \<open>\<open>RepoKeys::resolve\<close>, reduced to the sub-key it holds.\<close>

definition resolve_repo_keys ::
  "cipher_type \<Rightarrow> string option \<Rightarrow> string option \<Rightarrow> (info_error, string option) result" where
  "resolve_repo_keys t user_pass recorded = (case t of
       CipherNone \<Rightarrow>
         if recorded \<noteq> None then Err (IeInvalidValue ''repo cipher'' ''unencrypted repo carries a [cipher] sub-key'')
         else Ok None
     | CipherAes256Cbc \<Rightarrow>
         if user_pass = None \<or> user_pass = Some [] then
           Err (IeInvalidValue ''repo cipher'' ''encrypted repo requires repo-cipher-pass'')
         else map_err (\<lambda>e. e) (case recorded of
             None \<Rightarrow> Err (IeInvalidValue ''repo cipher'' ''encrypted repo is missing its [cipher] sub-key'')
           | Some sub \<Rightarrow> Ok (Some sub)))"

definition repo_sub_key ::
  "'j info_env \<Rightarrow> 's storage_ops \<Rightarrow> loaded_config \<Rightarrow> nat \<Rightarrow> string \<Rightarrow> ('s, command_error, string option) action" where
  "repo_sub_key E repo config index stanza =
     (let t = repo_cipher_type config index in
      if \<not> is_encrypted t then act_ok None
      else act_bind (act_lift (rbind (repo_user_pass config index) (ok_or (MissingOption ''repo-cipher-pass'')))) (\<lambda>user_pass.
        let p = ''archive/'' @ stanza @ ''/archive.info'' in
        act_bind (act_map_err CmdStorage (so_exists repo p)) (\<lambda>present.
          if \<not> present then act_ok None
          else act_bind (act_map_err (\<lambda>e. CmdOther (info_error_display e))
              (load_keyed repo E (archive_from_file E) p (Some user_pass))) (\<lambda>(_, recorded).
            act_lift (map_err (\<lambda>e. CmdOther (info_error_display e)) (resolve_repo_keys t (Some user_pass) recorded))))))"

definition active_sub_key ::
  "'j info_env \<Rightarrow> 's storage_ops \<Rightarrow> loaded_config \<Rightarrow> string \<Rightarrow> ('s, command_error, string option) action" where
  "active_sub_key E repo config stanza = repo_sub_key E repo config (active_repo_index config) stanza"

section \<open>The host\<close>

text \<open>
  What a restore runs on: the repository, the data directory with its \<open>create_symlink\<close>, \<open>std::fs\<close>, the
  parameters of the other components, the orders in which worker threads take jobs and deliver results, and
  the bound on the nesting of directories (\<open>collect_target_files\<close>).
\<close>

record ('s, 'j) restore_host =
  rh_repo :: "'s storage_ops"
  rh_repo_dirs :: "'s dir_ops"
  rh_pg :: "'s storage_ops"
  rh_pg_dirs :: "'s dir_ops"
  rh_symlink :: "path \<Rightarrow> path \<Rightarrow> ('s, storage_error, unit) action"
  rh_std :: "'s std_fs"
  rh_fenv :: filter_env
  rh_env :: "'j info_env"
  rh_menv :: manifest_env
  rh_json :: "'j json_api"
  rh_as_bool :: "'j \<Rightarrow> bool option"
  rh_null :: 'j
  rh_order :: "nat \<Rightarrow> nat list"
  rh_arrival :: "nat \<Rightarrow> nat list"
  rh_depth :: nat

section \<open>Delta matching\<close>

definition sha1_bytes_hex :: "filter_env \<Rightarrow> string \<Rightarrow> string option" where
  "sha1_bytes_hex E bytes = ok (plaintext_sha1 E bytes)"

text \<open>An operation whose error is a value.\<close>

definition act_try :: "('s, 'e, 'a) action \<Rightarrow> ('s, 'f, ('e, 'a) result) action" where
  "act_try m = (\<lambda>s. case m s of (r, t) \<Rightarrow> (Ok r, t))"

definition target_matches :: "('s, 'j) restore_host \<Rightarrow> manifest_file \<Rightarrow> ('s, command_error, bool) action" where
  "target_matches H f =
     act_bind (act_try (do_info (rh_pg_dirs H) (mf_path f))) (\<lambda>r. case r of
         Inr info \<Rightarrow>
           if si_kind info = KFile \<and> si_size info = mf_size f then
             (case mf_checksum f of
                None \<Rightarrow> act_ok True
              | Some expected \<Rightarrow> act_bind (act_try (so_read (rh_pg H) (mf_path f))) (\<lambda>r. case r of
                    Inr bytes \<Rightarrow> act_ok (sha1_bytes_hex (rh_fenv H) bytes = Some expected)
                  | Inl _ \<Rightarrow> act_ok False))
           else act_ok False
       | Inl _ \<Rightarrow> act_ok False)"

datatype delta_match = DmMatches | DmNeedsHash path string | DmNoMatch

definition classify_delta_match ::
  "('s, 'j) restore_host \<Rightarrow> manifest_file \<Rightarrow> bool \<Rightarrow> ('s, command_error, delta_match) action" where
  "classify_delta_match H f local_pg =
     act_bind (act_try (do_info (rh_pg_dirs H) (mf_path f))) (\<lambda>r. case r of
         Inl _ \<Rightarrow> act_ok DmNoMatch
       | Inr info \<Rightarrow>
           if si_kind info \<noteq> KFile \<or> si_size info \<noteq> mf_size f then act_ok DmNoMatch
           else (case mf_checksum f of
               None \<Rightarrow> act_ok DmMatches
             | Some expected \<Rightarrow> act_ok (DmNeedsHash (if local_pg then si_path info else []) expected)))"

record delta_job =
  dj_rel :: string
  dj_abs_path :: path
  dj_expected_sha :: string

text \<open>A worker reads and hashes one file; every failure counts as no match.\<close>

definition delta_worker :: "('s, 'j) restore_host \<Rightarrow> delta_job \<Rightarrow> 's \<Rightarrow> bool \<times> 's" where
  "delta_worker H job s =
     (case sf_read (rh_std H) (dj_abs_path job) s of
        (Inr bytes, t) \<Rightarrow> (sha1_bytes_hex (rh_fenv H) bytes = Some (dj_expected_sha job), t)
      | (Inl _, t) \<Rightarrow> (False, t))"

definition run_delta_jobs :: "('s, 'j) restore_host \<Rightarrow> delta_job list \<Rightarrow> ('s, command_error, string list) action" where
  "run_delta_jobs H jobs = (\<lambda>s.
     let (results, t) = run_jobs (delta_worker H) (permute (rh_order H (length jobs)) jobs) s
     in (Ok (map (dj_rel \<circ> fst) (filter snd results)), t))"

definition classify_file ::
  "('s, 'j) restore_host \<Rightarrow> manifest_file \<Rightarrow> ('s, command_error, delta_job list \<times> string list) action" where
  "classify_file H f =
     act_bind (classify_delta_match H f True) (\<lambda>m. case m of
         DmMatches \<Rightarrow> act_ok ([], [mf_path f])
       | DmNeedsHash abs_path expected_sha \<Rightarrow>
           act_ok ([\<lparr>dj_rel = mf_path f, dj_abs_path = abs_path, dj_expected_sha = expected_sha\<rparr>], [])
       | DmNoMatch \<Rightarrow> act_ok ([], []))"

text \<open>The paths that need no copy, on a local data directory; elsewhere the files are compared one by one later.\<close>

definition delta_matched ::
  "('s, 'j) restore_host \<Rightarrow> loaded_config \<Rightarrow> manifest \<Rightarrow> ('s, command_error, string list) action" where
  "delta_matched H config m =
     (if \<not> bool_option config ''delta'' \<or> \<not> so_is_local (rh_pg H) then act_ok []
      else
        let files = filter (\<lambda>f. database_included (mf_path f) (db_list config ''db-include'') (db_list config ''db-exclude''))
              (mn_files m)
        in act_bind (act_map (classify_file H) files) (\<lambda>parts.
           act_bind (run_delta_jobs H (concat (map fst parts))) (\<lambda>matched.
           act_ok (matched @ concat (map snd parts)))))"

section \<open>Stray files\<close>

text \<open>\<open>to_string_lossy\<close>: every maximal part that is not UTF-8 becomes U+FFFD.\<close>

definition bad_len :: "string \<Rightarrow> nat" where
  "bad_len s = (case s of
       a # b # r \<Rightarrow>
         if char3 a b (CHR 0x80) then 2
         else if char4 a b (CHR 0x80) (CHR 0x80) then (case r of c # _ \<Rightarrow> if cont c then 3 else 2 | [] \<Rightarrow> 2)
         else 1
     | _ \<Rightarrow> 1)"

function to_string_lossy :: "string \<Rightarrow> string" where
  "to_string_lossy s =
     (if s = [] then []
      else if utf8_len s \<noteq> 0 then take (utf8_len s) s @ to_string_lossy (drop (utf8_len s) s)
      else [CHR 0xEF, CHR 0xBF, CHR 0xBD] @ to_string_lossy (drop (bad_len s) s))"
  by pat_completeness auto
termination
  by (relation "measure length") (auto simp: bad_len_def split: list.splits)

declare to_string_lossy.simps [simp del]

text \<open>The key a path has in the manifest: \<open>replace('\\', "/")\<close> of its text.\<close>

definition manifest_key :: "path \<Rightarrow> string" where
  "manifest_key p = map (\<lambda>c. if c = CHR 0x5C then CHR ''/'' else c) (to_string_lossy p)"

fun collect_target ::
  "(path \<Rightarrow> ('s, command_error, path list) action) \<Rightarrow> path \<Rightarrow> storage_info list \<Rightarrow>
   ('s, command_error, path list) action" where
  "collect_target rec dir [] = act_ok []"
| "collect_target rec dir (entry # rest) = (case file_name (si_path entry) of
       None \<Rightarrow> collect_target rec dir rest
     | Some name \<Rightarrow>
         let rel = path_join dir name in
         (case si_kind entry of
            KFile \<Rightarrow> act_bind (collect_target rec dir rest) (\<lambda>out. act_ok (rel # out))
          | KPath \<Rightarrow> act_bind (rec rel) (\<lambda>below.
              act_bind (collect_target rec dir rest) (\<lambda>out. act_ok (below @ out)))
          | _ \<Rightarrow> collect_target rec dir rest))"

fun collect_target_files :: "'s storage_ops \<Rightarrow> nat \<Rightarrow> path \<Rightarrow> ('s, command_error, path list) action" where
  "collect_target_files pg 0 dir = act_err (CmdOther ''directories nested too deep'')"
| "collect_target_files pg (Suc depth) dir = (\<lambda>s. case so_list pg dir s of
       (Inl (NotFound _), t) \<Rightarrow> (Ok [], t)
     | (Inl e, t) \<Rightarrow> (Err (CmdStorage e), t)
     | (Inr entries, t) \<Rightarrow> collect_target (collect_target_files pg depth) dir entries t)"

text \<open>The first component of a path; a leading \<open>.\<close> is one.\<close>

definition first_component :: "path \<Rightarrow> string option" where
  "first_component p =
     (if is_absolute p then Some ''/''
      else if p = ''.'' \<or> starts_with ''./'' p then Some ''.''
      else case components p of [] \<Rightarrow> None | c # _ \<Rightarrow> Some c)"

definition walk_root :: "('s, 'j) restore_host \<Rightarrow> path \<Rightarrow> ('s, command_error, path list) action" where
  "walk_root H r =
     act_bind (act_try (do_info (rh_pg_dirs H) r)) (\<lambda>res. case res of
         Inr info \<Rightarrow>
           (case si_kind info of
              KPath \<Rightarrow> collect_target_files (rh_pg H) (rh_depth H) r
            | KFile \<Rightarrow> act_ok [r]
            | _ \<Rightarrow> act_ok [])
       | Inl (NotFound _) \<Rightarrow> act_ok []
       | Inl e \<Rightarrow> act_err (CmdStorage e))"

definition stray_files :: "('s, 'j) restore_host \<Rightarrow> manifest \<Rightarrow> ('s, command_error, path list) action" where
  "stray_files H m =
     (let kept = map mf_path (mn_files m);
          roots = bs_of (List.map_filter first_component (map mp_path (mn_paths m) @ map mf_path (mn_files m)))
      in act_bind (act_map (walk_root H) roots) (\<lambda>present.
         act_ok (filter (\<lambda>rel. manifest_key rel \<notin> set kept) (concat present))))"

definition remove_stray_files :: "('s, 'j) restore_host \<Rightarrow> manifest \<Rightarrow> ('s, command_error, nat) action" where
  "remove_stray_files H m =
     act_bind (stray_files H m) (\<lambda>stray.
     act_bind (act_for (\<lambda>rel. act_map_err CmdStorage (so_remove (rh_pg H) rel False)) stray) (\<lambda>_.
     act_ok (length stray)))"

definition count_stray_files :: "('s, 'j) restore_host \<Rightarrow> manifest \<Rightarrow> ('s, command_error, nat) action" where
  "count_stray_files H m = act_bind (stray_files H m) (\<lambda>stray. act_ok (length stray))"


section \<open>The copy jobs\<close>

record restore_counts =
  rc_skipped :: nat
  rc_dry_run :: nat

definition delta_skips ::
  "('s, 'j) restore_host \<Rightarrow> loaded_config \<Rightarrow> string list \<Rightarrow> manifest_file \<Rightarrow> ('s, command_error, bool) action" where
  "delta_skips H config matched f =
     (if \<not> bool_option config ''delta'' then act_ok False
      else if so_is_local (rh_pg H) then act_ok (mf_path f \<in> set matched)
      else target_matches H f)"

definition plan_job ::
  "('s, 'j) restore_host \<Rightarrow> ('s, 'j) resolver \<Rightarrow> manifest_file \<Rightarrow> source_cache \<Rightarrow>
   ('s, command_error, restore_copy_job \<times> source_cache) action" where
  "plan_job H R f c =
     act_bind (resolve R f c) (\<lambda>(src, c).
     act_bind (destination_absolute_path (rh_pg_dirs H) (mf_path f)) (\<lambda>abs_dst.
     act_ok (\<lparr>rj_rel = mf_path f, rj_source = src, rj_abs_dst = abs_dst, rj_expected_checksum = mf_checksum f,
       rj_mode = mf_mode f\<rparr>, c)))"

fun plan_files ::
  "('s, 'j) restore_host \<Rightarrow> ('s, 'j) resolver \<Rightarrow> loaded_config \<Rightarrow> string list \<Rightarrow> manifest_file list \<Rightarrow> source_cache \<Rightarrow>
   ('s, command_error, restore_copy_job list \<times> restore_counts) action" where
  "plan_files H R config matched [] c = act_ok ([], \<lparr>rc_skipped = 0, rc_dry_run = 0\<rparr>)"
| "plan_files H R config matched (f # fs) c =
     (if \<not> database_included (mf_path f) (db_list config ''db-include'') (db_list config ''db-exclude'')
      then plan_files H R config matched fs c
      else act_bind (delta_skips H config matched f) (\<lambda>skip.
        if skip then
          act_bind (plan_files H R config matched fs c) (\<lambda>(jobs, n). act_ok (jobs, n\<lparr>rc_skipped := rc_skipped n + 1\<rparr>))
        else if bool_option config ''dry-run'' then
          act_bind (plan_files H R config matched fs c) (\<lambda>(jobs, n). act_ok (jobs, n\<lparr>rc_dry_run := rc_dry_run n + 1\<rparr>))
        else act_bind (plan_job H R f c) (\<lambda>(job, c).
          act_bind (plan_files H R config matched fs c) (\<lambda>(jobs, n). act_ok (job # jobs, n)))))"

section \<open>Directories, links, labels and recovery files\<close>

definition PG_RUNTIME_SKELETON_DIRS :: "string list" where
  "PG_RUNTIME_SKELETON_DIRS = [''pg_wal'', ''pg_wal/archive_status'', ''pg_notify'', ''pg_replslot'', ''pg_serial'',
     ''pg_snapshots'', ''pg_dynshmem'', ''pg_stat_tmp'', ''pg_subtrans'', ''pg_stat'', ''pg_logical'',
     ''pg_logical/snapshots'', ''pg_logical/mappings'', ''pg_commit_ts'', ''pg_tblspc'']"

definition create_dirs :: "('s, 'j) restore_host \<Rightarrow> path list \<Rightarrow> ('s, command_error, unit) action" where
  "create_dirs H = act_for (\<lambda>p. act_map_err CmdStorage (do_create_path (rh_pg_dirs H) p True))"

record link_counts =
  lk_created :: nat
  lk_skipped :: nat
  lk_as_dir :: nat

definition materialise_link ::
  "('s, 'j) restore_host \<Rightarrow> loaded_config \<Rightarrow> manifest_link \<Rightarrow> link_counts \<Rightarrow> ('s, command_error, link_counts) action" where
  "materialise_link H config link n =
     (let dry_run = bool_option config ''dry-run'' in
      act_bind (case path_parent (ml_path link) of
          Some parent \<Rightarrow> if dry_run \<or> parent = [] then act_ok () else create_dirs H [parent]
        | None \<Rightarrow> act_ok ()) (\<lambda>_.
      case link_plan_of (repo_symlink config) of
        PlanPlainDir \<Rightarrow>
          act_bind (if dry_run then act_ok () else create_dirs H [ml_path link]) (\<lambda>_.
          act_ok (n\<lparr>lk_as_dir := lk_as_dir n + 1\<rparr>))
      | PlanSymlink \<Rightarrow>
          if dry_run then act_ok (n\<lparr>lk_created := lk_created n + 1\<rparr>)
          else act_bind (act_try (rh_symlink H (ml_path link) (link_target config link))) (\<lambda>r. case r of
              Inr _ \<Rightarrow> act_ok (n\<lparr>lk_created := lk_created n + 1\<rparr>)
            | Inl _ \<Rightarrow> act_ok (n\<lparr>lk_skipped := lk_skipped n + 1\<rparr>))))"

fun materialise_links ::
  "('s, 'j) restore_host \<Rightarrow> loaded_config \<Rightarrow> manifest_link list \<Rightarrow> link_counts \<Rightarrow> ('s, command_error, link_counts) action" where
  "materialise_links H config [] n = act_ok n"
| "materialise_links H config (l # ls) n =
     act_bind (materialise_link H config l n) (\<lambda>n. materialise_links H config ls n)"

text \<open>The label files lie in the root of the backup, and no backup that ran without a server has any.\<close>

definition restore_label_file ::
  "('s, 'j) restore_host \<Rightarrow> string \<Rightarrow> string \<Rightarrow> string \<Rightarrow> ('s, command_error, unit) action" where
  "restore_label_file H stanza label name = (\<lambda>s.
     case so_read (rh_repo H) (backup_file_path stanza label name) s of
       (Inl (NotFound _), t) \<Rightarrow> (Ok (), t)
     | (Inl e, t) \<Rightarrow> (Err (command_error_from_storage e), t)
     | (Inr bytes, t) \<Rightarrow> act_map_err command_error_from_storage (so_write (rh_pg H) name bytes) t)"

definition append_to_existing :: "('s, 'j) restore_host \<Rightarrow> path \<Rightarrow> string \<Rightarrow> ('s, command_error, string) action" where
  "append_to_existing H rel block = (\<lambda>s.
     let extend = (\<lambda>existing.
       (if existing = [] then []
        else (if ends_with [newline] existing then existing else existing @ [newline]) @ [newline]) @ block)
     in case so_read (rh_pg H) rel s of
          (Inr existing, t) \<Rightarrow> (Ok (extend existing), t)
        | (Inl (NotFound _), t) \<Rightarrow> (Ok (extend []), t)
        | (Inl e, t) \<Rightarrow> (Err (command_error_from_storage e), t))"

definition write_recovery_file ::
  "('s, 'j) restore_host \<Rightarrow> path \<times> string \<Rightarrow> ('s, command_error, unit) action" where
  "write_recovery_file H rb =
     (let (rel, block) = rb in
      act_bind (if rel = ''postgresql.auto.conf'' then append_to_existing H rel block else act_ok block) (\<lambda>contents.
      act_map_err command_error_from_storage (so_write (rh_pg H) rel contents)))"

definition write_recovery_files ::
  "('s, 'j) restore_host \<Rightarrow> string \<Rightarrow> string \<Rightarrow> loaded_config \<Rightarrow> ('s, command_error, string list) action" where
  "write_recovery_files H db_version stanza config =
     (let files = recovery_files db_version stanza config in
      act_bind (act_for (write_recovery_file H) files) (\<lambda>_. act_ok (map fst files)))"

section \<open>The command\<close>

record restore_outcome =
  ro_label :: string
  ro_files_restored :: nat
  ro_files_skipped :: nat
  ro_files_removed :: nat
  ro_paths_created :: nat
  ro_links_created :: nat
  ro_skipped_links :: nat
  ro_links_as_dir :: nat
  ro_recovery_files_written :: "string list"
  ro_dry_run :: bool

text \<open>The backup to restore: its label, the resolver of its files, and its manifest.\<close>

definition open_backup ::
  "('s, 'j) restore_host \<Rightarrow> loaded_config \<Rightarrow> string \<Rightarrow> ('s, command_error, ('s, 'j) resolver) action" where
  "open_backup H config stanza =
     act_bind (select_backup (rh_env H) (rh_json H) (rh_null H) config (rh_repo H) stanza) (\<lambda>(label, metadata, info).
     act_bind (active_sub_key (rh_env H) (rh_repo H) config stanza) (\<lambda>sub_key.
     let t = restore_transform (rh_json H) (rh_as_bool H) metadata config sub_key;
         p = restore_manifest_path stanza label in
     act_bind (act_map_err (not_found_at p) (manifest_load_keyed (rh_repo H) (rh_env H) (rh_menv H) p sub_key)) (\<lambda>m.
     act_ok \<lparr>sr_repo = rh_repo H, sr_dirs = rh_repo_dirs H, sr_stanza = stanza, sr_config = config, sr_label = label,
       sr_transform = t, sr_manifest = m, sr_info = info, sr_sub_key = sub_key, sr_env = rh_env H, sr_menv = rh_menv H,
       sr_json = rh_json H, sr_as_bool = rh_as_bool H\<rparr>)))"

definition restore_opened ::
  "('s, 'j) restore_host \<Rightarrow> loaded_config \<Rightarrow> ('s, 'j) resolver \<Rightarrow> ('s, command_error, restore_outcome) action" where
  "restore_opened H config R =
     (let m = sr_manifest R; stanza = sr_stanza R; label = sr_label R; dry_run = bool_option config ''dry-run'' in
      act_bind (if dry_run then act_ok () else create_dirs H (map mp_path (mn_paths m))) (\<lambda>_.
      act_bind (if dry_run then act_ok () else create_dirs H PG_RUNTIME_SKELETON_DIRS) (\<lambda>_.
      act_bind (delta_matched H config m) (\<lambda>matched.
      act_bind (plan_files H R config matched (mn_files m) \<lparr>sc_manifests = [], sc_layouts = []\<rparr>) (\<lambda>(jobs, n).
      act_bind (run_restore_jobs (rh_fenv H) (rh_std H) (rh_order H) (rh_arrival H) jobs (rh_repo H) (job_retries config)) (\<lambda>_.
      act_bind (if \<not> bool_option config ''delta'' then act_ok 0
                else if dry_run then count_stray_files H m else remove_stray_files H m) (\<lambda>files_removed.
      act_bind (materialise_links H config (mn_links m) \<lparr>lk_created = 0, lk_skipped = 0, lk_as_dir = 0\<rparr>) (\<lambda>links.
      act_bind (if dry_run then act_ok ()
                else act_for (restore_label_file H stanza label) [''backup_label'', ''tablespace_map'']) (\<lambda>_.
      act_bind (if dry_run then act_ok (map fst (recovery_files (mn_db_version m) stanza config))
                else write_recovery_files H (mn_db_version m) stanza config) (\<lambda>written.
      act_ok \<lparr>ro_label = label, ro_files_restored = (if dry_run then rc_dry_run n else length jobs),
        ro_files_skipped = rc_skipped n, ro_files_removed = files_removed, ro_paths_created = length (mn_paths m),
        ro_links_created = lk_created links, ro_skipped_links = lk_skipped links, ro_links_as_dir = lk_as_dir links,
        ro_recovery_files_written = written, ro_dry_run = dry_run\<rparr>))))))))))"

definition restore_inner ::
  "('s, 'j) restore_host \<Rightarrow> loaded_config \<Rightarrow> ('s, command_error, restore_outcome) action" where
  "restore_inner H config =
     act_bind (act_lift (ok_or (MissingOption ''stanza'') (lc_stanza config))) (\<lambda>stanza.
     if db_list config ''db-include'' \<noteq> [] \<and> db_list config ''db-exclude'' \<noteq> []
     then act_err (CmdOther ''db-include and db-exclude are mutually exclusive'')
     else act_bind (open_backup H config stanza) (restore_opened H config))"

end
