(* ===== verification/Bundle_Restore.thy ===== *)
theory Bundle_Restore
  imports Restore_Source
begin

text \<open>
  What the bundled copy stores, the restore finds: the places recorded in the manifest entries are the members
  of the bundles, the length of a member is the gap to the next recorded place, and the slice there, through
  the reversed transform, is what was read from the source.
\<close>

section \<open>Members, their lengths and their slices\<close>

lemma spots_split: "(off, y) \<in> spots k ys \<Longrightarrow> \<exists>pre post. ys = pre @ y # post \<and> off = k + length (concat pre)"
proof (induction ys arbitrary: k)
  case (Cons z zs)
  show ?case
  proof (cases "(off, y) = (k, z)")
    case True
    then show ?thesis by (intro exI [of _ "[]"] exI [of _ zs]) simp
  next
    case False
    then obtain pre post where "zs = pre @ y # post \<and> off = k + length z + length (concat pre)"
      using Cons.IH [of "k + length z"] Cons.prems by auto
    then show ?thesis by (intro exI [of _ "z # pre"] exI [of _ post]) simp
  qed
qed simp

lemma spots_bounds: "(off, y) \<in> spots k ys \<Longrightarrow> k \<le> off \<and> off + length y \<le> k + length (concat ys)"
  using spots_split [of off y k ys] by auto

lemma spots_slice: "(off, y) \<in> spots 0 ys \<Longrightarrow> slice (concat ys) off (length y) = y"
  using spots_split [of off y 0 ys] by (auto simp: slice_def)

lemma find_sorted_least:
  assumes "sorted xs" "n \<in> set xs" "P n" "\<And>m. m \<in> set xs \<Longrightarrow> P m \<Longrightarrow> n \<le> m"
  shows "find P xs = Some n"
  using assms
proof (induction xs)
  case (Cons x xs)
  show ?case
  proof (cases "P x")
    case True
    then have "n \<le> x" using Cons.prems(4) by simp
    moreover have "x \<le> n" using Cons.prems(1,2) by auto
    ultimately show ?thesis using True by simp
  qed (use Cons in auto)
qed simp

text \<open>The gap to the next place is the length of a member, if the member has bytes.\<close>

lemma member_len_spots:
  assumes "(off, y) \<in> spots 0 ys" "y \<noteq> []" "bl_offsets layout = bs_of os" "set os = fst ` spots 0 ys"
    and "bl_bundle_size layout = length (concat ys)"
  shows "member_len layout off = length y"
proof -
  obtain pre post where ys: "ys = pre @ y # post" "off = length (concat pre)"
    using spots_split [OF assms(1)] by auto
  have all: "spots 0 ys = spots 0 pre \<union> insert (off, y) (spots (off + length y) post)"
    by (simp add: ys spots_append)
  have low: "x \<le> off" if "x \<in> fst ` spots 0 pre" for x
    using that spots_bounds [of x _ 0 pre] ys(2) by fastforce
  have high: "off + length y \<le> x" if "x \<in> fst ` spots (off + length y) post" for x
    using that spots_bounds [of x _ "off + length y" post] by fastforce
  show ?thesis
  proof (cases post)
    case Nil
    then have "find (\<lambda>o'. off < o') (bl_offsets layout) = None"
      using low unfolding assms(3) find_None_iff by (auto simp: assms(4) all dest!: leD)
    then show ?thesis using Nil assms(5) by (simp add: member_len_def ys)
  next
    case (Cons z zs)
    have "find (\<lambda>o'. off < o') (bs_of os) = Some (off + length y)"
    proof (rule find_sorted_least)
      show "sorted (bs_of os)" using strict_sorted_imp_sorted [OF sorted_bs_of] .
      show "off + length y \<in> set (bs_of os)" using Cons by (simp add: assms(4) all)
      fix m assume m: "m \<in> set (bs_of os)" "off < m"
      then show "off + length y \<le> m" using low [of m] high [of m] by (auto simp: assms(4) all)
    qed (use assms(2) in auto)
    then show ?thesis by (simp add: member_len_def assms(3))
  qed
qed

text \<open>Members of bundles whose bytes can be counted.\<close>

definition counted :: "members \<Rightarrow> bool" where
  "counted ms = (\<forall>i. int (length (concat (ms i))) \<le> i64_max)"

lemma places_counted:
  assumes "(i, off, y) \<in> places ms" "counted ms"
  shows "sat off = off" "off + length y \<le> length (concat (ms i))" "off + length y < u64_bound"
    "int (off + length y) \<le> i64_max" "slice (concat (ms i)) off (length y) = y"
proof -
  have y: "(off, y) \<in> spots 0 (ms i)" using assms(1) by (simp add: places_def)
  then show fits: "off + length y \<le> length (concat (ms i))" using spots_bounds [of off y 0] by simp
  moreover have "int (length (concat (ms i))) \<le> i64_max" using assms(2) by (simp add: counted_def)
  ultimately show "int (off + length y) \<le> i64_max" by linarith
  then show "off + length y < u64_bound" by linarith
  then show "sat off = off" by (simp add: sat_def)
  show "slice (concat (ms i)) off (length y) = y" by (rule spots_slice [OF y])
qed

section \<open>What the manifest entries record\<close>

definition fresh_skeleton :: "manifest_file \<Rightarrow> bool" where
  "fresh_skeleton f = (mf_reference f = None \<and> mf_bundle_id f = None \<and> mf_bundle_offset f = None \<and>
     mf_block_map f = None)"

definition plain_entry :: "manifest_file \<Rightarrow> bool" where
  "plain_entry f = (mf_bundle_id f = None \<and> mf_bundle_offset f = None \<and> mf_block_map f = None)"

text \<open>An entry names a place as the member of a file or as a block of this backup.\<close>

definition names_place :: "string \<Rightarrow> manifest_file \<Rightarrow> nat \<times> nat \<times> string \<Rightarrow> bool" where
  "names_place label f p = (case p of (i, off, y) \<Rightarrow>
     mf_bundle_id f = Some i \<and> mf_bundle_offset f = Some (sat off) \<or>
     (\<exists>bm. mf_block_map f = Some bm \<and> (\<exists>r \<in> set (bm_blocks bm). named_by label p r)))"

definition in_blocks :: "'s bundled_ctx \<Rightarrow> members \<Rightarrow> manifest_file \<Rightarrow> string \<Rightarrow> block_map \<Rightarrow> bool" where
  "in_blocks ctx ms f bytes bm = (let bs = bm_block_size bm; blocks = split_blocks bytes bs in
     length (bm_blocks bm) = length blocks \<and>
     (\<forall>j < length blocks. block_entry (bc_env ctx) (bc_transform ctx) (bc_label ctx)
        (overrides_checksum_size (bc_block_overrides ctx) bs) (prior_map_of ctx (mf_path f)) ms j (blocks ! j)
        (bm_blocks bm ! j)))"

definition in_bundle :: "'s bundled_ctx \<Rightarrow> members \<Rightarrow> manifest_file \<Rightarrow> string \<Rightarrow> nat \<Rightarrow> bool" where
  "in_bundle ctx ms f bytes i = (\<exists>off y. apply_forward_keyed (bc_env ctx) (bc_transform ctx) bytes = Ok y \<and>
     mf_bundle_offset f = Some (sat off) \<and> (i, off, y) \<in> places ms)"

definition recorded :: "'s bundled_ctx \<Rightarrow> members \<Rightarrow> manifest_file \<Rightarrow> string \<Rightarrow> bool" where
  "recorded ctx ms f bytes = (mf_checksum f = Some (bytes_to_hex (fe_digest (bc_env ctx) DigestSha1 bytes)) \<and>
     mf_reference f = None \<and> (mf_bundle_id f = None \<longleftrightarrow> mf_bundle_offset f = None) \<and>
     (\<forall>bm. mf_block_map f = Some bm \<longrightarrow> mf_bundle_id f = None \<and> in_blocks ctx ms f bytes bm) \<and>
     (\<forall>i. mf_bundle_id f = Some i \<longrightarrow> mf_block_map f = None \<and> in_bundle ctx ms f bytes i))"

text \<open>The bytes are those that some read of the source returned.\<close>

definition was_read :: "'s bundled_ctx \<Rightarrow> string \<Rightarrow> string \<Rightarrow> bool" where
  "was_read ctx path bytes = (\<exists>job u v. job \<in> set (bc_jobs ctx) \<and> cj_rel job = path \<and>
     read_source (bc_pg_storage ctx) (bc_std ctx) job u = (Ok bytes, v))"

definition copied :: "'s bundled_ctx \<Rightarrow> members \<Rightarrow> manifest_file \<Rightarrow> bool" where
  "copied ctx ms f = (\<exists>bytes. was_read ctx (mf_path f) bytes \<and> recorded ctx ms f bytes)"

text \<open>The state of the copy: the packed bundles, the recorded files, every place named by one of them.\<close>

definition copy_inv :: "'s bundled_ctx \<Rightarrow> copy_progress \<Rightarrow> members \<Rightarrow> bool" where
  "copy_inv ctx cp ms = (packed (cp_bundle cp) ms \<and> bt_ok (bst_bundles (cp_bundle cp)) \<and>
     (\<forall>j path. bt_get (cp_job_by_rel cp) path = Some j \<longrightarrow> j \<in> set (bc_jobs ctx) \<and> cj_rel j = path) \<and>
     (\<forall>f \<in> set (cp_files cp) - set (bc_referenced ctx). copied ctx ms f) \<and>
     (\<forall>p \<in> places ms. \<exists>f \<in> set (cp_files cp). names_place (bc_label ctx) f p))"

lemma packed_repo_size [simp]: "packed (b\<lparr>bst_repo_size := n\<rparr>) ms = packed b ms"
  by (simp add: packed_def Let_def)

lemma in_blocks_extend: "in_blocks ctx a f bytes bm \<Longrightarrow> extends a b \<Longrightarrow> in_blocks ctx b f bytes bm"
  unfolding in_blocks_def Let_def using block_entry_extend by blast

lemma in_bundle_extend: "in_bundle ctx a f bytes i \<Longrightarrow> extends a b \<Longrightarrow> in_bundle ctx b f bytes i"
  unfolding in_bundle_def using places_extend by blast

lemma copied_extend: "copied ctx a f \<Longrightarrow> extends a b \<Longrightarrow> copied ctx b f"
  unfolding copied_def recorded_def by (elim exE, rule exI) (auto intro: in_blocks_extend in_bundle_extend)

lemma retry_reads:
  "retry_loop n op s = (Ok x, t) \<Longrightarrow> \<exists>u v. op u = (Ok x, v)"
proof (induction n op s rule: retry_loop.induct)
  case (1 n op s)
  obtain r u where one: "op s = (r, u)" by fastforce
  show ?case
  proof (cases r)
    case (Inr y)
    then show ?thesis using 1(2) one by (auto simp: retry_loop.simps [of n])
  next
    case (Inl e)
    then show ?thesis using 1 one by (auto simp: retry_loop.simps [of n] split: nat.splits if_splits)
  qed
qed

lemma place_groups_ok: "bt_ok (bst_bundles s) \<Longrightarrow> bt_ok (bst_bundles (snd (place_groups label gs stored (refs, s))))"
proof (induction gs arbitrary: stored refs s)
  case (Cons g gs)
  obtain refs1 s1 where one: "place_group label (take g stored) (refs, s) = (refs1, s1)" by fastforce
  then have "bt_ok (bst_bundles s1)"
    using Cons.prems by (auto simp: place_group_def Let_def split: prod.splits)
  then show ?case using Cons.IH one by simp
qed simp

lemma build_block_map_ok:
  assumes "build_block_map E t label bytes bs csz ssz pm s = Ok (bm, s')" "bt_ok (bst_bundles s)"
  shows "bt_ok (bst_bundles s')"
proof -
  obtain refs stored where "try_fold (classify_block E t csz pm) (enumerate 0 (split_blocks bytes bs))
        (replicate (length (split_blocks bytes bs)) None, []) = Ok (refs, stored)"
    using assms(1) by (auto simp: build_block_map_def rbind_Inr_iff Let_def)
  moreover obtain refs' s'' where
      "place_groups label (super_block_layout (length stored) bs ssz) stored (refs, s) = (refs', s'')" by fastforce
  ultimately show ?thesis
    using assms place_groups_ok [OF assms(2), of label "super_block_layout (length stored) bs ssz" stored refs]
    by (auto simp: build_block_map_def rbind_Inr_iff Let_def)
qed

section \<open>Each file of the copy\<close>

lemma store_blocks_inv:
  assumes "store_blocks ctx f bytes bs b s = (Ok (e, b'), t)" "packed b ms" "bt_ok (bst_bundles b)"
    and "fresh_skeleton f" "mf_checksum f = Some (bytes_to_hex (fe_digest (bc_env ctx) DigestSha1 bytes))"
  shows "\<exists>ms'. packed b' ms' \<and> bt_ok (bst_bundles b') \<and> extends ms ms' \<and> recorded ctx ms' e bytes \<and> mf_path e = mf_path f \<and>
    (\<forall>p \<in> places ms' - places ms. names_place (bc_label ctx) e p)"
proof -
  obtain bm where bm: "build_block_map (bc_env ctx) (bc_transform ctx) (bc_label ctx) bytes bs
         (overrides_checksum_size (bc_block_overrides ctx) bs)
         (overrides_super_size (bc_block_overrides ctx) (bc_is_full ctx))
         (prior_map_of ctx (mf_path f)) b = Ok (bm, b')" and e: "e = f\<lparr>mf_block_map := Some bm\<rparr>"
    using assms(1) by (auto simp: store_blocks_def act_bind_Inr_iff act_lift_app act_ok_app)
  from build_block_map_entries [OF bm assms(2)] obtain ms' where ms':
      "packed b' ms'" "extends ms ms'" "bm_block_size bm = bs"
      "in_blocks ctx ms' f bytes bm" "\<forall>p \<in> places ms' - places ms. \<exists>r \<in> set (bm_blocks bm). named_by (bc_label ctx) p r"
    by (auto simp: in_blocks_def Let_def)
  have "in_blocks ctx ms' e bytes bm" using ms'(4) e by (simp add: in_blocks_def Let_def)
  moreover have "\<forall>p \<in> places ms' - places ms. names_place (bc_label ctx) e p"
    using ms'(5) e by (fastforce simp: names_place_def)
  ultimately show ?thesis
    using ms'(1,2) build_block_map_ok [OF bm assms(3)] assms(4,5) e
    by (intro exI [of _ ms']) (auto simp: recorded_def fresh_skeleton_def)
qed

lemma store_in_bundle_inv:
  assumes "store_in_bundle f y b = (e, b')" "packed b ms" "bt_ok (bst_bundles b)" "fresh_skeleton f"
    and "mf_checksum f = Some (bytes_to_hex (fe_digest (bc_env ctx) DigestSha1 bytes))"
    and "apply_forward_keyed (bc_env ctx) (bc_transform ctx) bytes = Ok y"
  shows "\<exists>ms'. packed b' ms' \<and> bt_ok (bst_bundles b') \<and> extends ms ms' \<and> recorded ctx ms' e bytes \<and> mf_path e = mf_path f \<and>
    (\<forall>p \<in> places ms' - places ms. names_place (bc_label ctx) e p)"
proof -
  obtain slot packer where place: "place (length (concat [y])) (bst_packer b) = (slot, packer)"
    by (cases "place (length (concat [y])) (bst_packer b)")
  let ?i = "sl_bundle_id slot"
  let ?ms = "ms(?i := ms ?i @ [y])"
  note packs = packed_place [OF assms(2) place refl]
  have e: "e = f\<lparr>mf_bundle_id := Some ?i, mf_bundle_offset := Some (sat (length (concat (ms ?i))))\<rparr>"
    and b': "b' = \<lparr>bst_bundles = bt_insert ?i (concat (ms ?i @ [y])) (bst_bundles b), bst_packer = packer,
      bst_repo_size = bst_repo_size b\<rparr>"
    using assms(1) place packs(2) by (auto simp: store_in_bundle_def Let_def packed_entry [OF assms(2)])
  have places: "places ?ms = insert (?i, length (concat (ms ?i)), y) (places ms)"
    by (auto simp: places_append)
  then have "recorded ctx ?ms e bytes"
    using assms(4-6) e by (auto simp: recorded_def fresh_skeleton_def in_bundle_def)
  moreover have "\<forall>p \<in> places ?ms - places ms. names_place (bc_label ctx) e p"
    using e by (auto simp: places names_place_def)
  ultimately show ?thesis
    using packs(1) [of "bst_repo_size b"] assms(3) e unfolding b' by (intro exI [of _ ?ms]) simp
qed

lemma store_whole_inv:
  assumes "store_whole ctx job f bytes b s = (Ok (e, b'), t)" "packed b ms" "bt_ok (bst_bundles b)" "fresh_skeleton f"
    and "mf_checksum f = Some (bytes_to_hex (fe_digest (bc_env ctx) DigestSha1 bytes))"
  shows "\<exists>ms'. packed b' ms' \<and> bt_ok (bst_bundles b') \<and> extends ms ms' \<and> recorded ctx ms' e bytes \<and> mf_path e = mf_path f \<and>
    (\<forall>p \<in> places ms' - places ms. names_place (bc_label ctx) e p)"
proof -
  obtain y where y: "apply_forward_keyed (bc_env ctx) (bc_transform ctx) bytes = Ok y"
    using assms(1) by (auto simp: store_whole_def act_bind_Inr_iff act_lift_app)
  let ?b = "b\<lparr>bst_repo_size := bst_repo_size b + length y\<rparr>"
  have b: "packed ?b ms" "bt_ok (bst_bundles ?b)" using assms(2,3) by simp_all
  show ?thesis
  proof (cases "length y \<le> bf_bundle_limit (bc_features ctx)")
    case True
    then have "store_in_bundle f y ?b = (e, b')"
      using assms(1) y by (auto simp: store_whole_def act_bind_Inr_iff act_lift_app act_ok_app Let_def)
    from store_in_bundle_inv [OF this b assms(4,5) y] show ?thesis .
  next
    case False
    then have "e = f" "b' = ?b"
      using assms(1) y by (auto simp: store_whole_def act_bind_Inr_iff act_lift_app act_ok_app Let_def)
    then show ?thesis
      using b assms(4,5) by (intro exI [of _ ms]) (auto simp: recorded_def fresh_skeleton_def)
  qed
qed

lemma copy_skeleton_inv:
  assumes "copy_skeleton ctx f cp s = (Ok cp', t)" "copy_inv ctx cp ms" "fresh_skeleton f"
  shows "\<exists>ms'. copy_inv ctx cp' ms'"
proof -
  obtain job where job: "bt_get (cp_job_by_rel cp) (mf_path f) = Some job"
    using assms(1) by (auto simp: copy_skeleton_def act_err_app split: option.splits)
  let ?sum = "\<lambda>bytes. bytes_to_hex (fe_digest (bc_env ctx) DigestSha1 bytes)"
  let ?filled = "\<lambda>bytes. f\<lparr>mf_checksum := Some (?sum bytes), mf_checksum_page := page_outcome job bytes\<rparr>"
  obtain bytes s1 e b where run:
      "job_retry_run (bc_job_retry ctx) (read_source (bc_pg_storage ctx) (bc_std ctx) job) s = (Ok bytes, s1)"
      "(case block_size_for ctx f of
         Some bs \<Rightarrow> store_blocks ctx (?filled bytes) bytes bs (cp_bundle cp)
       | None \<Rightarrow> store_whole ctx job (?filled bytes) bytes (cp_bundle cp)) s1 = (Ok (e, b), t)"
      "cp' = \<lparr>cp_files = cp_files cp @ [e], cp_job_by_rel = bt_remove (mf_path f) (cp_job_by_rel cp), cp_bundle = b\<rparr>"
    using assms(1) job
    by (auto simp: copy_skeleton_def act_bind_Inr_iff act_lift_app act_ok_app plaintext_sha1_Ok Let_def split: prod.splits)
  have fresh: "fresh_skeleton (?filled bytes)" using assms(3) by (simp add: fresh_skeleton_def)
  have inv: "packed (cp_bundle cp) ms" "bt_ok (bst_bundles (cp_bundle cp))"
      "job \<in> set (bc_jobs ctx)" "cj_rel job = mf_path f"
    using assms(2) job by (auto simp: copy_inv_def)
  have "\<exists>ms'. packed b ms' \<and> bt_ok (bst_bundles b) \<and> extends ms ms' \<and> recorded ctx ms' e bytes \<and>
      mf_path e = mf_path (?filled bytes) \<and> (\<forall>p \<in> places ms' - places ms. names_place (bc_label ctx) e p)"
  proof (cases "block_size_for ctx f")
    case (Some bs)
    then have "store_blocks ctx (?filled bytes) bytes bs (cp_bundle cp) s1 = (Ok (e, b), t)" using run(2) by simp
    from store_blocks_inv [OF this inv(1,2) fresh] show ?thesis by simp
  next
    case None
    then have "store_whole ctx job (?filled bytes) bytes (cp_bundle cp) s1 = (Ok (e, b), t)" using run(2) by simp
    from store_whole_inv [OF this inv(1,2) fresh] show ?thesis by simp
  qed
  then obtain ms' where ms': "packed b ms'" "bt_ok (bst_bundles b)" "extends ms ms'" "recorded ctx ms' e bytes"
      "mf_path e = mf_path f" "\<forall>p \<in> places ms' - places ms. names_place (bc_label ctx) e p"
    by auto
  obtain u v where "read_source (bc_pg_storage ctx) (bc_std ctx) job u = (Ok bytes, v)"
    using retry_reads [OF run(1) [unfolded job_retry_run_def]] by blast
  then have "was_read ctx (mf_path e) bytes" using inv(3,4) ms'(5) unfolding was_read_def by metis
  then have "copied ctx ms' e" using ms'(4) by (auto simp: copied_def)
  moreover have "\<forall>f \<in> set (cp_files cp) - set (bc_referenced ctx). copied ctx ms' f"
    using assms(2) copied_extend [OF _ ms'(3)] unfolding copy_inv_def by blast
  moreover have "\<forall>p \<in> places ms'. \<exists>g \<in> set (cp_files cp @ [e]). names_place (bc_label ctx) g p"
    using assms(2) ms'(6) unfolding copy_inv_def by (metis DiffI Un_iff list.set_intros(1) set_append)
  ultimately have "copy_inv ctx cp' ms'"
    using assms(2) ms'(1,2) unfolding copy_inv_def run(3) by (simp split: if_splits) blast
  then show ?thesis by blast
qed

lemma copy_skeletons_inv:
  assumes "copy_skeletons ctx fs cp s = (Ok cp', t)" "copy_inv ctx cp ms" "\<forall>f \<in> set fs. fresh_skeleton f"
  shows "\<exists>ms'. copy_inv ctx cp' ms'"
  using assms
proof (induction fs arbitrary: cp s ms)
  case (Cons f fs)
  then obtain cp1 s1 where one: "copy_skeleton ctx f cp s = (Ok cp1, s1)"
      and rest: "copy_skeletons ctx fs cp1 s1 = (Ok cp', t)"
    by (auto simp: act_bind_Inr_iff)
  obtain ms1 where "copy_inv ctx cp1 ms1" using copy_skeleton_inv [OF one Cons.prems(2)] Cons.prems(3) by auto
  then show ?case using Cons.IH [OF rest] Cons.prems(3) by simp
qed (auto simp: act_ok_app)

lemma jobs_by_rel_get: "bt_get (jobs_by_rel jobs) path = Some j \<Longrightarrow> j \<in> set jobs \<and> cj_rel j = path"
proof -
  have "bt_get (fold (\<lambda>j. bt_insert (cj_rel j) j) jobs m) path = Some j \<Longrightarrow>
      j \<in> set jobs \<and> cj_rel j = path \<or> bt_get m path = Some j" for m
  proof (induction jobs arbitrary: m)
    case (Cons a jobs)
    then show ?case using Cons.IH [of "bt_insert (cj_rel a) a m"] by (auto split: if_splits)
  qed simp
  then show "bt_get (jobs_by_rel jobs) path = Some j \<Longrightarrow> j \<in> set jobs \<and> cj_rel j = path"
    unfolding jobs_by_rel_def by fastforce
qed

lemma copy_inv_start:
  "copy_inv ctx \<lparr>cp_files = bc_referenced ctx, cp_job_by_rel = jobs_by_rel (bc_jobs ctx),
      cp_bundle = \<lparr>bst_bundles = [], bst_packer = packer_new n, bst_repo_size = 0\<rparr>\<rparr> (\<lambda>_. [])"
  using jobs_by_rel_get by (fastforce simp: copy_inv_def packed_new places_def bt_ok_def)

section \<open>Reading back\<close>

text \<open>A slice of an object that decodes to the given bytes.\<close>

definition slice_at :: "filter_env \<Rightarrow> string option \<Rightarrow> nat \<Rightarrow> nat \<Rightarrow> repo_transform \<Rightarrow> string \<Rightarrow> bool" where
  "slice_at E obj off len t x = (\<exists>b. obj = Some b \<and> int (off + len) \<le> i64_max \<and> off + len \<le> length b \<and>
     apply_reverse_keyed E t (slice b off len) = Ok x)"

lemma slice_at_buffered:
  "slice_at E (Some b) off len t x \<Longrightarrow> read_bundle_slice_buffered E b off len t = Ok x"
  by (auto simp: slice_at_def read_bundle_slice_buffered_def reverse_keyed_def)

lemma placed_slice:
  assumes "(i, off, y) \<in> places ms" "counted ms" "env_ok E" "apply_forward_keyed E t x = Ok y"
    and "rt_compress_type t = rt_compress_type u" "rt_cipher_pass t = rt_cipher_pass u"
  shows "slice_at E (Some (concat (ms i))) (sat off) (length y) u x"
  using places_counted [OF assms(1,2)] transform_roundtrip [OF assms(3,5,6,4)] by (auto simp: slice_at_def)

text \<open>
  The resolver of a restore of this backup: the same label, root and transform, a manifest with the entries of
  the copy; and the prior blocks that the copy kept, in the state the restore starts from.
\<close>

definition restores :: "('s, 'j) resolver \<Rightarrow> 's bundled_ctx \<Rightarrow> manifest_file list \<Rightarrow> bool" where
  "restores R ctx files = (sr_label R = bc_label ctx \<and> backup_root_of (sr_stanza R) (sr_label R) = bc_backup_root ctx \<and>
     rt_compress_type (bc_transform ctx) = rt_compress_type (sr_transform R) \<and>
     rt_cipher_pass (bc_transform ctx) = rt_cipher_pass (sr_transform R) \<and>
     set (mn_files (sr_manifest R)) = set files)"

definition bundle_of_ref :: "('s, 'j) resolver \<Rightarrow> block_ref \<Rightarrow> path" where
  "bundle_of_ref R r = bundle_object_path (backup_root_of (sr_stanza R) (br_reference r)) (br_bundle_id r)"

definition prior_blocks_readable ::
  "filter_env \<Rightarrow> (path \<Rightarrow> string option) \<Rightarrow> ('s, 'j) resolver \<Rightarrow> 's bundled_ctx \<Rightarrow> bool" where
  "prior_blocks_readable E obj R ctx = (\<forall>path bm. prior_map_of ctx path = Some bm \<longrightarrow> (\<forall>r \<in> set (bm_blocks bm).
     br_reference r \<noteq> bc_label ctx \<and>
     (\<forall>bs x. br_checksum r = block_sum E (overrides_checksum_size (bc_block_overrides ctx) bs) x \<longrightarrow>
       slice_at E (obj (bundle_of_ref R r)) (br_offset r) (br_size r) (holder_transform R (br_reference r)) x)))"

text \<open>The files of the copy that are in bundles or blocks, and whose stored form is not empty.\<close>

definition stored_in_bundles :: "'s bundled_ctx \<Rightarrow> filter_env \<Rightarrow> manifest_file \<Rightarrow> bool" where
  "stored_in_bundles ctx E f = (f \<notin> set (bc_referenced ctx) \<and>
     (mf_block_map f \<noteq> None \<or> mf_bundle_id f \<noteq> None \<and>
       (\<forall>bytes. mf_checksum f = Some (bytes_to_hex (fe_digest E DigestSha1 bytes)) \<longrightarrow>
          apply_forward_keyed E (bc_transform ctx) bytes \<noteq> Ok [])))"

text \<open>The resolver over the files of a restore, one after the other with its caches.\<close>

fun resolve_all ::
  "('s, 'j) resolver \<Rightarrow> manifest_file list \<Rightarrow> source_cache \<Rightarrow> ('s, command_error, restore_source list \<times> source_cache) action" where
  "resolve_all R [] c = act_ok ([], c)"
| "resolve_all R (f # fs) c = act_bind (resolve R f c) (\<lambda>(src, c).
     act_bind (resolve_all R fs c) (\<lambda>(srcs, c). act_ok (src # srcs, c)))"

context copy_host
begin

text \<open>A healthy state with the given files.\<close>

definition ready :: "(string list \<Rightarrow> string option) \<Rightarrow> 's \<Rightarrow> bool" where
  "ready V u = (healthy u \<and> view u = V)"

lemma read_ready: "ready V u \<Longrightarrow> V (key p) = Some b \<Longrightarrow> \<exists>v. so_read ops p u = (Ok b, v) \<and> ready V v"
  unfolding ready_def by (metis read_healthy read_view snd_conv)

lemma std_read_ready: "ready V u \<Longrightarrow> V (place p) = Some b \<Longrightarrow> \<exists>v. sf_read std p u = (Ok b, v) \<and> ready V v"
  unfolding ready_def by (metis std_read_healthy std_read_view snd_conv)

lemma info_ready:
  "ready V u \<Longrightarrow> V (key p) = Some b \<Longrightarrow>
   \<exists>i v. do_info dirs p u = (Ok i, v) \<and> si_size i = length b \<and> place (si_path i) = key p \<and> ready V v"
  unfolding ready_def by (metis info_healthy info_size info_view snd_conv)

lemma object_ready:
  "ready V u \<Longrightarrow> V (key p) = Some b \<Longrightarrow> \<exists>v. read_repo_object ops p u = (Ok b, v) \<and> ready V v"
  using read_ready unfolding read_repo_object_def act_map_err_def by fastforce

lemma local_slice:
  assumes "ready V u" "slice_at E (V (place p)) off len t x"
  shows "\<exists>v. read_bundle_slice E std p off len t u = (Ok x, v) \<and> ready V v"
proof -
  obtain b where b: "V (place p) = Some b" "int (off + len) \<le> i64_max" "off + len \<le> length b"
      "apply_reverse_keyed E t (slice b off len) = Ok x"
    using assms(2) by (auto simp: slice_at_def)
  obtain v where "sf_read std p u = (Ok b, v)" "ready V v" using std_read_ready [OF assms(1) b(1)] by blast
  then show ?thesis using b
    by (auto simp: read_bundle_slice_def act_bind_def act_map_err_def act_lift_def reverse_keyed_def)
qed

text \<open>The source of a block gives the block, by the storage and by its absolute path.\<close>

definition gives :: "filter_env \<Rightarrow> (string list \<Rightarrow> string option) \<Rightarrow> bool \<Rightarrow> block_source \<Rightarrow> string \<Rightarrow> bool" where
  "gives E V local src x = (
     slice_at E (V (key (bks_repo_bundle src))) (bks_offset src) (bks_len src) (bks_transform src) x \<and>
     (local \<longrightarrow> place (bks_abs_bundle src) = key (bks_repo_bundle src)))"

lemma storage_blocks_ready:
  assumes "ready V u" "list_all2 (gives E V local) srcs xs" "\<And>p b. im_get cache p = Some b \<Longrightarrow> V (key p) = Some b"
  shows "\<exists>v. storage_blocks E ops cache srcs u = (Ok (concat xs), v) \<and> ready V v"
  using assms
proof (induction srcs arbitrary: xs u cache)
  case Nil
  then show ?case by (simp add: act_ok_def)
next
  case (Cons src srcs)
  let ?p = "bks_repo_bundle src"
  obtain x rest where xs: "xs = x # rest" and x: "gives E V local src x" and rest: "list_all2 (gives E V local) srcs rest"
    using Cons.prems(2) by (cases xs) auto
  obtain b where b: "V (key ?p) = Some b" "read_bundle_slice_buffered E b (bks_offset src) (bks_len src) (bks_transform src) = Ok x"
    using x slice_at_buffered by (auto simp: gives_def slice_at_def)
  obtain v where "read_repo_object ops ?p u = (Ok b, v)" "ready V v"
    using object_ready [OF Cons.prems(1) b(1)] by blast
  then obtain c w where read: "(case im_get cache ?p of
         Some bytes \<Rightarrow> act_ok (bytes, cache)
       | None \<Rightarrow> act_bind (read_repo_object ops ?p) (\<lambda>bytes. act_ok (bytes, im_insert ?p bytes cache))) u = (Ok (b, c), w)"
      "ready V w" "\<And>p b. im_get c p = Some b \<Longrightarrow> V (key p) = Some b"
    using Cons.prems(1,3) b(1)
    by (cases "im_get cache ?p") (force simp: act_ok_def act_bind_def split: if_splits)+
  from Cons.IH [OF read(2) rest read(3)] obtain v' where "storage_blocks E ops c srcs w = (Ok (concat rest), v')" "ready V v'"
    by blast
  then show ?case using read(1) b(2) by (simp add: act_bind_def act_lift_def act_ok_def xs)
qed

lemma local_blocks_ready:
  assumes "ready V u" "list_all2 (gives E V True) srcs xs"
  shows "\<exists>v. act_map (\<lambda>b. cached_slice E std [] (bks_abs_bundle b) (bks_offset b) (bks_len b) (bks_transform b)) srcs u =
    (Ok xs, v) \<and> ready V v"
  using assms(2,1)
proof (induction arbitrary: u rule: list_all2_induct)
  case (Cons src srcs x xs)
  have "slice_at E (V (place (bks_abs_bundle src))) (bks_offset src) (bks_len src) (bks_transform src) x"
    using Cons.hyps(1) by (simp add: gives_def)
  then obtain v where "read_bundle_slice E std (bks_abs_bundle src) (bks_offset src) (bks_len src) (bks_transform src) u = (Ok x, v)"
      "ready V v"
    using local_slice [OF Cons.prems] by blast
  moreover from this obtain w where "act_map (\<lambda>b. cached_slice E std [] (bks_abs_bundle b) (bks_offset b) (bks_len b)
        (bks_transform b)) srcs v = (Ok xs, w)" "ready V w"
    using Cons.IH by blast
  ultimately show ?case by (simp add: act_bind_def cached_slice_def act_ok_def im_get_def)
qed (simp add: act_ok_def)

lemma act_map_ready:
  assumes "ready V u" "list_all2 (\<lambda>x z. \<forall>u. ready V u \<longrightarrow> (\<exists>y v. f x u = (Ok y, v) \<and> ready V v \<and> Q y z)) xs zs"
  shows "\<exists>ys v. act_map f xs u = (Ok ys, v) \<and> ready V v \<and> list_all2 Q ys zs"
  using assms(2,1)
proof (induction arbitrary: u rule: list_all2_induct)
  case (Cons x xs z zs)
  then obtain y v where one: "f x u = (Ok y, v)" "ready V v" "Q y z" by blast
  then obtain ys w where "act_map f xs v = (Ok ys, w)" "ready V w" "list_all2 Q ys zs" using Cons.IH by blast
  then show ?case using one by (auto simp: act_bind_def act_ok_def)
qed (simp add: act_ok_def)

lemma local_path_ready:
  assumes "ready V u" "sr_repo R = ops" "sr_dirs R = dirs" "V (key p) = Some b"
  shows "\<exists>a v. local_path R p u = (Ok a, v) \<and> ready V v \<and> (so_is_local ops \<longrightarrow> place a = key p)"
  using info_ready [OF assms(1,4)] assms(1-3)
  by (cases "so_is_local ops") (auto simp: local_path_def act_bind_def act_map_err_def act_ok_def)

lemma block_source_ready:
  assumes "ready V u" "sr_repo R = ops" "sr_dirs R = dirs"
    and "slice_at E (V (key (bundle_of_ref R b))) (br_offset b) (br_size b) (holder_transform R (br_reference b)) x"
  shows "\<exists>src v. block_source_of R b u = (Ok src, v) \<and> ready V v \<and> gives E V (so_is_local ops) src x"
proof -
  obtain obj where "V (key (bundle_of_ref R b)) = Some obj" using assms(4) by (auto simp: slice_at_def)
  then obtain a v where "local_path R (bundle_of_ref R b) u = (Ok a, v)" "ready V v"
      "so_is_local ops \<longrightarrow> place a = key (bundle_of_ref R b)"
    using local_path_ready [OF assms(1-3)] by blast
  then show ?thesis
    using assms(4) by (auto simp: block_source_of_def bundle_of_ref_def gives_def act_bind_def act_ok_def Let_def)
qed

section \<open>The bundles in the repository\<close>

lemma bundle_key: "broot \<noteq> [] \<Longrightarrow> key (bundle_object_path broot i) = key (broot @ ''/bundle'') @ [fmt_dec i]"
proof -
  assume "broot \<noteq> []"
  have "CHR ''/'' \<notin> set (fmt_dec i)" "fmt_dec i \<noteq> ''.''"
    using fmt_dec_digits [of "CHR ''/''" i] fmt_dec_digits [of "CHR ''.''" i]
    by (auto simp: is_ascii_digit_def char_code_def)
  then have "components (fmt_dec i) = [fmt_dec i]" by (simp add: components_single)
  moreover have "bundle_object_path broot i = (broot @ ''/bundle'') @ ''/'' @ fmt_dec i"
    by (simp add: bundle_object_path_def)
  ultimately show ?thesis using key_slash [of "broot @ ''/bundle''" "fmt_dec i"] \<open>broot \<noteq> []\<close> by simp
qed

definition flushed :: "(string list \<Rightarrow> string option) \<Rightarrow> string \<Rightarrow> members \<Rightarrow> bool" where
  "flushed V broot ms = (\<forall>i. ms i \<noteq> [] \<longrightarrow> V (key (bundle_object_path broot i)) = Some (concat (ms i)))"

lemma flush_writes:
  assumes "act_for (\<lambda>(i, data). write_repo_file ops (bundle_object_path broot i) data) bundles s = (Ok (), t)"
    and "broot \<noteq> []" "distinct (map fst bundles)"
  shows "(\<forall>(i, data) \<in> set bundles. view t (key (bundle_object_path broot i)) = Some data) \<and>
    (\<forall>i. i \<notin> fst ` set bundles \<longrightarrow> view t (key (bundle_object_path broot i)) = view s (key (bundle_object_path broot i)))"
  using assms
proof (induction bundles arbitrary: s)
  case (Cons x bundles)
  obtain i data where x: "x = (i, data)" by fastforce
  let ?at = "\<lambda>i. key (bundle_object_path broot i)"
  obtain u s1 where one: "so_write ops (bundle_object_path broot i) data s = (Ok u, s1)"
      and rest: "act_for (\<lambda>(i, data). write_repo_file ops (bundle_object_path broot i) data) bundles s1 = (Ok (), t)"
    using Cons.prems(1) x by (auto simp: act_bind_Inr_iff write_repo_file_def)
  have inj: "j \<noteq> i \<Longrightarrow> ?at j \<noteq> ?at i" for j
    using bundle_key [OF Cons.prems(2)] by (simp add: fmt_dec_inj)
  have frame: "view s1 (?at j) = view s (?at j)" if "j \<noteq> i" for j
    using write_frame [OF inj [OF that], of data s] one by simp
  note IH = Cons.IH [OF rest Cons.prems(2)]
  have "i \<notin> fst ` set bundles" using Cons.prems(3) x by simp
  then have "view t (?at i) = Some data" using IH Cons.prems(3) write_Ok [OF one] by simp
  then show ?case using IH Cons.prems(3) x frame by auto
qed (simp add: act_ok_app)

lemma run_copy_flushed:
  assumes "run_bundled_copy_serial ctx s = (Ok (files, n), t)" "bc_repo_storage ctx = ops" "bc_backup_root ctx \<noteq> []"
    and "\<forall>f \<in> set (bc_skeletons ctx). fresh_skeleton f"
  shows "\<exists>cp ms. copy_inv ctx cp ms \<and> cp_files cp = files \<and> flushed (view t) (bc_backup_root ctx) ms"
proof -
  let ?start = "\<lparr>cp_files = bc_referenced ctx, cp_job_by_rel = jobs_by_rel (bc_jobs ctx),
      cp_bundle = \<lparr>bst_bundles = [], bst_packer = packer_new (bf_bundle_size (bc_features ctx)), bst_repo_size = 0\<rparr>\<rparr>"
  obtain cp s1 where copy: "copy_skeletons ctx (bc_skeletons ctx) ?start s = (Ok cp, s1)"
      and flush: "flush_bundles ctx (bst_bundles (cp_bundle cp)) s1 = (Ok (), t)" and files: "cp_files cp = files"
    using assms(1) by (auto simp: run_bundled_copy_serial_def act_bind_Inr_iff act_ok_app)
  obtain ms where inv: "copy_inv ctx cp ms"
    using copy_skeletons_inv [OF copy copy_inv_start assms(4)] by blast
  obtain s2 where "act_for (\<lambda>(i, data). write_repo_file ops (bundle_object_path (bc_backup_root ctx) i) data)
      (bst_bundles (cp_bundle cp)) s2 = (Ok (), t)"
    using flush assms(2) by (auto simp: flush_bundles_def act_bind_Inr_iff)
  from flush_writes [OF this assms(3)] inv
  have "\<forall>(i, data) \<in> set (bst_bundles (cp_bundle cp)). view t (key (bundle_object_path (bc_backup_root ctx) i)) = Some data"
    by (simp add: copy_inv_def bt_ok_distinct)
  moreover have "ms i \<noteq> [] \<Longrightarrow> (i, concat (ms i)) \<in> set (bst_bundles (cp_bundle cp))" for i
    using inv unfolding copy_inv_def packed_def Let_def by (metis bt_get_Some_iff)
  ultimately have "flushed (view t) (bc_backup_root ctx) ms" by (fastforce simp: flushed_def)
  then show ?thesis using inv files by blast
qed

section \<open>The layout of a bundle\<close>

lemma copied_offsets:
  assumes "copied ctx ms f" "counted ms" "prior_blocks_readable E obj R ctx" "off \<in> set (file_offsets (bc_label ctx) i f)"
  shows "\<exists>y. (i, off, y) \<in> places ms"
proof -
  obtain bytes where rec: "recorded ctx ms f bytes" using assms(1) by (auto simp: copied_def)
  from assms(4) consider (whole) "mf_bundle_id f = Some i" "mf_bundle_offset f = Some off"
    | (block) bm r where "mf_block_map f = Some bm" "r \<in> set (bm_blocks bm)" "br_reference r = bc_label ctx"
        "br_bundle_id r = i" "br_offset r = off"
    unfolding file_offsets_def by (cases "mf_block_map f"; cases "mf_bundle_offset f") (auto split: if_splits)
  then show ?thesis
  proof cases
    case whole
    then obtain o' y where "(i, o', y) \<in> places ms" "off = sat o'"
      using rec whole by (auto simp: recorded_def in_bundle_def)
    then show ?thesis using places_counted(1) [OF _ assms(2)] by auto
  next
    case block
    then obtain j where j: "j < length (bm_blocks bm)" "bm_blocks bm ! j = r" by (auto simp: in_set_conv_nth)
    have blocks: "in_blocks ctx ms f bytes bm" using rec block(1) by (simp add: recorded_def)
    let ?csz = "overrides_checksum_size (bc_block_overrides ctx) (bm_block_size bm)"
    have entry: "block_entry (bc_env ctx) (bc_transform ctx) (bc_label ctx) ?csz (prior_map_of ctx (mf_path f)) ms j
        (split_blocks bytes (bm_block_size bm) ! j) r"
      using blocks j by (auto simp: in_blocks_def Let_def)
    show ?thesis
    proof (cases "kept_ref (bc_env ctx) ?csz (prior_map_of ctx (mf_path f)) j (split_blocks bytes (bm_block_size bm) ! j)")
      case None
      then show ?thesis
        using entry block(4,5) places_counted(1) [OF _ assms(2)] by (auto simp: block_entry_def entry_place_def)
    next
      case (Some q)
      then obtain pm where "prior_map_of ctx (mf_path f) = Some pm" "r \<in> set (bm_blocks pm)"
        using entry by (auto simp: block_entry_def kept_ref_def prior_block_def split: option.splits if_splits)
      then show ?thesis using assms(3) block(3) unfolding prior_blocks_readable_def by blast
    qed
  qed
qed

lemma layout_offsets:
  assumes "copy_inv ctx cp ms" "counted ms" "prior_blocks_readable E obj R ctx" "\<forall>f \<in> set (bc_referenced ctx). plain_entry f"
    and "set fs = set (cp_files cp)"
  shows "set (concat (map (file_offsets (bc_label ctx) i) fs)) = fst ` spots 0 (ms i)"
proof (intro equalityI subsetI)
  fix off assume "off \<in> set (concat (map (file_offsets (bc_label ctx) i) fs))"
  then obtain f where f: "f \<in> set (cp_files cp)" "off \<in> set (file_offsets (bc_label ctx) i f)" using assms(5) by auto
  then have "\<not> plain_entry f" by (auto simp: file_offsets_def plain_entry_def)
  then have "copied ctx ms f" using f(1) assms(1,4) by (auto simp: copy_inv_def)
  from copied_offsets [OF this assms(2,3) f(2)] show "off \<in> fst ` spots 0 (ms i)" by (force simp: places_def)
next
  fix off assume "off \<in> fst ` spots 0 (ms i)"
  then obtain y where y: "(i, off, y) \<in> places ms" by (auto simp: places_def)
  then obtain f where f: "f \<in> set (cp_files cp)" "names_place (bc_label ctx) f (i, off, y)"
    using assms(1) by (auto simp: copy_inv_def)
  have "off \<in> set (file_offsets (bc_label ctx) i f)"
    using f(2) places_counted(1) [OF y assms(2)] by (auto simp: names_place_def named_by_def file_offsets_def)
  then show "off \<in> set (concat (map (file_offsets (bc_label ctx) i) fs))" using f(1) assms(5) by auto
qed

text \<open>A cache of layouts that agrees with the bundles of this backup.\<close>

definition cache_right :: "('s, 'j) resolver \<Rightarrow> members \<Rightarrow> source_cache \<Rightarrow> bool" where
  "cache_right R ms c = (\<forall>i l. bt_get (sc_layouts c) (sr_label R, i) = Some l \<longrightarrow>
     l = \<lparr>bl_bundle_size = length (concat (ms i)),
       bl_offsets = bs_of (concat (map (file_offsets (sr_label R) i) (mn_files (sr_manifest R))))\<rparr>)"

lemma layout_ready:
  assumes "ready V u" "sr_dirs R = dirs" "flushed V (backup_root_of (sr_stanza R) (sr_label R)) ms" "ms i \<noteq> []"
    and "cache_right R ms c"
  shows "\<exists>c' v. layout_of R (sr_label R) i c u = (Ok (\<lparr>bl_bundle_size = length (concat (ms i)),
       bl_offsets = bs_of (concat (map (file_offsets (sr_label R) i) (mn_files (sr_manifest R))))\<rparr>, c'), v) \<and>
     ready V v \<and> cache_right R ms c'"
proof (cases "bt_get (sc_layouts c) (sr_label R, i)")
  case (Some l)
  then show ?thesis using assms(1,5) by (simp add: layout_of_def act_ok_def cache_right_def)
next
  case None
  let ?p = "bundle_object_path (backup_root_of (sr_stanza R) (sr_label R)) i"
  have "V (key ?p) = Some (concat (ms i))" using assms(3,4) by (simp add: flushed_def)
  from info_ready [OF assms(1) this] obtain info v where
      "do_info dirs ?p u = (Ok info, v)" "si_size info = length (concat (ms i))" "ready V v" by blast
  then show ?thesis using None assms(2,5)
    by (auto simp: layout_of_def bundle_layout_of_def act_bind_def act_map_err_def act_ok_def cache_right_def Let_def)
qed

section \<open>Each file is found again\<close>

text \<open>A source yields the bytes through the storage and, on a local repository, by its absolute paths.\<close>

definition yields :: "filter_env \<Rightarrow> (string list \<Rightarrow> string option) \<Rightarrow> restore_source \<Rightarrow> string \<Rightarrow> bool" where
  "yields E V src bytes = (
     (\<forall>u. ready V u \<longrightarrow> (\<exists>w. storage_plaintext E ops src u = (Ok bytes, w) \<and> ready V w)) \<and>
     (so_is_local ops \<longrightarrow> (\<forall>u. ready V u \<longrightarrow> (\<exists>w. local_plaintext E std [] src u = (Ok bytes, w) \<and> ready V w))))"

lemma bundled_file_restores:
  assumes "ready V u" "sr_repo R = ops" "sr_dirs R = dirs" "env_ok E" "bc_env ctx = E" "restores R ctx files"
    and "copy_inv ctx cp ms" "cp_files cp = files" "counted ms" "flushed V (bc_backup_root ctx) ms"
    and "prior_blocks_readable E obj R ctx" "\<forall>f \<in> set (bc_referenced ctx). plain_entry f" "cache_right R ms c"
    and f: "recorded ctx ms f bytes" "mf_bundle_id f = Some i" "apply_forward_keyed E (bc_transform ctx) bytes \<noteq> Ok []"
  shows "\<exists>src c' v. resolve R f c u = (Ok (src, c'), v) \<and> ready V v \<and> cache_right R ms c' \<and> yields E V src bytes"
proof -
  let ?root = "backup_root_of (sr_stanza R) (sr_label R)"
  let ?p = "bundle_object_path ?root i"
  obtain off y where y: "apply_forward_keyed E (bc_transform ctx) bytes = Ok y" "mf_bundle_offset f = Some (sat off)"
      "(i, off, y) \<in> places ms" "mf_block_map f = None" "mf_reference f = None"
    using f(1,2) assms(5) by (auto simp: recorded_def in_bundle_def)
  have ne: "y \<noteq> []" "ms i \<noteq> []" using f(3) y(1,3) by (auto simp: places_def)
  have flushed: "flushed V ?root ms" using assms(6,10) unfolding restores_def by metis
  from layout_ready [OF assms(1,3) flushed ne(2) assms(13)] obtain l c' v where
      layout: "layout_of R (sr_label R) i c u = (Ok (l, c'), v)" "ready V v" "cache_right R ms c'"
        "l = \<lparr>bl_bundle_size = length (concat (ms i)),
           bl_offsets = bs_of (concat (map (file_offsets (sr_label R) i) (mn_files (sr_manifest R))))\<rparr>"
    by blast
  have obj: "V (key ?p) = Some (concat (ms i))" using flushed ne(2) by (simp add: flushed_def)
  from local_path_ready [OF layout(2) assms(2,3) obj] obtain a w where
      a: "local_path R ?p v = (Ok a, w)" "ready V w" "so_is_local ops \<longrightarrow> place a = key ?p" by blast
  have "member_len l off = length y"
    using member_len_spots [of off y "ms i" l] y(3) ne(1) layout(4) assms(6)
      layout_offsets [OF assms(7,9,11,12), of "mn_files (sr_manifest R)" i] assms(8)
    by (simp add: places_def restores_def)
  moreover have "sat off = off" by (rule places_counted(1) [OF y(3) assms(9)])
  ultimately have resolve: "resolve R f c u = (Ok (Bundled a ?p off (length y) (sr_transform R), c'), w)"
    using layout(1) a(1) y f(2)
    by (simp add: resolve_def find_holder_def resolve_whole_def act_bind_def act_ok_def holder_transform_def Let_def)
  have slice: "slice_at E (V (key ?p)) off (length y) (sr_transform R) bytes"
    using placed_slice [OF y(3) assms(9,4) y(1)] assms(6) \<open>sat off = off\<close> obj by (simp add: restores_def)
  then have buffered: "read_bundle_slice_buffered E (concat (ms i)) off (length y) (sr_transform R) = Ok bytes"
    using obj by (simp add: slice_at_buffered)
  have "\<exists>w. storage_plaintext E ops (Bundled a ?p off (length y) (sr_transform R)) u = (Ok bytes, w) \<and> ready V w"
    if "ready V u" for u
    using object_ready [OF that obj] buffered by (auto simp: storage_plaintext_def act_bind_def act_lift_def)
  moreover have "\<exists>w. local_plaintext E std [] (Bundled a ?p off (length y) (sr_transform R)) u = (Ok bytes, w) \<and> ready V w"
    if "so_is_local ops" "ready V u" for u
    using local_slice [OF that(2), of E a] a(3) that(1) slice
    by (simp add: local_plaintext_def cached_slice_def im_get_def)
  ultimately show ?thesis using resolve a(2) layout(3) unfolding yields_def by blast
qed

lemma block_file_restores:
  assumes "ready V u" "sr_repo R = ops" "sr_dirs R = dirs" "env_ok E" "bc_env ctx = E" "restores R ctx files"
    and "counted ms" "flushed V (bc_backup_root ctx) ms" "prior_blocks_readable E (\<lambda>p. V (key p)) R ctx"
    and f: "recorded ctx ms f bytes" "mf_block_map f = Some bm"
  shows "\<exists>src v. resolve R f c u = (Ok (src, c), v) \<and> ready V v \<and> yields E V src bytes"
proof -
  let ?blocks = "split_blocks bytes (bm_block_size bm)" and ?refs = "bm_blocks bm"
  let ?csz = "overrides_checksum_size (bc_block_overrides ctx) (bm_block_size bm)"
  have blocks: "length ?refs = length ?blocks" "\<And>j. j < length ?blocks \<Longrightarrow> block_entry E (bc_transform ctx) (bc_label ctx) ?csz
      (prior_map_of ctx (mf_path f)) ms j (?blocks ! j) (?refs ! j)"
    using f assms(5) by (auto simp: recorded_def in_blocks_def Let_def)
  have slice: "slice_at E (V (key (bundle_of_ref R r))) (br_offset r) (br_size r) (holder_transform R (br_reference r)) x"
    if entry: "block_entry E (bc_transform ctx) (bc_label ctx) ?csz (prior_map_of ctx (mf_path f)) ms j x r" for j x r
  proof (cases "kept_ref E ?csz (prior_map_of ctx (mf_path f)) j x")
    case None
    then obtain i off y where y: "apply_forward_keyed E (bc_transform ctx) x = Ok y" "(i, off, y) \<in> places ms"
        "br_reference r = bc_label ctx" "br_bundle_id r = i" "br_offset r = sat off" "br_size r = length y"
      using entry by (auto simp: block_entry_def entry_place_def)
    have "V (key (bundle_object_path (bc_backup_root ctx) i)) = Some (concat (ms i))"
      using assms(8) y(2) by (cases "ms i") (auto simp: flushed_def places_def)
    moreover have "backup_root_of (sr_stanza R) (bc_label ctx) = bc_backup_root ctx"
      using assms(6) unfolding restores_def by metis
    ultimately show ?thesis
      using placed_slice [OF y(2) assms(7,4) y(1)] assms(6) y(3-6)
      by (simp add: restores_def bundle_of_ref_def holder_transform_def)
  next
    case (Some q)
    then obtain pm where "prior_map_of ctx (mf_path f) = Some pm" "r \<in> set (bm_blocks pm)" "br_checksum r = block_sum E ?csz x"
      using entry by (auto simp: block_entry_def kept_ref_def prior_block_def split: option.splits if_splits)
    then show ?thesis using assms(9) unfolding prior_blocks_readable_def by blast
  qed
  have "list_all2 (\<lambda>r x. \<forall>u. ready V u \<longrightarrow> (\<exists>src v. block_source_of R r u = (Ok src, v) \<and> ready V v \<and>
      gives E V (so_is_local ops) src x)) ?refs ?blocks"
  proof (rule list_all2_all_nthI, rule blocks(1), intro allI impI)
    fix j u' assume "j < length ?refs" "ready V u'"
    then show "\<exists>src v. block_source_of R (?refs ! j) u' = (Ok src, v) \<and> ready V v \<and>
        gives E V (so_is_local ops) src (?blocks ! j)"
      using block_source_ready [OF _ assms(2,3)] slice blocks by metis
  qed
  from act_map_ready [OF assms(1) this] obtain srcs v where
      srcs: "act_map (block_source_of R) ?refs u = (Ok srcs, v)" "ready V v"
        "list_all2 (gives E V (so_is_local ops)) srcs ?blocks" by blast
  have resolve: "resolve R f c u = (Ok (Blocks srcs, c), v)"
    using srcs(1) f(2) by (simp add: resolve_def resolve_block_map_def act_bind_def act_ok_def)
  have "\<exists>w. storage_plaintext E ops (Blocks srcs) u = (Ok bytes, w) \<and> ready V w" if "ready V u" for u
    using storage_blocks_ready [OF that srcs(3), of "[]"]
    by (simp add: storage_plaintext_def im_get_def concat_split_blocks)
  moreover have "\<exists>w. local_plaintext E std [] (Blocks srcs) u = (Ok bytes, w) \<and> ready V w"
    if "so_is_local ops" "ready V u" for u
    using local_blocks_ready [OF that(2), of E srcs ?blocks] srcs(3) that(1)
    by (auto simp: local_plaintext_def act_bind_def act_ok_def concat_split_blocks)
  ultimately show ?thesis using resolve srcs(2) unfolding yields_def by blast
qed

definition gives_back ::
  "'s bundled_ctx \<Rightarrow> filter_env \<Rightarrow> (string list \<Rightarrow> string option) \<Rightarrow> manifest_file \<Rightarrow> restore_source \<Rightarrow> bool" where
  "gives_back ctx E V f src = (\<exists>bytes. was_read ctx (mf_path f) bytes \<and>
     mf_checksum f = Some (bytes_to_hex (fe_digest E DigestSha1 bytes)) \<and> yields E V src bytes)"

lemma copied_files_restore:
  assumes "ready V u" "sr_repo R = ops" "sr_dirs R = dirs" "env_ok E" "bc_env ctx = E" "restores R ctx files"
    and "copy_inv ctx cp ms" "cp_files cp = files" "counted ms" "flushed V (bc_backup_root ctx) ms"
    and "prior_blocks_readable E (\<lambda>p. V (key p)) R ctx" "\<forall>f \<in> set (bc_referenced ctx). plain_entry f" "cache_right R ms c"
    and "\<forall>f \<in> set fs. f \<in> set files \<and> stored_in_bundles ctx E f"
  shows "\<exists>srcs c' v. resolve_all R fs c u = (Ok (srcs, c'), v) \<and> ready V v \<and> list_all2 (gives_back ctx E V) fs srcs"
  using assms(1,13,14)
proof (induction fs arbitrary: u c)
  case (Cons f fs)
  have f: "f \<in> set files" "stored_in_bundles ctx E f" using Cons.prems(3) by simp_all
  then have "copied ctx ms f" using assms(7,8) unfolding copy_inv_def stored_in_bundles_def by blast
  then obtain bytes where bytes: "was_read ctx (mf_path f) bytes" "recorded ctx ms f bytes"
    by (auto simp: copied_def)
  have "\<exists>src c' v. resolve R f c u = (Ok (src, c'), v) \<and> ready V v \<and> cache_right R ms c' \<and> yields E V src bytes"
  proof (cases "mf_block_map f")
    case (Some bm)
    from block_file_restores [OF Cons.prems(1) assms(2-6,9-11) bytes(2) Some] Cons.prems(2) show ?thesis by blast
  next
    case None
    then obtain i where "mf_bundle_id f = Some i" "apply_forward_keyed E (bc_transform ctx) bytes \<noteq> Ok []"
      using f(2) bytes(2) assms(5) by (auto simp: stored_in_bundles_def recorded_def)
    from bundled_file_restores [OF Cons.prems(1) assms(2-12) Cons.prems(2) bytes(2) this] show ?thesis by blast
  qed
  then obtain src c' v where one: "resolve R f c u = (Ok (src, c'), v)" "ready V v" "cache_right R ms c'" "yields E V src bytes"
    by blast
  then have "gives_back ctx E V f src" using bytes assms(5) by (auto simp: gives_back_def recorded_def)
  moreover obtain srcs c'' w where "resolve_all R fs c' v = (Ok (srcs, c''), w)" "ready V w"
      "list_all2 (gives_back ctx E V) fs srcs"
    using Cons.IH [OF one(2,3)] Cons.prems(3) by auto
  ultimately show ?case using one(1) by (auto simp: act_bind_def act_ok_def)
qed (simp add: act_ok_def)

text \<open>From the run of the copy to the sources of a restore in any later state with the same files.\<close>

lemma copy_then_restore:
  assumes "run_bundled_copy_serial ctx s = (Ok (files, n), t)" "\<forall>f \<in> set (bc_skeletons ctx). fresh_skeleton f"
    and "\<forall>f \<in> set (bc_referenced ctx). plain_entry f" "bc_repo_storage ctx = ops" "bc_backup_root ctx \<noteq> []"
    and "ready (view t) u" "\<forall>k b. view t k = Some b \<longrightarrow> int (length b) \<le> i64_max"
    and "sr_repo R = ops" "sr_dirs R = dirs" "env_ok E" "bc_env ctx = E" "restores R ctx files"
    and "prior_blocks_readable E (\<lambda>p. view t (key p)) R ctx"
    and "\<forall>f \<in> set fs. f \<in> set files \<and> stored_in_bundles ctx E f"
  shows "\<exists>srcs c v. resolve_all R fs \<lparr>sc_manifests = [], sc_layouts = []\<rparr> u = (Ok (srcs, c), v) \<and>
    list_all2 (gives_back ctx E (view t)) fs srcs"
proof -
  obtain cp ms where inv: "copy_inv ctx cp ms" "cp_files cp = files" "flushed (view t) (bc_backup_root ctx) ms"
    using run_copy_flushed [OF assms(1,4,5,2)] by blast
  have "int (length (concat (ms i))) \<le> i64_max" for i
    using inv(3) assms(7) by (cases "ms i = []") (auto simp: flushed_def)
  then have "counted ms" by (simp add: counted_def)
  moreover have "cache_right R ms \<lparr>sc_manifests = [], sc_layouts = []\<rparr>" by (simp add: cache_right_def)
  ultimately show ?thesis
    using copied_files_restore [OF assms(6,8-12) inv(1,2) _ inv(3) assms(13,3) _ assms(14)] by blast
qed

text \<open>Writing what a source yields: no checksum mismatch, and on success the file holds the bytes.\<close>

lemma write_and_verify_result:
  assumes "write_and_verify E std job bytes u = (r, w)"
    and "rj_expected_checksum job = Some (bytes_to_hex (fe_digest E DigestSha1 bytes))"
  shows "r \<noteq> Err (CmdOther (''restore checksum mismatch for '' @ rj_rel job)) \<and>
    (r = Ok () \<longrightarrow> view w (place (rj_abs_dst job)) = Some bytes)"
proof -
  let ?dst = "rj_abs_dst job"
  let ?mkdir = "case path_parent ?dst of
         None \<Rightarrow> act_ok ()
       | Some parent \<Rightarrow>
           if parent = [] then act_ok ()
           else act_map_err (std_err ''create'' parent) (sf_create_dir_all std parent)"
  have verbs: "std_err ''create'' p e \<noteq> CmdOther (''restore checksum mismatch for '' @ q)"
      "std_err ''write'' p e \<noteq> CmdOther (''restore checksum mismatch for '' @ q)"
      "std_err ''chmod'' p e \<noteq> CmdOther (''restore checksum mismatch for '' @ q)" for p e q
    by (simp_all add: std_err_def)
  obtain r1 u1 where mkdir: "?mkdir u = (r1, u1)" by fastforce
  obtain r2 u2 where put: "sf_write std ?dst bytes u1 = (r2, u2)" by fastforce
  obtain r3 u3 where mode: "apply_mode std ?dst (rj_mode job) u2 = (r3, u3)" by fastforce
  have "r1 = Err e \<Longrightarrow> e \<noteq> CmdOther (''restore checksum mismatch for '' @ q)" for e q
    using mkdir verbs by (auto simp: act_ok_def act_map_err_def map_err_def split: option.splits if_splits prod.splits sum.splits)
  moreover have "r3 = Err e \<Longrightarrow> e \<noteq> CmdOther (''restore checksum mismatch for '' @ q)" for e q
    using mode verbs
    by (auto simp: apply_mode_def act_ok_def act_map_err_def map_err_def split: option.splits prod.splits sum.splits)
  moreover have "view u3 = view u2"
    using mode std_chmod_view by (cases "rj_mode job") (auto simp: apply_mode_def act_ok_def act_map_err_def split: prod.splits, metis snd_conv)
  moreover have "r2 = Ok x \<Longrightarrow> view u2 (place ?dst) = Some bytes" for x
    using put std_write_Ok by blast
  ultimately show ?thesis
    using assms mkdir put mode verbs
    unfolding write_and_verify_def
    by (cases r1; cases r2; cases r3) (auto simp: act_bind_def act_map_err_def act_lift_def act_ok_def map_err_def plaintext_sha1_Ok)
qed

text \<open>A source that gives back its file, under both ways to restore it.\<close>

lemma gives_back_restores:
  assumes "gives_back ctx E V f src" "so_is_local ops"
  shows "\<exists>bytes. was_read ctx (mf_path f) bytes \<and> (\<forall>job u r w. ready V u \<and> rj_source job = src \<and>
     rj_expected_checksum job = mf_checksum f \<and>
     ((r, w) = restore_file E std job [] u \<or> (r, w) = restore_file_storage E std job ops u) \<longrightarrow>
     r \<noteq> Err (CmdOther (''restore checksum mismatch for '' @ rj_rel job)) \<and>
     (r = Ok () \<longrightarrow> view w (place (rj_abs_dst job)) = Some bytes))"
proof -
  obtain bytes where b: "was_read ctx (mf_path f) bytes" "mf_checksum f = Some (bytes_to_hex (fe_digest E DigestSha1 bytes))"
      "yields E V src bytes"
    using assms(1) by (auto simp: gives_back_def)
  have "r \<noteq> Err (CmdOther (''restore checksum mismatch for '' @ rj_rel job)) \<and>
      (r = Ok () \<longrightarrow> view w (place (rj_abs_dst job)) = Some bytes)"
    if "ready V u" "rj_source job = src" "rj_expected_checksum job = mf_checksum f"
      "(r, w) = restore_file E std job [] u \<or> (r, w) = restore_file_storage E std job ops u" for job u r w
  proof -
    note h = that
    obtain v1 v2 where "storage_plaintext E ops src u = (Ok bytes, v1)" "local_plaintext E std [] src u = (Ok bytes, v2)"
      using h(1) b(3) assms(2) unfolding yields_def by blast
    then obtain v where "write_and_verify E std job bytes v = (r, w)"
      using h(2,4) by (auto simp: restore_file_def restore_file_storage_def act_bind_def)
    then show ?thesis using write_and_verify_result h(3) b(2) by metis
  qed
  then show ?thesis using b(1) by blast
qed

end

end
