(* ===== verification/Restore_Safety.thy ===== *)
theory Restore_Safety
  imports Restore_Run Bundle_Restore_Props Expire_Posix
begin

text \<open>
  What a restore may touch. The repository and the data directory are storages over one view of the machine's
  files; the places of the data directory form an area, and the facts are proved over that contract and
  instantiated on two local backends.
\<close>

section \<open>Reading keeps everything\<close>

lemma snd_act_try [simp]: "snd (act_try m s) = snd (m s)"
  by (cases "m s") (simp add: act_try_def)

lemma act_keeps_try [simp]: "act_keeps R (act_try m) = act_keeps R m"
  by (simp add: act_keeps_def)

lemma act_keeps_map:
  assumes "reflp R" "transp R" "\<And>x. x \<in> set xs \<Longrightarrow> act_keeps R (f x)"
  shows "act_keeps R (act_map f xs)"
  using assms(3) by (induction xs) (auto intro!: act_keeps_bind assms(1,2) simp: assms(1))

lemma act_keeps_retry:
  assumes "reflp R" "transp R" "act_keeps R m"
  shows "act_keeps R (job_retry_run n m)"
proof -
  have "R s (snd (retry_loop k m s))" for k s
  proof (induction k arbitrary: s rule: less_induct)
    case (less k)
    obtain r t where m: "m s = (r, t)" by (cases "m s")
    have st: "R s t" using assms(3) m by (metis act_keepsD snd_conv)
    show ?case
    proof (cases "\<exists>e n. r = Inl e \<and> k = Suc n \<and> n \<noteq> 0")
      case False
      then show ?thesis using st m by (auto simp: retry_loop.simps [of k] split: sum.splits nat.splits)
    next
      case True
      then obtain e n where k: "r = Inl e" "k = Suc n" "n \<noteq> 0" by blast
      have "R t (snd (retry_loop n m t))" using less k by simp
      moreover have "retry_loop k m s = retry_loop n m t" using m k by (simp add: retry_loop.simps [of "Suc n"])
      ultimately show ?thesis using assms(2) st by (metis transpD)
    qed
  qed
  then show ?thesis by (simp add: job_retry_run_def act_keeps_def)
qed

context storage
begin

lemma keeps_decode: "act_keeps (untouched K) (read_and_decode ops p f)"
  unfolding read_and_decode_def by (intro act_keeps_bind) simp_all

lemma keeps_load: "act_keeps (untouched K) (load_keyed ops E ff p pass)"
proof
  fix s
  let ?d = "\<lambda>b. from_bytes_keyed E ff b pass"
  obtain r t where r: "read_and_decode ops p ?d s = (r, t)" by (cases "read_and_decode ops p ?d s")
  obtain q u where q: "read_and_decode ops (copy_path p) ?d t = (q, u)" by (cases "read_and_decode ops (copy_path p) ?d t")
  have "untouched K s t" "untouched K t u"
    using keeps_decode [THEN act_keepsD] r q by (metis snd_conv)+
  then show "untouched K s (snd (load_keyed ops E ff p pass s))"
    using r q by (cases r; cases q) (auto simp: load_keyed_def untouched_def)
qed

lemma keeps_manifest_load: "act_keeps (untouched K) (manifest_load_keyed ops E M p pass)"
  by (simp add: manifest_load_keyed_def keeps_decode)

lemma keeps_select: "act_keeps (untouched K) (select_backup E J null config ops stanza)"
  unfolding select_backup_def by (intro act_keeps_bind) (auto simp: keeps_load intro!: act_keeps_bind)

lemma keeps_sub_key: "act_keeps (untouched K) (active_sub_key E ops config stanza)"
  by (auto simp: active_sub_key_def repo_sub_key_def Let_def keeps_load intro!: act_keeps_bind)

lemma keeps_collect_target:
  "(\<And>d. act_keeps (untouched K) (rec d)) \<Longrightarrow> act_keeps (untouched K) (collect_target rec dir es)"
  by (induction es) (auto simp: Let_def split: option.splits storage_kind.splits intro!: act_keeps_bind)

lemma keeps_collect_target_files: "act_keeps (untouched K) (collect_target_files ops depth dir)"
proof (induction depth arbitrary: dir)
  case (Suc depth)
  show ?case
  proof
    fix s
    obtain r t where l: "so_list ops dir s = (r, t)" by (cases "so_list ops dir s")
    then have st: "untouched K s t" using untouched_reads(2) [THEN act_keepsD] by (metis snd_conv)
    have "untouched K t (snd (collect_target (collect_target_files ops depth) dir es t))" for es
      using keeps_collect_target [OF Suc] by (rule act_keepsD)
    then show "untouched K s (snd (collect_target_files ops (Suc depth) dir s))"
      using l st by (auto simp: untouched_def split: sum.splits storage_error.splits)
  qed
qed simp

end

context copy_host
begin

lemma keeps_resolver:
  assumes "sr_repo R = ops" "sr_dirs R = dirs"
  shows "act_keeps (untouched K) (resolve R f c)"
proof -
  have local: "act_keeps (untouched K) (local_path R p)" for p
    by (auto simp: assms local_path_def intro!: act_keeps_bind)
  have blocks: "act_keeps (untouched K) (resolve_block_map R bm)" for bm
    unfolding resolve_block_map_def block_source_of_def Let_def
    by (intro act_keeps_bind act_keeps_map) (auto simp: local intro!: act_keeps_bind)
  have manifest: "act_keeps (untouched K) (load_manifest R l c)" for l c
    by (auto simp: assms load_manifest_def Let_def keeps_manifest_load split: option.splits intro!: act_keeps_bind)
  have layout: "act_keeps (untouched K) (layout_of R l i c)" for l i c
    by (auto simp: assms layout_of_def bundle_layout_of_def Let_def manifest split: option.splits prod.splits intro!: act_keeps_bind)
  have holder: "act_keeps (untouched K) (find_holder R f c)"
    by (auto simp: find_holder_def manifest split: option.splits prod.splits intro!: act_keeps_bind)
  have whole: "act_keeps (untouched K) (resolve_whole R f l e c)" for l e c
    by (auto simp: resolve_whole_def Let_def layout local split: option.splits prod.splits intro!: act_keeps_bind)
  show ?thesis
    by (auto simp: resolve_def blocks holder whole split: option.splits prod.splits intro!: act_keeps_bind)
qed

lemma keeps_restore_file:
  assumes "place (rj_abs_dst job) \<in> K"
  shows "act_keeps (untouched K) (restore_file E std job cache)" "act_keeps (untouched K) (restore_file_storage E std job ops)"
proof -
  have slice: "act_keeps (untouched K) (cached_slice E std cache p off n t)" for p off n t
    by (auto simp: cached_slice_def read_bundle_slice_def split: option.splits intro!: act_keeps_bind)
  have local: "act_keeps (untouched K) (local_plaintext E std cache src)" for src
    by (auto simp: local_plaintext_def slice split: restore_source.splits intro!: act_keeps_bind act_keeps_map)
  have blocks: "act_keeps (untouched K) (storage_blocks E ops c bs)" for c bs
  proof (induction bs arbitrary: c)
    case (Cons b bs)
    have "act_keeps (untouched K) (case im_get c (bks_repo_bundle b) of Some bytes \<Rightarrow> act_ok (bytes, c)
       | None \<Rightarrow> act_bind (read_repo_object ops (bks_repo_bundle b)) (\<lambda>bytes.
           act_ok (bytes, im_insert (bks_repo_bundle b) bytes c)))"
      by (auto simp: read_repo_object_def split: option.splits intro!: act_keeps_bind)
    then show ?case
      unfolding storage_blocks.simps
      by (rule act_keeps_bind [OF untouched_trans]) (auto simp: Cons split: prod.splits intro!: act_keeps_bind)
  qed simp
  have remote: "act_keeps (untouched K) (storage_plaintext E ops src)" for src
    by (auto simp: storage_plaintext_def blocks read_repo_object_def split: restore_source.splits intro!: act_keeps_bind)
  have wr: "act_keeps (untouched K) (write_and_verify E std job bytes)" for bytes
    using untouched_std_write [OF assms]
    by (auto simp: write_and_verify_def apply_mode_def split: option.splits intro!: act_keeps_bind)
  show "act_keeps (untouched K) (restore_file E std job cache)" "act_keeps (untouched K) (restore_file_storage E std job ops)"
    by (auto simp: restore_file_def restore_file_storage_def local remote wr intro!: act_keeps_bind)
qed

lemma keeps_destination [simp]: "act_keeps (untouched K) (destination_absolute_path dirs rel)"
  by (auto simp: destination_absolute_path_def split: option.splits intro!: act_keeps_bind)

lemma keeps_run_restore_jobs:
  assumes "\<forall>job \<in> set jobs. place (rj_abs_dst job) \<in> K"
  shows "act_keeps (untouched K) (run_restore_jobs E std order arrival jobs ops retries)"
proof -
  have cache: "act_keeps (untouched K) (build_bundle_cache std l jobs)" for l
    by (auto simp: build_bundle_cache_def intro!: act_keeps_bind act_keeps_map)
  have worker: "act_keeps (untouched K) (restore_worker E std retries jobs cache rel)" for cache rel
    using assms
    by (auto simp: restore_worker_def keeps_restore_file split: option.splits intro!: act_keeps_retry dest!: find_mem)
  have work: "untouched K s (snd (run_jobs (restore_worker E std retries jobs cache) rels s))" for cache rels s
    by (rule act_keeps_run_jobs [OF untouched_refl untouched_trans worker [THEN act_keepsD]])
  have each: "act_keeps (untouched K) (act_for (\<lambda>job. job_retry_run retries (restore_file_storage E std job ops)) jobs)"
    using assms by (intro act_keeps_for act_keeps_retry) (auto simp: keeps_restore_file)
  show ?thesis
  proof (cases "jobs = [] \<or> \<not> so_is_local ops")
    case True
    then show ?thesis using each by (auto simp: run_restore_jobs_def)
  next
    case False
    then have "run_restore_jobs E std order arrival jobs ops retries = act_bind (build_bundle_cache std True jobs) (\<lambda>cache s.
        let (results, t) = run_jobs (restore_worker E std retries jobs cache)
              (permute (order (length jobs)) (map rj_rel jobs)) s
        in (case find (\<lambda>(_, r). ok r = None) (permute (arrival (length jobs)) results) of
              Some (_, Inl message) \<Rightarrow> Err (CmdOther message)
            | _ \<Rightarrow> Ok (), t))" by (simp add: run_restore_jobs_def)
    moreover have "act_keeps (untouched K) (\<lambda>s.
        let (results, t) = run_jobs (restore_worker E std retries jobs cache)
              (permute (order (length jobs)) (map rj_rel jobs)) s
        in (case find (\<lambda>(_, r). ok r = None) (permute (arrival (length jobs)) results) of
              Some (_, Inl message) \<Rightarrow> Err (CmdOther message)
            | _ \<Rightarrow> Ok (), t))" for cache
      by (rule act_keepsI) (use work [of _ cache "permute (order (length jobs)) (map rj_rel jobs)"] in
        \<open>simp add: Let_def case_prod_unfold\<close>)
    ultimately show ?thesis by (simp add: cache act_keeps_bind)
  qed
qed

end

section \<open>Relative paths\<close>

lemma absolute_Cons [simp]: "is_absolute (c # p) \<longleftrightarrow> c = CHR ''/''" "\<not> is_absolute []"
  by (auto simp: is_absolute_def starts_with_def)

lemma relative_join: "\<not> is_absolute a \<Longrightarrow> \<not> is_absolute b \<Longrightarrow> \<not> is_absolute (path_join a b)"
  by (cases a) (auto simp: path_join_def)

lemma trim_rev_suffix: "\<exists>z. p = z @ trim_rev_path p"
proof (induction p rule: trim_rev_path.induct)
  case (1 c d r)
  have "\<exists>z. c # d # r = z @ q" if "\<exists>z. d # r = z @ q" for q
    using that by (metis append_Cons)
  then show ?case using 1 by auto
qed auto

lemma relative_parent:
  assumes "path_parent p = Some q" "\<not> is_absolute p"
  shows "\<not> is_absolute q"
proof -
  let ?t = "trim_rev_path (rev p)"
  obtain z where z: "rev p = z @ ?t" using trim_rev_suffix by blast
  obtain y where y: "?t = y @ dropWhile (\<lambda>c. c \<noteq> CHR ''/'') ?t" by (metis takeWhile_dropWhile_id)
  obtain x where x: "dropWhile (\<lambda>c. c \<noteq> CHR ''/'') ?t = x @ rev q"
    using assms(1) trim_rev_suffix [of "dropWhile (\<lambda>c. c \<noteq> CHR ''/'') ?t"]
    by (auto simp: path_parent_def Let_def split: if_splits)
  have "rev p = (z @ y @ x) @ rev q" using z y x by simp
  then have "p = q @ rev (z @ y @ x)" by (metis rev_append rev_rev_ident)
  then show ?thesis using assms(2) by (cases q) auto
qed

lemma first_component_relative: "first_component p = Some c \<Longrightarrow> \<not> is_absolute p \<Longrightarrow> \<not> is_absolute c"
proof -
  assume p: "first_component p = Some c" "\<not> is_absolute p"
  have "CHR ''/'' \<notin> set x" if "x \<in> set (split_on (CHR ''/'') q)" for x q
    using that by (induction q arbitrary: x) (auto split: list.splits if_splits)
  then have "\<not> is_absolute x" if "x \<in> set (components p)" for x
    using that by (cases x) (fastforce simp: components_def)+
  then show ?thesis using p by (auto simp: first_component_def split: if_splits list.splits)
qed

text \<open>Every file and directory of the manifest is named below the data directory.\<close>

definition inside :: "path \<Rightarrow> bool" where
  "inside p = (\<not> is_absolute p \<and> ''..'' \<notin> set (components p))"

definition plain_manifest :: "manifest \<Rightarrow> bool" where
  "plain_manifest m = (list_all (inside \<circ> mf_path) (mn_files m) \<and> list_all (inside \<circ> mp_path) (mn_paths m))"

lemma plain_manifestD:
  "plain_manifest m \<Longrightarrow> f \<in> set (mn_files m) \<Longrightarrow> \<not> is_absolute (mf_path f)"
  "plain_manifest m \<Longrightarrow> p \<in> set (mn_paths m) \<Longrightarrow> \<not> is_absolute (mp_path p)"
  by (auto simp: plain_manifest_def inside_def list_all_iff)

text \<open>The files that a restore writes itself, apart from the files of the backup.\<close>

definition own_files :: "path list" where
  "own_files = [''backup_label'', ''tablespace_map'', ''recovery.conf'', ''postgresql.auto.conf'', ''standby.signal'', ''recovery.signal'']"

lemma own_files_relative: "rel \<in> set own_files \<Longrightarrow> \<not> is_absolute rel"
  by (auto simp: own_files_def)

lemma recovery_file_names: "(rel, block) \<in> set (recovery_files v stanza config) \<Longrightarrow> rel \<in> set own_files"
  by (auto simp: recovery_files_def own_files_def Let_def split: if_splits)

section \<open>A restore into an area\<close>

locale restore_target =
  repo: copy_host "rh_repo H" rkey view healthy "rh_repo_dirs H" "rh_std H" place +
  pg: copy_host "rh_pg H" pkey view healthy "rh_pg_dirs H" "rh_std H" place
  for H :: "('s, 'j) restore_host" and rkey pkey view healthy place +
  fixes area :: "string list set"
  assumes symlink_view: "view (snd (rh_symlink H p q s)) = view s"
    and pg_area: "\<not> is_absolute p \<Longrightarrow> pkey p \<in> area"
    and dest_area: "do_info (rh_pg_dirs H) p s = (Ok i, t) \<Longrightarrow> \<not> is_absolute p \<Longrightarrow> \<not> is_absolute n \<Longrightarrow>
          place (path_join (si_path i) n) \<in> area"
begin

lemma keeps_symlink [simp]: "act_keeps (pg.untouched K) (rh_symlink H p q)"
  by (simp add: act_keeps_def pg.untouched_def symlink_view)

lemma destination_in_area:
  assumes "destination_absolute_path (rh_pg_dirs H) rel s = (Ok p, t)" "\<not> is_absolute rel"
  shows "place p \<in> area"
proof -
  have name: "\<not> is_absolute n" if "file_name rel = Some n" for n
    using file_name_plain(6) [OF that] .
  show ?thesis
    using assms dest_area name relative_parent [OF _ assms(2)]
    by (auto simp: destination_absolute_path_def act_bind_Inr_iff act_map_err_def act_ok_def act_err_def
        split: option.splits if_splits prod.splits sum.splits)
qed

lemma plan_files_jobs:
  assumes "plan_files H R config matched fs c s = (Ok (jobs, n), t)" "\<forall>f \<in> set fs. \<not> is_absolute (mf_path f)"
  shows "\<forall>job \<in> set jobs. place (rj_abs_dst job) \<in> area"
  using assms
proof (induction fs arbitrary: c s jobs n t)
  case (Cons f fs)
  have rest: "\<forall>job \<in> set js. place (rj_abs_dst job) \<in> area"
    if "plan_files H R config matched fs c s = (Ok (js, n), t)" for c s js n t
    using Cons.IH [OF that] Cons.prems(2) by simp
  consider js c u m v where "plan_files H R config matched fs c u = (Ok (js, m), v)" "jobs = js"
    | job c d u v w js m where "plan_job H R f c u = (Ok (job, d), v)" "plan_files H R config matched fs d v = (Ok (js, m), w)"
        "jobs = job # js"
    using Cons.prems(1) by (auto simp: act_bind_Inr_iff act_ok_def split: if_splits)
  then show ?case
  proof cases
    case 1
    then show ?thesis using rest by simp
  next
    case 2
    then have "place (rj_abs_dst job) \<in> area"
      using destination_in_area Cons.prems(2) by (auto simp: plan_job_def act_bind_Inr_iff act_ok_def)
    then show ?thesis using rest 2 by simp
  qed
qed (simp add: act_ok_def)

lemma keeps_plan_files:
  assumes "sr_repo R = rh_repo H" "sr_dirs R = rh_repo_dirs H"
  shows "act_keeps (pg.untouched K) (plan_files H R config matched fs c)"
proof (induction fs arbitrary: c)
  case (Cons f fs)
  have skip: "act_keeps (pg.untouched K) (delta_skips H config matched f)"
    by (auto simp: delta_skips_def target_matches_def split: sum.splits option.splits intro!: act_keeps_bind)
  have job: "act_keeps (pg.untouched K) (plan_job H R f c)"
    by (auto simp: plan_job_def repo.keeps_resolver [OF assms] intro!: act_keeps_bind)
  show ?case
    by (auto simp: Cons skip job intro!: act_keeps_bind)
qed simp

lemma keeps_delta_matched: "act_keeps (pg.untouched K) (delta_matched H config m)"
proof -
  have classify: "act_keeps (pg.untouched K) (classify_file H f)" for f
    by (auto simp: classify_file_def classify_delta_match_def split: sum.splits option.splits delta_match.splits
        intro!: act_keeps_bind)
  have worker: "pg.untouched K s (snd (delta_worker H job s))" for job s
  proof -
    obtain r t where r: "sf_read (rh_std H) (dj_abs_path job) s = (r, t)" by fastforce
    then have "pg.untouched K s t" using pg.untouched_calls(3) [THEN act_keepsD] by (metis snd_conv)
    then show ?thesis using r by (cases r) (simp_all add: delta_worker_def)
  qed
  have jobs: "act_keeps (pg.untouched K) (run_delta_jobs H js)" for js
    by (rule act_keepsI)
      (simp add: run_delta_jobs_def case_prod_unfold Let_def
        act_keeps_run_jobs [OF pg.untouched_refl pg.untouched_trans worker])
  show ?thesis
    by (auto simp: delta_matched_def Let_def classify jobs intro!: act_keeps_bind act_keeps_map)
qed

lemma collect_target_relative:
  assumes "\<And>d s fs t. rec d s = (Ok fs, t) \<Longrightarrow> \<not> is_absolute d \<Longrightarrow> \<forall>f \<in> set fs. \<not> is_absolute f"
    and "collect_target rec dir es s = (Ok fs, t)" "\<not> is_absolute dir"
  shows "\<forall>f \<in> set fs. \<not> is_absolute f"
  using assms(2,3)
proof (induction es arbitrary: s fs t)
  case (Cons e es)
  show ?case
  proof (cases "file_name (si_path e)")
    case None
    then show ?thesis using Cons by simp
  next
    case (Some n)
    have here: "\<not> is_absolute (path_join dir n)"
      using relative_join file_name_plain(6) [OF Some] Cons.prems(2) by blast
    consider "collect_target rec dir es s = (Ok fs, t)"
      | out u where "collect_target rec dir es s = (Ok out, u)" "fs = path_join dir n # out"
      | below v out u where "rec (path_join dir n) s = (Ok below, v)" "collect_target rec dir es v = (Ok out, u)" "fs = below @ out"
      using Cons.prems(1) Some by (auto simp: Let_def act_bind_Inr_iff act_ok_def split: storage_kind.splits)
    then show ?thesis
    proof cases
      case 1
      then show ?thesis using Cons.IH Cons.prems(2) by blast
    next
      case 2
      then show ?thesis using Cons.IH Cons.prems(2) here by auto
    next
      case 3
      then show ?thesis using Cons.IH [of v out u] Cons.prems(2) assms(1) [of "path_join dir n" s below v] here by auto
    qed
  qed
qed (simp add: act_ok_def)

lemma collect_files_relative:
  "collect_target_files ops depth dir s = (Ok fs, t) \<Longrightarrow> \<not> is_absolute dir \<Longrightarrow> \<forall>f \<in> set fs. \<not> is_absolute f"
proof (induction depth arbitrary: dir s fs t)
  case (Suc depth)
  obtain r u where l: "so_list ops dir s = (r, u)" by fastforce
  show ?case
  proof (cases r)
    case (Inl e)
    then show ?thesis using Suc.prems l by (auto split: storage_error.splits)
  next
    case (Inr es)
    then show ?thesis using Suc l collect_target_relative [of "collect_target_files ops depth"] by simp
  qed
qed (simp add: act_err_def)

lemma keeps_walk_root: "act_keeps (pg.untouched K) (walk_root H r)"
  by (auto simp: walk_root_def pg.keeps_collect_target_files split: sum.splits storage_kind.splits storage_error.splits intro!: act_keeps_bind)

lemma keeps_stray: "act_keeps (pg.untouched K) (stray_files H m)"
  by (auto simp: stray_files_def Let_def keeps_walk_root intro!: act_keeps_bind act_keeps_map)

lemma walk_root_relative:
  assumes "walk_root H r s = (Ok fs, t)" "\<not> is_absolute r"
  shows "\<forall>f \<in> set fs. \<not> is_absolute f"
proof -
  obtain res u where i: "do_info (rh_pg_dirs H) r s = (res, u)" by fastforce
  show ?thesis
  proof (cases res)
    case (Inl e)
    then show ?thesis using assms(1) i
      by (cases e) (auto simp: walk_root_def act_bind_def act_try_def act_ok_def act_err_def)
  next
    case (Inr info)
    then show ?thesis using assms i collect_files_relative [of "rh_pg H" "rh_depth H" r u fs t]
      by (cases "si_kind info") (auto simp: walk_root_def act_bind_def act_try_def act_ok_def)
  qed
qed

lemma act_map_all:
  assumes "act_map f xs s = (Ok ys, t)" "\<And>x s y t. x \<in> set xs \<Longrightarrow> f x s = (Ok y, t) \<Longrightarrow> P y"
  shows "\<forall>y \<in> set ys. P y"
  using assms by (induction xs arbitrary: s ys t) (fastforce simp: act_bind_Inr_iff act_ok_def)+

lemma stray_relative:
  assumes "stray_files H m s = (Ok fs, t)" "plain_manifest m"
  shows "\<forall>f \<in> set fs. \<not> is_absolute f"
proof -
  let ?roots = "bs_of (List.map_filter first_component (map mp_path (mn_paths m) @ map mf_path (mn_files m)))"
  have roots: "\<not> is_absolute r" if "r \<in> set ?roots" for r
  proof -
    have "\<exists>p. p \<in> mp_path ` set (mn_paths m) \<union> mf_path ` set (mn_files m) \<and> first_component p = Some r"
      using that by (auto simp: map_filter_def)
    then show ?thesis using first_component_relative plain_manifestD assms(2) by blast
  qed
  obtain present u where "act_map (walk_root H) ?roots s = (Ok present, u)"
      "fs = filter (\<lambda>rel. manifest_key rel \<notin> mf_path ` set (mn_files m)) (concat present)"
    using assms(1) by (auto simp: stray_files_def Let_def act_bind_Inr_iff act_ok_def)
  moreover from this(1) have "\<forall>fs \<in> set present. \<forall>f \<in> set fs. \<not> is_absolute f"
    by (rule act_map_all) (use walk_root_relative roots in blast)
  ultimately show ?thesis by auto
qed

lemma keeps_remove_stray:
  assumes "plain_manifest m" "area \<subseteq> K"
  shows "act_keeps (pg.untouched K) (remove_stray_files H m)"
  unfolding remove_stray_files_def
proof (rule act_keeps_bind_if [OF pg.untouched_trans keeps_stray])
  fix s stray t
  assume "stray_files H m s = (Ok stray, t)"
  then have "\<forall>f \<in> set stray. pkey f \<in> K" using stray_relative assms pg_area by blast
  then show "act_keeps (pg.untouched K) (act_bind (act_for (\<lambda>rel. act_map_err CmdStorage (so_remove (rh_pg H) rel False)) stray)
      (\<lambda>_. act_ok (length stray)))"
    by (auto intro!: act_keeps_bind act_keeps_for pg.untouched_remove)
qed

lemma keeps_links: "act_keeps (pg.untouched K) (materialise_links H config ls n)"
proof (induction ls arbitrary: n)
  case (Cons l ls)
  have "act_keeps (pg.untouched K) (create_dirs H ps)" for ps
    by (auto simp: create_dirs_def intro!: act_keeps_for)
  then have "act_keeps (pg.untouched K) (materialise_link H config l n)"
    by (auto simp: materialise_link_def Let_def split: option.splits link_plan.splits sum.splits intro!: act_keeps_bind)
  then show ?case using Cons by (auto intro!: act_keeps_bind)
qed simp

lemma keeps_labels:
  assumes "pkey name \<in> K"
  shows "act_keeps (pg.untouched K) (restore_label_file H stanza label name)"
proof
  fix s
  obtain r t where l: "so_read (rh_repo H) (backup_file_path stanza label name) s = (r, t)" by fastforce
  then have st: "pg.untouched K s t" using repo.untouched_reads(3) [THEN act_keepsD] by (metis snd_conv)
  have "act_keeps (pg.untouched K) (so_write (rh_pg H) name bytes)" for bytes
    using assms by (rule pg.untouched_write)
  then have "pg.untouched K t (snd (act_map_err command_error_from_storage (so_write (rh_pg H) name bytes) t))" for bytes
    by (auto intro: act_keepsD)
  then show "pg.untouched K s (snd (restore_label_file H stanza label name s))"
    using l st by (auto simp: restore_label_file_def pg.untouched_def split: sum.splits storage_error.splits)
qed

lemma keeps_recovery:
  assumes "\<And>rel. rel \<in> set own_files \<Longrightarrow> pkey rel \<in> K"
  shows "act_keeps (pg.untouched K) (write_recovery_files H v stanza config)"
proof -
  have append: "act_keeps (pg.untouched K) (append_to_existing H rel block)" for rel block
  proof
    fix s
    obtain r t where l: "so_read (rh_pg H) rel s = (r, t)" by fastforce
    then have "pg.untouched K s t" using pg.untouched_reads(3) [THEN act_keepsD] by (metis snd_conv)
    then show "pg.untouched K s (snd (append_to_existing H rel block s))"
      using l by (auto simp: append_to_existing_def Let_def split: sum.splits storage_error.splits)
  qed
  have "act_keeps (pg.untouched K) (write_recovery_file H rb)" if "rb \<in> set (recovery_files v stanza config)" for rb
  proof -
    obtain rel block where rb: "rb = (rel, block)" by fastforce
    then have "pkey rel \<in> K" using that assms recovery_file_names by blast
    then show ?thesis
      using append by (auto simp: rb write_recovery_file_def intro!: act_keeps_bind pg.untouched_write)
  qed
  then show ?thesis
    by (auto simp: write_recovery_files_def Let_def intro!: act_keeps_bind act_keeps_for)
qed

lemma plan_dry:
  "plan_files H R config matched fs c s = (Ok (jobs, n), t) \<Longrightarrow> bool_option config ''dry-run'' \<Longrightarrow> jobs = []"
  by (induction fs arbitrary: c s jobs n t) (auto simp: act_bind_Inr_iff act_ok_def split: if_splits)

lemma keeps_label_files:
  assumes "\<And>rel. rel \<in> set own_files \<Longrightarrow> pkey rel \<in> K"
  shows "act_keeps (pg.untouched K) (act_for (restore_label_file H stanza label) [''backup_label'', ''tablespace_map''])"
proof (rule act_keeps_for)
  fix name assume "name \<in> set [''backup_label'', ''tablespace_map'']"
  then have "pkey name \<in> K" using assms by (auto simp: own_files_def)
  then show "act_keeps (pg.untouched K) (restore_label_file H stanza label name)" by (rule keeps_labels)
qed simp_all

lemma keeps_end_steps:
  assumes own: "\<And>rel. rel \<in> set own_files \<Longrightarrow> \<not> bool_option config ''dry-run'' \<Longrightarrow> pkey rel \<in> K"
  shows "act_keeps (pg.untouched K) (act_bind (materialise_links H config ls n0) (\<lambda>links.
      act_bind (if bool_option config ''dry-run'' then act_ok ()
                else act_for (restore_label_file H stanza l) [''backup_label'', ''tablespace_map'']) (\<lambda>_.
      act_bind (if bool_option config ''dry-run'' then act_ok (map fst (recovery_files v stanza config))
                else write_recovery_files H v stanza config) (\<lambda>written. act_ok (g links written)))))"
proof -
  let ?dry = "bool_option config ''dry-run''"
  have label: "act_keeps (pg.untouched K) (if ?dry then act_ok ()
      else act_for (restore_label_file H stanza l) [''backup_label'', ''tablespace_map''])"
  proof (cases ?dry)
    case False
    have "act_keeps (pg.untouched K) (act_for (restore_label_file H stanza l) [''backup_label'', ''tablespace_map''])"
      using own False by (intro keeps_label_files)
    then show ?thesis using False by (simp only: if_False)
  qed simp
  have recovery: "act_keeps (pg.untouched K) (if ?dry then act_ok (map fst (recovery_files v stanza config))
      else write_recovery_files H v stanza config)"
    using own by (cases ?dry) (simp_all add: keeps_recovery)
  note bind = act_keeps_bind [OF pg.untouched_trans]
  show ?thesis
    by (rule bind [OF keeps_links], rule bind [OF label], rule bind [OF recovery]) simp
qed

lemma keeps_restore_opened:
  assumes R: "sr_repo R = rh_repo H" "sr_dirs R = rh_repo_dirs H"
    and K: "bool_option config ''dry-run'' \<or> area \<subseteq> K \<and> plain_manifest (sr_manifest R)"
  shows "act_keeps (pg.untouched K) (restore_opened H config R)"
proof -
  let ?dry = "bool_option config ''dry-run''"
  have dirs: "act_keeps (pg.untouched K) (create_dirs H ps)" for ps
    by (auto simp: create_dirs_def intro!: act_keeps_for)
  have jobs: "act_keeps (pg.untouched K)
      (run_restore_jobs (rh_fenv H) (rh_std H) (rh_order H) (rh_arrival H) js (rh_repo H) retries)"
    if "plan_files H R config matched (mn_files (sr_manifest R)) c s = (Ok (js, n), t)" for matched c s js n t retries
    using plan_dry [OF that] plan_files_jobs [OF that] K plain_manifestD(1)
    by (intro repo.keeps_run_restore_jobs) fastforce
  have stray: "act_keeps (pg.untouched K) (if \<not> bool_option config ''delta'' then act_ok 0
      else if ?dry then count_stray_files H (sr_manifest R) else remove_stray_files H (sr_manifest R))"
    using K keeps_remove_stray by (auto simp: count_stray_files_def keeps_stray intro!: act_keeps_bind)
  have own: "pkey rel \<in> K" if "rel \<in> set own_files" "\<not> ?dry" for rel
    using that K pg_area own_files_relative by blast
  note bind = act_keeps_bind [OF pg.untouched_trans]
  show ?thesis
    unfolding restore_opened_def Let_def
    apply (rule bind, simp add: dirs)
    apply (rule bind, simp add: dirs)
    apply (rule bind [OF keeps_delta_matched])
    apply (rule act_keeps_bind_if [OF pg.untouched_trans keeps_plan_files [OF R]])
    apply (subst case_prod_unfold, rule bind, rule jobs, subst prod.collapse, assumption)
    apply (rule bind [OF stray])
    apply (rule keeps_end_steps [OF own])
     apply assumption+
    done
qed

lemma keeps_open_backup: "act_keeps (pg.untouched K) (open_backup H config stanza)"
  by (auto simp: open_backup_def Let_def repo.keeps_select repo.keeps_sub_key repo.keeps_manifest_load intro!: act_keeps_bind)

lemma opened_repo:
  "open_backup H config stanza s = (Ok R, t) \<Longrightarrow> sr_repo R = rh_repo H \<and> sr_dirs R = rh_repo_dirs H"
  by (auto simp: open_backup_def Let_def act_bind_Inr_iff act_ok_def)

lemma restore_inner_keeps:
  assumes "bool_option config ''dry-run'' \<or> area \<subseteq> K \<and>
      (\<forall>stanza R t. lc_stanza config = Some stanza \<longrightarrow> open_backup H config stanza s = (Ok R, t) \<longrightarrow> plain_manifest (sr_manifest R))"
  shows "pg.untouched K s (snd (restore_inner H config s))"
proof (cases "lc_stanza config")
  case None
  then show ?thesis by (simp add: restore_inner_def ok_or_def act_bind_def act_lift_def pg.untouched_def)
next
  case (Some stanza)
  obtain r t where run: "open_backup H config stanza s = (r, t)" by fastforce
  then have st: "pg.untouched K s t" using keeps_open_backup [THEN act_keepsD] by (metis snd_conv)
  have "pg.untouched K t (snd (restore_opened H config R t))" if "r = Ok R" for R
    using keeps_restore_opened [THEN act_keepsD] opened_repo assms run that Some by blast
  then have "pg.untouched K s (snd (act_bind (open_backup H config stanza) (restore_opened H config) s))"
    using st run by (cases r) (auto simp: act_bind_def pg.untouched_def)
  then show ?thesis
    using Some by (auto simp: restore_inner_def ok_or_def act_bind_def act_lift_def act_err_def pg.untouched_def)
qed

end

section \<open>On the local backend\<close>

text \<open>The repository and the data directory are two roots of one file system.\<close>

definition on_local :: "path \<Rightarrow> path \<Rightarrow> (posix_fs, 'j) restore_host \<Rightarrow> (posix_fs, 'j) restore_host" where
  "on_local repo_root pg_root H = H\<lparr>rh_repo := posix_ops repo_root, rh_repo_dirs := posix_dirs repo_root,
     rh_pg := posix_ops pg_root, rh_pg_dirs := posix_dirs pg_root, rh_symlink := posix_create_symlink pg_root,
     rh_std := posix_std\<rparr>"

lemma on_local_simps [simp]:
  "rh_repo (on_local r p H) = posix_ops r" "rh_repo_dirs (on_local r p H) = posix_dirs r"
  "rh_pg (on_local r p H) = posix_ops p" "rh_pg_dirs (on_local r p H) = posix_dirs p"
  "rh_symlink (on_local r p H) = posix_create_symlink p" "rh_std (on_local r p H) = posix_std"
  by (simp_all add: on_local_def)

lemma fs_symlink_view [simp]: "fs_view (snd (fs_symlink target p s)) = fs_view s"
proof -
  obtain f s1 where tick: "fs_tick s = (f, s1)" by fastforce
  have "fs_view (fs_put p (NLink target) s1) k = fs_view s1 k" if "p \<noteq> []" "im_get (fs_nodes s1) p = None" for k
  proof (rule view_eqI)
    fix b
    have node: "fs_node_at (fs_nodes (fs_put p (NLink target) s1)) q = (if q = p then Some (NLink target) else fs_node_at (fs_nodes s1) q)" for q
      using that(1) by (auto simp: node_at_put)
    have old: "fs_node_at (fs_nodes s1) p = None" using that by (simp add: fs_node_at_def)
    show "fs_view (fs_put p (NLink target) s1) k = Some b \<longleftrightarrow> fs_view s1 k = Some b"
      unfolding view_Some node using old by auto
  qed
  then show ?thesis
    using tick by (cases f) (auto simp: fs_symlink_def split: sum.splits fs_node.splits option.splits)
qed

interpretation px_restore: restore_target "on_local repo_root pg_root H" "posix_key repo_root" "posix_key pg_root" fs_view
  fs_healthy components "{k. prefix (components pg_root) k}"
  for repo_root pg_root :: path and H :: "(posix_fs, 'j) restore_host"
proof (intro restore_target.intro restore_target_axioms.intro)
  show "copy_host (rh_repo (on_local repo_root pg_root H)) (posix_key repo_root) fs_view fs_healthy
      (rh_repo_dirs (on_local repo_root pg_root H)) (rh_std (on_local repo_root pg_root H)) components"
    by (simp add: px_copy.copy_host_axioms)
  show "copy_host (rh_pg (on_local repo_root pg_root H)) (posix_key pg_root) fs_view fs_healthy
      (rh_pg_dirs (on_local repo_root pg_root H)) (rh_std (on_local repo_root pg_root H)) components"
    by (simp add: px_copy.copy_host_axioms)
  fix p q n :: path and s t :: posix_fs and i :: storage_info
  show "fs_view (snd (rh_symlink (on_local repo_root pg_root H) p q s)) = fs_view s"
    by (simp add: posix_create_symlink_def Let_def)
  have key: "prefix (components pg_root) (posix_key pg_root p)" if "\<not> is_absolute p"
    using that components_join [of p pg_root] by (simp add: posix_key_def posix_resolve_def)
  then show "posix_key pg_root p \<in> {k. prefix (components pg_root) k}" if "\<not> is_absolute p"
    using that by simp
  show "components (path_join (si_path i) n) \<in> {k. prefix (components pg_root) k}"
    if "do_info (rh_pg_dirs (on_local repo_root pg_root H)) p s = (Ok i, t)" "\<not> is_absolute p" "\<not> is_absolute n"
  proof -
    have "si_path i = posix_resolve pg_root p"
      using that(1) by (auto simp: posix_dirs_def posix_info_def Let_def info_from_metadata_def split: prod.splits sum.splits)
    then show ?thesis using key that(2,3) components_join [of n] by (auto simp: posix_key_def)
  qed
qed

section \<open>A sample restore\<close>

text \<open>A full backup of one file, and an empty data directory.\<close>

definition one_file :: manifest_file where
  "one_file = (sample_skeleton ''base/f'' 2)\<lparr>mf_checksum := Some ''647879''\<rparr>"

definition one_menv :: manifest_env where
  "one_menv = \<lparr>me_print_file = (\<lambda>v. if v = file_to_value one_file then Some ''{size:2}'' else None),
     me_parse_file = (\<lambda>t. if t = ''{size:2}'' then Ok (file_to_value one_file) else Err ''json''),
     me_print_link = (\<lambda>v. Some (lv_destination v)), me_parse_link = (\<lambda>t. Ok \<lparr>lv_destination = t\<rparr>)\<rparr>"

definition one_manifest :: manifest where
  "one_manifest = sample_manifest\<lparr>mn_files := [one_file], mn_paths := [\<lparr>mp_path = ''base''\<rparr>], mn_links := []\<rparr>"

definition restore_disk :: posix_fs where
  "restore_disk = \<lparr>fs_nodes = [([''backup''], NDir), ([''backup'', ''m''], NDir),
      ([''backup'', ''m'', ''backup.info''], NFile two_fulls_text), ([''backup'', ''m'', ''B''], NDir),
      ([''backup'', ''m'', ''B'', ''backup.manifest''], NFile (manifest_to_text sample_env one_menv one_manifest)),
      ([''backup'', ''m'', ''B'', ''base''], NDir), ([''backup'', ''m'', ''B'', ''base'', ''f''], NFile ''xy''),
      ([''p''], NDir), ([''other''], NFile ''1'')],
     fs_faults = []\<rparr>"

definition restore_config :: "bool \<Rightarrow> loaded_config" where
  "restore_config dry = \<lparr>lc_command = ''restore'', lc_role = RoleMain, lc_stanza = Some ''m'',
     lc_options = [((''dry-run'', None), OvBoolean dry), ((''type'', None), OvString ''none'')], lc_params = []\<rparr>"

definition one_host :: "(posix_fs, string) restore_host" where
  "one_host = \<lparr>rh_repo = posix_ops ''/'', rh_repo_dirs = posix_dirs ''/'', rh_pg = posix_ops ''/p'',
     rh_pg_dirs = posix_dirs ''/p'', rh_symlink = posix_create_symlink ''/p'', rh_std = posix_std, rh_fenv = sample_fenv,
     rh_env = sample_env, rh_menv = one_menv, rh_json = text_json, rh_as_bool = (\<lambda>_. None), rh_null = [],
     rh_order = (\<lambda>n. [0..<n]), rh_arrival = (\<lambda>n. rev [0..<n]), rh_depth = 9\<rparr>"

lemma one_host_local: "on_local ''/'' ''/p'' one_host = one_host"
  by (simp add: on_local_def one_host_def)

lemma one_manifest_ok: "manifest_supported sample_env one_menv one_manifest"
proof -
  have "one_line ''{size:2}''"
    by (rule plain_line_text) (simp add: plain_char_def char_code_def)
  moreover have "label_ok ''base''" "label_ok ''base/f''"
    by ((rule plain_label; (rule refl)?; simp add: plain_char_def char_code_def))+
  ultimately show ?thesis
    by (simp add: manifest_supported_def one_manifest_def sample_manifest_def quoted_ok plain_char_def char_code_def i64_ok_def keys_ok_def
        file_ok_def one_menv_def one_file_def sample_skeleton_def)
qed

lemma one_manifest_read:
  "manifest_from_bytes_keyed sample_env one_menv (manifest_to_text sample_env one_menv one_manifest) None = Ok one_manifest"
proof -
  obtain b where b: "manifest_to_bytes_keyed sample_env one_menv one_manifest None = Ok b" "b = manifest_to_text sample_env one_menv one_manifest"
    by (simp add: manifest_to_bytes_keyed_def encode_maybe_encrypted_def)
  have "to_bytes_keyed sample_env (\<lambda>m _. manifest_to_file sample_env one_menv m) one_manifest None None = Ok b"
    using b(1) by (simp add: manifest_to_bytes_keyed_def to_bytes_keyed_def manifest_to_text_def)
  then have "from_bytes_keyed sample_env (manifest_from_file sample_env one_menv) b None = Ok (one_manifest, None)"
    using manifest_codec.bytes_roundtrip [of sample_env one_menv one_manifest None None b] one_manifest_ok by simp
  then have "manifest_from_bytes_keyed sample_env one_menv b None = Ok one_manifest"
    by (auto simp: manifest_from_bytes_keyed_def from_bytes_keyed_def manifest_from_text_def info_from_text_def Let_def
        rbind_def map_err_def split: sum.splits)
  then show ?thesis using b(2) by simp
qed

lemma two_fulls_read: "from_bytes_keyed sample_env (backup_from_file sample_env) two_fulls_text None = Ok (two_fulls, None)"
proof -
  have "to_bytes_keyed sample_env (backup_to_file sample_env) two_fulls None None = Ok two_fulls_text"
    by (simp add: to_bytes_keyed_def encode_maybe_encrypted_def sample_env_def two_fulls_text_def)
  then show ?thesis using back_codec.bytes_roundtrip [OF two_fulls_ok] by auto
qed

definition one_resolver :: "bool \<Rightarrow> (posix_fs, string) resolver" where
  "one_resolver dry = \<lparr>sr_repo = posix_ops ''/'', sr_dirs = posix_dirs ''/'', sr_stanza = ''m'', sr_config = restore_config dry,
     sr_label = ''B'', sr_transform = restore_transform text_json (\<lambda>_. None) ''full'' (restore_config dry) None,
     sr_manifest = one_manifest, sr_info = two_fulls, sr_sub_key = None, sr_env = sample_env, sr_menv = one_menv,
     sr_json = text_json, sr_as_bool = (\<lambda>_. None)\<rparr>"

lemma restore_options [simp]:
  "active_user_pass (restore_config dry) = Ok None" "\<not> is_encrypted (repo_cipher_type (restore_config dry) n)"
  "requested_set (restore_config dry) = None" "backup_set_target_time (restore_config dry) = None"
  "lc_stanza (restore_config dry) = Some ''m''" "bool_option (restore_config dry) ''dry-run'' = dry"
  "db_list (restore_config dry) ''db-include'' = []"
  by (simp_all add: restore_config_def active_user_pass_def repo_user_pass_def is_encrypted_def repo_cipher_type_def
    repo_string_id_def config_get_def bt_get_def requested_set_def backup_set_target_time_def recovery_type_of_def string_option_def
    bool_option_def db_list_def)

lemma select_B: "select_in text_json [] (restore_config dry) two_fulls = Ok (''B'', ''full'')"
  by (simp add: select_in_def select_auto_def two_fulls_def bt_get_def)

lemma open_sample: "open_backup one_host (restore_config dry) ''m'' restore_disk = (Ok (one_resolver dry), restore_disk)"
proof -
  have places: "components (posix_resolve ''/'' (restore_info_path ''m'')) = [''backup'', ''m'', ''backup.info'']"
    "components (posix_resolve ''/'' (restore_manifest_path ''m'' ''B'')) = [''backup'', ''m'', ''B'', ''backup.manifest'']"
    by code_simp+
  have "so_read (posix_ops ''/'') (restore_info_path ''m'') restore_disk = (Ok two_fulls_text, restore_disk)"
    "so_read (posix_ops ''/'') (restore_manifest_path ''m'' ''B'') restore_disk =
       (Ok (manifest_to_text sample_env one_menv one_manifest), restore_disk)"
    using places by (simp_all add: posix_ops_def posix_read_def Let_def fs_read_file_def fs_lstat_def fs_tick_def restore_disk_def fs_node_at_def act_map_err_def)
  then show ?thesis
    by (simp add: one_host_def open_backup_def select_backup_def load_keyed_def manifest_load_keyed_def read_and_decode_def
      two_fulls_read one_manifest_read act_bind_def act_map_err_def act_lift_def act_ok_def Let_def active_sub_key_def repo_sub_key_def select_B
      one_resolver_def)
qed

definition restored_outcome :: "bool \<Rightarrow> restore_outcome" where
  "restored_outcome dry = \<lparr>ro_label = ''B'', ro_files_restored = 1, ro_files_skipped = 0, ro_files_removed = 0,
     ro_paths_created = 1, ro_links_created = 0, ro_skipped_links = 0, ro_links_as_dir = 0,
     ro_recovery_files_written = [], ro_dry_run = dry\<rparr>"

lemma restored_sample:
  "fst (restore_opened one_host (restore_config False) (one_resolver False) restore_disk) = Ok (restored_outcome False)"
  "fst (restore_opened one_host (restore_config True) (one_resolver True) restore_disk) = Ok (restored_outcome True)"
  by code_simp+

lemma run_sample: "restore_inner one_host (restore_config dry) restore_disk =
    restore_opened one_host (restore_config dry) (one_resolver dry) restore_disk"
  using open_sample by (simp add: restore_inner_def ok_or_def act_bind_def act_lift_def)

section \<open>What a restore leaves alone\<close>

text \<open>C10. A dry run of the restore changes the contents of no file, in the repository, in the data directory or elsewhere,
  whatever the calls of the file system return, and with every configuration that sets the option.
\<close>

theorem restore_dry_run_changes_nothing:
  assumes "bool_option config ''dry-run''"
  shows "fs_view (snd (restore_inner (on_local repo_root pg_root H) config s)) = fs_view s"
proof -
  have "px_restore.pg.untouched {} s (snd (restore_inner (on_local repo_root pg_root H) config s))"
    using px_restore.restore_inner_keeps assms by blast
  then show ?thesis by (auto simp: px_restore.pg.untouched_def)
qed

lemma restore_dry_run_changes_nothing_witness:
  "fst (restore_inner one_host (restore_config True) restore_disk) =
     Ok (restored_outcome True) \<and>
   fs_view (snd (restore_inner one_host (restore_config True) restore_disk)) = fs_view restore_disk"
  using restore_dry_run_changes_nothing [of "restore_config True" "''/''" "''/p''" one_host restore_disk]
  by (simp add: one_host_local run_sample restored_sample)



end
