(* ===== verification/Spec2Isabelle.thy ===== *)
theory Spec2Isabelle
  imports Lsn Label_Date Expire_Archive Info_Save Encode Command_Base Parallel Expire_Posix Config_Props Config_Cli_Props
    Config_Compile_Props Restore_Safety
begin

text \<open>
  A model of pgBackRust, the backup and restore tool for PostgreSQL in \<open>src/crates\<close>, with the theorems that make it
  correct. This theory holds no definitions: it gathers the library.

  \<^bold>\<open>The program.\<close> A command starts from its configuration: the command line, the environment and the files are
  merged against a model of the options that is compiled from YAML (\<open>pgbr-config\<close>). It works on storages
  (\<open>pgbr-storage\<close>): the repository, which holds \<open>backup/<stanza>\<close> with \<open>backup.info\<close>, one directory with a
  \<open>backup.manifest\<close> per backup, and \<open>archive/<stanza>\<close> with \<open>archive.info\<close> and the WAL; and the data directory of
  the cluster. The documents are INI texts with a checksum (\<open>pgbr-info\<close>). A backup copies the files of the cluster
  through a chain of filters (compress, encrypt, hash, count: \<open>pgbr-io\<close>) into objects, bundles or blocks and records
  their places in the manifest; a restore finds and reverses them; \<open>expire\<close> removes backups and WAL that the
  retention does not keep (\<open>pgbr-command\<close>). Copies and removals run on worker threads (\<open>pgbr-protocol\<close>).

  \<^bold>\<open>Conventions.\<close> A \<open>Result\<close> is a sum with the error on the left; a state-passing operation is an \<open>action\<close> from a
  state to a result and a state, so that every error path keeps what was done before it (\<open>Storage\<close>). A \<open>String\<close> and
  a byte buffer are HOL strings of bytes, \<open>BTreeMap\<close> is a key-sorted and \<open>IndexMap\<close> an insertion-ordered
  association list (\<open>Prelude\<close>). Unsigned integers in layouts are words, sizes are naturals with the saturation or
  the bound of their width written out, \<open>i64\<close> are integers that wrap where the code can overflow. What is not in the
  repository is a parameter: SHA-1, AES and the compressors (\<open>filter_env\<close>, \<open>info_env\<close>), JSON values and their text
  (\<open>json_api\<close>, \<open>info_env\<close>, \<open>manifest_env\<close>).

  \<^bold>\<open>The library\<close>, from the bottom:

  \<^item> \<open>Prelude\<close>, \<open>Bytes\<close>, \<open>Utf8\<close>, \<open>Rust_Str\<close>, \<open>Rust_Num\<close>, \<open>Rust_Float\<close>, \<open>Json_Api\<close>: the results and maps of the model,
    and what the source uses of Rust's standard library, \<open>f64\<close> decimals included.
  \<^item> \<open>Lsn\<close>, \<open>Page\<close> (\<open>pgbr-postgres\<close>): LSNs and WAL segment names; the page checksum and the validation of relation
    files. \<open>Encode\<close> (\<open>pgbr-encode\<close>): base64 and hex.
  \<^item> \<open>Config_Types\<close>, \<open>Config_Value\<close>, \<open>Config_Ini\<close>, \<open>Config_Model\<close>, \<open>Config_Cli\<close>, \<open>Config_Merge\<close>, \<open>Config_Compile\<close>
    (\<open>pgbr-config\<close>, a file each): option values, files, the compiled model, command line and environment, the merge,
    the compiler. \<open>Config_Load\<close> follows the passes of the merge key by key; the \<open>Props\<close> theories state precedence,
    required and permitted values, what the tokenizer undoes, and that the order of resolution is topological.
  \<^item> \<open>Storage\<close>, \<open>Posix\<close>, \<open>Posix_Dirs\<close> (\<open>pgbr-storage\<close>): the operations as a record, the locale \<open>storage\<close> with what their
    callers rely on (frames, and what a success means), and the local backend over a file system in which any call
    may fail with a part of its effect done. The backend interprets \<open>storage\<close> and \<open>copy_host\<close>.
  \<^item> \<open>Info_Format\<close>, \<open>Info_Codec\<close>, \<open>Info_Files\<close>, \<open>Info_Save\<close>, \<open>Manifest\<close> (\<open>pgbr-info\<close>): the document and its checksum, the
    locales \<open>info_codec\<close> and \<open>info_store\<close> (round trip; a keyed save leaves a readable file at every point), and
    their interpretations for \<open>archive.info\<close>, \<open>backup.info\<close> and the manifest.
  \<^item> \<open>Parallel\<close> (\<open>pgbr-protocol/src/parallel.rs\<close>): threads over one queue as a step relation. Every run processes
    every job once and ends, and amounts to running the jobs in one order and delivering the results in another. The
    commands therefore take these two orders as parameters.
  \<^item> \<open>Command_Base\<close>, \<open>Label_Date\<close>, \<open>Expire_Retention\<close>, \<open>Expire_Archive\<close>, \<open>Expire_Command\<close>, \<open>Expire_Safety\<close>, \<open>Expire_Posix\<close>
    (\<open>pgbr-command/src/expire.rs\<close>): retention of backups and of WAL as pure functions, the command over a host, what
    it may touch over the contract \<open>expire_host\<close>, and the same on the local backend.
  \<^item> \<open>Filters\<close>, \<open>Pipeline\<close>, \<open>Block\<close>, \<open>Bundle_Copy\<close>, \<open>Bundle_Run\<close> (\<open>pgbr-io\<close>, \<open>pipeline.rs\<close>, \<open>block.rs\<close>, \<open>bundle.rs\<close>,
    \<open>backup.rs\<close>): the chain of filters, the transform of an object and its inverse, and the copy of the planned files
    into bundles and blocks. \<open>Backup_Label\<close>: civil dates, labels, and the prior backup.
  \<^item> \<open>Restore_Source\<close>, \<open>Restore_Plan\<close>, \<open>Restore_Run\<close> (\<open>restore.rs\<close>): where the bytes of a manifest entry are and how a
    file is written and verified; options, the choice of the backup, recovery settings, link targets; and
    \<open>restore_inner\<close> with delta matching, copy jobs, stray files, links, label and recovery files.
  \<^item> \<open>Bundle_Restore\<close>, \<open>Bundle_Restore_Props\<close>: what the bundled copy stores the restore gives back. \<open>Restore_Safety\<close>: a
    restore writes only below the data directory, and a dry run writes nothing (locale \<open>restore_target\<close>, interpreted
    on two roots of one file system).

  \<^bold>\<open>Bounds and fuel.\<close> Directory walks carry a bound on the nesting (\<open>ho_depth\<close>, \<open>rh_depth\<close>), which a real tree never
  exceeds when it is chosen above its depth; the safety theorems hold for every bound. Retries are bounded by the
  option itself. Loops of the source are structural recursions or have a measure; the dependency closure of \<open>expire\<close>
  and the depth-first order of the options are proved to end. Bundles are assumed smaller than \<open>2^63\<close> bytes where
  the manifest reads their offsets as \<open>i64\<close>. Labels are proved to sort by time in the years 0 to 9999.

  \<^bold>\<open>Limits of the file system model.\<close> Symbolic links are not followed, \<open>..\<close> is a name like any other, and times and
  owners are not kept; theorems about places therefore ask for paths without \<open>..\<close>.

  \<^bold>\<open>Not modelled.\<close> The plan of a backup and its start and stop on the server (\<open>backup.rs\<close>, \<open>backup_control.rs\<close>: calls
  of the database); \<open>archive-push\<close> and \<open>archive-get\<close> (spool directories and worker processes); the commands that
  report (\<open>info\<close>, \<open>check\<close>, \<open>verify\<close>, \<open>stanza\<close>, \<open>server\<close>, \<open>help\<close>); the object stores, SFTP and the remote protocol (third
  party clients and sockets); codecs and ciphers (third party); memory contexts, logging and the front end; log lines
  and lock files around the modelled commands.
\<close>

end
